(* ===== verification/Transition.thy ===== *)
theory Transition
  imports Main "HOL-Library.Multiset"
begin

text \<open>
  Reachable states of a step relation and the rule that a property which holds initially and
  is kept by every step holds in all of them. The concurrent components instantiate the locale
  with their own initial state, step relation and invariant. A system that also has a measure which
  every step lowers, and a step in every state that is not over, comes to its end from everywhere.
\<close>

inductive reach :: "('s \<Rightarrow> bool) \<Rightarrow> ('s \<Rightarrow> 's \<Rightarrow> bool) \<Rightarrow> 's \<Rightarrow> bool"
  for I :: "'s \<Rightarrow> bool" and R :: "'s \<Rightarrow> 's \<Rightarrow> bool" where
  reach_init: "I s \<Longrightarrow> reach I R s"
| reach_step: "reach I R s \<Longrightarrow> R s t \<Longrightarrow> reach I R t"

locale invariant_system =
  fixes init :: "'s \<Rightarrow> bool"
    and step :: "'s \<Rightarrow> 's \<Rightarrow> bool"
    and inv :: "'s \<Rightarrow> bool"
  assumes inv_init: "init s \<Longrightarrow> inv s"
    and inv_step: "inv s \<Longrightarrow> step s t \<Longrightarrow> inv t"
begin

lemma reach_inv: "reach init step s \<Longrightarrow> inv s"
  by (induction rule: reach.induct) (auto intro: inv_init inv_step)

lemma reach_trans: "reach init step s \<Longrightarrow> step\<^sup>*\<^sup>* s t \<Longrightarrow> reach init step t"
  by (rotate_tac, induction rule: rtranclp_induct) (auto intro: reach_step)

lemma steps_inv: "inv s \<Longrightarrow> step\<^sup>*\<^sup>* s t \<Longrightarrow> inv t"
  by (rotate_tac, induction rule: rtranclp_induct) (auto intro: inv_step)

end

locale ending_system = invariant_system init step inv
  for init :: "'s \<Rightarrow> bool" and step :: "'s \<Rightarrow> 's \<Rightarrow> bool" and inv :: "'s \<Rightarrow> bool" +
  fixes left :: "'s \<Rightarrow> nat" and over :: "'s \<Rightarrow> bool"
  assumes left_step: "step s t \<Longrightarrow> left t < left s"
    and not_stuck: "inv s \<Longrightarrow> \<not> over s \<Longrightarrow> \<exists>t. step s t"
begin

lemma inv_ends: "inv s \<Longrightarrow> \<exists>t. step\<^sup>*\<^sup>* s t \<and> over t"
proof (induction "left s" arbitrary: s rule: less_induct)
  case less
  show ?case
  proof (cases "over s")
    case False
    then obtain t where t: "step s t" using not_stuck less.prems by blast
    then show ?thesis
      using less.hyps [OF left_step [OF t] inv_step [OF less.prems t]] by (meson converse_rtranclp_into_rtranclp)
  qed blast
qed

lemma reach_ends: "reach init step s \<Longrightarrow> (\<not> over s \<longrightarrow> (\<exists>t. step s t)) \<and> (\<exists>t. step\<^sup>*\<^sup>* s t \<and> over t)"
  using reach_inv not_stuck inv_ends by blast

end

section \<open>The members of a pool\<close>

text \<open>What is counted over a list of goroutines when one of them moves on.\<close>

lemma concat_map_update:
  "w < length ws \<Longrightarrow>
   mset (concat (map f (ws[w := x]))) + mset (f (ws ! w)) = mset (concat (map f ws)) + mset (f x)"
proof (induction ws arbitrary: w)
  case (Cons y ws)
  show ?case
  proof (cases w)
    case (Suc k)
    then show ?thesis using Cons.IH [of k] Cons.prems by (simp add: add.assoc)
  qed (simp add: ac_simps)
qed simp

lemma sum_map_update:
  "w < length ws \<Longrightarrow> sum_list (map f (ws[w := x])) + f (ws ! w) = sum_list (map f ws) + (f x :: nat)"
proof (induction ws arbitrary: w)
  case (Cons y ws)
  then show ?case by (cases w) (auto simp: add.assoc)
qed simp

end
