(* ===== verification/KeyedMutex.thy ===== *)
theory KeyedMutex
  imports Transition
begin

text \<open>
  Package keyedmutex (src/keyedmutex/keyedmutex.go): a mutex per key with reference counted
  rows. One call of Lock together with the unlock function it returns is a call \<open>c\<close>; its
  position in the code is its \<open>pc\<close>. The critical sections under \<open>m.mu\<close> are atomic, as the Go
  mutex makes them; acquiring and releasing an entry's own mutex are separate steps, so every
  interleaving of calls is a run of \<open>km_step\<close>. The invariant \<open>km_inv\<close> says that the table row of a
  key, its reference count and the calls that refer to it agree; from it follow mutual exclusion
  per key, that a row lives exactly as long as some call needs it, and that no call is stuck.
\<close>

type_synonym call = nat
type_synonym eid = nat

text \<open>
  \<open>Fresh\<close>: Lock not called yet. \<open>Waiting\<close>: the reference is taken and \<open>e.mu.Lock()\<close> blocks.
  \<open>Holding\<close>: Lock has returned. \<open>Unlocking\<close>: unlock has set \<open>released\<close>. \<open>Releasing\<close>: \<open>e.mu\<close> is
  unlocked, the count not yet decremented. \<open>Finished\<close>: unlock has returned.
\<close>

datatype 'k pc =
    Fresh
  | Waiting 'k eid
  | Holding 'k eid
  | Unlocking 'k eid
  | Releasing 'k eid
  | Finished

record 'k Mutex =
  locks :: "'k \<rightharpoonup> eid"
  refs :: "eid \<Rightarrow> nat"
  emu :: "eid \<Rightarrow> call option"
  next_eid :: eid
  pcs :: "call \<Rightarrow> 'k pc"

definition km_init :: "'k Mutex" where
  "km_init = \<lparr>locks = Map.empty, refs = (\<lambda>_. 0), emu = (\<lambda>_. None), next_eid = 0,
              pcs = (\<lambda>_. Fresh)\<rparr>"

text \<open>The first critical section of Lock: find or create the entry and take a reference.\<close>

definition Lock_enter :: "'k Mutex \<Rightarrow> call \<Rightarrow> 'k \<Rightarrow> 'k Mutex" where
  "Lock_enter m c k =
     (let (e, m1) =
        (case locks m k of
           Some e \<Rightarrow> (e, m)
         | None \<Rightarrow> (next_eid m,
             m\<lparr>locks := (locks m)(k \<mapsto> next_eid m), refs := (refs m)(next_eid m := 0),
               emu := (emu m)(next_eid m := None), next_eid := Suc (next_eid m)\<rparr>))
      in m1\<lparr>refs := (refs m1)(e := Suc (refs m1 e)), pcs := (pcs m1)(c := Waiting k e)\<rparr>)"

definition Lock_acquire :: "'k Mutex \<Rightarrow> call \<Rightarrow> 'k \<Rightarrow> eid \<Rightarrow> 'k Mutex" where
  "Lock_acquire m c k e = m\<lparr>emu := (emu m)(e \<mapsto> c), pcs := (pcs m)(c := Holding k e)\<rparr>"

text \<open>
  The unlock function. \<open>unlock_cas\<close> is the compare-and-swap on \<open>released\<close>: \<open>None\<close> is the panic
  of a second call, and also stands for a call whose Lock has not returned, which has no unlock
  function yet.
\<close>

definition unlock_cas :: "'k Mutex \<Rightarrow> call \<Rightarrow> 'k Mutex option" where
  "unlock_cas m c =
     (case pcs m c of
        Holding k e \<Rightarrow> Some (m\<lparr>pcs := (pcs m)(c := Unlocking k e)\<rparr>)
      | _ \<Rightarrow> None)"

definition unlock_mu :: "'k Mutex \<Rightarrow> call \<Rightarrow> 'k \<Rightarrow> eid \<Rightarrow> 'k Mutex" where
  "unlock_mu m c k e = m\<lparr>emu := (emu m)(e := None), pcs := (pcs m)(c := Releasing k e)\<rparr>"

definition unlock_release :: "'k Mutex \<Rightarrow> call \<Rightarrow> 'k \<Rightarrow> eid \<Rightarrow> 'k Mutex" where
  "unlock_release m c k e =
     (let m1 = m\<lparr>refs := (refs m)(e := refs m e - 1)\<rparr>;
          m2 = (if refs m1 e = 0 then m1\<lparr>locks := (locks m1)(k := None)\<rparr> else m1)
      in m2\<lparr>pcs := (pcs m2)(c := Finished)\<rparr>)"

definition Len :: "'k Mutex \<Rightarrow> nat" where
  "Len m = card (dom (locks m))"

inductive km_step :: "'k Mutex \<Rightarrow> 'k Mutex \<Rightarrow> bool" where
  enter: "pcs m c = Fresh \<Longrightarrow> km_step m (Lock_enter m c k)"
| acquire: "pcs m c = Waiting k e \<Longrightarrow> emu m e = None \<Longrightarrow> km_step m (Lock_acquire m c k e)"
| cas: "unlock_cas m c = Some m' \<Longrightarrow> km_step m m'"
| unlock: "pcs m c = Unlocking k e \<Longrightarrow> km_step m (unlock_mu m c k e)"
| release: "pcs m c = Releasing k e \<Longrightarrow> km_step m (unlock_release m c k e)"

section \<open>The invariant\<close>

definition refers :: "'k pc \<Rightarrow> ('k \<times> eid) option" where
  "refers p =
     (case p of Waiting k e \<Rightarrow> Some (k, e) | Holding k e \<Rightarrow> Some (k, e)
      | Unlocking k e \<Rightarrow> Some (k, e) | Releasing k e \<Rightarrow> Some (k, e) | _ \<Rightarrow> None)"

definition key_of :: "'k pc \<Rightarrow> 'k option" where
  "key_of p = map_option fst (refers p)"

definition owns :: "'k pc \<Rightarrow> eid \<Rightarrow> bool" where
  "owns p e = (\<exists>k. p = Holding k e \<or> p = Unlocking k e)"

definition users :: "'k Mutex \<Rightarrow> eid \<Rightarrow> call set" where
  "users m e = {c. \<exists>k. refers (pcs m c) = Some (k, e)}"

definition km_inv :: "'k Mutex \<Rightarrow> bool" where
  "km_inv m \<longleftrightarrow>
     finite {c. pcs m c \<noteq> Fresh}
     \<and> (\<forall>c k e. refers (pcs m c) = Some (k, e) \<longrightarrow> locks m k = Some e)
     \<and> (\<forall>k e. locks m k = Some e \<longrightarrow> e < next_eid m \<and> refs m e = card (users m e) \<and> users m e \<noteq> {})
     \<and> (\<forall>k k' e. locks m k = Some e \<and> locks m k' = Some e \<longrightarrow> k = k')
     \<and> (\<forall>e c. emu m e = Some c \<longleftrightarrow> owns (pcs m c) e)"

lemmas pc_defs = refers_def owns_def

lemma refers_simps [simp]:
  "refers Fresh = None" "refers Finished = None" "refers (Waiting k e) = Some (k, e)"
  "refers (Holding k e) = Some (k, e)" "refers (Unlocking k e) = Some (k, e)"
  "refers (Releasing k e) = Some (k, e)"
  by (simp_all add: refers_def)

lemma owns_simps [simp]:
  "\<not> owns Fresh e" "\<not> owns Finished e" "\<not> owns (Waiting k e') e" "\<not> owns (Releasing k e') e"
  "owns (Holding k e') e \<longleftrightarrow> e' = e" "owns (Unlocking k e') e \<longleftrightarrow> e' = e"
  by (auto simp: owns_def)

lemma km_invD:
  assumes "km_inv m"
  shows "finite {c. pcs m c \<noteq> Fresh}"
    and "refers (pcs m c) = Some (k, e) \<Longrightarrow> locks m k = Some e"
    and "locks m k = Some e \<Longrightarrow> e < next_eid m"
    and "locks m k = Some e \<Longrightarrow> refs m e = card (users m e)"
    and "locks m k = Some e \<Longrightarrow> users m e \<noteq> {}"
    and "locks m k = Some e \<Longrightarrow> locks m k' = Some e \<Longrightarrow> k = k'"
    and "emu m e = Some c \<longleftrightarrow> owns (pcs m c) e"
  using assms unfolding km_inv_def by blast+

lemma finite_users: "km_inv m \<Longrightarrow> finite (users m e)"
  by (rule finite_subset [OF _ km_invD(1)]) (auto simp: users_def)

lemma owns_refers: "owns p e \<Longrightarrow> \<exists>k. refers p = Some (k, e)"
  by (auto simp: owns_def)

text \<open>A step that leaves every call's entry as it is only has to keep the last clause.\<close>

lemma km_inv_same_refers:
  assumes inv: "km_inv m"
    and "locks m' = locks m" "refs m' = refs m" "next_eid m' = next_eid m"
    and pcs': "pcs m' = (pcs m)(c := p)" "refers p = refers (pcs m c)" "p \<noteq> Fresh"
    and emu': "\<And>e c. emu m' e = Some c \<longleftrightarrow> owns (pcs m' c) e"
  shows "km_inv m'"
proof -
  have "{x. pcs m' x \<noteq> Fresh} \<subseteq> insert c {x. pcs m x \<noteq> Fresh}" by (auto simp: pcs')
  then have "finite {x. pcs m' x \<noteq> Fresh}"
    using km_invD(1) [OF inv] by (simp add: finite_subset)
  moreover have "refers (pcs m' x) = refers (pcs m x)" for x by (simp add: pcs')
  moreover from this have "users m' e = users m e" for e by (simp add: users_def)
  ultimately show ?thesis
    using inv assms(2-4) emu' unfolding km_inv_def by (simp only:) blast
qed

lemma km_inv_acquire:
  assumes "km_inv m" "pcs m c = Waiting k e" "emu m e = None"
  shows "km_inv (Lock_acquire m c k e)"
proof (rule km_inv_same_refers [OF assms(1), where c = c and p = "Holding k e"])
  fix e' c'
  show "emu (Lock_acquire m c k e) e' = Some c' \<longleftrightarrow> owns (pcs (Lock_acquire m c k e) c') e'"
    using km_invD(7) [OF assms(1), of e' c'] assms(2,3) by (auto simp: Lock_acquire_def)
qed (use assms in \<open>simp_all add: Lock_acquire_def\<close>)

lemma km_inv_cas:
  assumes "km_inv m" "unlock_cas m c = Some m'"
  shows "km_inv m'"
proof -
  from assms(2) obtain k e where pc: "pcs m c = Holding k e"
    and m': "m' = m\<lparr>pcs := (pcs m)(c := Unlocking k e)\<rparr>"
    by (auto simp: unlock_cas_def split: pc.splits)
  show ?thesis
  proof (rule km_inv_same_refers [OF assms(1), where c = c and p = "Unlocking k e"])
    fix e' c'
    show "emu m' e' = Some c' \<longleftrightarrow> owns (pcs m' c') e'"
      using km_invD(7) [OF assms(1), of e' c'] pc by (auto simp: m')
  qed (simp_all add: m' pc)
qed

lemma km_inv_unlock:
  assumes "km_inv m" "pcs m c = Unlocking k e"
  shows "km_inv (unlock_mu m c k e)"
proof (rule km_inv_same_refers [OF assms(1), where c = c and p = "Releasing k e"])
  fix e' c'
  have "emu m e = Some c" using km_invD(7) [OF assms(1), of e c] assms(2) by simp
  then show "emu (unlock_mu m c k e) e' = Some c' \<longleftrightarrow> owns (pcs (unlock_mu m c k e) c') e'"
    using km_invD(7) [OF assms(1), of e' c'] assms(2) by (auto simp: unlock_mu_def)
qed (use assms in \<open>simp_all add: unlock_mu_def\<close>)

lemma km_inv_enter:
  assumes inv: "km_inv m" and c: "pcs m c = Fresh"
  shows "km_inv (Lock_enter m c k)"
proof -
  let ?m = "Lock_enter m c k"
  define e where "e = (case locks m k of Some e \<Rightarrow> e | None \<Rightarrow> next_eid m)"
  have pcs': "pcs ?m = (pcs m)(c := Waiting k e)" and locks': "locks ?m = (locks m)(k \<mapsto> e)"
    by (auto simp: Lock_enter_def Let_def e_def split: option.splits)
  have users': "users ?m x = (if x = e then insert c (users m x) else users m x)" for x
    using c by (auto simp: users_def pcs' split: if_splits)
  have c_notin: "c \<notin> users m x" for x using c by (simp add: users_def)
  have old: "users m e = {}" if "locks m k = None"
    using that km_invD(2,3) [OF inv] by (fastforce simp: users_def e_def)
  have fin: "finite (users m x)" for x by (rule finite_users [OF inv])
  have next': "e < next_eid ?m" "next_eid m \<le> next_eid ?m"
    using km_invD(3) [OF inv, of k] by (auto simp: Lock_enter_def Let_def e_def split: option.splits)
  have refs_other: "refs ?m x = refs m x" if "x \<noteq> e" for x
    using that by (auto simp: Lock_enter_def Let_def e_def split: option.splits)
  have refs_e: "refs ?m e = Suc (card (users m e))"
  proof (cases "locks m k")
    case None
    then have "refs ?m e = 1" by (simp add: Lock_enter_def Let_def e_def)
    with old [OF None] show ?thesis by simp
  next
    case (Some x)
    then have "refs ?m e = Suc (refs m e)" by (simp add: Lock_enter_def Let_def e_def)
    with Some km_invD(4) [OF inv, of k x] show ?thesis by (simp add: e_def)
  qed
  have "finite {x. pcs ?m x \<noteq> Fresh}"
    by (rule finite_subset [OF _ finite_insert [THEN iffD2, OF km_invD(1) [OF inv]], of _ c])
       (auto simp: pcs')
  moreover have "refers (pcs ?m x) = Some (k', e') \<Longrightarrow> locks ?m k' = Some e'" for x k' e'
    using km_invD(2) [OF inv, of x k' e'] by (auto simp: pcs' locks' e_def split: if_splits)
  moreover have "e' < next_eid ?m \<and> refs ?m e' = card (users ?m e') \<and> users ?m e' \<noteq> {}"
    if l: "locks ?m k' = Some e'" for k' e'
  proof (cases "e' = e")
    case True
    with next' users' refs_e c_notin fin show ?thesis by simp
  next
    case False
    with l have "locks m k' = Some e'" by (auto simp: locks' split: if_splits)
    with False km_invD(3-5) [OF inv, of k' e'] next' show ?thesis
      by (simp add: refs_other users')
  qed
  moreover have "k1 = k2" if "locks ?m k1 = Some e'" "locks ?m k2 = Some e'" for k1 k2 e'
    using that km_invD(3,6) [OF inv] by (fastforce simp: locks' e_def split: if_splits option.splits)
  moreover have "emu ?m e' = Some c' \<longleftrightarrow> owns (pcs ?m c') e'" for e' c'
  proof -
    have "emu m (next_eid m) = None"
      using km_invD(2,3,7) [OF inv] by (cases "emu m (next_eid m)") (blast dest: owns_refers)+
    then have "emu ?m e' = emu m e'"
      by (auto simp: Lock_enter_def Let_def split: option.splits)
    with km_invD(7) [OF inv, of e' c'] c show ?thesis by (auto simp: pcs')
  qed
  ultimately show ?thesis unfolding km_inv_def by blast
qed

lemma km_inv_release:
  assumes inv: "km_inv m" and c: "pcs m c = Releasing k e"
  shows "km_inv (unlock_release m c k e)"
proof -
  let ?m = "unlock_release m c k e"
  have lk: "locks m k = Some e" using km_invD(2) [OF inv, of c k e] c by simp
  have c_in: "c \<in> users m e" using c by (simp add: users_def)
  have cnt: "refs m e = card (users m e)" and pos: "0 < card (users m e)"
    using km_invD(4) [OF inv lk] c_in finite_users [OF inv, of e] by (auto simp: card_gt_0_iff)
  have pcs': "pcs ?m = (pcs m)(c := Finished)"
    and refs': "refs ?m = (refs m)(e := card (users m e) - 1)"
    and locks': "locks ?m = (if card (users m e) = 1 then (locks m)(k := None) else locks m)"
    and rest: "next_eid ?m = next_eid m" "emu ?m = emu m"
    using cnt pos by (auto simp: unlock_release_def Let_def)
  have users': "users ?m x = (if x = e then users m x - {c} else users m x)" for x
    using c by (auto simp: users_def pcs' split: if_splits)
  have card': "card (users ?m e) = card (users m e) - 1"
    using c_in finite_users [OF inv, of e] by (simp add: users')
  have "finite {x. pcs ?m x \<noteq> Fresh}"
    by (rule finite_subset [OF _ finite_insert [THEN iffD2, OF km_invD(1) [OF inv]], of _ c])
       (auto simp: pcs')
  moreover have "locks ?m k' = Some e'" if r: "refers (pcs ?m x) = Some (k', e')" for x k' e'
  proof -
    from r have "x \<noteq> c" and rx: "refers (pcs m x) = Some (k', e')"
      by (auto simp: pcs' split: if_splits)
    have l: "locks m k' = Some e'" using km_invD(2) [OF inv rx] .
    have "k' \<noteq> k" if "card (users m e) = 1"
    proof
      assume "k' = k"
      with l lk rx have "x \<in> users m e" by (auto simp: users_def)
      with that \<open>x \<noteq> c\<close> c_in show False by (auto simp: card_1_singleton_iff)
    qed
    with l show ?thesis by (auto simp: locks')
  qed
  moreover have "e' < next_eid ?m \<and> refs ?m e' = card (users ?m e') \<and> users ?m e' \<noteq> {}"
    if l: "locks ?m k' = Some e'" for k' e'
  proof (cases "e' = e")
    case True
    with l lk have "card (users m e) \<noteq> 1"
      using km_invD(6) [OF inv, of k e k'] by (auto simp: locks' split: if_splits)
    with pos card' have "card (users ?m e) > 0" by simp
    then have "users ?m e \<noteq> {}" by (simp add: card_gt_0_iff)
    with True card' km_invD(3) [OF inv lk] show ?thesis by (simp add: refs' rest)
  next
    case False
    with l have "locks m k' = Some e'" by (auto simp: locks' split: if_splits)
    with False km_invD(3-5) [OF inv, of k' e'] show ?thesis by (simp add: refs' rest users')
  qed
  moreover have "k1 = k2" if "locks ?m k1 = Some e'" "locks ?m k2 = Some e'" for k1 k2 e'
    using that km_invD(6) [OF inv, of k1 e' k2] by (auto simp: locks' split: if_splits)
  moreover have "emu ?m e' = Some c' \<longleftrightarrow> owns (pcs ?m c') e'" for e' c'
    using km_invD(7) [OF inv, of e' c'] c by (auto simp: rest pcs')
  ultimately show ?thesis unfolding km_inv_def by blast
qed

interpretation km: invariant_system "\<lambda>m. m = km_init" km_step km_inv
proof
  show "m = km_init \<Longrightarrow> km_inv m" for m :: "'k Mutex"
    by (simp add: km_inv_def km_init_def users_def)
  show "km_inv m \<Longrightarrow> km_step m m' \<Longrightarrow> km_inv m'" for m m' :: "'k Mutex"
    by (erule km_step.cases)
       (auto intro: km_inv_enter km_inv_acquire km_inv_cas km_inv_unlock km_inv_release)
qed

abbreviation km_reachable :: "'k Mutex \<Rightarrow> bool" where
  "km_reachable \<equiv> reach (\<lambda>m. m = km_init) km_step"

section \<open>What the invariant gives\<close>

text \<open>
  (C22) Mutual exclusion. In every reachable state at most one call for a key is between the
  return of Lock and its unlock of the entry's mutex, whatever the interleaving, including runs
  in which the row of the key was dropped and created again in between.
\<close>

theorem mutual_exclusion:
  assumes "km_reachable m" "pcs m c = Holding k e" "pcs m c' = Holding k e'"
  shows "c = c'"
proof -
  have inv: "km_inv m" using assms(1) by (rule km.reach_inv)
  have "locks m k = Some e" "locks m k = Some e'"
    using km_invD(2) [OF inv] assms(2,3) by (metis refers_simps(4))+
  then have "e = e'" by simp
  then show ?thesis using km_invD(7) [OF inv] assms(2,3) by (metis option.inject owns_simps(5))
qed

lemma dom_locks: "km_inv m \<Longrightarrow> dom (locks m) = {k. \<exists>c. key_of (pcs m c) = Some k}"
proof (intro equalityI subsetI)
  fix k assume inv: "km_inv m" and "k \<in> dom (locks m)"
  then obtain e where l: "locks m k = Some e" by auto
  with km_invD(5) [OF inv] obtain c k' where r: "refers (pcs m c) = Some (k', e)"
    unfolding users_def by blast
  with km_invD(2,6) [OF inv] l have "k' = k" by blast
  with r show "k \<in> {k. \<exists>c. key_of (pcs m c) = Some k}" by (auto simp: key_of_def)
qed (auto simp: key_of_def dest: km_invD(2))

text \<open>
  The table holds exactly the keys held or awaited right now: Len counts the distinct keys
  of the calls that have entered Lock and whose unlock has not finished.
\<close>

theorem Len_counts_active_keys:
  assumes "km_reachable m"
  shows "Len m = card {k. \<exists>c. key_of (pcs m c) = Some k}"
  using dom_locks [OF km.reach_inv [OF assms]] by (simp add: Len_def)

text \<open>
  (C23) No call is stuck: in every reachable state a call that has entered Lock and not finished
  unlocking is either able to step itself, or waits for an entry whose owner exists, is a call
  for the same key, and holds it by user code (between Lock and unlock) or can itself step.
\<close>

theorem no_deadlock:
  assumes "km_reachable m" "refers (pcs m c) = Some (k, e)"
  shows "(\<exists>m'. km_step m m' \<and> pcs m' c \<noteq> pcs m c)
         \<or> (\<exists>c'. c' \<noteq> c \<and> emu m e = Some c' \<and> key_of (pcs m c') = Some k
                \<and> (\<exists>m'. km_step m m' \<and> pcs m' c' \<noteq> pcs m c'))"
proof -
  have inv: "km_inv m" using assms(1) by (rule km.reach_inv)
  have own: "\<exists>m'. km_step m m' \<and> pcs m' x \<noteq> pcs m x"
    if "\<And>k e. pcs m x \<noteq> Waiting k e" "refers (pcs m x) = Some (k', e')" for x k' e'
  proof (cases "pcs m x")
    case (Holding j f)
    then show ?thesis using km_step.cas [of m x] by (fastforce simp: unlock_cas_def)
  next
    case (Unlocking j f)
    then show ?thesis using km_step.unlock [OF Unlocking] by (fastforce simp: unlock_mu_def)
  next
    case (Releasing j f)
    then show ?thesis
      using km_step.release [OF Releasing] by (fastforce simp: unlock_release_def Let_def)
  qed (use that in auto)
  show ?thesis
  proof (cases "\<exists>k e. pcs m c = Waiting k e")
    case False
    with own [of c k e] assms(2) show ?thesis by blast
  next
    case True
    with assms(2) have w: "pcs m c = Waiting k e" by auto
    show ?thesis
    proof (cases "emu m e")
      case None
      from km_step.acquire [OF w None] w show ?thesis by (fastforce simp: Lock_acquire_def)
    next
      case (Some c')
      then have o: "owns (pcs m c') e" using km_invD(7) [OF inv] by blast
      then obtain k' where r: "refers (pcs m c') = Some (k', e)" using owns_refers by blast
      have "k' = k" using km_invD(2,6) [OF inv] r assms(2) by blast
      moreover have "c' \<noteq> c" using o w by auto
      moreover have "\<exists>m'. km_step m m' \<and> pcs m' c' \<noteq> pcs m c'"
        using o r own [of c' k' e] by (auto simp: owns_def)
      ultimately show ?thesis using Some r by (auto simp: key_of_def)
    qed
  qed
qed

text \<open>
  The unlock function works once: after the call's own compare-and-swap, in whatever state
  any number of steps of other calls and of its own lead to, calling it again panics (\<open>None\<close>).
\<close>

theorem second_unlock_panics:
  assumes "unlock_cas m c = Some m1" "km_step\<^sup>*\<^sup>* m1 m2"
  shows "unlock_cas m2 c = None"
proof -
  define past where "past m \<longleftrightarrow> (case pcs m c of Unlocking _ _ \<Rightarrow> True | Releasing _ _ \<Rightarrow> True
                                     | Finished \<Rightarrow> True | _ \<Rightarrow> False)" for m :: "'a Mutex"
  have step: "past b" if "km_step a b" "past a" for a b
    using that by (cases rule: km_step.cases)
      (auto simp: past_def Lock_enter_def Lock_acquire_def unlock_cas_def unlock_mu_def
         unlock_release_def Let_def split: pc.splits option.splits if_splits)
  have "past m1" using assms(1) by (auto simp: past_def unlock_cas_def split: pc.splits)
  with assms(2) have "past m2" by (induction rule: rtranclp_induct) (auto intro: step)
  then show ?thesis by (auto simp: past_def unlock_cas_def split: pc.splits)
qed

section \<open>A concrete run\<close>

text \<open>Call 0 takes key a; call 1 enters Lock for the same key and waits.\<close>

definition km_demo :: "string Mutex" where
  "km_demo = Lock_enter (Lock_acquire (Lock_enter km_init 0 ''a'') 0 ''a'' 0) 1 ''a''"

lemmas km_run_defs =
  km_init_def Lock_enter_def Lock_acquire_def unlock_cas_def unlock_mu_def unlock_release_def Let_def

lemma km_demo_pcs: "pcs km_demo 0 = Holding ''a'' 0" "pcs km_demo 1 = Waiting ''a'' 0"
  by (simp_all add: km_demo_def km_run_defs)

lemma km_demo_reachable: "km_reachable km_demo"
proof -
  let ?m1 = "Lock_enter km_init 0 ''a''" and ?m2 = "Lock_acquire (Lock_enter km_init 0 ''a'') 0 ''a'' 0"
  have r0: "km_reachable (km_init :: string Mutex)" by (rule reach_init) (rule refl)
  have r1: "km_reachable ?m1"
    by (rule reach_step [OF r0]) (rule km_step.enter, simp add: km_run_defs)
  have r2: "km_reachable ?m2"
    by (rule reach_step [OF r1]) (rule km_step.acquire, simp_all add: km_run_defs)
  show ?thesis
    unfolding km_demo_def by (rule reach_step [OF r2]) (rule km_step.enter, simp add: km_run_defs)
qed

theorem mutual_exclusion_witness:
  "\<exists>!c. c \<in> {0, 1} \<and> pcs km_demo c = Holding ''a'' 0"
  using mutual_exclusion [OF km_demo_reachable km_demo_pcs(1)] km_demo_pcs by auto

theorem Len_counts_active_keys_witness:
  "Len km_demo = card {k. \<exists>c. key_of (pcs km_demo c) = Some k}"
  by (rule Len_counts_active_keys [OF km_demo_reachable])

theorem no_deadlock_witness:
  "emu km_demo 0 = Some 0 \<and> pcs km_demo 1 = Waiting ''a'' 0
   \<and> ((\<exists>m'. km_step km_demo m' \<and> pcs m' 1 \<noteq> pcs km_demo 1)
      \<or> (\<exists>c'. c' \<noteq> 1 \<and> emu km_demo 0 = Some c' \<and> key_of (pcs km_demo c') = Some ''a''
             \<and> (\<exists>m'. km_step km_demo m' \<and> pcs m' c' \<noteq> pcs km_demo c')))"
  using no_deadlock [OF km_demo_reachable, of 1 "''a''" 0] km_demo_pcs
  by (simp add: km_demo_def km_run_defs)

theorem second_unlock_panics_witness:
  "unlock_cas (km_demo\<lparr>pcs := (pcs km_demo)(0 := Unlocking ''a'' 0)\<rparr>) 0 = None"
  by (rule second_unlock_panics [of km_demo])
     (rule rtranclp.rtrancl_refl | simp add: unlock_cas_def km_demo_pcs)+

end
