(* ===== verification/Go_Prelude.thy ===== *)
theory Go_Prelude
  imports Main "HOL-Library.Char_ord" "HOL-Library.List_Lexorder" "HOL-Library.Word"
    "HOL-Library.AList" "HOL-Library.Sublist"
begin

text \<open>
  The vocabulary every component shares: the parts of Go's standard library the sources call
  (packages strings, strconv and the built-in map), as executable functions over \<open>string\<close>. A
  Go string and a Go byte slice are both byte sequences, so both are \<open>string\<close> (a list of
  8-bit characters) and the order \<open><\<close> on them is the bytewise lexicographic one. A Go map is an
  association list with distinct keys, read with \<open>map_of\<close> and written with \<open>AList.update\<close> and
  \<open>AList.delete\<close>. The lemmas below are the ones the components' proofs use: how cutting,
  splitting and joining at a separator undo each other, and the number round trip.
\<close>

type_synonym bytes = string
type_synonym 'a gomap = "(string \<times> 'a) list"

named_theorems go_defs "definitions of the Go library functions"

section \<open>Package strings\<close>

definition HasPrefix :: "string \<Rightarrow> string \<Rightarrow> bool" where
  [go_defs]: "HasPrefix s p = (take (length p) s = p)"

definition HasSuffix :: "string \<Rightarrow> string \<Rightarrow> bool" where
  [go_defs]: "HasSuffix s p = (length p \<le> length s \<and> drop (length s - length p) s = p)"

definition CutPrefix :: "string \<Rightarrow> string \<Rightarrow> string option" where
  [go_defs]: "CutPrefix s p = (if HasPrefix s p then Some (drop (length p) s) else None)"

definition TrimPrefix :: "string \<Rightarrow> string \<Rightarrow> string" where
  [go_defs]: "TrimPrefix s p = (if HasPrefix s p then drop (length p) s else s)"

text \<open>\<open>Cut s c\<close> is \<open>strings.Cut\<close> at the first occurrence of a one-byte separator.\<close>

fun Cut :: "string \<Rightarrow> char \<Rightarrow> (string \<times> string) option" where
  "Cut [] c = None"
| "Cut (x # xs) c =
     (if x = c then Some ([], xs)
      else case Cut xs c of None \<Rightarrow> None | Some (a, b) \<Rightarrow> Some (x # a, b))"

text \<open>\<open>IndexByte\<close> and \<open>LastIndexByte\<close> return \<open>None\<close> where Go returns -1.\<close>

fun IndexByte :: "string \<Rightarrow> char \<Rightarrow> nat option" where
  "IndexByte [] c = None"
| "IndexByte (x # xs) c = (if x = c then Some 0 else map_option Suc (IndexByte xs c))"

fun LastIndexByte :: "string \<Rightarrow> char \<Rightarrow> nat option" where
  "LastIndexByte [] c = None"
| "LastIndexByte (x # xs) c =
     (case LastIndexByte xs c of
        Some i \<Rightarrow> Some (Suc i)
      | None \<Rightarrow> (if x = c then Some 0 else None))"

text \<open>\<open>Split s c\<close> is \<open>strings.Split\<close> with a one-byte separator; it never returns an empty list.\<close>

fun Split :: "string \<Rightarrow> char \<Rightarrow> string list" where
  "Split [] c = [[]]"
| "Split (x # xs) c =
     (if x = c then [] # Split xs c
      else (x # hd (Split xs c)) # tl (Split xs c))"

fun Join :: "string list \<Rightarrow> string \<Rightarrow> string" where
  "Join [] sep = []"
| "Join [x] sep = x"
| "Join (x # y # ys) sep = x @ sep @ Join (y # ys) sep"

definition ContainsByte :: "string \<Rightarrow> char \<Rightarrow> bool" where
  [go_defs]: "ContainsByte s c = (c \<in> set s)"

text \<open>
  \<open>strings.TrimSpace\<close> removes Unicode white space at both ends: the six ASCII bytes and the
  UTF-8 encodings of U+0085, U+00A0, U+1680, U+2000 to U+200A, U+2028, U+2029, U+202F, U+205F
  and U+3000. No encoding is part of another one, so matching them as byte strings from either
  end is what the rune-wise loop does.
\<close>

definition space_seqs :: "string list" where
  "space_seqs =
     map (\<lambda>n. [char_of (n::nat)]) [9, 10, 11, 12, 13, 32]
     @ map (map (char_of :: nat \<Rightarrow> char))
         ([[194, 133], [194, 160], [225, 154, 128]]
          @ map (\<lambda>n. [226, 128, n]) [128, 129, 130, 131, 132, 133, 134, 135, 136, 137, 138]
          @ [[226, 128, 168], [226, 128, 169], [226, 128, 175], [226, 129, 159],
             [227, 128, 128]])"

function trim_seqs :: "string list \<Rightarrow> string \<Rightarrow> string" where
  "trim_seqs seqs s =
     (case find (\<lambda>p. p \<noteq> [] \<and> HasPrefix s p) seqs of
        None \<Rightarrow> s
      | Some p \<Rightarrow> trim_seqs seqs (drop (length p) s))"
  by pat_completeness auto
termination
proof (relation "measure (\<lambda>(seqs, s). length s)")
  fix seqs s p
  assume "find (\<lambda>p. p \<noteq> [] \<and> HasPrefix s p) seqs = Some p"
  then have "p \<noteq> []" "HasPrefix s p" by (auto simp: find_Some_iff)
  then have "s \<noteq> []" by (auto simp: HasPrefix_def)
  with \<open>p \<noteq> []\<close> show "((seqs, drop (length p) s), seqs, s) \<in> measure (\<lambda>(seqs, s). length s)"
    by simp
qed simp

declare trim_seqs.simps [simp del]

definition TrimSpace :: "string \<Rightarrow> string" where
  "TrimSpace s = rev (trim_seqs (map rev space_seqs) (rev (trim_seqs space_seqs s)))"

section \<open>Package strconv\<close>

definition is_digit :: "char \<Rightarrow> bool" where
  "is_digit c = (48 \<le> (of_char c :: nat) \<and> (of_char c :: nat) \<le> 57)"

definition digit_val :: "char \<Rightarrow> nat" where
  "digit_val c = of_char c - 48"

fun digits_val :: "nat \<Rightarrow> string \<Rightarrow> nat" where
  "digits_val acc [] = acc"
| "digits_val acc (c # cs) = digits_val (10 * acc + digit_val c) cs"

definition max_int64 :: int where
  "max_int64 = 9223372036854775807"

text \<open>The value a Go int64 expression has when its mathematical value is \<open>x\<close>: two's complement.\<close>

definition i64 :: "int \<Rightarrow> int" where
  "i64 x = (x + 9223372036854775808) mod 18446744073709551616 - 9223372036854775808"

lemma i64_small: "- max_int64 - 1 \<le> x \<Longrightarrow> x \<le> max_int64 \<Longrightarrow> i64 x = x"
  by (simp add: i64_def max_int64_def)

lemma i64_bounds: "- max_int64 - 1 \<le> i64 x" "i64 x \<le> max_int64"
  using pos_mod_bound [of 18446744073709551616 "x + 9223372036854775808"]
  by (simp_all add: i64_def max_int64_def)

lemma i64_add [simp]: "i64 (i64 x + y) = i64 (x + y)"
  by (simp add: i64_def mod_simps algebra_simps)

text \<open>
  \<open>ParseInt s\<close> is \<open>strconv.ParseInt(s, 10, 64)\<close>: an optional sign, at least one decimal digit
  and a value in the 64-bit range; \<open>None\<close> stands for every error.
\<close>

definition ParseInt :: "string \<Rightarrow> int option" where
  "ParseInt s =
     (let (neg, ds) =
        (case s of [] \<Rightarrow> (False, [])
         | c # cs \<Rightarrow> if c = CHR ''-'' then (True, cs)
                    else if c = CHR ''+'' then (False, cs) else (False, s));
        n = int (digits_val 0 ds)
      in if ds = [] \<or> \<not> list_all is_digit ds then None
         else if neg then (if n \<le> max_int64 + 1 then Some (- n) else None)
         else (if n \<le> max_int64 then Some n else None))"

fun format_nat :: "nat \<Rightarrow> string" where
  "format_nat n =
     (if n < 10 then [char_of (48 + n)]
      else format_nat (n div 10) @ [char_of (48 + n mod 10)])"

declare format_nat.simps [simp del]

definition FormatInt :: "int \<Rightarrow> string" where
  "FormatInt i = (if i < 0 then CHR ''-'' # format_nat (nat (- i)) else format_nat (nat i))"

section \<open>Optional values and encodings\<close>

definition opt_list :: "'a option \<Rightarrow> 'a list" where
  "opt_list x = (case x of None \<Rightarrow> [] | Some a \<Rightarrow> [a])"

text \<open>
  The contract between a function that writes a value as a string and the one that reads it
  back: reading undoes writing on valid values, and only written forms of valid values are
  read. The reference names and the platform syntax are instances.
\<close>

locale codec =
  fixes enc :: "'a \<Rightarrow> string"
    and dec :: "string \<Rightarrow> 'a option"
    and valid :: "'a \<Rightarrow> bool"
  assumes dec_enc: "valid x \<Longrightarrow> dec (enc x) = Some x"
    and dec_sound: "dec s = Some x \<Longrightarrow> valid x \<and> enc x = s"
begin

lemma dec_iff: "dec s = Some x \<longleftrightarrow> valid x \<and> enc x = s"
  by (auto simp: dec_enc dest: dec_sound)

lemma enc_inj: "valid x \<Longrightarrow> valid y \<Longrightarrow> enc x = enc y \<Longrightarrow> x = y"
  by (metis dec_enc option.inject)

lemma dec_inj: "dec s = Some x \<Longrightarrow> dec t = Some x \<Longrightarrow> s = t"
  by (auto simp: dec_iff)

lemma dec_fails: "(\<And>x. valid x \<Longrightarrow> enc x \<noteq> s) \<Longrightarrow> dec s = None"
proof (cases "dec s")
  case (Some x)
  assume "\<And>x. valid x \<Longrightarrow> enc x \<noteq> s"
  with dec_sound [OF Some] show ?thesis by blast
qed

end

section \<open>Lemmas\<close>

lemma set_opt_list [simp]: "set (opt_list x) = set_option x"
  by (cases x) (simp_all add: opt_list_def)

subsection \<open>Prefixes\<close>

lemma HasPrefix_iff [simp]: "HasPrefix s p \<longleftrightarrow> prefix p s"
  by (auto simp: HasPrefix_def prefix_def dest: sym) (metis append_take_drop_id)

lemma CutPrefix_Some_iff: "CutPrefix s p = Some r \<longleftrightarrow> s = p @ r"
  by (auto simp: CutPrefix_def prefix_def)

lemma CutPrefix_append [simp]: "CutPrefix (p @ r) p = Some r"
  by (simp add: CutPrefix_Some_iff)

lemma TrimPrefix_append [simp]: "TrimPrefix (p @ r) p = r"
  by (simp add: TrimPrefix_def)

subsection \<open>Cutting at a separator\<close>

lemma Cut_None_iff: "Cut s c = None \<longleftrightarrow> c \<notin> set s"
  by (induction s) (auto split: option.splits)

lemma Cut_SomeD: "Cut s c = Some (a, b) \<Longrightarrow> s = a @ c # b \<and> c \<notin> set a"
  by (induction s arbitrary: a) (auto split: if_splits option.splits)

lemma Cut_append [simp]: "c \<notin> set a \<Longrightarrow> Cut (a @ c # b) c = Some (a, b)"
  by (induction a) auto

lemma Cut_Some_iff: "Cut s c = Some (a, b) \<longleftrightarrow> s = a @ c # b \<and> c \<notin> set a"
  by (auto dest: Cut_SomeD)

lemma IndexByte_None_iff: "IndexByte s c = None \<longleftrightarrow> c \<notin> set s"
  by (induction s) auto

lemma IndexByte_Some_iff:
  "IndexByte s c = Some i \<longleftrightarrow> i < length s \<and> s ! i = c \<and> c \<notin> set (take i s)"
proof (induction s arbitrary: i)
  case (Cons x xs)
  then show ?case by (cases i) auto
qed simp

lemma LastIndexByte_None_iff: "LastIndexByte s c = None \<longleftrightarrow> c \<notin> set s"
  by (induction s) (auto split: option.splits)

lemma LastIndexByte_append [simp]:
  "c \<notin> set b \<Longrightarrow> LastIndexByte (a @ c # b) c = Some (length a)"
  by (induction a) (auto simp: LastIndexByte_None_iff split: option.splits)

lemma LastIndexByte_Some:
  "LastIndexByte s c = Some i \<Longrightarrow> s = take i s @ c # drop (Suc i) s \<and> c \<notin> set (drop (Suc i) s)"
proof (induction s arbitrary: i)
  case (Cons x xs)
  then show ?case
    by (cases i) (auto simp: LastIndexByte_None_iff split: option.splits if_splits)
qed simp

lemma LastIndexByte_less: "LastIndexByte s c = Some i \<Longrightarrow> i < length s"
  by (induction s arbitrary: i) (auto split: option.splits if_splits)

subsection \<open>Splitting and joining\<close>

lemma Split_not_Nil [simp]: "Split s c \<noteq> []"
  by (cases s) auto

lemma Split_no_sep: "c \<notin> set s \<Longrightarrow> Split s c = [s]"
  by (induction s) auto

lemma Split_append [simp]: "c \<notin> set a \<Longrightarrow> Split (a @ c # b) c = a # Split b c"
  by (induction a) auto

lemma Split_parts: "p \<in> set (Split s c) \<Longrightarrow> c \<notin> set p \<and> set p \<subseteq> set s"
proof (induction s arbitrary: p)
  case (Cons x xs)
  obtain q qs where q: "Split xs c = q # qs" by (cases "Split xs c") auto
  from Cons.prems q have "p = [] \<or> p \<in> set (q # qs) \<or> (p = x # q \<and> x \<noteq> c)"
    by (auto split: if_splits)
  moreover have "c \<notin> set r \<and> set r \<subseteq> set xs" if "r \<in> set (q # qs)" for r
    using Cons.IH [of r] that q by simp
  ultimately show ?case by fastforce
qed simp

lemma Join_Split [simp]: "Join (Split s c) [c] = s"
proof (induction s)
  case (Cons x xs)
  obtain q qs where q: "Split xs c = q # qs" by (cases "Split xs c") auto
  with Cons show ?case by (cases qs) auto
qed simp

lemma Split_Join:
  assumes "ps \<noteq> []" "\<forall>p \<in> set ps. c \<notin> set p"
  shows "Split (Join ps [c]) c = ps"
  using assms
proof (induction ps "[c]" rule: Join.induct)
  case (2 x)
  then show ?case by (simp add: Split_no_sep)
qed simp_all

lemma Join_append:
  "ps \<noteq> [] \<Longrightarrow> qs \<noteq> [] \<Longrightarrow> Join (ps @ qs) sep = Join ps sep @ sep @ Join qs sep"
  by (induction ps sep rule: Join.induct) (auto, cases qs, auto)

lemma set_Join_subset: "set (Join ps [c]) \<subseteq> insert c (\<Union> (set ` set ps))"
  by (induction ps "[c]" rule: Join.induct) auto

subsection \<open>Numbers\<close>

lemma is_digit_char_of: "n < 10 \<Longrightarrow> is_digit (char_of (48 + n :: nat))"
  by (simp add: is_digit_def)

lemma digit_val_char_of: "n < 10 \<Longrightarrow> digit_val (char_of (48 + n :: nat)) = n"
  by (simp add: digit_val_def)

lemma digits_val_append: "digits_val acc (xs @ [c]) = 10 * digits_val acc xs + digit_val c"
  by (induction xs arbitrary: acc) auto

lemma format_nat_digits: "list_all is_digit (format_nat n)" "format_nat n \<noteq> []"
  "digits_val 0 (format_nat n) = n"
proof (induction n rule: format_nat.induct)
  case (1 n)
  {
    case 1
    with "1.IH" show ?case
      by (subst format_nat.simps) (auto simp: is_digit_char_of)
  next
    case 2
    show ?case by (subst format_nat.simps) auto
  next
    case 3
    with "1.IH" show ?case
      by (subst format_nat.simps) (auto simp: digits_val_append digit_val_char_of)
  }
qed

lemma digit_not_sign: "is_digit c \<Longrightarrow> c \<noteq> CHR ''-'' \<and> c \<noteq> CHR ''+''"
  by (auto simp: is_digit_def)

lemma ParseInt_FormatInt:
  assumes "0 \<le> i" "i \<le> max_int64"
  shows "ParseInt (FormatInt i) = Some i"
proof -
  obtain c cs where f: "format_nat (nat i) = c # cs"
    using format_nat_digits(2) [of "nat i"] by (cases "format_nat (nat i)") auto
  with format_nat_digits [of "nat i"] have "is_digit c" and all: "list_all is_digit (c # cs)"
    and v: "digits_val 0 (c # cs) = nat i" by auto
  then have "c \<noteq> CHR ''-''" "c \<noteq> CHR ''+''" by (auto dest: digit_not_sign)
  with assms f all v show ?thesis
    by (simp add: ParseInt_def FormatInt_def)
qed

lemma ParseInt_bounds: "ParseInt s = Some i \<Longrightarrow> - max_int64 - 1 \<le> i \<and> i \<le> max_int64"
  by (auto simp: ParseInt_def max_int64_def Let_def split: if_splits list.splits prod.splits)

subsection \<open>Association lists as Go maps\<close>

lemma map_of_update [simp]: "map_of (AList.update k v m) = (map_of m)(k \<mapsto> v)"
  by (rule update_conv')

lemma map_of_delete [simp]: "map_of (AList.delete k m) = (map_of m)(k := None)"
  by (rule delete_conv')

end
