(* ===== verification/Regexp.thy ===== *)
theory Regexp
  imports Go_Prelude
begin

text \<open>
  The fragment of package regexp the sources use: anchored patterns over character classes,
  concatenation, alternation and repetition. \<open>matches\<close> decides a match by derivatives, so it
  runs inside the kernel; \<open>in_lang\<close> is the usual language of a pattern and \<open>matches_iff\<close> says
  that the two agree. \<open>matches_alph\<close> bounds the characters of a matching string by those of the
  pattern, which is how the grammar's separation properties are proved.
\<close>

datatype regexp =
    Never
  | Epsilon
  | Cls "char \<Rightarrow> bool"
  | Seq regexp regexp
  | Alt regexp regexp
  | Star regexp

fun nullable :: "regexp \<Rightarrow> bool" where
  "nullable Never = False"
| "nullable Epsilon = True"
| "nullable (Cls P) = False"
| "nullable (Seq r s) = (nullable r \<and> nullable s)"
| "nullable (Alt r s) = (nullable r \<or> nullable s)"
| "nullable (Star r) = True"

fun deriv :: "char \<Rightarrow> regexp \<Rightarrow> regexp" where
  "deriv c Never = Never"
| "deriv c Epsilon = Never"
| "deriv c (Cls P) = (if P c then Epsilon else Never)"
| "deriv c (Seq r s) =
     (if nullable r then Alt (Seq (deriv c r) s) (deriv c s) else Seq (deriv c r) s)"
| "deriv c (Alt r s) = Alt (deriv c r) (deriv c s)"
| "deriv c (Star r) = Seq (deriv c r) (Star r)"

text \<open>\<open>matches r s\<close> is \<open>MatchString\<close> of the pattern \<open>^r$\<close>.\<close>

fun matches :: "regexp \<Rightarrow> string \<Rightarrow> bool" where
  "matches r [] = nullable r"
| "matches r (c # cs) = matches (deriv c r) cs"

definition Plus :: "regexp \<Rightarrow> regexp" where
  "Plus r = Seq r (Star r)"

fun Repeat :: "nat \<Rightarrow> regexp \<Rightarrow> regexp" where
  "Repeat 0 r = Epsilon"
| "Repeat (Suc n) r = Seq r (Repeat n r)"

fun Upto :: "nat \<Rightarrow> regexp \<Rightarrow> regexp" where
  "Upto 0 r = Epsilon"
| "Upto (Suc n) r = Alt Epsilon (Seq r (Upto n r))"

definition chr :: "char \<Rightarrow> regexp" where
  "chr c = Cls (\<lambda>x. x = c)"

definition in_range :: "char \<Rightarrow> char \<Rightarrow> char \<Rightarrow> bool" where
  "in_range lo hi c = (lo \<le> c \<and> c \<le> hi)"

fun alph :: "regexp \<Rightarrow> char \<Rightarrow> bool" where
  "alph Never c = False"
| "alph Epsilon c = False"
| "alph (Cls P) c = P c"
| "alph (Seq r s) c = (alph r c \<or> alph s c)"
| "alph (Alt r s) c = (alph r c \<or> alph s c)"
| "alph (Star r) c = alph r c"

inductive in_lang :: "regexp \<Rightarrow> string \<Rightarrow> bool" where
  eps: "in_lang Epsilon []"
| cls: "P c \<Longrightarrow> in_lang (Cls P) [c]"
| seq: "in_lang r u \<Longrightarrow> in_lang s v \<Longrightarrow> in_lang (Seq r s) (u @ v)"
| alt1: "in_lang r u \<Longrightarrow> in_lang (Alt r s) u"
| alt2: "in_lang s u \<Longrightarrow> in_lang (Alt r s) u"
| star0: "in_lang (Star r) []"
| star1: "in_lang r u \<Longrightarrow> in_lang (Star r) v \<Longrightarrow> in_lang (Star r) (u @ v)"

section \<open>The matcher decides the language\<close>

inductive_cases in_lang_NeverE [elim!]: "in_lang Never s"
inductive_cases in_lang_EpsE [elim!]: "in_lang Epsilon s"
inductive_cases in_lang_ClsE [elim!]: "in_lang (Cls P) s"
inductive_cases in_lang_SeqE: "in_lang (Seq r s) u"
inductive_cases in_lang_AltE: "in_lang (Alt r s) u"

inductive_simps in_lang_simps [simp]:
  "in_lang Never s" "in_lang Epsilon s" "in_lang (Cls P) s"
  "in_lang (Alt r1 r2) s" "in_lang (Seq r1 r2) s"

lemma nullable_iff: "nullable r \<longleftrightarrow> in_lang r []"
  by (induction r) (auto intro: star0)

lemma Star_Cons:
  "in_lang (Star r) s \<Longrightarrow> s = c # t \<Longrightarrow>
     \<exists>u v. t = u @ v \<and> in_lang r (c # u) \<and> in_lang (Star r) v"
proof (induction "Star r" s arbitrary: t rule: in_lang.induct)
  case (star1 u v)
  then show ?case by (cases u) auto
qed simp

lemma deriv_iff: "in_lang (deriv c r) s \<longleftrightarrow> in_lang r (c # s)"
proof (induction r arbitrary: s)
  case (Seq r1 r2)
  show ?case
  proof
    assume "in_lang (deriv c (Seq r1 r2)) s"
    with Seq show "in_lang (Seq r1 r2) (c # s)"
      by (auto simp: nullable_iff split: if_splits) (metis append_Cons append_Nil)+
  next
    assume "in_lang (Seq r1 r2) (c # s)"
    then obtain u v where uv: "c # s = u @ v" "in_lang r1 u" "in_lang r2 v" by auto
    with Seq show "in_lang (deriv c (Seq r1 r2)) s"
      by (cases u) (auto simp: nullable_iff)
  qed
next
  case (Star r)
  then show ?case by (auto dest: Star_Cons) (metis append_Cons star1)
qed auto

lemma matches_iff: "matches r s \<longleftrightarrow> in_lang r s"
  by (induction s arbitrary: r) (auto simp: nullable_iff deriv_iff)

lemma in_lang_alph: "in_lang r s \<Longrightarrow> c \<in> set s \<Longrightarrow> alph r c"
  by (induction rule: in_lang.induct) auto

lemma matches_alph: "matches r s \<Longrightarrow> c \<in> set s \<Longrightarrow> alph r c"
  by (auto simp: matches_iff dest: in_lang_alph)

section \<open>Repetition of a character class\<close>

lemma matches_Never [simp]: "\<not> matches Never s"
  by (simp add: matches_iff)

lemma matches_Seq: "matches (Seq r1 r2) s \<longleftrightarrow> (\<exists>u v. s = u @ v \<and> matches r1 u \<and> matches r2 v)"
  by (auto simp: matches_iff)

lemma matches_SeqI: "matches r1 u \<Longrightarrow> matches r2 v \<Longrightarrow> matches (Seq r1 r2) (u @ v)"
  by (auto simp: matches_Seq)

lemma matches_Alt [simp]: "matches (Alt r1 r2) s \<longleftrightarrow> matches r1 s \<or> matches r2 s"
  by (simp add: matches_iff)

lemma matches_Epsilon [simp]: "matches Epsilon s \<longleftrightarrow> s = []"
  by (simp add: matches_iff)

lemma matches_Cls [simp]: "matches (Cls P) s \<longleftrightarrow> (\<exists>c. s = [c] \<and> P c)"
  by (auto simp: matches_iff)

declare matches.simps [simp del]

lemma matches_Cls_Seq [simp]:
  "matches (Seq (Cls P) r) [] = False"
  "matches (Seq (Cls P) r) (c # t) \<longleftrightarrow> P c \<and> matches r t"
proof -
  show "matches (Seq (Cls P) r) [] = False" by (simp add: matches.simps)
  have eps: "matches (Seq Epsilon r) t = matches r t" by (simp add: matches_iff)
  have never: "\<not> matches (Seq Never r) t" by (simp add: matches_iff)
  show "matches (Seq (Cls P) r) (c # t) \<longleftrightarrow> P c \<and> matches r t"
    by (simp add: matches.simps eps never)
qed

lemma matches_Repeat_Cls:
  "matches (Repeat n (Cls P)) s \<longleftrightarrow> length s = n \<and> list_all P s"
proof (induction n arbitrary: s)
  case (Suc n)
  then show ?case by (cases s) auto
qed auto

lemma matches_Upto_Cls:
  "matches (Upto n (Cls P)) s \<longleftrightarrow> length s \<le> n \<and> list_all P s"
proof (induction n arbitrary: s)
  case (Suc n)
  then show ?case by (cases s) auto
qed auto

lemma in_lang_Star_Cls: "in_lang (Star (Cls P)) s \<longleftrightarrow> list_all P s"
proof
  show "in_lang (Star (Cls P)) s \<Longrightarrow> list_all P s"
    by (induction "Star (Cls P)" s rule: in_lang.induct) auto
next
  show "list_all P s \<Longrightarrow> in_lang (Star (Cls P)) s"
  proof (induction s)
    case (Cons c s)
    then have "in_lang (Star (Cls P)) ([c] @ s)"
      by (intro star1 cls) auto
    then show ?case by simp
  qed (rule star0)
qed

lemma matches_Plus_Cls: "matches (Plus (Cls P)) s \<longleftrightarrow> s \<noteq> [] \<and> list_all P s"
  by (cases s) (simp_all add: Plus_def, simp add: matches_iff in_lang_Star_Cls)

end
