(* ===== verification/Oci.thy ===== *)
theory Oci
  imports Regexp
begin

text \<open>
  Package oci (src/oci): content digests, repository names and tags, references, the error
  codes with their HTTP status, platforms, descriptors and manifests. \<open>err\<close> is Go's error
  interface as the program uses it: one constructor per sentinel or error type that some caller
  tells apart with \<open>errors.Is\<close> or \<open>errors.As\<close>, and \<open>ErrOther\<close> for every other error; message
  texts are not modelled. SHA-256 is a parameter \<open>sha\<close> into 256-bit words, and decoding a JSON
  body into a manifest is a parameter \<open>unmarshal\<close>.
\<close>

section \<open>Errors (oci/errors.go)\<close>

datatype ErrorCode =
    CodeBlobUnknown | CodeBlobUploadInvalid | CodeBlobUploadUnknown | CodeDigestInvalid
  | CodeManifestBlobUnknown | CodeManifestInvalid | CodeManifestUnknown | CodeNameInvalid
  | CodeNameUnknown | CodeSizeInvalid | CodeUnauthorized | CodeDenied | CodeUnsupported
  | CodeTooManyRequests
  | CodeRootfsUnavailable | CodePathUnknown | CodePathInvalid | CodePlatformUnknown

fun DefaultStatus :: "ErrorCode \<Rightarrow> nat" where
  "DefaultStatus CodeBlobUnknown = 404"
| "DefaultStatus CodeBlobUploadUnknown = 404"
| "DefaultStatus CodeManifestBlobUnknown = 404"
| "DefaultStatus CodeManifestUnknown = 404"
| "DefaultStatus CodeNameUnknown = 404"
| "DefaultStatus CodeRootfsUnavailable = 404"
| "DefaultStatus CodePathUnknown = 404"
| "DefaultStatus CodeBlobUploadInvalid = 400"
| "DefaultStatus CodeDigestInvalid = 400"
| "DefaultStatus CodeManifestInvalid = 400"
| "DefaultStatus CodeNameInvalid = 400"
| "DefaultStatus CodeSizeInvalid = 400"
| "DefaultStatus CodePathInvalid = 400"
| "DefaultStatus CodePlatformUnknown = 400"
| "DefaultStatus CodeUnauthorized = 401"
| "DefaultStatus CodeDenied = 403"
| "DefaultStatus CodeUnsupported = 405"
| "DefaultStatus CodeTooManyRequests = 429"

datatype detail = NoDetail | Fields "string gomap" | Platforms "string list"

datatype err =
    OciError ErrorCode detail
  | ErrStoreNotFound
  | ErrBlobNotFound | ErrBlobDigestMismatch | ErrReadOnly | ErrRawRefused string | ErrNotPrism
  | ErrImageNotFound | ErrImageDigestMismatch
  | ErrUploadUnknown | ErrUploadClosed
  | ErrFsNotFound | ErrFsNotDir | ErrFsNotFile | ErrFsLoop
  | ErrLayer
  | ErrCanceled | ErrDeadlineExceeded | ErrUnexpectedEOF | ErrNetOp
  | ErrOther string

type_synonym 'a res = "err + 'a"

definition NewError :: "ErrorCode \<Rightarrow> err" where
  "NewError code = OciError code NoDetail"

fun WithDetail :: "err \<Rightarrow> detail \<Rightarrow> err" where
  "WithDetail (OciError code _) d = OciError code d"
| "WithDetail e d = e"

section \<open>Digests (oci/digest.go)\<close>

type_synonym digest = string

definition AlgorithmSHA256 :: string where
  "AlgorithmSHA256 = ''sha256''"

definition lower_hex :: "char \<Rightarrow> bool" where
  "lower_hex c = (in_range CHR ''a'' CHR ''f'' c \<or> in_range CHR ''0'' CHR ''9'' c)"

definition lower_alnum :: "char \<Rightarrow> bool" where
  "lower_alnum c = (in_range CHR ''a'' CHR ''z'' c \<or> in_range CHR ''0'' CHR ''9'' c)"

definition alnum :: "char \<Rightarrow> bool" where
  "alnum c = (in_range CHR ''a'' CHR ''z'' c \<or> in_range CHR ''A'' CHR ''Z'' c
              \<or> in_range CHR ''0'' CHR ''9'' c)"

definition sha256HexRe :: regexp where
  "sha256HexRe = Repeat 64 (Cls lower_hex)"

definition digestShapeRe :: regexp where
  "digestShapeRe =
     Seq (Plus (Cls lower_alnum))
      (Seq (Star (Seq (Cls (\<lambda>c. c \<in> set ''+._-'')) (Plus (Cls lower_alnum))))
        (Seq (chr CHR '':'') (Plus (Cls (\<lambda>c. alnum c \<or> c \<in> set ''=_-'')))))"

definition ParseDigest :: "string \<Rightarrow> digest res" where
  "ParseDigest s =
     (case Cut s CHR '':'' of
        None \<Rightarrow> Inl (NewError CodeDigestInvalid)
      | Some (algo, enc) \<Rightarrow>
          if algo = [] \<or> enc = [] then Inl (NewError CodeDigestInvalid)
          else if algo \<noteq> AlgorithmSHA256 then Inl (NewError CodeDigestInvalid)
          else if \<not> matches sha256HexRe enc then Inl (NewError CodeDigestInvalid)
          else Inr s)"

definition IsDigest :: "string \<Rightarrow> bool" where
  "IsDigest reference = matches digestShapeRe reference"

definition hex_digit :: "nat \<Rightarrow> char" where
  "hex_digit n = (if n < 10 then char_of (48 + n) else char_of (87 + n))"

definition EncodeToString :: "bytes \<Rightarrow> string" where
  "EncodeToString b =
     concat (map (\<lambda>c. [hex_digit (of_char c div 16), hex_digit (of_char c mod 16)]) b)"

text \<open>\<open>DigestFromSum\<close> panics on a sum that is not 32 bytes; the panic is \<open>None\<close>.\<close>

definition DigestFromSum :: "bytes \<Rightarrow> digest option" where
  "DigestFromSum b =
     (if length b \<noteq> 32 then None
      else Some (AlgorithmSHA256 @ '':'' @ EncodeToString b))"

text \<open>The 32 bytes of a SHA-256 sum, most significant first.\<close>

definition sum_bytes :: "256 word \<Rightarrow> bytes" where
  "sum_bytes w = map (\<lambda>i. char_of (unat (drop_bit (8 * (31 - i)) w) mod 256)) [0..<32]"

definition DigestOfBytes :: "(bytes \<Rightarrow> 256 word) \<Rightarrow> bytes \<Rightarrow> digest" where
  "DigestOfBytes sha b = the (DigestFromSum (sum_bytes (sha b)))"

definition Algorithm :: "digest \<Rightarrow> string" where
  "Algorithm d = (case Cut d CHR '':'' of None \<Rightarrow> d | Some (algo, _) \<Rightarrow> algo)"

definition Hex :: "digest \<Rightarrow> string" where
  "Hex d = (case Cut d CHR '':'' of None \<Rightarrow> [] | Some (_, enc) \<Rightarrow> enc)"

section \<open>Names and references (oci/names.go)\<close>

definition MaxRepositoryLength :: nat where
  "MaxRepositoryLength = 255"

definition repoComponentRe :: regexp where
  "repoComponentRe =
     Seq (Plus (Cls lower_alnum))
      (Star (Seq (Alt (chr CHR ''.'')
                  (Alt (chr CHR ''_'')
                   (Alt (Seq (chr CHR ''_'') (chr CHR ''_'')) (Plus (chr CHR ''-'')))))
                 (Plus (Cls lower_alnum))))"

definition repositoryRe :: regexp where
  "repositoryRe = Seq repoComponentRe (Star (Seq (chr CHR ''/'') repoComponentRe))"

definition tagRe :: regexp where
  "tagRe = Seq (Cls (\<lambda>c. alnum c \<or> c = CHR ''_''))
             (Upto 127 (Cls (\<lambda>c. alnum c \<or> c \<in> set ''._-'')))"

text \<open>A validator returns \<open>None\<close> where the Go function returns a nil error.\<close>

definition ValidateRepository :: "string \<Rightarrow> err option" where
  "ValidateRepository name =
     (if name = [] then Some (NewError CodeNameInvalid)
      else if length name > MaxRepositoryLength then Some (NewError CodeNameInvalid)
      else if \<not> matches repositoryRe name then Some (NewError CodeNameInvalid)
      else None)"

definition ValidateTag :: "string \<Rightarrow> err option" where
  "ValidateTag tag = (if \<not> matches tagRe tag then Some (NewError CodeManifestInvalid) else None)"

definition SplitReference :: "string \<Rightarrow> string \<times> string" where
  "SplitReference s =
     (case IndexByte s CHR ''@'' of
        Some i \<Rightarrow> (take i s, drop (Suc i) s)
      | None \<Rightarrow>
          let base = (case LastIndexByte s CHR ''/'' of None \<Rightarrow> 0 | Some slash \<Rightarrow> slash + 1)
          in case IndexByte (drop base s) CHR '':'' of
               Some i \<Rightarrow> (take (base + i) s, drop (base + i + 1) s)
             | None \<Rightarrow> (s, []))"

section \<open>Manifests (oci/manifest.go)\<close>

definition MediaTypeOCIManifest :: string where
  "MediaTypeOCIManifest = ''application/vnd.oci.image.manifest.v1+json''"
definition MediaTypeOCIIndex :: string where
  "MediaTypeOCIIndex = ''application/vnd.oci.image.index.v1+json''"
definition MediaTypeDockerManifestList :: string where
  "MediaTypeDockerManifestList = ''application/vnd.docker.distribution.manifest.list.v2+json''"
definition MediaTypeOCIConfig :: string where
  "MediaTypeOCIConfig = ''application/vnd.oci.image.config.v1+json''"
definition MediaTypeDockerConfig :: string where
  "MediaTypeDockerConfig = ''application/vnd.docker.container.image.v1+json''"

record Platform =
  OS :: string
  Architecture :: string
  Variant :: string

record Descriptor =
  d_MediaType :: string
  d_Digest :: digest
  d_Size :: int
  d_ArtifactType :: string
  d_Annotations :: "string gomap"
  d_Platform :: "Platform option"

text \<open>
  \<open>m_Manifests\<close> is an option because \<open>IsIndex\<close> tells a nil slice (no manifests field) from an
  empty one.
\<close>

record Manifest =
  m_SchemaVersion :: int
  m_MediaType :: string
  m_ArtifactType :: string
  m_Config :: "Descriptor option"
  m_Layers :: "Descriptor list"
  m_Manifests :: "Descriptor list option"
  m_Subject :: "Descriptor option"
  m_Annotations :: "string gomap"

definition IsAttestation :: "Descriptor \<Rightarrow> bool" where
  "IsAttestation d =
     (map_of (d_Annotations d) ''vnd.docker.reference.type'' = Some ''attestation-manifest'')"

definition Platform_String :: "Platform \<Rightarrow> string" where
  "Platform_String p =
     (let s = OS p @ ''/'' @ Architecture p
      in if Variant p \<noteq> [] then s @ ''/'' @ Variant p else s)"

definition ParsePlatform :: "string \<Rightarrow> Platform res" where
  "ParsePlatform s =
     (let parts = Split s CHR ''/''
      in if length parts < 2 \<or> length parts > 3 then Inl (ErrOther ''platform'')
         else if \<exists>part \<in> set parts. part = [] then Inl (ErrOther ''platform'')
         else Inr \<lparr>OS = parts ! 0, Architecture = parts ! 1,
                   Variant = (if length parts = 3 then parts ! 2 else [])\<rparr>)"

definition Platform_Matches :: "Platform \<Rightarrow> Platform \<Rightarrow> bool" where
  "Platform_Matches p c =
     (OS p = OS c \<and> Architecture p = Architecture c \<and> (Variant p = [] \<or> Variant p = Variant c))"

definition validateDescriptor :: "Descriptor \<Rightarrow> err option" where
  "validateDescriptor d =
     (case ParseDigest (d_Digest d) of
        Inl _ \<Rightarrow> Some (NewError CodeManifestInvalid)
      | Inr _ \<Rightarrow> if d_Size d < 0 then Some (NewError CodeManifestInvalid) else None)"

fun validateAll :: "Descriptor list \<Rightarrow> err option" where
  "validateAll [] = None"
| "validateAll (d # ds) =
     (case validateDescriptor d of Some e \<Rightarrow> Some e | None \<Rightarrow> validateAll ds)"

text \<open>Ranging over the manifests field: a nil slice has no elements.\<close>

definition ManifestChildren :: "Manifest \<Rightarrow> Descriptor list" where
  "ManifestChildren m = (case m_Manifests m of None \<Rightarrow> [] | Some ds \<Rightarrow> ds)"

definition ParseManifest :: "(bytes \<Rightarrow> Manifest option) \<Rightarrow> bytes \<Rightarrow> Manifest res" where
  "ParseManifest unmarshal body =
     (case unmarshal body of
        None \<Rightarrow> Inl (NewError CodeManifestInvalid)
      | Some m \<Rightarrow>
          if m_SchemaVersion m \<noteq> 2 then Inl (NewError CodeManifestInvalid)
          else case validateAll (opt_list (m_Config m)) of Some e \<Rightarrow> Inl e | None \<Rightarrow>
            (case validateAll (m_Layers m) of Some e \<Rightarrow> Inl e | None \<Rightarrow>
              (case validateAll (ManifestChildren m) of
                 Some e \<Rightarrow> Inl e
               | None \<Rightarrow>
                  (case validateAll (opt_list (m_Subject m)) of Some e \<Rightarrow> Inl e
                   | None \<Rightarrow> Inr m))))"

definition IsIndex :: "Manifest \<Rightarrow> bool" where
  "IsIndex m =
     (if m_MediaType m = MediaTypeOCIIndex \<or> m_MediaType m = MediaTypeDockerManifestList then True
      else if m_MediaType m = [] then m_Manifests m \<noteq> None
      else False)"

definition stripMediaTypeParams :: "string \<Rightarrow> string" where
  "stripMediaTypeParams contentType =
     TrimSpace (case IndexByte contentType CHR '';'' of
                  Some i \<Rightarrow> take i contentType | None \<Rightarrow> contentType)"

definition EffectiveMediaType :: "Manifest \<Rightarrow> string \<Rightarrow> string" where
  "EffectiveMediaType m contentType =
     (let ct = stripMediaTypeParams contentType
      in if ct \<noteq> [] then ct
         else if m_MediaType m \<noteq> [] then m_MediaType m
         else if IsIndex m then MediaTypeOCIIndex else MediaTypeOCIManifest)"

definition EffectiveArtifactType :: "Manifest \<Rightarrow> string" where
  "EffectiveArtifactType m =
     (if m_ArtifactType m \<noteq> [] then m_ArtifactType m
      else case m_Config m of
             Some c \<Rightarrow> if \<not> IsIndex m then d_MediaType c else []
           | None \<Rightarrow> [])"

definition BlobDescriptors :: "Manifest \<Rightarrow> Descriptor list" where
  "BlobDescriptors m = (if IsIndex m then [] else opt_list (m_Config m) @ m_Layers m)"


section \<open>Lemmas: digests\<close>

lemmas cls_defs = lower_hex_def lower_alnum_def alnum_def in_range_def less_eq_char_def chr_def

lemma alph_Upto [simp]: "alph (Upto n r) c \<longleftrightarrow> n \<noteq> 0 \<and> alph r c"
  by (induction n) auto

lemma alph_Plus [simp]: "alph (Plus r) c = alph r c"
  by (simp add: Plus_def)

lemma ParseDigest_Inr_iff:
  "ParseDigest s = Inr d \<longleftrightarrow>
     d = s \<and> (\<exists>h. s = ''sha256:'' @ h \<and> length h = 64 \<and> list_all lower_hex h)"
proof -
  have "s = ''sha256:'' @ h \<longleftrightarrow> Cut s CHR '':'' = Some (''sha256'', h)" for h
    by (simp add: Cut_Some_iff)
  then show ?thesis
    by (auto simp: ParseDigest_def AlgorithmSHA256_def sha256HexRe_def matches_Repeat_Cls
        split: option.splits if_splits)
qed

lemma ParseDigest_Inl: "ParseDigest s = Inl e \<Longrightarrow> e = NewError CodeDigestInvalid"
  by (auto simp: ParseDigest_def split: option.splits if_splits prod.splits)

lemma digest_chars:
  assumes "ParseDigest s = Inr d" "c \<in> set s"
  shows "c \<in> set ''sha256:'' \<or> lower_hex c"
  using assms by (auto simp: ParseDigest_Inr_iff list_all_iff)

lemma digest_no_slash: "ParseDigest s = Inr d \<Longrightarrow> CHR ''/'' \<notin> set s"
  by (auto simp: cls_defs dest: digest_chars)

lemma hex_digit_lower_hex: "n < 16 \<Longrightarrow> lower_hex (hex_digit n)"
  by (auto simp: hex_digit_def cls_defs)

lemma EncodeToString_length [simp]: "length (EncodeToString b) = 2 * length b"
  by (induction b) (simp_all add: EncodeToString_def)

lemma EncodeToString_hex: "list_all lower_hex (EncodeToString b)"
proof (induction b)
  case (Cons c b)
  have "of_char c < (256::nat)" by (simp add: nat_of_char_less_256)
  then have "of_char c div 16 < (16::nat)" by (simp add: less_mult_imp_div_less)
  then have "lower_hex (hex_digit (of_char c div 16))" "lower_hex (hex_digit (of_char c mod 16))"
    by (simp_all only: hex_digit_lower_hex mod_less_divisor zero_less_numeral)
  with Cons show ?case by (simp add: EncodeToString_def)
qed (simp add: EncodeToString_def)

lemma sum_bytes_length [simp]: "length (sum_bytes w) = 32"
  by (simp add: sum_bytes_def)

lemma ParseDigest_DigestFromSum: "DigestFromSum b = Some d \<Longrightarrow> ParseDigest d = Inr d"
  by (auto simp: DigestFromSum_def ParseDigest_Inr_iff AlgorithmSHA256_def EncodeToString_hex
      split: if_splits)

lemma ParseDigest_DigestOfBytes [simp]: "ParseDigest (DigestOfBytes sha b) = Inr (DigestOfBytes sha b)"
  by (rule ParseDigest_DigestFromSum [of "sum_bytes (sha b)"])
     (simp add: DigestOfBytes_def DigestFromSum_def)

lemma IsDigest_if_ParseDigest:
  assumes "ParseDigest s = Inr d"
  shows "IsDigest s"
proof -
  from assms obtain h where s: "s = ''sha256'' @ [] @ '':'' @ h" and "length h = 64" "list_all lower_hex h"
    by (auto simp: ParseDigest_Inr_iff)
  then have "matches (Plus (Cls (\<lambda>c. alnum c \<or> c \<in> set ''=_-''))) h"
    by (auto simp: matches_Plus_Cls list_all_iff cls_defs)
  moreover have "matches (Star (Seq (Cls (\<lambda>c. c \<in> set ''+._-'')) (Plus (Cls lower_alnum)))) []"
    by (simp add: matches_iff star0)
  moreover have "matches (Plus (Cls lower_alnum)) ''sha256''"
    by (simp add: matches_Plus_Cls cls_defs)
  ultimately show ?thesis
    unfolding IsDigest_def digestShapeRe_def chr_def s
    by (intro matches_SeqI) simp_all
qed

lemma IsDigest_colon: "IsDigest s \<Longrightarrow> CHR '':'' \<in> set s"
  by (auto simp: IsDigest_def digestShapeRe_def chr_def matches_Seq)

lemma tag_chars: "ValidateTag t = None \<Longrightarrow> c \<in> set t \<Longrightarrow> alnum c \<or> c \<in> set ''._-''"
  by (auto simp: ValidateTag_def tagRe_def dest!: matches_alph split: if_splits)

lemma tag_no_sep:
  assumes "ValidateTag t = None"
  shows "CHR '':'' \<notin> set t" "CHR ''/'' \<notin> set t" "CHR ''@'' \<notin> set t"
  using tag_chars [OF assms] by (fastforce simp: cls_defs)+

lemma ValidateTag_iff:
  "ValidateTag t = None \<longleftrightarrow>
     (\<exists>c cs. t = c # cs \<and> (alnum c \<or> c = CHR ''_'') \<and> length cs \<le> 127
        \<and> list_all (\<lambda>c. alnum c \<or> c \<in> set ''._-'') cs)"
  by (cases t) (simp_all add: ValidateTag_def tagRe_def matches_Upto_Cls)

section \<open>Lemmas: repository names and references\<close>

lemma repo_chars:
  "ValidateRepository r = None \<Longrightarrow> c \<in> set r \<Longrightarrow> lower_alnum c \<or> c \<in> set ''._-/''"
  by (auto simp: ValidateRepository_def repositoryRe_def repoComponentRe_def chr_def
      dest!: matches_alph split: if_splits)

lemma repo_no_sep:
  assumes "ValidateRepository r = None"
  shows "CHR '':'' \<notin> set r" "CHR ''@'' \<notin> set r"
  using repo_chars [OF assms] by (fastforce simp: cls_defs)+

lemma repo_not_Nil: "ValidateRepository r = None \<Longrightarrow> r \<noteq> [] \<and> length r \<le> 255"
  by (auto simp: ValidateRepository_def MaxRepositoryLength_def split: if_splits)

lemma SplitReference_at: "CHR ''@'' \<notin> set r \<Longrightarrow> SplitReference (r @ ''@'' @ d) = (r, d)"
proof -
  assume r: "CHR ''@'' \<notin> set r"
  have "IndexByte (r @ ''@'' @ d) CHR ''@'' = Some (length r)"
    by (simp add: IndexByte_Some_iff r nth_append)
  then show ?thesis by (simp add: SplitReference_def)
qed

lemma base_offset:
  fixes r :: string
  defines "base \<equiv> (case LastIndexByte r CHR ''/'' of None \<Rightarrow> 0 | Some i \<Rightarrow> i + 1)"
  shows "base \<le> length r" "CHR ''/'' \<notin> set (drop base r)"
  using LastIndexByte_less [of r "CHR ''/''"] LastIndexByte_Some [of r "CHR ''/''"]
  by (auto simp: base_def LastIndexByte_None_iff split: option.splits)

lemma LastIndexByte_append_free:
  "c \<notin> set b \<Longrightarrow> LastIndexByte (a @ b) c = LastIndexByte a c"
  by (induction a) (auto simp: LastIndexByte_None_iff split: option.splits)

lemma SplitReference_tag:
  assumes r: "CHR ''@'' \<notin> set r" "CHR '':'' \<notin> set r"
    and t: "CHR ''@'' \<notin> set t" "CHR ''/'' \<notin> set t"
  shows "SplitReference (r @ '':'' @ t) = (r, t)"
proof -
  define base where "base = (case LastIndexByte r CHR ''/'' of None \<Rightarrow> 0 | Some i \<Rightarrow> i + 1)"
  have le: "base \<le> length r" using base_offset [of r] by (simp add: base_def)
  have "LastIndexByte (r @ '':'' @ t) CHR ''/'' = LastIndexByte r CHR ''/''"
    by (rule LastIndexByte_append_free) (use t in simp)
  moreover have "IndexByte (drop base (r @ '':'' @ t)) CHR '':'' = Some (length r - base)"
    using le r(2) by (auto simp: IndexByte_Some_iff nth_append dest: in_set_dropD)
  moreover have "IndexByte (r @ '':'' @ t) CHR ''@'' = None"
    using r t by (simp add: IndexByte_None_iff)
  ultimately show ?thesis
    using le by (simp add: SplitReference_def Let_def base_def [symmetric])
qed

lemma SplitReference_bare:
  assumes "CHR ''@'' \<notin> set r" "CHR '':'' \<notin> set r"
  shows "SplitReference r = (r, [])"
proof -
  have "IndexByte (drop n r) CHR '':'' = None" for n
    using assms(2) by (auto simp: IndexByte_None_iff dest: in_set_dropD)
  moreover have "IndexByte r CHR ''@'' = None" using assms(1) by (simp add: IndexByte_None_iff)
  ultimately show ?thesis by (simp add: SplitReference_def Let_def)
qed

section \<open>Lemmas: platforms\<close>

text \<open>A platform as \<open>ParsePlatform\<close> produces it: no part holds a slash, and os and
  architecture are not empty.\<close>

definition valid_platform :: "Platform \<Rightarrow> bool" where
  "valid_platform p =
     (OS p \<noteq> [] \<and> Architecture p \<noteq> [] \<and> CHR ''/'' \<notin> set (OS p)
      \<and> CHR ''/'' \<notin> set (Architecture p) \<and> CHR ''/'' \<notin> set (Variant p))"

definition decodePlatform :: "string \<Rightarrow> Platform option" where
  "decodePlatform s = (case ParsePlatform s of Inl _ \<Rightarrow> None | Inr p \<Rightarrow> Some p)"

lemma Split_Platform_String:
  "valid_platform p \<Longrightarrow> Split (Platform_String p) CHR ''/'' =
     [OS p, Architecture p] @ (if Variant p = [] then [] else [Variant p])"
  by (simp add: Platform_String_def valid_platform_def Let_def Split_no_sep)

lemma ParsePlatform_String: "valid_platform p \<Longrightarrow> ParsePlatform (Platform_String p) = Inr p"
  by (auto simp: ParsePlatform_def Split_Platform_String valid_platform_def)

lemma ParsePlatform_sound:
  assumes "ParsePlatform s = Inr p"
  shows "valid_platform p \<and> Platform_String p = s"
proof -
  let ?ps = "Split s CHR ''/''"
  from assms have len: "length ?ps = 2 \<or> length ?ps = 3" and ne: "\<forall>q \<in> set ?ps. q \<noteq> []"
    and p: "p = \<lparr>OS = ?ps ! 0, Architecture = ?ps ! 1,
                 Variant = (if length ?ps = 3 then ?ps ! 2 else [])\<rparr>"
    by (auto simp: ParsePlatform_def Let_def split: if_splits)
  have free: "\<forall>q \<in> set ?ps. CHR ''/'' \<notin> set q" by (auto dest: Split_parts)
  have j: "Join ?ps ''/'' = s" by simp
  from len consider a b where "?ps = [a, b]" | a b c where "?ps = [a, b, c]"
    by (auto simp: length_Suc_conv numeral_2_eq_2 numeral_3_eq_3)
  then show ?thesis
    using ne free j p by cases (auto simp: valid_platform_def Platform_String_def Let_def)
qed

interpretation platform_codec: codec Platform_String decodePlatform valid_platform
  by unfold_locales
    (auto simp: decodePlatform_def ParsePlatform_String dest: ParsePlatform_sound split: sum.splits)

section \<open>Lemmas: manifests\<close>

lemma validateDescriptor_None:
  "validateDescriptor d = None \<longleftrightarrow> ParseDigest (d_Digest d) = Inr (d_Digest d) \<and> 0 \<le> d_Size d"
proof (cases "ParseDigest (d_Digest d)")
  case (Inr x)
  then have "x = d_Digest d" by (simp add: ParseDigest_Inr_iff)
  with Inr show ?thesis by (auto simp: validateDescriptor_def)
qed (simp add: validateDescriptor_def)

lemma validateAll_None: "validateAll ds = None \<longleftrightarrow> (\<forall>d \<in> set ds. validateDescriptor d = None)"
  by (induction ds) (auto split: option.splits)

lemma validateAll_Some: "validateAll ds = Some e \<Longrightarrow> e = NewError CodeManifestInvalid"
  by (induction ds) (auto simp: validateDescriptor_def split: option.splits sum.splits if_splits)

lemma ParseManifest_Inl: "ParseManifest u b = Inl e \<Longrightarrow> e = NewError CodeManifestInvalid"
  by (auto simp: ParseManifest_def dest: validateAll_Some split: option.splits if_splits)

lemma ParseManifest_Inr:
  assumes "ParseManifest u b = Inr m"
  shows "u b = Some m \<and> m_SchemaVersion m = 2
    \<and> (\<forall>d \<in> set (opt_list (m_Config m) @ m_Layers m @ ManifestChildren m @ opt_list (m_Subject m)).
         validateDescriptor d = None)"
  using assms by (auto simp: ParseManifest_def validateAll_None split: option.splits if_splits)

lemma ParseManifest_blobs:
  assumes "ParseManifest u b = Inr m" "d \<in> set (BlobDescriptors m)"
  shows "ParseDigest (d_Digest d) = Inr (d_Digest d) \<and> 0 \<le> d_Size d"
  using ParseManifest_Inr [OF assms(1)] assms(2)
  by (auto simp: BlobDescriptors_def validateDescriptor_None split: if_splits)

section \<open>References as a whole\<close>

definition image_ref :: "string \<Rightarrow> string \<Rightarrow> string" where
  "image_ref repo r = (if r = '''' then repo else if IsDigest r then repo @ ''@'' @ r else repo @ '':'' @ r)"

text \<open>
  Writing a reference and splitting it again: for a valid repository name, a reference with a
  tag, with a digest of any valid spelling, or without either is split into exactly the parts it was
  built from, although a repository name holds slashes and a digest holds a colon.
\<close>

theorem SplitReference_roundtrip:
  assumes "ValidateRepository repo = None"
    and "r = '''' \<or> ValidateTag r = None \<or> ParseDigest r = Inr r"
  shows "SplitReference (image_ref repo r) = (repo, r)"
proof -
  have repo: "CHR ''@'' \<notin> set repo" "CHR '':'' \<notin> set repo" using repo_no_sep [OF assms(1)] by auto
  consider "r = ''''" | "IsDigest r" | "r \<noteq> ''''" "\<not> IsDigest r" "ValidateTag r = None"
    using assms(2) IsDigest_if_ParseDigest [of r r] by auto
  then show ?thesis
  proof cases
    case 1
    then show ?thesis using repo by (simp add: image_ref_def SplitReference_bare)
  next
    case 2
    then have "r \<noteq> ''''" using IsDigest_colon by fastforce
    then show ?thesis using 2 SplitReference_at [OF repo(1), of r] by (simp add: image_ref_def)
  next
    case 3
    then show ?thesis
      using SplitReference_tag [OF repo, of r] tag_no_sep [of r] by (auto simp: image_ref_def)
  qed
qed

theorem SplitReference_roundtrip_witness:
  "SplitReference (image_ref ''library/debian-slim'' ''v1.0'') = (''library/debian-slim'', ''v1.0'')"
  by (rule SplitReference_roundtrip) code_simp+

text \<open>
  What ParseManifest lets through: a body it accepts decodes with schemaVersion 2, and every
  descriptor of the manifest - config, layers, children, subject - has a well-formed sha256 digest
  and a size that is not negative, so the blobs a push is checked for all have usable digests.
\<close>

theorem ParseManifest_descriptors:
  assumes "ParseManifest unmarshal body = Inr m"
  shows "unmarshal body = Some m \<and> m_SchemaVersion m = 2
    \<and> (\<forall>d \<in> set (opt_list (m_Config m) @ m_Layers m @ ManifestChildren m @ opt_list (m_Subject m)).
         (\<exists>h. d_Digest d = ''sha256:'' @ h \<and> length h = 64 \<and> list_all lower_hex h) \<and> 0 \<le> d_Size d)
    \<and> set (BlobDescriptors m) \<subseteq> set (opt_list (m_Config m) @ m_Layers m)"
  using ParseManifest_Inr [OF assms]
  by (auto simp: validateDescriptor_None ParseDigest_Inr_iff BlobDescriptors_def)

definition demo_digest :: digest where
  "demo_digest = ''sha256:'' @ replicate 64 CHR ''a''"

definition demo_manifest :: Manifest where
  "demo_manifest = \<lparr>m_SchemaVersion = 2, m_MediaType = MediaTypeOCIManifest, m_ArtifactType = '''',
     m_Config = Some \<lparr>d_MediaType = MediaTypeOCIConfig, d_Digest = demo_digest, d_Size = 7,
                      d_ArtifactType = '''', d_Annotations = [], d_Platform = None\<rparr>,
     m_Layers = [], m_Manifests = None, m_Subject = None, m_Annotations = []\<rparr>"

lemma demo_digest_ok: "ParseDigest demo_digest = Inr demo_digest"
  by (simp add: ParseDigest_Inr_iff demo_digest_def list_all_iff lower_hex_def in_range_def less_eq_char_def)

theorem ParseManifest_descriptors_witness:
  "ParseManifest (\<lambda>_. Some demo_manifest) ''{}'' = Inr demo_manifest
   \<and> set (BlobDescriptors demo_manifest) \<subseteq> set (opt_list (m_Config demo_manifest) @ m_Layers demo_manifest)"
proof -
  have "validateDescriptor d = None" if "d_Digest d = demo_digest" "d_Size d = 7" for d
    using that demo_digest_ok by (simp add: validateDescriptor_def)
  then have "ParseManifest (\<lambda>_. Some demo_manifest) ''{}'' = Inr demo_manifest"
    by (simp add: ParseManifest_def demo_manifest_def opt_list_def ManifestChildren_def)
  with ParseManifest_descriptors show ?thesis by blast
qed

end
