(* ===== verification/Store_Dir.thy ===== *)
theory Store_Dir
  imports Oci
begin

unbundle bit_operations_syntax

text \<open>
  Directory objects of the store (src/store/dir.go): the type bits of an entry's mode, the payload
  check and the Dir that adds entries in strict bytewise name order. The amber library behind it is
  a parameter: \<open>keyops\<close> is what its key type offers (Parse succeeding, Type, Length), \<open>dirbuilder\<close>
  its fstree.DirBuilder. A value of type \<open>'k\<close> is the byte form of a key; an empty byte slice is
  \<open>None\<close>. Go compares strings bytewise, which is the lexicographic order of List_Lexorder on the
  character codes.
\<close>

datatype key_kind = KBlob | KFileNode | KDirLeaf | KDirNode | KXattrSet | KOther

record 'k keyops =
  key_ok :: "'k \<Rightarrow> bool"
  key_Type :: "'k \<Rightarrow> key_kind"
  key_Length :: "'k \<Rightarrow> nat"

datatype 'k fentry = FEntry
  (fe_Name: string) (fe_Mode: "64 word") (fe_UID: "64 word") (fe_GID: "64 word") (fe_Mtime: int)
  (fe_ContentKey: "'k option") (fe_LinkTarget: bytes) (fe_Rdev: "64 word list")
  (fe_XattrsIn: bytes) (fe_XattrsKey: "'k option")

record ('d, 'k) dirbuilder =
  db_New :: 'd
  db_AddEntry :: "'d \<Rightarrow> 'k fentry \<Rightarrow> 'd res"
  db_Finish :: "'d \<Rightarrow> 'k res"

section \<open>Type bits\<close>

definition TypeMask :: "64 word" where "TypeMask = 0xF000"
definition TypeFIFO :: "64 word" where "TypeFIFO = 0x1000"
definition TypeChar :: "64 word" where "TypeChar = 0x2000"
definition TypeDir :: "64 word" where "TypeDir = 0x4000"
definition TypeBlock :: "64 word" where "TypeBlock = 0x6000"
definition TypeReg :: "64 word" where "TypeReg = 0x8000"
definition TypeLink :: "64 word" where "TypeLink = 0xA000"
definition TypeSocket :: "64 word" where "TypeSocket = 0xC000"

lemmas type_bits = TypeMask_def TypeFIFO_def TypeChar_def TypeDir_def TypeBlock_def TypeReg_def
  TypeLink_def TypeSocket_def

definition ModeFile :: "64 word" where "ModeFile = 0x81A4"
definition ModeDir :: "64 word" where "ModeDir = 0x41ED"

section \<open>Dir\<close>

record 'd Dir =
  dir_db :: 'd
  dir_last :: string
  dir_n :: nat
  dir_done :: bool

definition NewDir :: "('d, 'k) dirbuilder \<Rightarrow> 'd Dir" where
  "NewDir B = \<lparr>dir_db = db_New B, dir_last = '''', dir_n = 0, dir_done = False\<rparr>"

definition entry_name_ok :: "string \<Rightarrow> bool" where
  "entry_name_ok name \<longleftrightarrow> \<not> (name = '''' \<or> name = ''.'' \<or> name = ''..''
     \<or> ContainsByte name CHR ''/'' \<or> ContainsByte name (CHR 0x00))"

text \<open>The payload check; \<open>None\<close> is the nil error.\<close>

definition validatePayload :: "'k keyops \<Rightarrow> 'k fentry \<Rightarrow> err option" where
  "validatePayload K e =
     (let hasContent = fe_ContentKey e \<noteq> None;
          hasLink = fe_LinkTarget e \<noteq> [];
          hasRdev = fe_Rdev e \<noteq> [];
          typ = fe_Mode e AND TypeMask;
          payload =
            (if typ = TypeReg \<or> typ = TypeDir then
               (if hasLink \<or> hasRdev
                then Some (ErrOther ''a file or directory carries only a content key'')
                else case fe_ContentKey e of
                  None \<Rightarrow> Some (ErrOther ''content key'')
                | Some k \<Rightarrow>
                    if \<not> key_ok K k then Some (ErrOther ''content key'')
                    else if typ = TypeReg \<and> key_Type K k \<noteq> KBlob \<and> key_Type K k \<noteq> KFileNode
                    then Some (ErrOther ''not file content'')
                    else if typ = TypeDir \<and> key_Type K k \<noteq> KDirLeaf \<and> key_Type K k \<noteq> KDirNode
                    then Some (ErrOther ''not a directory'')
                    else None)
             else if typ = TypeLink then
               (if hasContent \<or> hasRdev \<or> \<not> hasLink
                then Some (ErrOther ''a symlink carries exactly a link target'') else None)
             else if typ = TypeChar \<or> typ = TypeBlock then
               (if hasContent \<or> hasLink \<or> length (fe_Rdev e) \<noteq> 2
                then Some (ErrOther ''a device carries exactly [major, minor]'') else None)
             else if typ = TypeFIFO \<or> typ = TypeSocket then
               (if hasContent \<or> hasLink \<or> hasRdev
                then Some (ErrOther ''a fifo or socket carries no payload'') else None)
             else Some (ErrOther ''unsupported type bits''))
      in case payload of
           Some er \<Rightarrow> Some er
         | None \<Rightarrow>
             if fe_XattrsIn e \<noteq> [] \<and> fe_XattrsKey e \<noteq> None
             then Some (ErrOther ''inline and spilled xattrs are exclusive'')
             else case fe_XattrsKey e of
               None \<Rightarrow> None
             | Some k \<Rightarrow>
                 if \<not> key_ok K k then Some (ErrOther ''xattrs key'')
                 else if key_Type K k \<noteq> KXattrSet then Some (ErrOther ''not an XattrSet'')
                 else None)"

definition AddEntry ::
  "'k keyops \<Rightarrow> ('d, 'k) dirbuilder \<Rightarrow> 'd Dir \<Rightarrow> 'k fentry \<Rightarrow> 'd Dir res" where
  "AddEntry K B d e =
     (if dir_done d then Inl (ErrOther ''store: dir already finished'')
      else let name = fe_Name e in
        if \<not> entry_name_ok name then Inl (ErrOther (''store: invalid dir entry name '' @ name))
        else if dir_n d > 0 \<and> name \<le> dir_last d then Inl (ErrOther ''store: dir entry not sorted'')
        else case validatePayload K e of
          Some er \<Rightarrow> Inl er
        | None \<Rightarrow>
            (case db_AddEntry B (dir_db d) e of
               Inl er \<Rightarrow> Inl er
             | Inr db \<Rightarrow> Inr (d\<lparr>dir_db := db, dir_last := name, dir_n := Suc (dir_n d)\<rparr>)))"

definition dir_add ::
  "'k keyops \<Rightarrow> ('d, 'k) dirbuilder \<Rightarrow> 'd Dir \<Rightarrow> string \<Rightarrow> 64 word \<Rightarrow> 'k \<Rightarrow> 'd Dir res" where
  "dir_add K B d name mode content =
     AddEntry K B d (FEntry name mode 0 0 0 (Some content) [] [] [] None)"

definition AddFile ::
  "'k keyops \<Rightarrow> ('d, 'k) dirbuilder \<Rightarrow> 'd Dir \<Rightarrow> string \<Rightarrow> 'k \<Rightarrow> 'd Dir res" where
  "AddFile K B d name content =
     (if key_Type K content \<noteq> KBlob \<and> key_Type K content \<noteq> KFileNode
      then Inl (ErrOther ''not file content'')
      else dir_add K B d name ModeFile content)"

definition AddDir ::
  "'k keyops \<Rightarrow> ('d, 'k) dirbuilder \<Rightarrow> 'd Dir \<Rightarrow> string \<Rightarrow> 'k \<Rightarrow> 'd Dir res" where
  "AddDir K B d name content =
     (if key_Type K content \<noteq> KDirLeaf \<and> key_Type K content \<noteq> KDirNode
      then Inl (ErrOther ''not a directory'')
      else dir_add K B d name ModeDir content)"

definition Dir_Finish :: "('d, 'k) dirbuilder \<Rightarrow> 'd Dir \<Rightarrow> ('k \<times> 'd Dir) res" where
  "Dir_Finish B d =
     (if dir_done d then Inl (ErrOther ''store: dir already finished'')
      else case db_Finish B (dir_db d) of
        Inl er \<Rightarrow> Inl er
      | Inr k \<Rightarrow> Inr (k, d\<lparr>dir_done := True\<rparr>))"

text \<open>A run of AddEntry calls, each on the Dir the previous one returned.\<close>

fun AddEntries ::
  "'k keyops \<Rightarrow> ('d, 'k) dirbuilder \<Rightarrow> 'd Dir \<Rightarrow> 'k fentry list \<Rightarrow> 'd Dir res" where
  "AddEntries K B d [] = Inr d"
| "AddEntries K B d (e # es) =
     (case AddEntry K B d e of Inl er \<Rightarrow> Inl er | Inr d' \<Rightarrow> AddEntries K B d' es)"

section \<open>Extended attributes (write.go)\<close>

text \<open>
  \<open>xattrops\<close> holds the encoders of the amber library and the Writer's Emit. PutXattrs returns the
  inline bytes and the key of the spilled set, \<open>None\<close> for the zero key.
\<close>

record 'k xattrops =
  xa_Encode :: "bytes gomap \<Rightarrow> bytes"
  xa_EncodeSet :: "bytes gomap \<Rightarrow> ('k \<times> bytes) res"
  xa_Emit :: "'k \<times> bytes \<Rightarrow> err option"

definition XattrInlineMax :: nat where "XattrInlineMax = 256"

definition PutXattrs :: "'k xattrops \<Rightarrow> bytes gomap \<Rightarrow> (bytes \<times> 'k option) res" where
  "PutXattrs X m =
     (if m = [] then Inr ([], None)
      else let enc = xa_Encode X m in
        if length enc \<le> XattrInlineMax then Inr (enc, None)
        else case xa_EncodeSet X m of
          Inl er \<Rightarrow> Inl er
        | Inr obj \<Rightarrow> (case xa_Emit X obj of Some er \<Rightarrow> Inl er | None \<Rightarrow> Inr ([], Some (fst obj))))"

section \<open>What a Dir accepts\<close>

definition entry_ok :: "'k keyops \<Rightarrow> 'k fentry \<Rightarrow> bool" where
  "entry_ok K e \<longleftrightarrow> entry_name_ok (fe_Name e) \<and> validatePayload K e = None"

fun db_adds :: "('d, 'k) dirbuilder \<Rightarrow> 'd \<Rightarrow> 'k fentry list \<Rightarrow> 'd res" where
  "db_adds B db [] = Inr db"
| "db_adds B db (e # es) =
     (case db_AddEntry B db e of Inl er \<Rightarrow> Inl er | Inr db' \<Rightarrow> db_adds B db' es)"

lemma AddEntry_Inr_iff:
  "AddEntry K B d e = Inr d' \<longleftrightarrow>
     \<not> dir_done d \<and> entry_ok K e \<and> (dir_n d > 0 \<longrightarrow> dir_last d < fe_Name e)
     \<and> (\<exists>db. db_AddEntry B (dir_db d) e = Inr db
            \<and> d' = d\<lparr>dir_db := db, dir_last := fe_Name e, dir_n := Suc (dir_n d)\<rparr>)"
  by (auto simp: AddEntry_def Let_def entry_ok_def not_le split: option.splits sum.splits)

lemma AddEntries_append:
  "AddEntries K B d (es @ fs) =
     (case AddEntries K B d es of Inl er \<Rightarrow> Inl er | Inr d' \<Rightarrow> AddEntries K B d' fs)"
  by (induction es arbitrary: d) (auto split: sum.splits)

lemma AddEntries_Inr_iff:
  assumes "\<not> dir_done d"
  shows "AddEntries K B d es = Inr d' \<longleftrightarrow>
     list_all (entry_ok K) es \<and> sorted_wrt (<) (map fe_Name es)
     \<and> (dir_n d > 0 \<and> es \<noteq> [] \<longrightarrow> dir_last d < fe_Name (hd es))
     \<and> (\<exists>db. db_adds B (dir_db d) es = Inr db
          \<and> d' = d\<lparr>dir_db := db, dir_last := (if es = [] then dir_last d else fe_Name (last es)),
                   dir_n := dir_n d + length es\<rparr>)"
  using assms
proof (induction es arbitrary: d)
  case (Cons e es)
  show ?case
  proof (cases "AddEntry K B d e")
    case (Inl er)
    then show ?thesis
      using Cons.prems AddEntry_Inr_iff [of K B d e] by (auto split: sum.splits)
  next
    case (Inr d1)
    then obtain db where d1: "d1 = d\<lparr>dir_db := db, dir_last := fe_Name e, dir_n := Suc (dir_n d)\<rparr>"
      and ok: "entry_ok K e" "dir_n d > 0 \<longrightarrow> dir_last d < fe_Name e" "db_AddEntry B (dir_db d) e = Inr db"
      using AddEntry_Inr_iff [of K B d e d1] by auto
    have "(\<forall>x \<in> set es. fe_Name e < fe_Name x) \<longleftrightarrow> es \<noteq> [] \<longrightarrow> fe_Name e < fe_Name (hd es)"
      if "sorted_wrt (<) (map fe_Name es)"
      using that by (cases es) (auto intro: less_trans)
    then show ?thesis
      using Cons.IH [of d1] Cons.prems Inr ok by (auto simp: d1)
  qed
qed auto

end
