(* ===== verification/Go_Path.thy ===== *)
theory Go_Path
  imports Go_Prelude
begin

text \<open>
  The part of Go's package path that the rootfs code uses: Clean, Dir and Base on slash separated
  names. Clean works on the components of the name with a stack, as the byte level routine of the
  library does with its output buffer: empty and dot components go, dot-dot pops a kept component,
  is dropped at a root, and is kept at the start of a relative name.
\<close>

definition clean_push :: "bool \<Rightarrow> string list \<Rightarrow> string \<Rightarrow> string list" where
  "clean_push rooted kept c =
     (if c = '''' \<or> c = ''.'' then kept
      else if c = ''..'' then
        (if kept = [] then (if rooted then [] else [c])
         else if last kept = ''..'' then kept @ [c]
         else butlast kept)
      else kept @ [c])"

definition clean_comps :: "bool \<Rightarrow> string list \<Rightarrow> string list" where
  "clean_comps rooted cs = foldl (clean_push rooted) [] cs"

definition path_Clean :: "string \<Rightarrow> string" where
  "path_Clean p =
     (let rooted = HasPrefix p ''/'';
          cs = clean_comps rooted (Split p CHR ''/'')
      in if rooted then CHR ''/'' # Join cs ''/''
         else if cs = [] then ''.'' else Join cs ''/'')"

definition path_Split :: "string \<Rightarrow> string \<times> string" where
  "path_Split p =
     (case LastIndexByte p CHR ''/'' of
        None \<Rightarrow> ('''', p)
      | Some i \<Rightarrow> (take (Suc i) p, drop (Suc i) p))"

definition path_Dir :: "string \<Rightarrow> string" where
  "path_Dir p = path_Clean (fst (path_Split p))"

fun strip_slashes :: "string \<Rightarrow> string" where
  "strip_slashes s = (if s \<noteq> [] \<and> last s = CHR ''/'' then strip_slashes (butlast s) else s)"

declare strip_slashes.simps [simp del]

definition path_Base :: "string \<Rightarrow> string" where
  "path_Base p =
     (if p = '''' then ''.''
      else let q = strip_slashes p;
               r = (case LastIndexByte q CHR ''/'' of None \<Rightarrow> q | Some i \<Rightarrow> drop (Suc i) q)
           in if r = '''' then ''/'' else r)"

section \<open>Component lists\<close>

definition plain_comp :: "string \<Rightarrow> bool" where
  "plain_comp c \<longleftrightarrow> c \<noteq> '''' \<and> c \<noteq> ''.'' \<and> c \<noteq> ''..'' \<and> CHR ''/'' \<notin> set c"

definition plain_path :: "string list \<Rightarrow> bool" where
  "plain_path cs \<longleftrightarrow> list_all plain_comp cs"

definition slash_free :: "string list \<Rightarrow> bool" where
  "slash_free cs \<longleftrightarrow> (\<forall>c \<in> set cs. CHR ''/'' \<notin> set c)"

lemma plain_path_simps [simp]:
  "plain_path []" "plain_path (c # cs) \<longleftrightarrow> plain_comp c \<and> plain_path cs"
  "plain_path (cs @ ds) \<longleftrightarrow> plain_path cs \<and> plain_path ds"
  by (simp_all add: plain_path_def)

lemma plain_compD:
  "plain_comp c \<Longrightarrow> c \<noteq> ''''" "plain_comp c \<Longrightarrow> c \<noteq> ''.''" "plain_comp c \<Longrightarrow> c \<noteq> ''..''"
  "plain_comp c \<Longrightarrow> CHR ''/'' \<notin> set c"
  by (simp_all add: plain_comp_def)

lemma plain_path_comp: "plain_path cs \<Longrightarrow> c \<in> set cs \<Longrightarrow> plain_comp c"
  by (simp add: plain_path_def list_all_iff)

lemma plain_path_butlast: "plain_path cs \<Longrightarrow> plain_path (butlast cs)"
  by (auto simp: plain_path_def list_all_iff dest: in_set_butlastD)

lemma plain_path_slash_free: "plain_path cs \<Longrightarrow> slash_free cs"
  by (auto simp: slash_free_def dest: plain_path_comp plain_compD(4))

text \<open>Cleaning a list of plain components changes nothing, whether rooted or not.\<close>

lemma clean_push_plain: "plain_comp c \<Longrightarrow> clean_push r kept c = kept @ [c]"
  by (simp add: clean_push_def plain_compD)

lemma foldl_clean_plain: "plain_path cs \<Longrightarrow> foldl (clean_push r) kept cs = kept @ cs"
  by (induction cs arbitrary: kept) (simp_all add: clean_push_plain)

lemma clean_comps_plain: "plain_path cs \<Longrightarrow> clean_comps r cs = cs"
  by (simp add: clean_comps_def foldl_clean_plain)

text \<open>A rooted clean keeps plain components only, so it cannot leave the root.\<close>

lemma foldl_clean_rooted:
  "plain_path kept \<Longrightarrow> slash_free cs \<Longrightarrow> plain_path (foldl (clean_push True) kept cs)"
proof (induction cs arbitrary: kept)
  case (Cons c cs)
  have "plain_path (clean_push True kept c)"
    using Cons.prems plain_path_butlast [of kept] plain_path_comp [of kept "last kept"]
    by (auto simp: clean_push_def plain_comp_def slash_free_def)
  with Cons show ?case by (simp add: slash_free_def)
qed simp

lemma clean_comps_rooted: "slash_free cs \<Longrightarrow> plain_path (clean_comps True cs)"
  by (simp add: clean_comps_def foldl_clean_rooted)

text \<open>
  A relative clean keeps some dot-dot components followed by plain ones: it is free of dot-dot
  exactly when its first component is not one.
\<close>

definition up_then_plain :: "string list \<Rightarrow> bool" where
  "up_then_plain cs \<longleftrightarrow> (\<exists>n ds. cs = replicate n ''..'' @ ds \<and> plain_path ds)"

lemma clean_push_up:
  assumes "up_then_plain kept" "CHR ''/'' \<notin> set c"
  shows "up_then_plain (clean_push r kept c)"
proof -
  from assms(1) obtain n ds where k: "kept = replicate n ''..'' @ ds" "plain_path ds"
    unfolding up_then_plain_def by blast
  consider "c = '''' \<or> c = ''.''" | "c = ''..''" "ds = []" | "c = ''..''" "ds \<noteq> []"
    | "plain_comp c"
    using assms(2) by (auto simp: plain_comp_def)
  then show ?thesis
  proof cases
    case 1
    then show ?thesis using assms(1) by (auto simp: clean_push_def)
  next
    case 2
    have "clean_push r kept c \<in> {[], [''..''], replicate (Suc n) ''..''}"
      using 2 k by (cases n) (auto simp: clean_push_def replicate_append_same)
    moreover have "up_then_plain []" "up_then_plain [''..'']" "up_then_plain (replicate (Suc n) ''..'')"
      unfolding up_then_plain_def
      by (rule exI [of _ 0], simp, rule exI [of _ 1], simp, rule exI [of _ "Suc n"], simp)
    ultimately show ?thesis by (elim insertE emptyE) simp_all
  next
    case 3
    then have "last kept = last ds" "last ds \<in> set ds" using k by simp_all
    then have "clean_push r kept c = replicate n ''..'' @ butlast ds"
      using 3 k plain_path_comp plain_compD(3) by (auto simp: clean_push_def butlast_append)
    then show ?thesis
      using k plain_path_butlast unfolding up_then_plain_def by blast
  next
    case 4
    then have "clean_push r kept c = replicate n ''..'' @ (ds @ [c])"
      using k by (simp add: clean_push_plain)
    moreover have "plain_path (ds @ [c])" using k 4 by simp
    ultimately show ?thesis unfolding up_then_plain_def by blast
  qed
qed

lemma clean_comps_up: "slash_free cs \<Longrightarrow> up_then_plain (clean_comps r cs)"
proof -
  have "up_then_plain kept \<Longrightarrow> slash_free cs \<Longrightarrow> up_then_plain (foldl (clean_push r) kept cs)" for kept
    by (induction cs arbitrary: kept) (simp_all add: clean_push_up slash_free_def)
  moreover have "up_then_plain []" unfolding up_then_plain_def by (rule exI [of _ 0]) simp
  ultimately show "slash_free cs \<Longrightarrow> ?thesis" by (simp add: clean_comps_def)
qed

lemma up_then_plain_cases:
  "up_then_plain cs \<Longrightarrow> plain_path cs \<or> (\<exists>ds. cs = ''..'' # ds)"
  unfolding up_then_plain_def by (metis append_Nil replicate_0 replicate_Suc append_Cons not0_implies_Suc)

lemma slash_free_Split: "slash_free (Split p CHR ''/'')"
  by (auto simp: slash_free_def dest: Split_parts)

section \<open>Dir and Base of a joined path\<close>

lemma Join_Nil_iff: "plain_path cs \<Longrightarrow> Join cs ''/'' = '''' \<longleftrightarrow> cs = []"
  by (cases "(cs, ''/'')" rule: Join.cases) (auto simp: plain_compD)

lemma Join_snoc: "cs \<noteq> [] \<Longrightarrow> Join (cs @ [c]) ''/'' = Join cs ''/'' @ CHR ''/'' # c"
  by (simp add: Join_append)

lemma Join_not_rooted: "plain_path cs \<Longrightarrow> \<not> prefix ''/'' (Join cs ''/'')"
proof (cases cs)
  case (Cons c ds)
  assume "plain_path cs"
  with Cons obtain x c' where "c = x # c'" "x \<noteq> CHR ''/''"
    by (cases c) (auto simp: plain_comp_def)
  with Cons show ?thesis by (cases ds) auto
qed simp

lemma Split_Join_plain: "plain_path cs \<Longrightarrow> cs \<noteq> [] \<Longrightarrow> Split (Join cs ''/'') CHR ''/'' = cs"
  by (rule Split_Join) (auto dest: plain_path_comp plain_compD(4))

lemma path_Clean_Join:
  "plain_path cs \<Longrightarrow> path_Clean (Join cs ''/'') = (if cs = [] then ''.'' else Join cs ''/'')"
  by (cases "cs = []")
     (simp_all add: path_Clean_def Let_def Join_not_rooted Split_Join_plain clean_comps_plain,
      simp add: clean_comps_def clean_push_def)

lemma foldl_clean_append:
  "clean_comps r (cs @ ds) = foldl (clean_push r) (clean_comps r cs) ds"
  by (simp add: clean_comps_def)

lemma path_Clean_Join_slash:
  assumes "plain_path cs" "cs \<noteq> []"
  shows "path_Clean (Join cs ''/'' @ ''/'') = Join cs ''/''"
proof -
  have "Join cs ''/'' @ ''/'' = Join (cs @ [[]]) [CHR ''/'']"
    using assms by (simp add: Join_append)
  moreover have "Split (Join (cs @ [[]]) [CHR ''/'']) CHR ''/'' = cs @ [[]]"
    by (rule Split_Join) (use assms in \<open>auto dest: plain_path_comp plain_compD(4)\<close>)
  moreover have "\<not> prefix ''/'' (Join cs ''/'' @ ''/'')"
    using Join_not_rooted [OF assms(1)] Join_Nil_iff [OF assms(1)] assms(2)
    by (cases "Join cs ''/''") auto
  moreover have "clean_comps False (cs @ [[]]) = cs"
    using assms by (simp add: foldl_clean_append clean_comps_plain clean_push_def)
  ultimately show ?thesis using assms by (simp add: path_Clean_def Let_def)
qed

lemma path_Dir_Join:
  assumes "plain_path (cs @ [c])"
  shows "path_Dir (Join (cs @ [c]) ''/'') = (if cs = [] then ''.'' else Join cs ''/'')"
proof (cases "cs = []")
  case True
  then show ?thesis
    using assms LastIndexByte_None_iff [of c "CHR ''/''"]
    by (simp add: path_Dir_def path_Split_def plain_compD path_Clean_def clean_comps_def
        clean_push_def Let_def)
next
  case False
  then have "LastIndexByte (Join (cs @ [c]) ''/'') CHR ''/'' = Some (length (Join cs ''/''))"
    using assms by (simp add: Join_snoc plain_compD)
  then show ?thesis
    using False assms path_Clean_Join_slash [of cs]
    by (simp add: path_Dir_def path_Split_def Join_snoc)
qed

lemma path_Base_Join:
  assumes "plain_path (cs @ [c])"
  shows "path_Base (Join (cs @ [c]) ''/'') = c"
proof -
  let ?p = "Join (cs @ [c]) ''/''"
  have c: "c \<noteq> []" "CHR ''/'' \<notin> set c" using assms by (auto simp: plain_compD)
  have l: "last ?p = last c" and ne: "?p \<noteq> []"
    using c by (cases "cs = []"; simp add: Join_snoc)+
  have "last c \<noteq> CHR ''/''" using c last_in_set by metis
  with l have s: "strip_slashes ?p = ?p" by (simp add: strip_slashes.simps)
  show ?thesis
  proof (cases "cs = []")
    case True
    then show ?thesis
      using c s LastIndexByte_None_iff [of c "CHR ''/''"] by (simp add: path_Base_def)
  next
    case False
    then show ?thesis using c s ne by (simp add: path_Base_def Join_snoc)
  qed
qed

end
