(* ===== verification/Rootfs_Layer.thy ===== *)
theory Rootfs_Layer
  imports Store_Dir Go_Path
begin

unbundle bit_operations_syntax

text \<open>
  Archive entries (src/rootfs/layer.go): what one tar header does to the tree. \<open>tar_Header\<close> holds
  the fields of archive/tar's Header that the code reads; \<open>ModTime\<close> is the Unix time in nanoseconds,
  \<open>None\<close> for the zero time. A content key is \<open>None\<close> where the code leaves the zero key.
\<close>

datatype kind = kindFile | kindDir | kindSymlink | kindHardlink | kindChar | kindBlock | kindFIFO
  | kindWhiteout | kindOpaque | kindSkip

record 'k entry =
  e_kind :: kind
  e_path :: string
  e_target :: string
  e_mode :: "64 word"
  e_uid :: "64 word"
  e_gid :: "64 word"
  e_mtime :: int
  e_rdev :: "64 word \<times> 64 word"
  e_xattrs :: "bytes gomap"
  e_content :: "'k option"
  e_reason :: string

record tar_Header =
  Typeflag :: char
  h_Name :: string
  Linkname :: string
  h_Mode :: int
  h_Uid :: int
  h_Gid :: int
  ModTime :: "int option"
  Devmajor :: int
  Devminor :: int
  PAXRecords :: "string gomap"

definition entry_skip :: "'k entry \<Rightarrow> string \<Rightarrow> 'k entry" where
  "entry_skip e reason = e\<lparr>e_kind := kindSkip, e_reason := reason\<rparr>"

definition whiteoutPrefix :: string where "whiteoutPrefix = ''.wh.''"
definition opaqueWhiteout :: string where "opaqueWhiteout = ''.wh..wh..opq''"
definition paxXattrPrefix :: string where "paxXattrPrefix = ''SCHILY.xattr.''"
definition paxSparse :: string where "paxSparse = ''GNU.sparse.''"

text \<open>hasContent: archive/tar's TypeReg, TypeCont and TypeGNUSparse.\<close>

definition hasContent :: "char \<Rightarrow> bool" where
  "hasContent flag \<longleftrightarrow> flag = CHR ''0'' \<or> flag = CHR ''7'' \<or> flag = CHR ''S''"

definition cleanPath :: "string \<Rightarrow> string \<times> bool" where
  "cleanPath name =
     (let p = TrimPrefix (path_Clean name) ''/'' in
      if p = ''.'' \<or> p = '''' then ('''', True)
      else if p = ''..'' \<or> HasPrefix p ''../'' then (p, False)
      else (p, True))"

definition joinPath :: "string \<Rightarrow> string \<Rightarrow> string" where
  "joinPath dir name = (if dir = '''' then name else dir @ ''/'' @ name)"

definition isSparse :: "tar_Header \<Rightarrow> bool" where
  "isSparse hdr \<longleftrightarrow>
     Typeflag hdr = CHR ''S'' \<or> list_ex (\<lambda>(k, _). HasPrefix k paxSparse) (PAXRecords hdr)"

definition paxXattrs :: "string gomap \<Rightarrow> bytes gomap" where
  "paxXattrs records =
     foldl (\<lambda>m (k, v). case CutPrefix k paxXattrPrefix of
              None \<Rightarrow> m
            | Some name \<Rightarrow> if name = '''' then m else AList.update name v m) [] records"

definition clampUint :: "int \<Rightarrow> 64 word" where
  "clampUint n = (if n < 0 then 0 else word_of_int n)"

definition mtimeNanos :: "int option \<Rightarrow> int" where
  "mtimeNanos t = (case t of None \<Rightarrow> 0 | Some ns \<Rightarrow> ns)"

text \<open>
  convert in three parts: a whiteout name, the switch on the type flag, and the header's metadata
  with the guards in front of both.
\<close>

definition convert_whiteout :: "'k entry \<Rightarrow> string \<Rightarrow> 'k entry" where
  "convert_whiteout e p =
     (let base = path_Base p;
          dir = (if path_Dir p = ''.'' then '''' else path_Dir p) in
      if base = opaqueWhiteout then e\<lparr>e_kind := kindOpaque, e_path := dir\<rparr>
      else let name = TrimPrefix base whiteoutPrefix in
        if name = '''' then entry_skip e ''whiteout without a name''
        else e\<lparr>e_kind := kindWhiteout, e_path := joinPath dir name\<rparr>)"

definition convert_type :: "tar_Header \<Rightarrow> 'k option \<Rightarrow> 'k entry \<Rightarrow> 'k entry" where
  "convert_type hdr content e =
     (let flag = Typeflag hdr in
      if flag = CHR ''0'' \<or> flag = CHR ''7''
      then e\<lparr>e_kind := kindFile, e_content := content\<rparr>
      else if flag = CHR ''5'' then e\<lparr>e_kind := kindDir\<rparr>
      else if flag = CHR ''2'' then e\<lparr>e_kind := kindSymlink, e_target := Linkname hdr\<rparr>
      else if flag = CHR ''1'' then
        (let (target, ok) = cleanPath (Linkname hdr) in
         if \<not> ok then entry_skip e ''hard link target escapes the root''
         else e\<lparr>e_kind := kindHardlink, e_target := target\<rparr>)
      else if flag = CHR ''3'' then
        e\<lparr>e_kind := kindChar, e_rdev := (clampUint (Devmajor hdr), clampUint (Devminor hdr))\<rparr>
      else if flag = CHR ''4'' then
        e\<lparr>e_kind := kindBlock, e_rdev := (clampUint (Devmajor hdr), clampUint (Devminor hdr))\<rparr>
      else if flag = CHR ''6'' then e\<lparr>e_kind := kindFIFO\<rparr>
      else entry_skip e (''unsupported type '' @ [flag]))"

definition convert :: "tar_Header \<Rightarrow> 'k option \<Rightarrow> 'k entry" where
  "convert hdr content =
     (let (p, ok) = cleanPath (h_Name hdr);
          e = \<lparr>e_kind = kindFile, e_path = p, e_target = '''',
               e_mode = word_of_int (h_Mode hdr) AND 0xFFF,
               e_uid = clampUint (h_Uid hdr), e_gid = clampUint (h_Gid hdr),
               e_mtime = mtimeNanos (ModTime hdr), e_rdev = (0, 0),
               e_xattrs = paxXattrs (PAXRecords hdr), e_content = None, e_reason = ''''\<rparr>
      in if \<not> ok then entry_skip e ''path escapes the root''
         else if isSparse hdr then entry_skip e ''sparse file''
         else if p \<noteq> '''' \<and> HasPrefix (path_Base p) whiteoutPrefix then convert_whiteout e p
         else convert_type hdr content e)"

section \<open>Cleaned paths\<close>

text \<open>
  A cleaned path is empty or a join of plain components: no empty, dot or dot-dot component.
\<close>

definition clean_path :: "string \<Rightarrow> bool" where
  "clean_path p \<longleftrightarrow> (\<exists>cs. plain_path cs \<and> p = Join cs ''/'')"

lemma clean_path_empty [simp]: "clean_path ''''"
  unfolding clean_path_def by (rule exI [of _ "[]"]) simp

lemma cleanPath_ok: "cleanPath name = (p, True) \<Longrightarrow> clean_path p"
proof -
  assume a: "cleanPath name = (p, True)"
  define r where "r = HasPrefix name ''/''"
  define cs where "cs = clean_comps r (Split name CHR ''/'')"
  have up: "up_then_plain cs" unfolding cs_def by (rule clean_comps_up [OF slash_free_Split])
  have pl: "plain_path cs" if r using that slash_free_Split clean_comps_rooted unfolding cs_def by auto
  have pc: "path_Clean name =
      (if r then CHR ''/'' # Join cs ''/'' else if cs = [] then ''.'' else Join cs ''/'')"
    by (simp only: path_Clean_def Let_def r_def cs_def)
  have q: "TrimPrefix (path_Clean name) ''/'' = (if cs = [] then (if r then '''' else ''.'') else Join cs ''/'')"
    if "plain_path cs"
    using that Join_not_rooted [OF that]
    by (auto simp: pc TrimPrefix_def)
  show ?thesis
  proof (cases "plain_path cs")
    case True
    with a q [OF True] show ?thesis
      unfolding cleanPath_def Let_def clean_path_def
      by (auto split: if_splits intro: exI [of _ "[]"] exI [of _ cs])
  next
    case False
    with up_then_plain_cases [OF up] pl obtain ds where ds: "cs = ''..'' # ds" "\<not> r" by blast
    then have "path_Clean name = ''..'' \<or> prefix ''../'' (path_Clean name)"
      by (cases ds) (auto simp: pc)
    moreover from this have "\<not> prefix ''/'' (path_Clean name)" by (auto simp: prefix_def)
    ultimately show ?thesis using a
      by (auto simp: cleanPath_def Let_def TrimPrefix_def CutPrefix_def split: if_splits)
  qed
qed

lemma cleanPath_clean: "plain_path cs \<Longrightarrow> cleanPath (Join cs ''/'') = (Join cs ''/'', True)"
proof (cases cs rule: rev_cases)
  case (snoc ds c)
  assume p: "plain_path cs"
  have t: "TrimPrefix (Join cs ''/'') ''/'' = Join cs ''/''"
    using Join_not_rooted [OF p] by (auto simp: TrimPrefix_def CutPrefix_def)
  have c: "Split (Join cs ''/'') CHR ''/'' = cs" using p snoc by (simp add: Split_Join_plain)
  have "Join cs ''/'' \<noteq> ''.''" "Join cs ''/'' \<noteq> ''..''" "\<not> prefix ''../'' (Join cs ''/'')"
    using c p plain_path_comp [OF p] by (auto simp: prefix_def plain_comp_def)
  with t p snoc show ?thesis by (simp add: cleanPath_def Let_def path_Clean_Join)
qed (simp add: cleanPath_def path_Clean_def TrimPrefix_def CutPrefix_def clean_comps_def clean_push_def)

lemma clean_path_parts:
  assumes "clean_path p" "p \<noteq> ''''"
  obtains cs c where "plain_path (cs @ [c])" "p = Join (cs @ [c]) ''/''"
proof -
  from assms obtain ds where ds: "plain_path ds" "p = Join ds ''/''" "ds \<noteq> []"
    unfolding clean_path_def by fastforce
  then show ?thesis using that by (metis append_butlast_last_id)
qed

lemma clean_path_dir:
  assumes "clean_path p" "p \<noteq> ''''"
  shows "clean_path (if path_Dir p = ''.'' then '''' else path_Dir p)"
proof -
  obtain cs c where p: "plain_path (cs @ [c])" "p = Join (cs @ [c]) ''/''"
    using clean_path_parts [OF assms] .
  have "Join cs ''/'' \<noteq> ''.''" if "cs \<noteq> []"
    using Split_Join_plain [of cs] that p(1) plain_path_comp [of cs "hd cs"]
    by (auto simp: plain_comp_def)
  then show ?thesis using p by (auto simp: path_Dir_Join clean_path_def)
qed

section \<open>What convert returns\<close>

definition perm_bits :: "64 word \<Rightarrow> bool" where
  "perm_bits m \<longleftrightarrow> m AND 0xFFF = m"

definition entry_wf :: "'k entry \<Rightarrow> bool" where
  "entry_wf e \<longleftrightarrow>
     perm_bits (e_mode e)
     \<and> (e_kind e \<notin> {kindSkip, kindWhiteout} \<longrightarrow> clean_path (e_path e))
     \<and> (e_kind e = kindHardlink \<longrightarrow> clean_path (e_target e))
     \<and> (e_kind e = kindFile \<longrightarrow> e_content e \<noteq> None)
     \<and> (e_kind e = kindWhiteout \<longrightarrow>
          (\<exists>dir name. clean_path dir \<and> name \<noteq> '''' \<and> CHR ''/'' \<notin> set name
             \<and> e_path e = joinPath dir name))"

lemma perm_bits_and: "perm_bits (m AND 0xFFF)"
  by (simp add: perm_bits_def and.assoc)

lemma entry_wf_skip: "perm_bits (e_mode e) \<Longrightarrow> entry_wf (entry_skip e r)"
  by (simp add: entry_wf_def entry_skip_def)

lemma entry_wf_whiteout:
  assumes "perm_bits (e_mode e)" "clean_path p" "p \<noteq> ''''"
  shows "entry_wf (convert_whiteout e p)"
proof -
  obtain cs c where q: "plain_path (cs @ [c])" "p = Join (cs @ [c]) ''/''"
    using clean_path_parts [OF assms(2,3)] .
  then have "CHR ''/'' \<notin> set (TrimPrefix (path_Base p) whiteoutPrefix)"
    using plain_compD(4) [of c] by (auto simp: path_Base_Join TrimPrefix_def dest: in_set_dropD)
  then show ?thesis
    using assms(1) clean_path_dir [OF assms(2,3)]
    unfolding convert_whiteout_def Let_def entry_skip_def entry_wf_def
    by (auto split: if_splits intro: exI [of _ "[]"])
qed

lemma entry_wf_type:
  assumes "perm_bits (e_mode e)" "clean_path (e_path e)"
    and "hasContent (Typeflag hdr) \<longrightarrow> content \<noteq> None"
  shows "entry_wf (convert_type hdr content e)"
proof -
  have "clean_path t" if "cleanPath (Linkname hdr) = (t, True)" for t using cleanPath_ok that .
  with assms show ?thesis
    by (cases "cleanPath (Linkname hdr)")
       (simp add: convert_type_def Let_def entry_wf_def entry_skip_def hasContent_def)
qed

text \<open>
  Every archive header becomes a well-formed entry: its mode holds permission bits only, so
  the type bits come from the entry's kind alone; the path of everything that is placed in the
  tree, the directory of an opaque whiteout and the target of a hard link are cleaned, so none of
  them has a dot-dot component that leaves the root; a regular file carries the content key that
  was found for it; and a whiteout names one entry of a cleaned directory.
\<close>

theorem convert_entry_wf:
  assumes "hasContent (Typeflag hdr) \<longrightarrow> content \<noteq> None"
  shows "entry_wf (convert hdr content)"
  using cleanPath_ok [of "h_Name hdr"] assms
  by (auto simp: convert_def Let_def perm_bits_and split: prod.split
      intro!: entry_wf_skip entry_wf_whiteout entry_wf_type)

theorem convert_entry_wf_witness:
  "entry_wf (convert \<lparr>Typeflag = CHR ''0'', h_Name = ''./usr//bin/../x'', Linkname = '''',
     h_Mode = 33261, h_Uid = -1, h_Gid = 0, ModTime = None, Devmajor = 0, Devminor = 0,
     PAXRecords = []\<rparr> (Some (7::nat)))"
  by (rule convert_entry_wf) simp

end
