(* ===== verification/Rootfs_Tree.thy ===== *)
theory Rootfs_Tree
  imports Rootfs_Layer
begin

unbundle bit_operations_syntax

text \<open>
  The merged tree (src/rootfs/tree.go). A node is its attributes and its children, an association
  list with distinct names; a directory is reached by the list of names that leads to it from the
  root, which is what the code's stack of node pointers spells out. resolveDir keeps the loop of
  the code with its hop counter and returns the tree as well, because with \<open>create\<close> it adds
  directories on the way, also on the way to an error.
\<close>

record 'k attr =
  a_mode :: "64 word"
  a_uid :: "64 word"
  a_gid :: "64 word"
  a_mtime :: int
  a_content :: "'k option"
  a_link :: string
  a_rdev :: "64 word \<times> 64 word"
  a_xattrs :: "bytes gomap"
  a_implicit :: bool

datatype 'k node = Node (attr: "'k attr") (children: "(string \<times> 'k node) list")

definition maxSymlinkHops :: nat where "maxSymlinkHops = 40"

definition implicit_attr :: "'k attr" where
  "implicit_attr = \<lparr>a_mode = TypeDir OR 0x1ED, a_uid = 0, a_gid = 0, a_mtime = 0, a_content = None,
     a_link = '''', a_rdev = (0, 0), a_xattrs = [], a_implicit = True\<rparr>"

definition newDir :: "'k node" where
  "newDir = Node implicit_attr []"

definition attr_typ :: "'k attr \<Rightarrow> 64 word" where
  "attr_typ a = a_mode a AND TypeMask"

definition node_typ :: "'k node \<Rightarrow> 64 word" where
  "node_typ n = attr_typ (attr n)"

definition newTree :: "'k node" where
  "newTree = newDir"

definition splitPath :: "string \<Rightarrow> string list" where
  "splitPath p = (if p = '''' then [] else Split p CHR ''/'')"

definition splitParent :: "string \<Rightarrow> string \<times> string" where
  "splitParent p = (if path_Dir p = ''.'' then '''' else path_Dir p, path_Base p)"

section \<open>Reading and writing a place in the tree\<close>

fun get_at :: "'k node \<Rightarrow> string list \<Rightarrow> 'k node option" where
  "get_at n [] = Some n"
| "get_at n (c # cs) =
     (case map_of (children n) c of None \<Rightarrow> None | Some m \<Rightarrow> get_at m cs)"

fun upd_at :: "'k node \<Rightarrow> string list \<Rightarrow> ('k node \<Rightarrow> 'k node) \<Rightarrow> 'k node" where
  "upd_at n [] f = f n"
| "upd_at n (c # cs) f =
     (case map_of (children n) c of
        None \<Rightarrow> n
      | Some m \<Rightarrow> Node (attr n) (AList.update c (upd_at m cs f) (children n)))"

definition set_child :: "string \<Rightarrow> 'k node \<Rightarrow> 'k node \<Rightarrow> 'k node" where
  "set_child c m n = Node (attr n) (AList.update c m (children n))"

definition del_child :: "string \<Rightarrow> 'k node \<Rightarrow> 'k node" where
  "del_child c n = Node (attr n) (AList.delete c (children n))"

definition clear_children :: "'k node \<Rightarrow> 'k node" where
  "clear_children n = Node (attr n) []"

section \<open>Resolution\<close>

text \<open>
  The first component of the result is the error (the reason of a skip) or the stack, \<open>None\<close> for
  the nil stack. A stack always names a directory of the tree, so the lookup of its top succeeds.
\<close>

function resolve_loop ::
  "bool \<Rightarrow> nat \<Rightarrow> string list \<Rightarrow> string list \<Rightarrow> 'k node \<Rightarrow> (string + string list option) \<times> 'k node"
where
  "resolve_loop create hops stack [] t = (Inr (Some stack), t)"
| "resolve_loop create hops stack (c # comps) t =
     (if c = '''' \<or> c = ''.'' then resolve_loop create hops stack comps t
      else if c = ''..'' then resolve_loop create hops (butlast stack) comps t
      else case get_at t stack of
        None \<Rightarrow> (Inr None, t)
      | Some dir \<Rightarrow>
          (case map_of (children dir) c of
             None \<Rightarrow>
               if \<not> create then (Inr None, t)
               else resolve_loop create hops (stack @ [c]) comps
                      (upd_at t stack (set_child c newDir))
           | Some child \<Rightarrow>
               if node_typ child = TypeLink then
                 (if Suc hops > maxSymlinkHops then (Inl ''symlink loop'', t)
                  else resolve_loop create (Suc hops)
                         (if HasPrefix (a_link (attr child)) ''/'' then [] else stack)
                         (Split (TrimPrefix (a_link (attr child)) ''/'') CHR ''/'' @ comps) t)
               else if node_typ child \<noteq> TypeDir then
                 (if \<not> create then (Inr None, t)
                  else resolve_loop create hops (stack @ [c]) comps
                         (upd_at t stack (set_child c newDir)))
               else resolve_loop create hops (stack @ [c]) comps t))"
  by pat_completeness auto
termination
  by (relation "measures [\<lambda>(create, hops, stack, comps, t). Suc maxSymlinkHops - hops,
                          \<lambda>(create, hops, stack, comps, t). length comps]")
     auto

definition resolveDir ::
  "'k node \<Rightarrow> string list \<Rightarrow> bool \<Rightarrow> (string + string list option) \<times> 'k node" where
  "resolveDir t comps create = resolve_loop create 0 [] comps t"

text \<open>With \<open>create\<close> the stack is never nil, so parentOf returns the directory's place.\<close>

definition parentOf :: "'k node \<Rightarrow> string \<Rightarrow> (string + (string list \<times> string)) \<times> 'k node" where
  "parentOf t p =
     (let (dir, name) = splitParent p in
      case resolveDir t (splitPath dir) True of
        (Inl er, t') \<Rightarrow> (Inl er, t')
      | (Inr st, t') \<Rightarrow> (Inr (case st of None \<Rightarrow> [] | Some s \<Rightarrow> s, name), t'))"

definition lookup :: "'k node \<Rightarrow> string \<Rightarrow> string + 'k node option" where
  "lookup t p =
     (if p = '''' then Inr (Some t)
      else let (dir, name) = splitParent p in
        case fst (resolveDir t (splitPath dir) False) of
          Inl er \<Rightarrow> Inl er
        | Inr None \<Rightarrow> Inr None
        | Inr (Some s) \<Rightarrow> Inr (case get_at t s of
                                 None \<Rightarrow> None
                               | Some d \<Rightarrow> map_of (children d) name))"

section \<open>Operations\<close>

text \<open>Each returns the error, \<open>None\<close> for nil, and the tree.\<close>

definition base_attr :: "'k entry \<Rightarrow> 'k attr" where
  "base_attr e = \<lparr>a_mode = e_mode e, a_uid = e_uid e, a_gid = e_gid e, a_mtime = e_mtime e,
     a_content = None, a_link = '''', a_rdev = (0, 0), a_xattrs = e_xattrs e, a_implicit = False\<rparr>"

definition put_node :: "'k entry \<Rightarrow> 'k node option \<Rightarrow> 'k node option" where
  "put_node e old =
     (let a = base_attr e in
      case e_kind e of
        kindFile \<Rightarrow> Some (Node (a\<lparr>a_mode := a_mode a OR TypeReg, a_content := e_content e\<rparr>) [])
      | kindDir \<Rightarrow>
          Some (Node (a\<lparr>a_mode := a_mode a OR TypeDir\<rparr>)
                 (case old of
                    None \<Rightarrow> []
                  | Some n \<Rightarrow> if node_typ n = TypeDir then children n else []))
      | kindSymlink \<Rightarrow> Some (Node (a\<lparr>a_mode := a_mode a OR TypeLink, a_link := e_target e\<rparr>) [])
      | kindChar \<Rightarrow> Some (Node (a\<lparr>a_mode := a_mode a OR TypeChar, a_rdev := e_rdev e\<rparr>) [])
      | kindBlock \<Rightarrow> Some (Node (a\<lparr>a_mode := a_mode a OR TypeBlock, a_rdev := e_rdev e\<rparr>) [])
      | kindFIFO \<Rightarrow> Some (Node (a\<lparr>a_mode := a_mode a OR TypeFIFO\<rparr>) [])
      | _ \<Rightarrow> None)"

definition put :: "'k node \<Rightarrow> 'k entry \<Rightarrow> string option \<times> 'k node" where
  "put t e =
     (if e_path e = '''' then
        (if e_kind e = kindDir then (None, t) else (Some ''root is not a directory'', t))
      else case parentOf t (e_path e) of
        (Inl er, t1) \<Rightarrow> (Some er, t1)
      | (Inr (s, name), t1) \<Rightarrow>
          (case put_node e (get_at t1 (s @ [name])) of
             None \<Rightarrow> (Some ''rootfs: put of kind'', t1)
           | Some n \<Rightarrow> (None, upd_at t1 s (set_child name n))))"

definition link_attr :: "'k entry \<Rightarrow> 'k attr \<Rightarrow> 'k attr" where
  "link_attr e a =
     a\<lparr>a_mode := attr_typ a OR e_mode e, a_uid := e_uid e, a_gid := e_gid e,
       a_mtime := e_mtime e, a_xattrs := e_xattrs e\<rparr>"

definition link :: "'k node \<Rightarrow> 'k entry \<Rightarrow> string option \<times> 'k node" where
  "link t e =
     (case lookup t (e_target e) of
        Inl er \<Rightarrow> (Some er, t)
      | Inr None \<Rightarrow> (Some ''hard link target not found'', t)
      | Inr (Some target) \<Rightarrow>
          if node_typ target = TypeDir then (Some ''hard link to a directory'', t)
          else case parentOf t (e_path e) of
            (Inl er, t1) \<Rightarrow> (Some er, t1)
          | (Inr (s, name), t1) \<Rightarrow>
              (None, upd_at t1 s (set_child name (Node (link_attr e (attr target)) (children target)))))"

definition whiteout :: "'k node \<Rightarrow> 'k entry \<Rightarrow> string option \<times> 'k node" where
  "whiteout t e =
     (if e_path e = '''' then (None, t)
      else let (dir, name) = splitParent (e_path e) in
        case fst (resolveDir t (splitPath dir) False) of
          Inl er \<Rightarrow> (Some er, t)
        | Inr None \<Rightarrow> (None, t)
        | Inr (Some s) \<Rightarrow> (None, upd_at t s (del_child name)))"

definition opaque :: "'k node \<Rightarrow> 'k entry \<Rightarrow> string option \<times> 'k node" where
  "opaque t e =
     (case fst (resolveDir t (splitPath (e_path e)) False) of
        Inl er \<Rightarrow> (Some er, t)
      | Inr None \<Rightarrow> (None, t)
      | Inr (Some s) \<Rightarrow> (None, upd_at t s clear_children))"

section \<open>The flat view of a tree\<close>

text \<open>
  \<open>view t\<close> is the filesystem a tree stands for: a partial map from places to attributes. The
  specification of an operation is its effect on this map.
\<close>

definition view :: "'k node \<Rightarrow> string list \<Rightarrow> 'k attr option" where
  "view t p = map_option attr (get_at t p)"

definition is_dir_at :: "'k node \<Rightarrow> string list \<Rightarrow> bool" where
  "is_dir_at t p \<longleftrightarrow> (case view t p of None \<Rightarrow> False | Some a \<Rightarrow> attr_typ a = TypeDir)"

fun wf_node :: "'k node \<Rightarrow> bool" where
  "wf_node (Node a cs) \<longleftrightarrow>
     distinct (map fst cs) \<and> (cs = [] \<or> attr_typ a = TypeDir) \<and> (\<forall>x \<in> set cs. wf_node (snd x))"

definition wf_tree :: "'k node \<Rightarrow> bool" where
  "wf_tree t \<longleftrightarrow> wf_node t \<and> node_typ t = TypeDir"

lemma set_child_simps [simp]:
  "attr (set_child c m n) = attr n"
  "map_of (children (set_child c m n)) = (map_of (children n))(c \<mapsto> m)"
  by (simp_all add: set_child_def)

lemma del_child_simps [simp]:
  "attr (del_child c n) = attr n"
  "map_of (children (del_child c n)) = (map_of (children n))(c := None)"
  by (simp_all add: del_child_def)

lemma clear_children_simps [simp]:
  "attr (clear_children n) = attr n" "children (clear_children n) = []"
  by (simp_all add: clear_children_def)

lemma get_at_append:
  "get_at t (p @ q) = (case get_at t p of None \<Rightarrow> None | Some n \<Rightarrow> get_at n q)"
  by (induction t p rule: get_at.induct) (auto split: option.splits)

lemma get_at_snoc:
  "get_at t (p @ [c]) = (case get_at t p of None \<Rightarrow> None | Some n \<Rightarrow> map_of (children n) c)"
  by (auto simp: get_at_append split: option.splits)

lemma get_upd_at_below: "get_at t p = Some n \<Longrightarrow> get_at (upd_at t p f) (p @ q) = get_at (f n) q"
  by (induction t p rule: get_at.induct) (auto split: option.splits)

lemma upd_at_None: "get_at t p = None \<Longrightarrow> upd_at t p f = t"
proof (induction t p rule: get_at.induct)
  case (2 n c cs)
  then show ?case
    by (cases n) (auto simp: update_triv split: option.splits)
qed simp

lemma view_upd_at_other:
  "\<not> prefix p q \<Longrightarrow> view (upd_at t p f) q = view t q"
proof (induction t p arbitrary: q rule: get_at.induct)
  case (2 n c cs)
  then show ?case
    by (cases q) (auto simp: view_def split: option.splits)
qed simp

lemma view_upd_at:
  assumes "get_at t p = Some n"
  shows "view (upd_at t p f) q = (if prefix p q then view (f n) (drop (length p) q) else view t q)"
  using get_upd_at_below [OF assms, of f] view_upd_at_other [of p q t f]
  by (auto simp: view_def prefix_def)

lemma view_Cons: "view n (c # cs) = (case map_of (children n) c of None \<Rightarrow> None | Some m \<Rightarrow> view m cs)"
  by (auto simp: view_def split: option.splits)

lemma view_Nil [simp]: "view n [] = Some (attr n)"
  by (simp add: view_def)

lemma view_append: "get_at t p = Some n \<Longrightarrow> view t (p @ q) = view n q"
  by (simp add: view_def get_at_append)

text \<open>The three ways an operation changes a directory, on the flat view.\<close>

lemma view_set_child:
  assumes "get_at t s = Some d"
  shows "view (upd_at t s (set_child c m)) q =
           (if prefix (s @ [c]) q then view m (drop (Suc (length s)) q) else view t q)"
proof (cases "prefix s q")
  case True
  then obtain r where q: "q = s @ r" by (auto simp: prefix_def)
  show ?thesis
    using assms view_append [OF assms, of r]
    by (cases r) (auto simp: q view_upd_at view_Cons)
next
  case False
  then have "\<not> prefix (s @ [c]) q" by (auto dest: append_prefixD)
  with False show ?thesis by (simp add: view_upd_at_other)
qed

lemma view_del_child:
  assumes "get_at t s = Some d"
  shows "view (upd_at t s (del_child c)) q = (if prefix (s @ [c]) q then None else view t q)"
proof (cases "prefix s q")
  case True
  then obtain r where q: "q = s @ r" by (auto simp: prefix_def)
  show ?thesis
    using assms view_append [OF assms, of r]
    by (cases r) (auto simp: q view_upd_at view_Cons)
next
  case False
  then have "\<not> prefix (s @ [c]) q" by (auto dest: append_prefixD)
  with False show ?thesis by (simp add: view_upd_at_other)
qed

lemma view_clear_children:
  assumes "get_at t s = Some d"
  shows "view (upd_at t s clear_children) q = (if strict_prefix s q then None else view t q)"
proof (cases "prefix s q")
  case True
  then obtain r where q: "q = s @ r" by (auto simp: prefix_def)
  show ?thesis
    using assms view_append [OF assms, of r]
    by (cases r) (auto simp: q view_upd_at view_Cons strict_prefix_def)
next
  case False
  then have "\<not> strict_prefix s q" by auto
  with False show ?thesis by (simp add: view_upd_at_other)
qed

section \<open>Well-formed trees\<close>

lemma wf_node_iff:
  "wf_node n \<longleftrightarrow> distinct (map fst (children n)) \<and> (children n = [] \<or> node_typ n = TypeDir)
     \<and> (\<forall>x \<in> set (children n). wf_node (snd x))"
  by (cases n) (simp add: node_typ_def)

lemma wf_node_child: "wf_node n \<Longrightarrow> map_of (children n) c = Some m \<Longrightarrow> wf_node m"
  by (cases n) (auto dest: map_of_SomeD)

lemma wf_node_get_at: "wf_node t \<Longrightarrow> get_at t p = Some n \<Longrightarrow> wf_node n"
  by (induction t p rule: get_at.induct) (auto split: option.splits dest: wf_node_child)

lemma set_AList_update: "x \<in> set (AList.update k v al) \<Longrightarrow> x = (k, v) \<or> x \<in> set al"
  by (induction al) (auto split: if_splits)

lemma wf_set_child:
  "wf_node n \<Longrightarrow> node_typ n = TypeDir \<Longrightarrow> wf_node m \<Longrightarrow> wf_node (set_child c m n)"
  by (cases n) (auto simp: set_child_def node_typ_def distinct_update dest: set_AList_update)

lemma wf_del_child: "wf_node n \<Longrightarrow> wf_node (del_child c n)"
  by (cases n) (auto simp: del_child_def AList.delete_eq distinct_map_filter)

lemma wf_clear_children: "wf_node n \<Longrightarrow> wf_node (clear_children n)"
  by (cases n) (simp add: clear_children_def)

lemma wf_upd_at:
  "wf_node t \<Longrightarrow> (\<And>n. get_at t p = Some n \<Longrightarrow> wf_node (f n)) \<Longrightarrow> wf_node (upd_at t p f)"
proof (induction t p rule: get_at.induct)
  case (2 n c cs)
  show ?case
  proof (cases "map_of (children n) c")
    case (Some m)
    with 2 have "wf_node (upd_at m cs f)" by (auto dest: wf_node_child)
    moreover have "node_typ n = TypeDir" using 2(2) Some by (cases n) (auto simp: node_typ_def)
    ultimately show ?thesis using Some 2(2) wf_set_child by (simp add: set_child_def)
  qed (use 2 in simp)
qed simp

lemma attr_upd_at: "(\<And>n. attr (f n) = attr n) \<Longrightarrow> attr (upd_at t p f) = attr t"
  by (cases p) (auto split: option.splits)

lemma is_dir_at_iff: "is_dir_at t p \<longleftrightarrow> (\<exists>d. get_at t p = Some d \<and> node_typ d = TypeDir)"
  by (auto simp: is_dir_at_def view_def node_typ_def split: option.splits)

lemma is_dir_at_prefix: "wf_tree t \<Longrightarrow> is_dir_at t (p @ q) \<Longrightarrow> is_dir_at t p"
proof (cases q)
  case (Cons c cs)
  assume wf: "wf_tree t" and d: "is_dir_at t (p @ q)"
  then obtain n where n: "get_at t p = Some n" and ch: "map_of (children n) c \<noteq> None"
    by (auto simp: is_dir_at_iff get_at_append Cons split: option.splits)
  have "wf_node n" using wf_node_get_at n wf by (auto simp: wf_tree_def)
  with ch n show ?thesis by (cases n) (auto simp: is_dir_at_iff node_typ_def)
qed simp

lemma is_dir_at_butlast: "wf_tree t \<Longrightarrow> is_dir_at t p \<Longrightarrow> is_dir_at t (butlast p)"
  by (cases p rule: rev_cases) (auto dest: is_dir_at_prefix)

lemma is_dir_at_root: "wf_tree t \<Longrightarrow> is_dir_at t []"
  by (simp add: is_dir_at_iff wf_tree_def)

lemma typ_newDir [simp]: "node_typ newDir = TypeDir" "attr_typ implicit_attr = TypeDir"
  by (simp_all add: newDir_def node_typ_def attr_typ_def implicit_attr_def type_bits)

lemma wf_newDir [simp]: "wf_node newDir"
  by (simp add: newDir_def)

lemma newDir_simps [simp]: "attr newDir = implicit_attr" "children newDir = []"
  by (simp_all add: newDir_def)

section \<open>Resolution keeps the tree and ends at a directory\<close>

text \<open>
  What creating directories on the way may do to the flat view: a place that was a directory keeps
  its attributes, everything that is new is an implicit directory, and nothing but a leaf is
  replaced.
\<close>

definition only_dirs_added :: "'k node \<Rightarrow> 'k node \<Rightarrow> bool" where
  "only_dirs_added t t' \<longleftrightarrow>
     (\<forall>q. view t' q = view t q
        \<or> (view t' q = Some implicit_attr \<and> \<not> is_dir_at t q
           \<and> (case view t q of None \<Rightarrow> True | Some a \<Rightarrow> attr_typ a \<noteq> TypeLink)))"

lemma only_dirs_added_refl [simp]: "only_dirs_added t t"
  by (simp add: only_dirs_added_def)

lemma only_dirs_added_trans:
  assumes "only_dirs_added t t'" "only_dirs_added t' t''"
  shows "only_dirs_added t t''"
  unfolding only_dirs_added_def
proof
  fix q
  show "view t'' q = view t q \<or> (view t'' q = Some implicit_attr \<and> \<not> is_dir_at t q
           \<and> (case view t q of None \<Rightarrow> True | Some a \<Rightarrow> attr_typ a \<noteq> TypeLink))"
    using assms(1) [unfolded only_dirs_added_def, rule_format, of q]
      assms(2) [unfolded only_dirs_added_def, rule_format, of q]
    by (auto simp: is_dir_at_def)
qed

lemma only_dirs_added_dir: "only_dirs_added t t' \<Longrightarrow> is_dir_at t q \<Longrightarrow> view t' q = view t q"
  by (auto simp: only_dirs_added_def)

lemma only_dirs_added_is_dir: "only_dirs_added t t' \<Longrightarrow> is_dir_at t q \<Longrightarrow> is_dir_at t' q"
  by (simp add: is_dir_at_def only_dirs_added_dir)

lemma make_dir_step:
  assumes wf: "wf_tree t" and d: "get_at t s = Some d" "node_typ d = TypeDir"
    and c: "\<And>m. map_of (children d) c = Some m \<Longrightarrow> node_typ m \<noteq> TypeDir \<and> node_typ m \<noteq> TypeLink"
  defines "t' \<equiv> upd_at t s (set_child c newDir)"
  shows "wf_tree t'" "is_dir_at t' (s @ [c])" "only_dirs_added t t'"
proof -
  have wfd: "wf_node d" using wf d wf_node_get_at by (auto simp: wf_tree_def)
  have "attr t' = attr t" unfolding t'_def by (rule attr_upd_at) simp
  moreover have "wf_node t'"
    unfolding t'_def by (rule wf_upd_at) (use wf wfd d in \<open>auto simp: wf_tree_def intro!: wf_set_child\<close>)
  ultimately show "wf_tree t'" using wf by (simp add: wf_tree_def node_typ_def)
  have v: "view t' q = (if prefix (s @ [c]) q then view newDir (drop (Suc (length s)) q) else view t q)"
    for q unfolding t'_def by (rule view_set_child [OF d(1)])
  show "is_dir_at t' (s @ [c])" by (simp add: is_dir_at_def v)
  have below: "view t (s @ c # r) = None" if "r \<noteq> []" for r
  proof (cases "map_of (children d) c")
    case None
    then show ?thesis by (simp add: view_append [OF d(1)] view_Cons)
  next
    case (Some m)
    then have "children m = []"
      using c [OF Some] wf_node_child [OF wfd Some] wf_node_iff [of m] by blast
    with Some that show ?thesis
      by (cases r) (simp_all add: view_append [OF d(1)] view_Cons)
  qed
  show "only_dirs_added t t'"
    unfolding only_dirs_added_def
  proof
    fix q
    show "view t' q = view t q \<or> (view t' q = Some implicit_attr \<and> \<not> is_dir_at t q
           \<and> (case view t q of None \<Rightarrow> True | Some a \<Rightarrow> attr_typ a \<noteq> TypeLink))"
    proof (cases "prefix (s @ [c]) q")
      case True
      then obtain r where q: "q = s @ c # r" by (auto simp: prefix_def)
      show ?thesis
      proof (cases "r = []")
        case True
        then show ?thesis
          using c by (auto simp: v q is_dir_at_def view_append [OF d(1)] view_Cons node_typ_def
              split: option.splits)
      next
        case False
        then show ?thesis using below [OF False] by (cases r) (simp_all add: v q view_Cons)
      qed
    qed (simp add: v)
  qed
qed

lemma resolve_loop_no_create: "snd (resolve_loop False hops stack comps t) = t"
  by (induction "False" hops stack comps t rule: resolve_loop.induct)
     (auto split: option.splits)

text \<open>A read-only resolution never changes the tree; the other facts about it are shared with creation.\<close>

lemma resolve_loop_ok:
  assumes "wf_tree t" "is_dir_at t stack" "resolve_loop create hops stack comps t = (r, t')"
  shows "wf_tree t' \<and> only_dirs_added t t'
    \<and> (\<forall>s. r = Inr (Some s) \<longrightarrow> is_dir_at t' s)
    \<and> (create \<longrightarrow> r \<noteq> Inr None)"
  using assms
proof (induction create hops stack comps t arbitrary: r t' rule: resolve_loop.induct)
  case (2 create hops stack c comps t)
  obtain d where d: "get_at t stack = Some d" "node_typ d = TypeDir"
    using "2.prems"(2) by (auto simp: is_dir_at_iff)
  note ih = "2.IH" and wf = "2.prems"(1) and res = "2.prems"(3)
  consider "c = '''' \<or> c = ''.''" | "c = ''..''" | "c \<noteq> ''''" "c \<noteq> ''.''" "c \<noteq> ''..''" by blast
  then show ?case
  proof cases
    case 1
    then show ?thesis using ih(1) "2.prems" by auto
  next
    case 2
    then show ?thesis using ih(2) is_dir_at_butlast [OF wf] "2.prems" by auto
  next
    case 3
    have mk: ?thesis
      if res': "resolve_loop create hops (stack @ [c]) comps (upd_at t stack (set_child c newDir)) = (r, t')"
        and ih': "\<And>r t'. wf_tree (upd_at t stack (set_child c newDir)) \<Longrightarrow>
            is_dir_at (upd_at t stack (set_child c newDir)) (stack @ [c]) \<Longrightarrow>
            resolve_loop create hops (stack @ [c]) comps (upd_at t stack (set_child c newDir)) = (r, t') \<Longrightarrow>
            wf_tree t' \<and> only_dirs_added (upd_at t stack (set_child c newDir)) t'
            \<and> (\<forall>s. r = Inr (Some s) \<longrightarrow> is_dir_at t' s) \<and> (create \<longrightarrow> r \<noteq> Inr None)"
        and nd: "\<And>m. map_of (children d) c = Some m \<Longrightarrow> node_typ m \<noteq> TypeDir \<and> node_typ m \<noteq> TypeLink"
      using make_dir_step [OF wf d nd] ih' [OF _ _ res'] only_dirs_added_trans by blast
    show ?thesis
    proof (cases "map_of (children d) c")
      case None
      show ?thesis
      proof (cases create)
        case True
        with None 3 d res have res': "resolve_loop create hops (stack @ [c]) comps
            (upd_at t stack (set_child c newDir)) = (r, t')" by simp
        show ?thesis
          by (rule mk [OF res']) (use ih(3) [OF _ _ d(1) None] 3 True None in auto)
      qed (use None 3 d res wf in auto)
    next
      case (Some m)
      note ih' = ih(4-6) [OF _ _ d(1) Some]
      consider "node_typ m = TypeLink" | "node_typ m \<noteq> TypeLink" "node_typ m \<noteq> TypeDir"
        | "node_typ m \<noteq> TypeLink" "node_typ m = TypeDir" by blast
      then show ?thesis
      proof cases
        case 1
        then show ?thesis
          using ih'(1) 3 d Some "2.prems" is_dir_at_root [OF wf] by (auto split: if_splits)
      next
        case 2
        show ?thesis
        proof (cases create)
          case True
          with Some 2 3 d res have res': "resolve_loop create hops (stack @ [c]) comps
              (upd_at t stack (set_child c newDir)) = (r, t')" by simp
          show ?thesis
            by (rule mk [OF res']) (use ih'(2) 2 3 True Some in auto)
        qed (use Some 2 3 d res wf in auto)
      next
        case 3
        have "is_dir_at t (stack @ [c])" using d Some 3 by (simp add: is_dir_at_iff get_at_snoc)
        then show ?thesis
          using ih'(3) 3 \<open>c \<noteq> ''''\<close> \<open>c \<noteq> ''.''\<close> \<open>c \<noteq> ''..''\<close> d Some "2.prems" by auto
      qed
    qed
  qed
qed auto

lemma resolveDir_create:
  assumes "wf_tree t" "resolveDir t comps True = (r, t')"
  shows "wf_tree t'" "only_dirs_added t t'" "r \<noteq> Inr None" "r = Inr (Some s) \<Longrightarrow> is_dir_at t' s"
  using resolve_loop_ok [OF assms(1) is_dir_at_root [OF assms(1)] assms(2) [unfolded resolveDir_def]]
  by simp_all

lemma resolveDir_read:
  assumes "wf_tree t" "fst (resolveDir t comps False) = Inr (Some s)"
  shows "is_dir_at t s"
proof -
  obtain r t' where r: "resolve_loop False 0 [] comps t = (r, t')" by fastforce
  moreover have "t' = t" using resolve_loop_no_create [of 0 "[]" comps t] r by simp
  moreover have "r = Inr (Some s)" using assms(2) r by (simp add: resolveDir_def)
  ultimately show ?thesis using resolve_loop_ok [OF assms(1) is_dir_at_root [OF assms(1)] r] by simp
qed

lemma parentOf_ok:
  assumes "wf_tree t" "parentOf t p = (r, t')"
  shows "wf_tree t'" "only_dirs_added t t'" "r = Inr (s, name) \<Longrightarrow> is_dir_at t' s"
    "r = Inr (s, name) \<Longrightarrow> name = path_Base p"
proof -
  obtain dir name' where sp: "splitParent p = (dir, name')" by fastforce
  obtain r1 t1 where r1: "resolveDir t (splitPath dir) True = (r1, t1)" by fastforce
  note ok = resolveDir_create [OF assms(1) r1]
  have t1: "t' = t1" and r: "r = Inr (s, name) \<Longrightarrow> r1 = Inr (Some s) \<and> name = name'"
    using assms(2) ok(3) by (auto simp: parentOf_def sp r1 split: sum.splits option.splits)
  show "wf_tree t'" "only_dirs_added t t'" using ok t1 by simp_all
  show "r = Inr (s, name) \<Longrightarrow> is_dir_at t' s" using ok r t1 by blast
  show "r = Inr (s, name) \<Longrightarrow> name = path_Base p" using r sp by (auto simp: splitParent_def)
qed

section \<open>Every operation keeps the tree well formed\<close>

text \<open>The contract the layers' passes rely on: an operation keeps the tree and its root's attributes.\<close>

locale tree_op =
  fixes op :: "'k node \<Rightarrow> 'k entry \<Rightarrow> string option \<times> 'k node"
    and ok :: "'k entry \<Rightarrow> bool"
  assumes op_wf: "wf_tree t \<Longrightarrow> ok e \<Longrightarrow> wf_tree (snd (op t e))"
    and op_root: "wf_tree t \<Longrightarrow> ok e \<Longrightarrow> attr (snd (op t e)) = attr t"
begin

lemma run_wf: "wf_tree t \<Longrightarrow> list_all ok es \<Longrightarrow> wf_tree (foldl (\<lambda>t e. snd (op t e)) t es)"
  by (induction es arbitrary: t) (auto simp: op_wf)

lemma run_root:
  "wf_tree t \<Longrightarrow> list_all ok es \<Longrightarrow> attr (foldl (\<lambda>t e. snd (op t e)) t es) = attr t"
  by (induction es arbitrary: t) (auto simp: op_wf op_root)

end

lemma type_or:
  assumes "perm_bits m" "T AND TypeMask = T"
  shows "(m OR T) AND TypeMask = T"
proof -
  have "m AND TypeMask = (m AND 0xFFF) AND TypeMask" using assms(1) by (simp only: perm_bits_def)
  also have "\<dots> = 0" by (simp add: and.assoc type_bits)
  finally show ?thesis using assms(2) by (simp add: bit.conj_disj_distrib2)
qed

lemma types_masked [simp]:
  "TypeFIFO AND TypeMask = TypeFIFO" "TypeChar AND TypeMask = TypeChar"
  "TypeDir AND TypeMask = TypeDir" "TypeBlock AND TypeMask = TypeBlock"
  "TypeReg AND TypeMask = TypeReg" "TypeLink AND TypeMask = TypeLink"
  by (simp_all add: type_bits)

definition kind_type :: "kind \<Rightarrow> 64 word option" where
  "kind_type k =
     (case k of kindFile \<Rightarrow> Some TypeReg | kindDir \<Rightarrow> Some TypeDir | kindSymlink \<Rightarrow> Some TypeLink
      | kindChar \<Rightarrow> Some TypeChar | kindBlock \<Rightarrow> Some TypeBlock | kindFIFO \<Rightarrow> Some TypeFIFO
      | _ \<Rightarrow> None)"

lemma kind_type_masked: "kind_type k = Some T \<Longrightarrow> T AND TypeMask = T"
  by (auto simp: kind_type_def split: kind.splits)

lemma put_node_None_iff: "put_node e old = None \<longleftrightarrow> kind_type (e_kind e) = None"
  by (simp add: put_node_def kind_type_def Let_def split: kind.split)

lemma put_node_typ:
  "put_node e old = Some n \<Longrightarrow> perm_bits (e_mode e) \<Longrightarrow> Some (node_typ n) = kind_type (e_kind e)"
  by (auto simp: put_node_def kind_type_def Let_def node_typ_def attr_typ_def base_attr_def type_or
      split: kind.splits)

lemma put_node_children:
  "put_node e old = Some n \<Longrightarrow>
   children n = (case old of Some m \<Rightarrow> if e_kind e = kindDir \<and> node_typ m = TypeDir then children m else []
                 | None \<Rightarrow> [])"
  by (auto simp: put_node_def Let_def split: kind.splits option.splits)

lemma wf_put_node:
  assumes "put_node e old = Some n" "perm_bits (e_mode e)" "\<And>m. old = Some m \<Longrightarrow> wf_node m"
  shows "wf_node n"
proof (cases "children n = []")
  case True
  then show ?thesis by (cases n) simp
next
  case False
  with put_node_children [OF assms(1)] obtain m where m: "old = Some m" "e_kind e = kindDir"
    "children n = children m" by (auto split: option.splits if_splits)
  moreover have "node_typ n = TypeDir"
    using put_node_typ [OF assms(1,2)] m by (simp add: kind_type_def)
  ultimately show ?thesis using assms(3) [OF m(1)] wf_node_iff [of n] wf_node_iff [of m] by simp
qed

lemma wf_tree_set_child:
  assumes "wf_tree t" "is_dir_at t s" "wf_node n"
  shows "wf_tree (upd_at t s (set_child c n))" "attr (upd_at t s (set_child c n)) = attr t"
proof -
  from assms obtain d where d: "get_at t s = Some d" "node_typ d = TypeDir"
    by (auto simp: is_dir_at_iff)
  have wfd: "wf_node d" using assms(1) d wf_node_get_at by (auto simp: wf_tree_def)
  show a: "attr (upd_at t s (set_child c n)) = attr t" by (rule attr_upd_at) simp
  have "wf_node (upd_at t s (set_child c n))"
    by (rule wf_upd_at) (use assms wfd d in \<open>auto simp: wf_tree_def intro!: wf_set_child\<close>)
  then show "wf_tree (upd_at t s (set_child c n))"
    using assms(1) a by (simp add: wf_tree_def node_typ_def)
qed

lemma only_dirs_added_root: "wf_tree t \<Longrightarrow> only_dirs_added t t' \<Longrightarrow> attr t' = attr t"
  using only_dirs_added_dir [of t t' "[]"] is_dir_at_root by fastforce

lemma wf_tree_get_at: "wf_tree t \<Longrightarrow> get_at t p = Some n \<Longrightarrow> wf_node n"
  using wf_node_get_at by (auto simp: wf_tree_def)

lemma put_cases:
  obtains "e_path e = ''''" "snd (put t e) = t"
  | r t1 where "e_path e \<noteq> ''''" "parentOf t (e_path e) = (r, t1)" "fst (put t e) \<noteq> None"
      "snd (put t e) = t1"
  | s name n t1 where "e_path e \<noteq> ''''" "parentOf t (e_path e) = (Inr (s, name), t1)"
      "put_node e (get_at t1 (s @ [name])) = Some n"
      "put t e = (None, upd_at t1 s (set_child name n))"
proof -
  obtain r t1 where p: "parentOf t (e_path e) = (r, t1)" by fastforce
  consider "e_path e = ''''" | er where "e_path e \<noteq> ''''" "r = Inl er"
    | s name where "e_path e \<noteq> ''''" "r = Inr (s, name)" "put_node e (get_at t1 (s @ [name])) = None"
    | s name n where "e_path e \<noteq> ''''" "r = Inr (s, name)" "put_node e (get_at t1 (s @ [name])) = Some n"
    by (metis not_None_eq sumE surj_pair)
  then show ?thesis
  proof cases
    case 1
    then show ?thesis using that(1) by (simp add: put_def)
  next
    case 2
    then show ?thesis using that(2) p by (simp add: put_def)
  next
    case 3
    then show ?thesis using that(2) p by (simp add: put_def)
  next
    case 4
    then show ?thesis using that(3) p by (simp add: put_def)
  qed
qed

interpretation put_op: tree_op put entry_wf
proof
  fix t :: "'k node" and e :: "'k entry"
  assume wf: "wf_tree t" and e: "entry_wf e"
  have "wf_tree (snd (put t e)) \<and> attr (snd (put t e)) = attr t"
    using wf
  proof (cases rule: put_cases [of e t])
    case (2 r t1)
    then show ?thesis using parentOf_ok(1,2) [OF wf] only_dirs_added_root [OF wf] by metis
  next
    case (3 s name n t1)
    note ok = parentOf_ok [OF wf 3(2)]
    have "wf_node n"
      by (rule wf_put_node [OF 3(3)]) (use e ok(1) wf_tree_get_at in \<open>auto simp: entry_wf_def\<close>)
    with wf_tree_set_child [OF ok(1) ok(3) [OF refl]] 3(4) only_dirs_added_root [OF wf ok(2)]
    show ?thesis by simp
  qed (use wf in simp)
  then show "wf_tree (snd (put t e))" "attr (snd (put t e)) = attr t" by simp_all
qed

lemma lookup_get_at: "wf_tree t \<Longrightarrow> lookup t p = Inr (Some n) \<Longrightarrow> \<exists>q. get_at t q = Some n"
proof (cases "p = ''''")
  case False
  assume "wf_tree t" "lookup t p = Inr (Some n)"
  with False obtain s d name where "get_at t s = Some d" "map_of (children d) name = Some n"
    by (auto simp: lookup_def Let_def split: prod.splits sum.splits option.splits)
  then have "get_at t (s @ [name]) = Some n" by (simp add: get_at_snoc)
  then show ?thesis by blast
qed (auto simp: lookup_def intro: exI [of _ "[]"])

lemma link_cases:
  obtains "snd (link t e) = t" "fst (link t e) \<noteq> None"
  | r t1 where "parentOf t (e_path e) = (r, t1)" "fst (link t e) \<noteq> None" "snd (link t e) = t1"
  | s name n t1 where "lookup t (e_target e) = Inr (Some n)" "node_typ n \<noteq> TypeDir"
      "parentOf t (e_path e) = (Inr (s, name), t1)"
      "link t e = (None, upd_at t1 s (set_child name (Node (link_attr e (attr n)) (children n))))"
proof -
  obtain r t1 where p: "parentOf t (e_path e) = (r, t1)" by fastforce
  show ?thesis
  proof (cases "\<exists>n. lookup t (e_target e) = Inr (Some n) \<and> node_typ n \<noteq> TypeDir")
    case False
    then have "snd (link t e) = t \<and> fst (link t e) \<noteq> None"
      by (auto simp: link_def split: sum.split option.split)
    then show ?thesis using that(1) by blast
  next
    case True
    then obtain n where n: "lookup t (e_target e) = Inr (Some n)" "node_typ n \<noteq> TypeDir" by blast
    show ?thesis
    proof (cases r)
      case (Inl er)
      then show ?thesis using that(2) [OF p] n p by (simp add: link_def)
    next
      case (Inr x)
      then obtain s name where "r = Inr (s, name)" by (cases x) auto
      then show ?thesis using that(3) [OF n, of s name t1] n p by (simp add: link_def)
    qed
  qed
qed

lemma attr_typ_link_attr: "entry_wf e \<Longrightarrow> attr_typ (link_attr e a) = attr_typ a"
  using type_or [of "e_mode e" "a_mode a AND TypeMask"]
  by (simp add: link_attr_def attr_typ_def entry_wf_def and.assoc or.commute)

interpretation link_op: tree_op link entry_wf
proof
  fix t :: "'k node" and e :: "'k entry"
  assume wf: "wf_tree t" and e: "entry_wf e"
  have "wf_tree (snd (link t e)) \<and> attr (snd (link t e)) = attr t"
    using wf
  proof (cases rule: link_cases [of t e])
    case (2 r t1)
    then show ?thesis using parentOf_ok(1,2) [OF wf] only_dirs_added_root [OF wf] by metis
  next
    case (3 s name n t1)
    note ok = parentOf_ok [OF wf 3(3)]
    have "wf_node n" using lookup_get_at [OF wf 3(1)] wf_tree_get_at [OF wf] by blast
    then have "children n = []" using 3(2) wf_node_iff [of n] by blast
    then have "wf_node (Node (link_attr e (attr n)) (children n))" by simp
    with wf_tree_set_child [OF ok(1) ok(3) [OF refl]] 3(4) only_dirs_added_root [OF wf ok(2)]
    show ?thesis by simp
  qed (use wf in simp)
  then show "wf_tree (snd (link t e))" "attr (snd (link t e)) = attr t" by simp_all
qed

lemma wf_tree_shrink:
  assumes "wf_tree t" "\<And>n. attr (f n) = attr n" "\<And>n. wf_node n \<Longrightarrow> wf_node (f n)"
  shows "wf_tree (upd_at t s f)" "attr (upd_at t s f) = attr t"
proof -
  show a: "attr (upd_at t s f) = attr t" by (rule attr_upd_at [OF assms(2)])
  have "wf_node (upd_at t s f)"
    by (rule wf_upd_at) (use assms(1,3) wf_tree_get_at in \<open>auto simp: wf_tree_def\<close>)
  with a assms(1) show "wf_tree (upd_at t s f)" by (simp add: wf_tree_def node_typ_def)
qed

interpretation whiteout_op: tree_op whiteout "\<lambda>_. True"
  by unfold_locales
     (auto simp: whiteout_def Let_def wf_tree_shrink wf_del_child
       split: prod.split sum.split option.split)

interpretation opaque_op: tree_op opaque "\<lambda>_. True"
  by unfold_locales
     (auto simp: opaque_def Let_def wf_tree_shrink wf_clear_children split: sum.split option.split)

section \<open>The flat specification\<close>

text \<open>
  The operations as a container runtime's documentation states them, on the map from paths to
  attributes, for a path none of whose directories is a symbolic link.
\<close>

type_synonym 'k fsmap = "string list \<Rightarrow> 'k attr option"

definition no_links :: "'k fsmap \<Rightarrow> string list \<Rightarrow> bool" where
  "no_links v cs \<longleftrightarrow> list_all (\<lambda>q. case v q of None \<Rightarrow> True | Some a \<Rightarrow> attr_typ a \<noteq> TypeLink) (prefixes cs)"

definition fs_mkdirs :: "string list \<Rightarrow> 'k fsmap \<Rightarrow> 'k fsmap" where
  "fs_mkdirs cs v q =
     (if prefix q cs \<and> (case v q of None \<Rightarrow> True | Some a \<Rightarrow> attr_typ a \<noteq> TypeDir)
      then Some implicit_attr else v q)"

definition fs_place :: "string list \<Rightarrow> 'k attr \<Rightarrow> bool \<Rightarrow> 'k fsmap \<Rightarrow> 'k fsmap" where
  "fs_place p a keep v q =
     (if q = p then Some a else if prefix p q \<and> \<not> keep then None else v q)"

definition fs_remove :: "string list \<Rightarrow> 'k fsmap \<Rightarrow> 'k fsmap" where
  "fs_remove p v q = (if prefix p q then None else v q)"

definition fs_clear :: "string list \<Rightarrow> 'k fsmap \<Rightarrow> 'k fsmap" where
  "fs_clear p v q = (if strict_prefix p q then None else v q)"

definition put_attr :: "'k entry \<Rightarrow> 'k attr" where
  "put_attr e = (case put_node e None of None \<Rightarrow> base_attr e | Some n \<Rightarrow> attr n)"

lemma no_linksD: "no_links v cs \<Longrightarrow> prefix q cs \<Longrightarrow> v q = Some a \<Longrightarrow> attr_typ a \<noteq> TypeLink"
  by (auto simp: no_links_def list_all_iff split: option.splits)

lemma no_links_prefix: "no_links v (cs @ ds) \<Longrightarrow> no_links v cs"
  by (auto simp: no_links_def list_all_iff prefixes_append)

lemma typ_distinct [simp]:
  "TypeLink \<noteq> TypeDir" "TypeDir \<noteq> TypeLink" "TypeLink \<noteq> TypeReg" "TypeReg \<noteq> TypeLink"
  "TypeLink \<noteq> TypeChar" "TypeChar \<noteq> TypeLink" "TypeLink \<noteq> TypeBlock" "TypeBlock \<noteq> TypeLink"
  "TypeReg \<noteq> TypeDir" "TypeDir \<noteq> TypeReg" "TypeReg \<noteq> TypeChar" "TypeChar \<noteq> TypeReg"
  "TypeReg \<noteq> TypeBlock" "TypeBlock \<noteq> TypeReg" "TypeDir \<noteq> TypeChar" "TypeChar \<noteq> TypeDir"
  "TypeDir \<noteq> TypeBlock" "TypeBlock \<noteq> TypeDir" "TypeFIFO \<noteq> TypeDir" "TypeFIFO \<noteq> TypeReg"
  "TypeFIFO \<noteq> TypeLink" "TypeFIFO \<noteq> TypeChar" "TypeFIFO \<noteq> TypeBlock"
  by (simp_all add: type_bits)

lemma view_strict_below: "wf_tree t \<Longrightarrow> view t (p @ c # q) = Some a \<Longrightarrow> is_dir_at t p"
proof -
  assume wf: "wf_tree t" and v: "view t (p @ c # q) = Some a"
  then obtain n where n: "get_at t p = Some n" "map_of (children n) c \<noteq> None"
    by (auto simp: view_def get_at_append split: option.splits)
  moreover have "wf_node n" using wf_tree_get_at [OF wf n(1)] .
  ultimately show ?thesis using wf_node_iff [of n] by (auto simp: is_dir_at_iff)
qed

lemma resolve_plain_create:
  assumes "wf_tree t" "is_dir_at t stack" "plain_path comps" "no_links (view t) (stack @ comps)"
  shows "\<exists>t'. resolve_loop True hops stack comps t = (Inr (Some (stack @ comps)), t')
           \<and> view t' = fs_mkdirs (stack @ comps) (view t)"
  using assms
proof (induction comps arbitrary: stack t)
  case Nil
  have "fs_mkdirs stack (view t) q = view t q" for q
  proof -
    have "is_dir_at t q" if "prefix q stack"
      using is_dir_at_prefix [OF Nil(1)] Nil(2) that by (auto simp: prefix_def)
    then show ?thesis by (auto simp: fs_mkdirs_def is_dir_at_def split: option.splits)
  qed
  then show ?case by auto
next
  case (Cons c comps)
  obtain d where d: "get_at t stack = Some d" "node_typ d = TypeDir"
    using Cons.prems(2) by (auto simp: is_dir_at_iff)
  have c: "c \<noteq> ''''" "c \<noteq> ''.''" "c \<noteq> ''..''" using Cons.prems(3) by (auto simp: plain_comp_def)
  have vc: "view t (stack @ [c]) = map_option attr (map_of (children d) c)"
    using d by (simp add: view_def get_at_snoc)
  have nl: "node_typ m \<noteq> TypeLink" if "map_of (children d) c = Some m" for m
    using no_linksD [OF Cons.prems(4), of "stack @ [c]"] vc that by (auto simp: node_typ_def)
  have fold: "fs_mkdirs (stack @ c # comps) (view t) = fs_mkdirs ((stack @ [c]) @ comps) v"
    if "\<And>q. v q = (if q = stack @ [c] \<and> \<not> is_dir_at t q then Some implicit_attr else view t q)" for v
    by (rule ext) (auto simp: fs_mkdirs_def that is_dir_at_def split: option.splits)
  show ?case
  proof (cases "is_dir_at t (stack @ [c])")
    case True
    then obtain m where m: "map_of (children d) c = Some m" "node_typ m = TypeDir"
      using d by (auto simp: is_dir_at_iff get_at_snoc)
    have "resolve_loop True hops stack (c # comps) t = resolve_loop True hops (stack @ [c]) comps t"
      using c d m by simp
    moreover have "\<exists>t'. resolve_loop True hops (stack @ [c]) comps t = (Inr (Some ((stack @ [c]) @ comps)), t')
           \<and> view t' = fs_mkdirs ((stack @ [c]) @ comps) (view t)"
      by (rule Cons.IH [OF Cons.prems(1) True]) (use Cons.prems in auto)
    ultimately show ?thesis by simp
  next
    case False
    define t1 where "t1 = upd_at t stack (set_child c newDir)"
    have nd: "node_typ m \<noteq> TypeDir \<and> node_typ m \<noteq> TypeLink" if "map_of (children d) c = Some m" for m
      using that False d nl by (auto simp: is_dir_at_iff get_at_snoc)
    have step: "wf_tree t1" "is_dir_at t1 (stack @ [c])"
      unfolding t1_def by (rule make_dir_step [OF Cons.prems(1) d]; use nd in blast)+
    have "resolve_loop True hops stack (c # comps) t = resolve_loop True hops (stack @ [c]) comps t1"
      using c d nd by (auto simp: t1_def split: option.split)
    note r1 = this
    have v1: "view t1 q = (if q = stack @ [c] \<and> \<not> is_dir_at t q then Some implicit_attr else view t q)" for q
    proof (cases "prefix (stack @ [c]) q")
      case True
      then obtain r where q: "q = stack @ c # r" by (auto simp: prefix_def)
      have "view t q = None" if "r \<noteq> []"
        using view_strict_below [OF Cons.prems(1), of "stack @ [c]" "hd r" "tl r"] False that
        by (cases "view t q") (auto simp: q)
      then show ?thesis
        using False by (cases r) (auto simp: t1_def view_set_child [OF d(1)] q view_Cons)
    qed (auto simp: t1_def view_set_child [OF d(1)])
    have "\<exists>t'. resolve_loop True hops (stack @ [c]) comps t1 = (Inr (Some ((stack @ [c]) @ comps)), t')
           \<and> view t' = fs_mkdirs ((stack @ [c]) @ comps) (view t1)"
    proof (rule Cons.IH [OF step(1,2)])
      show "no_links (view t1) ((stack @ [c]) @ comps)"
        using Cons.prems(4) by (auto simp: no_links_def list_all_iff v1)
    qed (use Cons.prems in simp)
    with r1 fold [of "view t1", OF v1] show ?thesis by (simp del: resolve_loop.simps)
  qed
qed

lemma resolve_plain_read:
  assumes "wf_tree t" "is_dir_at t stack" "plain_path comps" "no_links (view t) (stack @ comps)"
  shows "fst (resolve_loop False hops stack comps t) =
           Inr (if is_dir_at t (stack @ comps) then Some (stack @ comps) else None)"
  using assms
proof (induction comps arbitrary: stack)
  case (Cons c comps)
  obtain d where d: "get_at t stack = Some d" "node_typ d = TypeDir"
    using Cons.prems(2) by (auto simp: is_dir_at_iff)
  have c: "c \<noteq> ''''" "c \<noteq> ''.''" "c \<noteq> ''..''" using Cons.prems(3) by (auto simp: plain_comp_def)
  have vc: "view t (stack @ [c]) = map_option attr (map_of (children d) c)"
    using d by (simp add: view_def get_at_snoc)
  show ?case
  proof (cases "is_dir_at t (stack @ [c])")
    case True
    then obtain m where m: "map_of (children d) c = Some m" "node_typ m = TypeDir"
      using d by (auto simp: is_dir_at_iff get_at_snoc)
    then show ?thesis using Cons.IH [OF Cons.prems(1) True] Cons.prems c d by simp
  next
    case False
    have nl: "node_typ m \<noteq> TypeLink" if "map_of (children d) c = Some m" for m
      using no_linksD [OF Cons.prems(4), of "stack @ [c]"] vc that by (auto simp: node_typ_def)
    have "\<not> is_dir_at t (stack @ c # comps)"
      using False is_dir_at_prefix [OF Cons.prems(1), of "stack @ [c]" comps] by auto
    then show ?thesis
      using False c d nl by (auto simp: is_dir_at_iff get_at_snoc split: option.splits)
  qed
qed simp

lemma splitParent_plain:
  assumes "plain_path (cs @ [c])"
  shows "splitParent (Join (cs @ [c]) ''/'') = (Join cs ''/'', c)"
proof -
  have "Join cs ''/'' \<noteq> ''.''" if "cs \<noteq> []"
    using Split_Join_plain [of cs] that assms plain_path_comp [of cs "hd cs"]
    by (auto simp: plain_comp_def)
  then show ?thesis using assms by (auto simp: splitParent_def path_Dir_Join path_Base_Join)
qed

lemma splitPath_plain: "plain_path cs \<Longrightarrow> splitPath (Join cs ''/'') = cs"
  using Join_Nil_iff [of cs] by (auto simp: splitPath_def Split_Join_plain)

lemma parentOf_plain:
  assumes "wf_tree t" "plain_path (cs @ [c])" "no_links (view t) cs"
  shows "\<exists>t1. parentOf t (Join (cs @ [c]) ''/'') = (Inr (cs, c), t1) \<and> view t1 = fs_mkdirs cs (view t)"
  using resolve_plain_create [OF assms(1) is_dir_at_root [OF assms(1)], of cs 0] assms(2,3)
  by (auto simp: parentOf_def splitParent_plain splitPath_plain resolveDir_def)

text \<open>
  (C2) Placing an entry refines the flat specification: when no directory of the entry's path is a
  symbolic link, put succeeds, makes every missing or non-directory parent an implicit directory,
  gives the path the entry's attributes, keeps what is below it exactly when a directory is put
  there, and changes nothing else.
\<close>

theorem put_refines:
  assumes "wf_tree t" "entry_wf e" "kind_type (e_kind e) \<noteq> None"
    and "plain_path (cs @ [c])" "e_path e = Join (cs @ [c]) ''/''" "no_links (view t) cs"
  shows "fst (put t e) = None
    \<and> view (snd (put t e))
        = fs_place (cs @ [c]) (put_attr e) (e_kind e = kindDir) (fs_mkdirs cs (view t))"
proof -
  obtain t1 where p: "parentOf t (e_path e) = (Inr (cs, c), t1)" and v1: "view t1 = fs_mkdirs cs (view t)"
    using parentOf_plain [OF assms(1,4,6)] assms(5) by auto
  obtain n where n: "put_node e (get_at t1 (cs @ [c])) = Some n"
    using assms(3) put_node_None_iff [of e] by (metis option.exhaust)
  have ne: "e_path e \<noteq> ''''" using assms(4,5) Join_Nil_iff [of "cs @ [c]"] by auto
  have put: "put t e = (None, upd_at t1 cs (set_child c n))" using ne p n by (simp add: put_def)
  have wf1: "wf_tree t1" and dir: "is_dir_at t1 cs"
    using parentOf_ok [OF assms(1) p] by simp_all
  from dir obtain d where d: "get_at t1 cs = Some d" by (auto simp: is_dir_at_iff)
  have attr: "attr n = put_attr e"
    using n by (auto simp: put_attr_def put_node_def Let_def split: kind.splits)
  have below: "view n (x # r) = (if e_kind e = kindDir then view t1 (cs @ c # x # r) else None)" for x r
  proof (cases "get_at t1 (cs @ [c])")
    case None
    then have "view t1 ((cs @ [c]) @ x # r) = None" by (simp only: view_def get_at_append) simp
    then show ?thesis using put_node_children [OF n] None by (simp add: view_Cons)
  next
    case (Some m)
    have "view t1 ((cs @ [c]) @ x # r) = view m (x # r)" using view_append [OF Some] .
    moreover have "children m = []" if "node_typ m \<noteq> TypeDir"
      using wf_tree_get_at [OF wf1 Some] that wf_node_iff [of m] by blast
    ultimately show ?thesis using put_node_children [OF n] Some by (auto simp: view_Cons)
  qed
  have "view (snd (put t e)) q = fs_place (cs @ [c]) (put_attr e) (e_kind e = kindDir) (view t1) q" for q
  proof (cases "prefix (cs @ [c]) q")
    case True
    then obtain r where "q = cs @ c # r" by (auto simp: prefix_def)
    then show ?thesis
      using attr below by (cases r) (simp_all add: put view_set_child [OF d] fs_place_def)
  qed (auto simp: put view_set_child [OF d] fs_place_def)
  then show ?thesis using put v1 by (auto simp: fun_eq_iff)
qed

text \<open>
  (C3) Removing an entry refines the flat specification: a whiteout whose directories are no
  symbolic links removes the path with everything below it and nothing else, whatever is there,
  also when its directory is missing or no directory.
\<close>

theorem whiteout_refines:
  assumes "wf_tree t" "plain_path (cs @ [c])" "e_path e = Join (cs @ [c]) ''/''"
    and "no_links (view t) cs"
  shows "fst (whiteout t e) = None \<and> view (snd (whiteout t e)) = fs_remove (cs @ [c]) (view t)"
proof -
  have ne: "e_path e \<noteq> ''''" using assms(2,3) Join_Nil_iff [of "cs @ [c]"] by auto
  have r: "fst (resolveDir t cs False) = Inr (if is_dir_at t cs then Some cs else None)"
    using resolve_plain_read [OF assms(1) is_dir_at_root [OF assms(1)], of cs 0] assms(2,4)
    by (simp add: resolveDir_def)
  have none: "view t q = None" if "\<not> is_dir_at t cs" "prefix (cs @ [c]) q" for q
    using view_strict_below [OF assms(1), of cs c] that by (cases "view t q") (auto simp: prefix_def)
  show ?thesis
  proof (cases "is_dir_at t cs")
    case True
    then obtain d where d: "get_at t cs = Some d" by (auto simp: is_dir_at_iff)
    then show ?thesis
      using True ne r assms(2,3)
      by (auto simp: whiteout_def splitParent_plain splitPath_plain view_del_child fs_remove_def)
  next
    case False
    then show ?thesis
      using ne r assms(2,3) none [OF False]
      by (auto simp: whiteout_def splitParent_plain splitPath_plain fs_remove_def)
  qed
qed

text \<open>
  An opaque whiteout on a path without symbolic links removes everything below the path and
  keeps the path itself.
\<close>

theorem opaque_refines:
  assumes "wf_tree t" "plain_path cs" "e_path e = Join cs ''/''" "no_links (view t) cs"
  shows "fst (opaque t e) = None \<and> view (snd (opaque t e)) = fs_clear cs (view t)"
proof -
  have r: "fst (resolveDir t cs False) = Inr (if is_dir_at t cs then Some cs else None)"
    using resolve_plain_read [OF assms(1) is_dir_at_root [OF assms(1)], of cs 0] assms(2,4)
    by (simp add: resolveDir_def)
  have none: "view t q = None" if "\<not> is_dir_at t cs" "strict_prefix cs q" for q
  proof -
    from that(2) obtain c r where "q = cs @ c # r" by (auto elim: strict_prefixE')
    then show ?thesis using view_strict_below [OF assms(1), of cs c r] that(1) by (cases "view t q") auto
  qed
  show ?thesis
  proof (cases "is_dir_at t cs")
    case True
    then obtain d where "get_at t cs = Some d" by (auto simp: is_dir_at_iff)
    then show ?thesis
      using True r assms(2,3) by (auto simp: opaque_def splitPath_plain view_clear_children fs_clear_def)
  next
    case False
    then show ?thesis
      using r assms(2,3) none [OF False] by (auto simp: opaque_def splitPath_plain fs_clear_def)
  qed
qed


text \<open>
  What put does through symbolic links: wherever they lead, resolution only adds implicit
  directories, and the entry is then placed in a directory of the tree under the last component of
  its path; every place outside of it keeps its attributes.
\<close>

theorem put_effect:
  assumes "wf_tree t" "entry_wf e" "e_path e \<noteq> ''''" "put t e = (None, t')"
  shows "\<exists>s t1. only_dirs_added t t1 \<and> is_dir_at t1 s
    \<and> view t' (s @ [path_Base (e_path e)]) = Some (put_attr e)
    \<and> (\<forall>q. \<not> prefix (s @ [path_Base (e_path e)]) q \<longrightarrow> view t' q = view t1 q)"
proof (cases rule: put_cases [of e t])
  case (3 s name n t1)
  note ok = parentOf_ok [OF assms(1) 3(2)]
  obtain d where d: "get_at t1 s = Some d" using ok(3) [OF refl] by (auto simp: is_dir_at_iff)
  have "attr n = put_attr e"
    using 3(3) by (auto simp: put_attr_def put_node_def Let_def split: kind.splits)
  then show ?thesis
    using ok(2) ok(3,4) [OF refl] 3(4) assms(4) view_set_child [OF d, of name n]
    by (intro exI [of _ s] exI [of _ t1]) simp
qed (use assms in auto)

section \<open>A concrete tree\<close>

definition demo_entry :: "kind \<Rightarrow> string \<Rightarrow> nat entry" where
  "demo_entry k p = \<lparr>e_kind = k, e_path = p, e_target = ''usr'', e_mode = 0x1ED, e_uid = 1, e_gid = 2,
     e_mtime = 7, e_rdev = (0, 0), e_xattrs = [], e_content = Some 5, e_reason = ''''\<rparr>"

definition demo_tree :: "nat node" where
  "demo_tree = snd (put (snd (put newTree (demo_entry kindFile ''usr/bin/sh''))) (demo_entry kindSymlink ''bin''))"

lemma entry_wf_demo:
  assumes "plain_path cs" "p = Join cs ''/''" "k \<notin> {kindWhiteout, kindHardlink}"
  shows "entry_wf (demo_entry k p)"
  using assms by (auto simp: entry_wf_def demo_entry_def perm_bits_def clean_path_def)

lemma wf_newTree: "wf_tree newTree"
  by (simp add: wf_tree_def newTree_def)

lemma wf_demo_tree: "wf_tree demo_tree"
  unfolding demo_tree_def
  by (intro put_op.op_wf wf_newTree entry_wf_demo [of "[''usr'', ''bin'', ''sh'']"] entry_wf_demo [of "[''bin'']"])
     (simp_all add: plain_comp_def)

lemma no_links_demo: "no_links (view demo_tree) [''usr'', ''bin'']"
  by code_simp

theorem put_refines_witness:
  "fst (put demo_tree (demo_entry kindDir ''usr/bin/sh'')) = None
   \<and> view (snd (put demo_tree (demo_entry kindDir ''usr/bin/sh''))) =
       fs_place [''usr'', ''bin'', ''sh''] (put_attr (demo_entry kindDir ''usr/bin/sh'')) True
         (fs_mkdirs [''usr'', ''bin''] (view demo_tree))"
  using put_refines [OF wf_demo_tree entry_wf_demo, of "[''usr'', ''bin'', ''sh'']" "''usr/bin/sh''"
      kindDir "[''usr'', ''bin'']" "''sh''"] no_links_demo
  by (simp add: plain_comp_def demo_entry_def kind_type_def)

theorem whiteout_refines_witness:
  "fst (whiteout demo_tree (demo_entry kindWhiteout ''usr/bin/sh'')) = None
   \<and> view (snd (whiteout demo_tree (demo_entry kindWhiteout ''usr/bin/sh''))) =
       fs_remove [''usr'', ''bin'', ''sh''] (view demo_tree)"
  using whiteout_refines [OF wf_demo_tree, of "[''usr'', ''bin'']" "''sh''"
      "demo_entry kindWhiteout ''usr/bin/sh''"] no_links_demo
  by (simp add: plain_comp_def demo_entry_def)

theorem opaque_refines_witness:
  "fst (opaque demo_tree (demo_entry kindOpaque ''usr/bin'')) = None
   \<and> view (snd (opaque demo_tree (demo_entry kindOpaque ''usr/bin''))) =
       fs_clear [''usr'', ''bin''] (view demo_tree)"
  using opaque_refines [OF wf_demo_tree, of "[''usr'', ''bin'']" "demo_entry kindOpaque ''usr/bin''"]
    no_links_demo
  by (simp add: plain_comp_def demo_entry_def)

definition demo_link :: "nat entry" where
  "demo_link = (demo_entry kindHardlink ''usr/lib/x'')\<lparr>e_target := ''usr/bin/sh''\<rparr>"

lemma entry_wf_demo_link: "entry_wf demo_link"
  using cleanPath_ok [of "''usr/lib/x''"] cleanPath_ok [of "''usr/bin/sh''"]
    cleanPath_clean [of "[''usr'', ''lib'', ''x'']"] cleanPath_clean [of "[''usr'', ''bin'', ''sh'']"]
  by (simp add: entry_wf_def demo_link_def demo_entry_def perm_bits_def plain_comp_def)


theorem put_effect_witness:
  "\<exists>s t1. only_dirs_added demo_tree t1 \<and> is_dir_at t1 s
    \<and> view (snd (put demo_tree (demo_entry kindFile ''bin/ls''))) (s @ [''ls''])
        = Some (put_attr (demo_entry kindFile ''bin/ls''))
    \<and> (\<forall>q. \<not> prefix (s @ [''ls'']) q
          \<longrightarrow> view (snd (put demo_tree (demo_entry kindFile ''bin/ls''))) q = view t1 q)"
proof -
  have "fst (put demo_tree (demo_entry kindFile ''bin/ls'')) = None" by code_simp
  then have p: "put demo_tree (demo_entry kindFile ''bin/ls'') =
      (None, snd (put demo_tree (demo_entry kindFile ''bin/ls'')))" by (simp add: prod_eq_iff)
  have wf: "entry_wf (demo_entry kindFile ''bin/ls'')"
    by (rule entry_wf_demo [of "[''bin'', ''ls'']"]) (simp_all add: plain_comp_def)
  have b: "path_Base (e_path (demo_entry kindFile ''bin/ls'')) = ''ls''" by code_simp
  show ?thesis using put_effect [OF wf_demo_tree wf _ p] unfolding b by (simp add: demo_entry_def)
qed

end
