(* ===== verification/Rootfs_Builder.thy ===== *)
theory Rootfs_Builder
  imports Rootfs_Tree
begin

unbundle bit_operations_syntax

text \<open>
  The Builder (src/rootfs/builder.go): layers are merged entry by entry, the entries that the tree
  refuses are recorded, and Write emits the tree bottom-up as directory objects. The parsed entries
  of a layer are the input of Apply; \<open>Inl\<close> is parseLayer's error, which applies nothing.
\<close>

definition MaxSkipped :: nat where "MaxSkipped = 100"

record Skip =
  sk_Layer :: digest
  sk_Path :: string
  sk_Reason :: string

record 'k Builder =
  b_t :: "'k node"
  b_skipped :: "Skip list"
  b_skippedCount :: nat

record 'k Result =
  r_Root :: 'k
  r_Entries :: nat
  r_Skipped :: "Skip list"
  r_SkippedCount :: nat

definition New :: "'k Builder" where
  "New = \<lparr>b_t = newTree, b_skipped = [], b_skippedCount = 0\<rparr>"

definition record_skip :: "'k Builder \<Rightarrow> digest \<Rightarrow> 'k entry \<Rightarrow> string option \<Rightarrow> 'k Builder" where
  "record_skip b dg e er =
     (case er of
        None \<Rightarrow> b
      | Some reason \<Rightarrow>
          b\<lparr>b_skippedCount := Suc (b_skippedCount b),
            b_skipped := (if length (b_skipped b) < MaxSkipped
                          then b_skipped b @ [\<lparr>sk_Layer = dg, sk_Path = e_path e, sk_Reason = reason\<rparr>]
                          else b_skipped b)\<rparr>)"

text \<open>\<open>run_op\<close> runs one tree operation and records its error.\<close>

definition run_op ::
  "('k node \<Rightarrow> 'k entry \<Rightarrow> string option \<times> 'k node) \<Rightarrow> digest \<Rightarrow> 'k Builder \<Rightarrow> 'k entry \<Rightarrow> 'k Builder"
where
  "run_op op dg b e = (let (er, t) = op (b_t b) e in record_skip (b\<lparr>b_t := t\<rparr>) dg e er)"

definition remove_pass :: "digest \<Rightarrow> 'k Builder \<Rightarrow> 'k entry \<Rightarrow> 'k Builder" where
  "remove_pass dg b e =
     (case e_kind e of
        kindWhiteout \<Rightarrow> run_op whiteout dg b e
      | kindOpaque \<Rightarrow> run_op opaque dg b e
      | _ \<Rightarrow> b)"

definition place_pass :: "digest \<Rightarrow> 'k Builder \<Rightarrow> 'k entry \<Rightarrow> 'k Builder" where
  "place_pass dg b e =
     (case e_kind e of
        kindWhiteout \<Rightarrow> b
      | kindOpaque \<Rightarrow> b
      | kindSkip \<Rightarrow> record_skip b dg e (Some (e_reason e))
      | kindHardlink \<Rightarrow> run_op link dg b e
      | _ \<Rightarrow> run_op put dg b e)"

text \<open>parseLayer's errors as Apply tells them apart.\<close>

datatype parse_error = PStore err | PContext err | PMalformed err

definition Apply ::
  "'k Builder \<Rightarrow> digest \<Rightarrow> (parse_error + 'k entry list) \<Rightarrow> err option \<times> 'k Builder" where
  "Apply b dg parsed =
     (case parsed of
        Inl (PStore er) \<Rightarrow> (Some er, b)
      | Inl (PContext er) \<Rightarrow> (Some er, b)
      | Inl (PMalformed er) \<Rightarrow> (Some ErrLayer, b)
      | Inr entries \<Rightarrow>
          (None, foldl (place_pass dg) (foldl (remove_pass dg) b entries) entries))"

section \<open>Write\<close>

definition emit_entry ::
  "'k xattrops \<Rightarrow> string \<Rightarrow> 'k attr \<Rightarrow> 'k option \<Rightarrow> 'k fentry res" where
  "emit_entry X name a dirkey =
     (let t = attr_typ a;
          content = (if t = TypeDir then dirkey else if t = TypeReg then a_content a else None);
          lnk = (if t = TypeLink then a_link a else '''');
          rdev = (if t = TypeChar \<or> t = TypeBlock then [fst (a_rdev a), snd (a_rdev a)] else [])
      in if a_xattrs a \<noteq> [] then
           (case PutXattrs X (a_xattrs a) of
              Inl er \<Rightarrow> Inl er
            | Inr (inl, spilled) \<Rightarrow>
                Inr (FEntry name (a_mode a) (a_uid a) (a_gid a) (a_mtime a) content lnk rdev inl spilled))
         else Inr (FEntry name (a_mode a) (a_uid a) (a_gid a) (a_mtime a) content lnk rdev [] None))"

lemma size_list_insort: "size_list f (insort_key g x xs) = Suc (f x + size_list f xs)"
  by (induction xs) auto

lemma size_list_sort [simp]: "size_list f (sort_key g xs) = size_list f xs"
  by (induction xs) (simp_all add: size_list_insort)

text \<open>
  The loop over the children in name order carries the open Dir and the count so far; a
  subdirectory is emitted before its entry is added.
\<close>

function emitDir :: "'k keyops \<Rightarrow> ('d, 'k) dirbuilder \<Rightarrow> 'k xattrops \<Rightarrow> 'k node \<Rightarrow> ('k \<times> nat) res"
and emit_children :: "'k keyops \<Rightarrow> ('d, 'k) dirbuilder \<Rightarrow> 'k xattrops \<Rightarrow> 'd Dir \<Rightarrow> nat
       \<Rightarrow> (string \<times> 'k node) list \<Rightarrow> ('d Dir \<times> nat) res"
where
  "emitDir K B X (Node a cs) =
     (case emit_children K B X (NewDir B) 0 (sort_key fst cs) of
        Inl er \<Rightarrow> Inl er
      | Inr (d, count) \<Rightarrow>
          (case Dir_Finish B d of Inl er \<Rightarrow> Inl er | Inr (k, _) \<Rightarrow> Inr (k, count)))"
| "emit_children K B X d count [] = Inr (d, count)"
| "emit_children K B X d count ((name, c) # rest) =
     (case (if node_typ c = TypeDir
            then (case emitDir K B X c of Inl er \<Rightarrow> Inl er | Inr (k, n) \<Rightarrow> Inr (Some k, n))
            else Inr (None, 0)) of
        Inl er \<Rightarrow> Inl er
      | Inr (dirkey, n) \<Rightarrow>
          (case emit_entry X name (attr c) dirkey of
             Inl er \<Rightarrow> Inl er
           | Inr e \<Rightarrow>
               (case AddEntry K B d e of
                  Inl er \<Rightarrow> Inl er
                | Inr d' \<Rightarrow> emit_children K B X d' (Suc (count + n)) rest)))"
  by pat_completeness auto
termination
  by (relation "measure (case_sum (\<lambda>(K, B, X, n). size n)
                                  (\<lambda>(K, B, X, d, count, cs). size_list (\<lambda>x. size (snd x)) cs))")
     (auto simp: size_prod_simp intro!: le_imp_less_Suc size_list_pointwise)

definition Write ::
  "'k keyops \<Rightarrow> ('d, 'k) dirbuilder \<Rightarrow> 'k xattrops \<Rightarrow> 'k Builder \<Rightarrow> 'k Result res" where
  "Write K B X b =
     (case emitDir K B X (b_t b) of
        Inl er \<Rightarrow> Inl er
      | Inr (root, n) \<Rightarrow>
          Inr \<lparr>r_Root = root, r_Entries = n, r_Skipped = b_skipped b, r_SkippedCount = b_skippedCount b\<rparr>)"

section \<open>Applying layers\<close>

definition builder_wf :: "'k Builder \<Rightarrow> bool" where
  "builder_wf b \<longleftrightarrow> wf_tree (b_t b) \<and> length (b_skipped b) = min (b_skippedCount b) MaxSkipped"

lemma record_skip_tree [simp]: "b_t (record_skip b dg e er) = b_t b"
  by (simp add: record_skip_def split: option.split)

lemma record_skip_count:
  "length (b_skipped b) = min (b_skippedCount b) MaxSkipped \<Longrightarrow>
   length (b_skipped (record_skip b dg e er)) = min (b_skippedCount (record_skip b dg e er)) MaxSkipped"
  by (auto simp: record_skip_def min_def split: option.split)

lemma run_op_tree: "b_t (run_op op dg b e) = snd (op (b_t b) e)"
  by (simp add: run_op_def Let_def split: prod.split)

lemma run_op_wf:
  assumes "builder_wf b" "wf_tree (snd (op (b_t b) e))"
  shows "builder_wf (run_op op dg b e)"
proof -
  have "length (b_skipped (run_op op dg b e)) = min (b_skippedCount (run_op op dg b e)) MaxSkipped"
    unfolding run_op_def Let_def
    by (auto split: prod.split intro!: record_skip_count) (use assms(1) in \<open>simp add: builder_wf_def\<close>)
  with assms(2) show ?thesis by (simp add: builder_wf_def run_op_tree)
qed

lemma remove_pass_wf: "builder_wf b \<Longrightarrow> builder_wf (remove_pass dg b e)"
  by (auto simp: remove_pass_def builder_wf_def intro!: run_op_wf [unfolded builder_wf_def]
      whiteout_op.op_wf opaque_op.op_wf split: kind.split)

lemma place_pass_wf: "builder_wf b \<Longrightarrow> entry_wf e \<Longrightarrow> builder_wf (place_pass dg b e)"
proof -
  assume b: "builder_wf b" and e: "entry_wf e"
  have "builder_wf (run_op put dg b e)" "builder_wf (run_op link dg b e)"
    using run_op_wf [OF b, of put e] run_op_wf [OF b, of link e] put_op.op_wf [of "b_t b" e]
      link_op.op_wf [of "b_t b" e] b e by (simp_all add: builder_wf_def)
  moreover have "builder_wf (record_skip b dg e (Some (e_reason e)))"
    using b record_skip_count by (auto simp: builder_wf_def)
  ultimately show ?thesis using b by (simp add: place_pass_def split: kind.split)
qed

lemma foldl_invariant:
  "P b \<Longrightarrow> (\<And>b e. P b \<Longrightarrow> e \<in> set es \<Longrightarrow> P (f b e)) \<Longrightarrow> P (foldl f b es)"
  by (induction es arbitrary: b) auto

text \<open>
  The builder's invariant: whatever layers are applied, in whatever order and whether or not
  they parse, the tree is well formed (distinct names, children under directories only, the root a
  directory) and the list of skips grows with the count up to MaxSkipped elements.
\<close>

theorem Apply_wf:
  assumes "builder_wf b" "\<forall>es. parsed = Inr es \<longrightarrow> list_all entry_wf es"
  shows "builder_wf (snd (Apply b dg parsed))"
proof (cases parsed)
  case (Inl er)
  then show ?thesis using assms(1) by (simp add: Apply_def split: parse_error.split)
next
  case (Inr es)
  have "builder_wf (foldl (remove_pass dg) b es)"
    by (rule foldl_invariant) (use assms(1) remove_pass_wf in auto)
  then have "builder_wf (foldl (place_pass dg) (foldl (remove_pass dg) b es) es)"
    by (rule foldl_invariant) (use assms(2) Inr place_pass_wf in \<open>auto simp: list_all_iff\<close>)
  then show ?thesis by (simp add: Apply_def Inr)
qed

definition removes :: "'k entry \<Rightarrow> bool" where
  "removes e \<longleftrightarrow> e_kind e \<in> {kindWhiteout, kindOpaque}"

lemma foldl_filter_skip: "(\<And>b e. \<not> P e \<Longrightarrow> f b e = b) \<Longrightarrow> foldl f b (filter P es) = foldl f b es"
  by (induction es arbitrary: b) auto

lemma remove_pass_other: "\<not> removes e \<Longrightarrow> remove_pass dg b e = b"
  by (auto simp: removes_def remove_pass_def split: kind.splits)

lemma place_pass_other: "removes e \<Longrightarrow> place_pass dg b e = b"
  by (auto simp: removes_def place_pass_def split: kind.splits)


theorem Apply_wf_witness:
  "builder_wf (snd (Apply New ''sha256:0'' (Inr [demo_entry kindFile ''usr/bin/sh'', demo_entry kindDir ''usr''])))"
proof -
  have "entry_wf (demo_entry kindFile ''usr/bin/sh'')"
    by (rule entry_wf_demo [of "[''usr'', ''bin'', ''sh'']"]) (simp_all add: plain_comp_def)
  moreover have "entry_wf (demo_entry kindDir ''usr'')"
    by (rule entry_wf_demo [of "[''usr'']"]) (simp_all add: plain_comp_def)
  ultimately show ?thesis
    by (intro Apply_wf) (simp_all add: builder_wf_def New_def wf_newTree)
qed


end
