(* ===== verification/Rootfs_FS.thy ===== *)
theory Rootfs_FS
  imports Rootfs_Builder
begin

unbundle bit_operations_syntax

text \<open>
  Reading a stored tree (src/rootfs/fs.go). The store's Lookup is the parameter \<open>L\<close>: the entry of
  a directory object by name, or ErrStoreNotFound. resolve keeps the loop of the code, with the
  stack of decoded entries and the hop counter. The second half relates it to the tree a Builder
  wrote: \<open>stored\<close> says that a key stands for a node, emitDir establishes it, and resolve then finds
  exactly what the same walk finds in the tree in memory.
\<close>

type_synonym 'k dirlookup = "'k \<Rightarrow> string \<Rightarrow> 'k fentry res"

record 'k Entry =
  en_Name :: string
  en_Mode :: "64 word"
  en_UID :: "64 word"
  en_GID :: "64 word"
  en_Mtime :: int
  en_Size :: int
  en_Target :: string
  en_Rdev :: "64 word \<times> 64 word"
  en_Content :: "'k option"

definition en_Type :: "'k Entry \<Rightarrow> 64 word" where
  "en_Type e = en_Mode e AND TypeMask"

definition IsDir :: "'k Entry \<Rightarrow> bool" where "IsDir e \<longleftrightarrow> en_Type e = TypeDir"
definition IsRegular :: "'k Entry \<Rightarrow> bool" where "IsRegular e \<longleftrightarrow> en_Type e = TypeReg"

definition TypeName :: "'k Entry \<Rightarrow> string" where
  "TypeName e =
     (let t = en_Type e in
      if t = TypeReg then ''file'' else if t = TypeDir then ''dir''
      else if t = TypeLink then ''symlink'' else if t = TypeChar then ''char''
      else if t = TypeBlock then ''block'' else if t = TypeFIFO then ''fifo''
      else if t = TypeSocket then ''socket'' else ''unknown'')"

definition Clean :: "string \<Rightarrow> string" where
  "Clean p = TrimPrefix (path_Clean (''/'' @ p)) ''/''"

definition rootEntry :: "'k \<Rightarrow> 'k Entry" where
  "rootEntry root = \<lparr>en_Name = '''', en_Mode = TypeDir OR 0x1ED, en_UID = 0, en_GID = 0, en_Mtime = 0,
     en_Size = 0, en_Target = '''', en_Rdev = (0, 0), en_Content = Some root\<rparr>"

definition hasComponent :: "string list \<Rightarrow> bool" where
  "hasComponent comps \<longleftrightarrow> list_ex (\<lambda>c. c \<noteq> '''' \<and> c \<noteq> ''.'') comps"

definition fromFstree :: "'k keyops \<Rightarrow> 'k fentry \<Rightarrow> 'k Entry res" where
  "fromFstree K r =
     (let e = \<lparr>en_Name = fe_Name r, en_Mode = fe_Mode r, en_UID = fe_UID r, en_GID = fe_GID r,
               en_Mtime = fe_Mtime r, en_Size = 0, en_Target = '''', en_Rdev = (0, 0),
               en_Content = None\<rparr>;
          t = en_Type e
      in if t = TypeReg \<or> t = TypeDir then
           (case fe_ContentKey r of
              None \<Rightarrow> Inl (ErrOther ''content key'')
            | Some k \<Rightarrow>
                if \<not> key_ok K k then Inl (ErrOther ''content key'')
                else Inr (e\<lparr>en_Content := Some k,
                            en_Size := (if t = TypeReg then int (key_Length K k) else 0)\<rparr>))
         else if t = TypeLink then Inr (e\<lparr>en_Target := fe_LinkTarget r\<rparr>)
         else if t = TypeChar \<or> t = TypeBlock then
           Inr (case fe_Rdev r of [a, b] \<Rightarrow> e\<lparr>en_Rdev := (a, b)\<rparr> | _ \<Rightarrow> e)
         else Inr e)"

function fs_loop ::
  "'k keyops \<Rightarrow> 'k dirlookup \<Rightarrow> nat \<Rightarrow> 'k Entry list \<Rightarrow> string list \<Rightarrow> 'k Entry res" where
  "fs_loop K L hops stack [] = Inr (last stack)"
| "fs_loop K L hops stack (c # comps) =
     (if c = '''' \<or> c = ''.'' then fs_loop K L hops stack comps
      else if c = ''..'' then
        fs_loop K L hops (if length stack > 1 then butlast stack else stack) comps
      else case en_Content (last stack) of
        None \<Rightarrow> Inl (ErrOther ''not a directory object'')
      | Some dirkey \<Rightarrow>
          (case L dirkey c of
             Inl er \<Rightarrow> Inl (if er = ErrStoreNotFound then ErrFsNotFound else er)
           | Inr raw \<Rightarrow>
               (case fromFstree K raw of
                  Inl er \<Rightarrow> Inl er
                | Inr e \<Rightarrow>
                    if en_Type e = TypeLink then
                      (if Suc hops > maxSymlinkHops then Inl ErrFsLoop
                       else fs_loop K L (Suc hops)
                              (if HasPrefix (en_Target e) ''/'' then take 1 stack else stack)
                              (Split (TrimPrefix (en_Target e) ''/'') CHR ''/'' @ comps))
                    else if en_Type e = TypeDir then fs_loop K L hops (stack @ [e]) comps
                    else if hasComponent comps then Inl ErrFsNotDir
                    else Inr e)))"
  by pat_completeness auto
termination
  by (relation "measures [\<lambda>(K, L, hops, stack, comps). Suc maxSymlinkHops - hops,
                          \<lambda>(K, L, hops, stack, comps). length comps]")
     auto

definition fs_resolve :: "'k keyops \<Rightarrow> 'k dirlookup \<Rightarrow> 'k \<Rightarrow> string \<Rightarrow> 'k Entry res" where
  "fs_resolve K L root p = fs_loop K L 0 [rootEntry root] (splitPath (Clean p))"

definition Stat :: "'k keyops \<Rightarrow> 'k dirlookup \<Rightarrow> 'k \<Rightarrow> string \<Rightarrow> 'k Entry res" where
  "Stat K L root p = fs_resolve K L root p"

text \<open>
  ListDir over the store's ListDir, the parameter \<open>LD\<close> (entries after a name, at most limit of them,
  and whether more follow); Open and Content return the content key a reader is made for.
\<close>

type_synonym 'k dirlist = "'k \<Rightarrow> string \<Rightarrow> int \<Rightarrow> ('k fentry list \<times> bool) res"

fun fromFstree_all :: "'k keyops \<Rightarrow> 'k fentry list \<Rightarrow> 'k Entry list res" where
  "fromFstree_all K [] = Inr []"
| "fromFstree_all K (r # rs) =
     (case fromFstree K r of
        Inl er \<Rightarrow> Inl er
      | Inr e \<Rightarrow> (case fromFstree_all K rs of Inl er \<Rightarrow> Inl er | Inr es \<Rightarrow> Inr (e # es)))"

definition ListDir ::
  "'k keyops \<Rightarrow> 'k dirlist \<Rightarrow> 'k Entry \<Rightarrow> string \<Rightarrow> int \<Rightarrow> ('k Entry list \<times> bool) res" where
  "ListDir K LD dir after limit =
     (if \<not> IsDir dir then Inl ErrFsNotDir
      else case en_Content dir of
        None \<Rightarrow> Inl (ErrOther ''not a directory object'')
      | Some k \<Rightarrow>
          (case LD k after limit of
             Inl er \<Rightarrow> Inl er
           | Inr (raw, hasMore) \<Rightarrow>
               (case fromFstree_all K raw of Inl er \<Rightarrow> Inl er | Inr es \<Rightarrow> Inr (es, hasMore))))"

definition fs_List ::
  "'k keyops \<Rightarrow> 'k dirlookup \<Rightarrow> 'k dirlist \<Rightarrow> 'k \<Rightarrow> string \<Rightarrow> string \<Rightarrow> int
     \<Rightarrow> ('k Entry list \<times> bool) res" where
  "fs_List K L LD root p after limit =
     (case fs_resolve K L root p of Inl er \<Rightarrow> Inl er | Inr dir \<Rightarrow> ListDir K LD dir after limit)"

definition fs_Content :: "'k Entry \<Rightarrow> 'k option res" where
  "fs_Content e = (if \<not> IsRegular e then Inl ErrFsNotFile else Inr (en_Content e))"

definition fs_Open :: "'k keyops \<Rightarrow> 'k dirlookup \<Rightarrow> 'k \<Rightarrow> string \<Rightarrow> ('k Entry \<times> 'k option) res" where
  "fs_Open K L root p =
     (case fs_resolve K L root p of
        Inl er \<Rightarrow> Inl er
      | Inr e \<Rightarrow> (case fs_Content e of Inl _ \<Rightarrow> Inl ErrFsNotFile | Inr r \<Rightarrow> Inr (e, r)))"

text \<open>
  WriteTar streams a subtree through amber's tarexport, the parameter \<open>tarexport\<close>: the bytes that were
  written and the error that ended them, if any.
\<close>

definition WriteTarDir :: "('k \<Rightarrow> bytes \<times> err option) \<Rightarrow> 'k Entry \<Rightarrow> bytes \<times> err option" where
  "WriteTarDir tarexport dir =
     (if \<not> IsDir dir then ([], Some ErrFsNotDir)
      else case en_Content dir of
        None \<Rightarrow> ([], Some (ErrOther ''not a directory object''))
      | Some k \<Rightarrow> tarexport k)"

definition WriteTar ::
  "('k \<Rightarrow> bytes \<times> err option) \<Rightarrow> 'k keyops \<Rightarrow> 'k dirlookup \<Rightarrow> 'k \<Rightarrow> string \<Rightarrow> bytes \<times> err option" where
  "WriteTar tarexport K L root p =
     (case fs_resolve K L root p of Inl er \<Rightarrow> ([], Some er) | Inr dir \<Rightarrow> WriteTarDir tarexport dir)"

section \<open>The walk in the tree in memory\<close>

function stat_loop :: "nat \<Rightarrow> string list \<Rightarrow> string list \<Rightarrow> 'k node \<Rightarrow> string list res" where
  "stat_loop hops stack [] t = Inr stack"
| "stat_loop hops stack (c # comps) t =
     (if c = '''' \<or> c = ''.'' then stat_loop hops stack comps t
      else if c = ''..'' then stat_loop hops (butlast stack) comps t
      else case view t (stack @ [c]) of
        None \<Rightarrow> Inl ErrFsNotFound
      | Some a \<Rightarrow>
          if attr_typ a = TypeLink then
            (if Suc hops > maxSymlinkHops then Inl ErrFsLoop
             else stat_loop (Suc hops) (if HasPrefix (a_link a) ''/'' then [] else stack)
                    (Split (TrimPrefix (a_link a) ''/'') CHR ''/'' @ comps) t)
          else if attr_typ a = TypeDir then stat_loop hops (stack @ [c]) comps t
          else if hasComponent comps then Inl ErrFsNotDir
          else Inr (stack @ [c]))"
  by pat_completeness auto
termination
  by (relation "measures [\<lambda>(hops, stack, comps, t). Suc maxSymlinkHops - hops,
                          \<lambda>(hops, stack, comps, t). length comps]")
     auto

definition tree_stat :: "'k node \<Rightarrow> string \<Rightarrow> string list res" where
  "tree_stat t p = stat_loop 0 [] (splitPath (Clean p)) t"

section \<open>A key that stands for a node\<close>

definition stored_attr :: "'k fentry \<Rightarrow> string \<Rightarrow> 'k attr \<Rightarrow> bool" where
  "stored_attr e name a \<longleftrightarrow>
     fe_Name e = name \<and> fe_Mode e = a_mode a \<and> fe_UID e = a_uid a \<and> fe_GID e = a_gid a
     \<and> fe_Mtime e = a_mtime a
     \<and> (attr_typ a = TypeReg \<longrightarrow> fe_ContentKey e = a_content a)
     \<and> (attr_typ a = TypeLink \<longrightarrow> fe_LinkTarget e = a_link a)
     \<and> (attr_typ a = TypeChar \<or> attr_typ a = TypeBlock \<longrightarrow>
          fe_Rdev e = [fst (a_rdev a), snd (a_rdev a)])"

fun stored :: "'k keyops \<Rightarrow> 'k dirlookup \<Rightarrow> 'k \<Rightarrow> 'k node \<Rightarrow> bool" where
  "stored K L k (Node a cs) \<longleftrightarrow>
     (\<forall>name. name \<notin> fst ` set cs \<longrightarrow> L k name = Inl ErrStoreNotFound)
     \<and> (\<forall>x \<in> set cs. \<exists>e. L k (fst x) = Inr e \<and> stored_attr e (fst x) (attr (snd x))
          \<and> entry_ok K e
          \<and> (node_typ (snd x) = TypeDir \<longrightarrow>
               (\<exists>k'. fe_ContentKey e = Some k' \<and> stored K L k' (snd x))))"

text \<open>
  What the amber library documents of a DirBuilder and of looking an entry up in the directory it
  finished: Finish returns the key of a directory that holds the entries that were added, sorted by
  name. \<open>cont\<close> is the list of entries a builder holds.
\<close>

definition dirstore_ok ::
  "'k keyops \<Rightarrow> ('d, 'k) dirbuilder \<Rightarrow> 'k dirlookup \<Rightarrow> ('d \<Rightarrow> 'k fentry list) \<Rightarrow> bool" where
  "dirstore_ok K B L cont \<longleftrightarrow>
     cont (db_New B) = []
     \<and> (\<forall>d e d'. db_AddEntry B d e = Inr d' \<longrightarrow> cont d' = cont d @ [e])
     \<and> (\<forall>d k. db_Finish B d = Inr k \<and> sorted_wrt (<) (map fe_Name (cont d)) \<longrightarrow>
          (\<forall>name. L k name = (case find (\<lambda>e. fe_Name e = name) (cont d) of
                                None \<Rightarrow> Inl ErrStoreNotFound | Some e \<Rightarrow> Inr e)))"

fun node_count :: "'k node \<Rightarrow> nat" where
  "node_count (Node a cs) = sum_list (map (\<lambda>x. Suc (node_count (snd x))) cs)"

section \<open>emitDir stores the tree\<close>

lemma emit_entry_attr:
  assumes "emit_entry X name a dirkey = Inr e"
  shows "stored_attr e name a" "attr_typ a = TypeDir \<Longrightarrow> fe_ContentKey e = dirkey"
  using assms by (auto simp: emit_entry_def Let_def stored_attr_def type_bits split: if_splits sum.splits prod.splits)

definition emitted :: "'k keyops \<Rightarrow> 'k dirlookup \<Rightarrow> string \<times> 'k node \<Rightarrow> 'k fentry \<Rightarrow> bool" where
  "emitted K L x e \<longleftrightarrow>
     stored_attr e (fst x) (attr (snd x)) \<and> entry_ok K e
     \<and> (node_typ (snd x) = TypeDir \<longrightarrow> (\<exists>k'. fe_ContentKey e = Some k' \<and> stored K L k' (snd x)))"

lemma dirstore_adds:
  assumes "dirstore_ok K B L cont"
  shows "db_adds B db es = Inr db' \<Longrightarrow> cont db' = cont db @ es"
proof (induction es arbitrary: db)
  case (Cons e es)
  then obtain db1 where "db_AddEntry B db e = Inr db1" "db_adds B db1 es = Inr db'"
    by (auto split: sum.splits)
  with Cons.IH assms show ?case by (auto simp: dirstore_ok_def)
qed simp

lemma stored_finish:
  assumes ds: "dirstore_ok K B L cont" and adds: "AddEntries K B (NewDir B) es = Inr d"
    and fin: "Dir_Finish B d = Inr (k, d')" and em: "list_all2 (emitted K L) cs es"
    and cs: "set cs = set (children n)"
  shows "stored K L k n"
proof -
  from adds obtain db where db: "db_adds B (db_New B) es = Inr db" "dir_db d = db"
    and sorted: "sorted_wrt (<) (map fe_Name es)"
    by (auto simp: AddEntries_Inr_iff NewDir_def)
  have cont: "cont (dir_db d) = es"
    using dirstore_adds [OF ds db(1)] ds db(2) by (simp add: dirstore_ok_def)
  have finish: "db_Finish B (dir_db d) = Inr k"
    using fin by (auto simp: Dir_Finish_def split: if_splits sum.splits)
  have L: "L k name = (case find (\<lambda>e. fe_Name e = name) es of None \<Rightarrow> Inl ErrStoreNotFound | Some e \<Rightarrow> Inr e)"
    for name using ds finish cont sorted unfolding dirstore_ok_def by metis
  have names: "fe_Name e = fst x" if "(x, e) \<in> set (zip cs es)" for x e
    using em that by (auto simp: list_all2_iff emitted_def stored_attr_def)
  have len: "length cs = length es" using em by (rule list_all2_lengthD)
  have found: "find (\<lambda>e. fe_Name e = fe_Name e1) es = Some e1" if m: "e1 \<in> set es" for e1
  proof -
    have inj: "inj_on fe_Name (set es)" using sorted by (metis distinct_map strict_sorted_iff)
    obtain e2 where e2: "find (\<lambda>e. fe_Name e = fe_Name e1) es = Some e2"
      using m by (metis (mono_tags, lifting) find_None_iff not_None_eq)
    then have "e2 \<in> set es" "fe_Name e2 = fe_Name e1" by (auto simp: find_Some_iff)
    with inj m e2 show ?thesis by (metis inj_onD)
  qed
  obtain a ch where n: "n = Node a ch" by (cases n)
  have "L k name = Inl ErrStoreNotFound" if "name \<notin> fst ` set ch" for name
  proof -
    have "fe_Name e \<noteq> name" if "e \<in> set es" for e
    proof -
      from that obtain i where i: "i < length es" "es ! i = e" by (auto simp: in_set_conv_nth)
      then have "fe_Name e = fst (cs ! i)" using names [of "cs ! i" e] len by (auto simp: set_zip)
      with i len cs n \<open>name \<notin> fst ` set ch\<close> show ?thesis by (metis image_eqI node.sel(2) nth_mem)
    qed
    then have "find (\<lambda>e. fe_Name e = name) es = None" by (auto simp: find_None_iff)
    then show ?thesis using L by simp
  qed
  moreover have "\<exists>e. L k (fst x) = Inr e \<and> emitted K L x e" if "x \<in> set ch" for x
  proof -
    from that cs n have "x \<in> set cs" by simp
    then obtain i where i: "i < length cs" "cs ! i = x" by (auto simp: in_set_conv_nth)
    then have "emitted K L x (es ! i)" using em by (auto simp: list_all2_conv_all_nth)
    moreover have "find (\<lambda>e. fe_Name e = fst x) es = Some (es ! i)"
      using found [of "es ! i"] calculation i len by (auto simp: emitted_def stored_attr_def)
    ultimately show ?thesis using L by auto
  qed
  ultimately show ?thesis by (simp add: n emitted_def)
qed

lemma node_count_leaf: "children n = [] \<Longrightarrow> node_count n = 0"
  by (cases n) simp

lemma sum_list_insort:
  "sum_list (map f (insort_key g x xs)) = f x + sum_list (map f xs)" for f :: "'a \<Rightarrow> nat"
  by (induction xs) auto

lemma sum_list_sort: "sum_list (map f (sort_key g xs)) = sum_list (map f xs)" for f :: "'a \<Rightarrow> nat"
  by (induction xs) (simp_all add: sum_list_insort)

lemma emit_stores:
  shows "dirstore_ok K B L cont \<Longrightarrow> wf_node n \<Longrightarrow> emitDir K B X n = Inr (k, cnt) \<Longrightarrow>
      stored K L k n \<and> cnt = node_count n"
    and "dirstore_ok K B L cont \<Longrightarrow> \<forall>x \<in> set cs. wf_node (snd x) \<Longrightarrow>
      emit_children K B X d count cs = Inr (d', cnt) \<Longrightarrow>
      \<exists>es. AddEntries K B d es = Inr d' \<and> list_all2 (emitted K L) cs es
         \<and> cnt = count + sum_list (map (\<lambda>x. Suc (node_count (snd x))) cs)"
proof (induction K B X n and K B X d count cs arbitrary: k cnt and d' cnt rule: emitDir_emit_children.induct)
  case (1 K B X a cs)
  from "1.prems"(3) obtain d k' d1 where ch: "emit_children K B X (NewDir B) 0 (sort_key fst cs) = Inr (d, cnt)"
    and fin: "Dir_Finish B d = Inr (k, d1)"
    by (auto split: sum.splits prod.splits)
  from 1 ch obtain es where es: "AddEntries K B (NewDir B) es = Inr d"
    "list_all2 (emitted K L) (sort_key fst cs) es"
    "cnt = sum_list (map (\<lambda>x. Suc (node_count (snd x))) (sort_key fst cs))"
    by fastforce
  have "stored K L k (Node a cs)"
    by (rule stored_finish [OF "1.prems"(1) es(1) fin es(2)]) simp
  with es(3) show ?case by (simp add: sum_list_sort)
next
  case (3 K B X d count name c rest)
  from "3.prems"(3) obtain dirkey n e d1 where
    sub: "(if node_typ c = TypeDir
           then (case emitDir K B X c of Inl er \<Rightarrow> Inl er | Inr (k, n) \<Rightarrow> Inr (Some k, n))
           else Inr (None, 0)) = Inr (dirkey, n)"
    and e: "emit_entry X name (attr c) dirkey = Inr e"
    and add: "AddEntry K B d e = Inr d1"
    and rest: "emit_children K B X d1 (Suc (count + n)) rest = Inr (d', cnt)"
    by (auto split: sum.splits prod.splits)
  have c: "n = node_count c \<and> (node_typ c = TypeDir \<longrightarrow> (\<exists>k. dirkey = Some k \<and> stored K L k c))"
  proof (cases "node_typ c = TypeDir")
    case True
    with sub obtain k where k: "emitDir K B X c = Inr (k, n)" "dirkey = Some k"
      by (auto split: sum.splits)
    have "stored K L k c \<and> n = node_count c"
      using "3.IH"(1) [OF True "3.prems"(1) _ k(1)] "3.prems"(2) by auto
    then show ?thesis using k(2) by auto
  next
    case False
    moreover have "children c = []" using "3.prems"(2) False wf_node_iff [of c] by auto
    ultimately show ?thesis using sub node_count_leaf by auto
  qed
  obtain es where es: "AddEntries K B d1 es = Inr d'" "list_all2 (emitted K L) rest es"
    "cnt = Suc (count + n) + sum_list (map (\<lambda>x. Suc (node_count (snd x))) rest)"
    using "3.IH"(2) [OF sub refl e add "3.prems"(1) _ rest] "3.prems"(2) by auto
  have "emitted K L (name, c) e"
    using emit_entry_attr [OF e] c add
    by (auto simp: emitted_def AddEntry_Inr_iff node_typ_def)
  then have "AddEntries K B d (e # es) = Inr d' \<and> list_all2 (emitted K L) ((name, c) # rest) (e # es)
      \<and> cnt = count + sum_list (map (\<lambda>x. Suc (node_count (snd x))) ((name, c) # rest))"
    using es add c by simp
  then show ?case by blast
qed auto

lemma Write_result:
  assumes "dirstore_ok K B L cont" "wf_tree (b_t b)" "Write K B X b = Inr r"
  shows "stored K L (r_Root r) (b_t b)" "r_Entries r = node_count (b_t b)"
    "r_Skipped r = b_skipped b" "r_SkippedCount r = b_skippedCount b"
proof -
  have e: "emitDir K B X (b_t b) = Inr (r_Root r, r_Entries r)"
    and "r_Skipped r = b_skipped b" "r_SkippedCount r = b_skippedCount b"
    using assms(3) by (auto simp: Write_def split: sum.splits prod.splits)
  moreover have "wf_node (b_t b)" using assms(2) by (simp add: wf_tree_def)
  ultimately show "stored K L (r_Root r) (b_t b)" "r_Entries r = node_count (b_t b)"
    "r_Skipped r = b_skipped b" "r_SkippedCount r = b_skippedCount b"
    using emit_stores(1) [OF assms(1) _ e] by simp_all
qed

text \<open>
  Write stores the tree: when it succeeds, the key it returns stands for the builder's tree
  (each directory object holds exactly the children of its node, with their modes, owners, times
  and payloads, down to the leaves) and the reported number of entries is the number of nodes
  below the root.
\<close>

theorem Write_stored:
  assumes "dirstore_ok K B L cont" "builder_wf b" "Write K B X b = Inr r"
  shows "stored K L (r_Root r) (b_t b) \<and> r_Entries r = node_count (b_t b)
    \<and> r_Skipped r = b_skipped b \<and> r_SkippedCount r = b_skippedCount b"
  using Write_result [OF assms(1) _ assms(3)] assms(2) by (simp add: builder_wf_def)

section \<open>resolve finds what the walk in the tree finds\<close>

definition en_matches :: "string \<Rightarrow> 'k Entry \<Rightarrow> 'k attr \<Rightarrow> bool" where
  "en_matches name en a \<longleftrightarrow>
     en_Name en = name \<and> en_Mode en = a_mode a \<and> en_UID en = a_uid a \<and> en_GID en = a_gid a
     \<and> en_Mtime en = a_mtime a
     \<and> (attr_typ a = TypeReg \<longrightarrow> en_Content en = a_content a)
     \<and> (attr_typ a = TypeLink \<longrightarrow> en_Target en = a_link a)
     \<and> (attr_typ a = TypeChar \<or> attr_typ a = TypeBlock \<longrightarrow> en_Rdev en = a_rdev a)"

definition match_at ::
  "'k keyops \<Rightarrow> 'k dirlookup \<Rightarrow> 'k \<Rightarrow> 'k node \<Rightarrow> string list \<Rightarrow> 'k Entry \<Rightarrow> bool" where
  "match_at K L root t p en \<longleftrightarrow>
     (\<exists>n. get_at t p = Some n
        \<and> (if p = [] then en = rootEntry root else en_matches (last p) en (attr n))
        \<and> (node_typ n = TypeDir \<longrightarrow> (\<exists>k. en_Content en = Some k \<and> stored K L k n)))"

lemma entry_ok_content:
  assumes "entry_ok K e" "fe_Mode e AND TypeMask = TypeReg \<or> fe_Mode e AND TypeMask = TypeDir"
  obtains k where "fe_ContentKey e = Some k" "key_ok K k"
proof -
  have "validatePayload K e = None" using assms(1) by (simp add: entry_ok_def)
  then have "\<exists>k. fe_ContentKey e = Some k \<and> key_ok K k"
    using assms(2)
    by (simp add: validatePayload_def Let_def split: option.splits if_splits)
  then show ?thesis using that by blast
qed

lemma fromFstree_matches:
  assumes "entry_ok K raw" "stored_attr raw name a"
  shows "\<exists>en. fromFstree K raw = Inr en \<and> en_matches name en a \<and> en_Type en = attr_typ a
           \<and> (attr_typ a = TypeDir \<longrightarrow> en_Content en = fe_ContentKey raw)"
proof -
  have m: "fe_Mode raw AND TypeMask = attr_typ a"
    using assms(2) by (simp add: stored_attr_def attr_typ_def)
  show ?thesis
  proof (cases "attr_typ a = TypeReg \<or> attr_typ a = TypeDir")
    case True
    then obtain k where k: "fe_ContentKey raw = Some k" "key_ok K k"
      using entry_ok_content [OF assms(1)] m by auto
    show ?thesis
      using assms(2) True k m
      by (auto simp: fromFstree_def Let_def en_Type_def en_matches_def stored_attr_def attr_typ_def type_bits)
  next
    case False
    then show ?thesis
      using assms(2) m
      by (auto simp: fromFstree_def Let_def en_Type_def en_matches_def stored_attr_def attr_typ_def
          split: list.split)
  qed
qed

lemma stored_child:
  assumes "stored K L k n" "wf_node n"
  shows "case map_of (children n) c of
           None \<Rightarrow> L k c = Inl ErrStoreNotFound
         | Some m \<Rightarrow> \<exists>raw. L k c = Inr raw \<and> stored_attr raw c (attr m) \<and> entry_ok K raw
             \<and> (node_typ m = TypeDir \<longrightarrow> (\<exists>k'. fe_ContentKey raw = Some k' \<and> stored K L k' m))"
proof (cases "map_of (children n) c")
  case None
  then have "c \<notin> fst ` set (children n)" by (simp add: map_of_eq_None_iff)
  with None assms(1) show ?thesis by (cases n) simp
next
  case (Some m)
  then have "(c, m) \<in> set (children n)" by (rule map_of_SomeD)
  with Some assms(1) show ?thesis by (cases n) fastforce
qed

lemma fs_step:
  assumes wf: "wf_tree t" and m: "match_at K L root t p en" and d: "is_dir_at t p"
  obtains k where "en_Content en = Some k"
    "view t (p @ [c]) = None \<Longrightarrow> L k c = Inl ErrStoreNotFound"
    "\<And>a. view t (p @ [c]) = Some a \<Longrightarrow>
       \<exists>raw en'. L k c = Inr raw \<and> fromFstree K raw = Inr en' \<and> en_Type en' = attr_typ a
         \<and> match_at K L root t (p @ [c]) en' \<and> (attr_typ a = TypeLink \<longrightarrow> en_Target en' = a_link a)"
proof -
  from m d obtain n k where n: "get_at t p = Some n" "node_typ n = TypeDir"
    and k: "en_Content en = Some k" "stored K L k n"
    by (auto simp: match_at_def is_dir_at_iff)
  have v: "view t (p @ [c]) = map_option attr (map_of (children n) c)"
    using n by (simp add: view_def get_at_snoc)
  note ch = stored_child [OF k(2) wf_tree_get_at [OF wf n(1)], of c]
  have "L k c = Inl ErrStoreNotFound" if "view t (p @ [c]) = None" using ch v that by auto
  moreover have "\<exists>raw en'. L k c = Inr raw \<and> fromFstree K raw = Inr en' \<and> en_Type en' = attr_typ a
         \<and> match_at K L root t (p @ [c]) en' \<and> (attr_typ a = TypeLink \<longrightarrow> en_Target en' = a_link a)"
    if "view t (p @ [c]) = Some a" for a
  proof -
    from v that have "map_option attr (map_of (children n) c) = Some a" by simp
    then obtain m where mm: "map_of (children n) c = Some m" "attr m = a" by auto
    with ch obtain raw where raw: "L k c = Inr raw" "stored_attr raw c (attr m)" "entry_ok K raw"
      and dir: "node_typ m = TypeDir \<longrightarrow> (\<exists>k'. fe_ContentKey raw = Some k' \<and> stored K L k' m)" by auto
    from fromFstree_matches [OF raw(3,2)] obtain en' where en': "fromFstree K raw = Inr en'"
      "en_matches c en' (attr m)" "en_Type en' = attr_typ (attr m)"
      "attr_typ (attr m) = TypeDir \<longrightarrow> en_Content en' = fe_ContentKey raw" by blast
    moreover have "get_at t (p @ [c]) = Some m" using n mm by (simp add: get_at_snoc)
    ultimately have "match_at K L root t (p @ [c]) en'"
      using dir by (auto simp: match_at_def node_typ_def)
    with raw(1) en' mm show ?thesis by (auto simp: en_matches_def)
  qed
  ultimately show ?thesis by (rule that [OF k(1)])
qed

lemma list_all2_butlast: "list_all2 P xs ys \<Longrightarrow> list_all2 P (butlast xs) (butlast ys)"
  by (auto simp: list_all2_conv_all_nth nth_butlast)

lemma list_all2_last: "list_all2 P xs ys \<Longrightarrow> xs \<noteq> [] \<Longrightarrow> P (last xs) (last ys)"
  by (cases "ys = []") (auto simp: list_all2_conv_all_nth last_conv_nth)

lemma match_last: "list_all2 P (prefixes p) S \<Longrightarrow> P p (last S)"
  using list_all2_last [of P "prefixes p" S] by (cases p rule: rev_cases) auto

lemma match_snoc: "list_all2 P (prefixes p) S \<Longrightarrow> P (p @ [c]) e \<Longrightarrow> list_all2 P (prefixes (p @ [c])) (S @ [e])"
  by (simp add: list_all2_appendI)

lemma match_pop:
  "list_all2 P (prefixes p) S \<Longrightarrow>
   list_all2 P (prefixes (butlast p)) (if length S > 1 then butlast S else S)"
  using list_all2_butlast [of P "prefixes p" S] list_all2_lengthD [of P "prefixes p" S]
  by (cases p rule: rev_cases) auto

lemma match_root: "list_all2 P (prefixes p) S \<Longrightarrow> list_all2 P (prefixes []) (take 1 S)"
  by (cases p; cases S) auto

lemma fs_loop_stat:
  assumes "wf_tree t" "list_all2 (match_at K L root t) (prefixes p) S" "is_dir_at t p"
  shows "case stat_loop hops p comps t of
           Inl er \<Rightarrow> fs_loop K L hops S comps = Inl er
         | Inr q \<Rightarrow> \<exists>en. fs_loop K L hops S comps = Inr en \<and> match_at K L root t q en"
  using assms
proof (induction hops p comps t arbitrary: S rule: stat_loop.induct)
  case (1 hops p t)
  then show ?case using match_last by fastforce
next
  case (2 hops p c comps t)
  note wf = "2.prems"(1) and S = "2.prems"(2) and d = "2.prems"(3)
  consider "c = '''' \<or> c = ''.''" | "c = ''..''" | "c \<noteq> ''''" "c \<noteq> ''.''" "c \<noteq> ''..''" by blast
  then show ?case
  proof cases
    case 1
    then show ?thesis using "2.IH"(1) [OF 1 wf S d] by (auto split: sum.splits)
  next
    case 2
    then show ?thesis
      using "2.IH"(2) [OF _ 2 wf match_pop [OF S] is_dir_at_butlast [OF wf d]]
      by (cases "length S > 1") (simp_all split: sum.splits)
  next
    case c: 3
    obtain k where k: "en_Content (last S) = Some k"
      and none: "view t (p @ [c]) = None \<Longrightarrow> L k c = Inl ErrStoreNotFound"
      and some: "\<And>a. view t (p @ [c]) = Some a \<Longrightarrow>
       \<exists>raw en'. L k c = Inr raw \<and> fromFstree K raw = Inr en' \<and> en_Type en' = attr_typ a
         \<and> match_at K L root t (p @ [c]) en' \<and> (attr_typ a = TypeLink \<longrightarrow> en_Target en' = a_link a)"
      using fs_step [OF wf match_last [OF S] d, of c] by blast
    show ?thesis
    proof (cases "view t (p @ [c])")
      case None
      then show ?thesis using c k none by simp
    next
      case (Some a)
      then obtain raw en where raw: "L k c = Inr raw" "fromFstree K raw = Inr en" "en_Type en = attr_typ a"
        and m: "match_at K L root t (p @ [c]) en" "attr_typ a = TypeLink \<longrightarrow> en_Target en = a_link a"
        using some by blast
      consider "attr_typ a = TypeLink" "hops < maxSymlinkHops" | "attr_typ a = TypeLink" "\<not> hops < maxSymlinkHops"
        | "attr_typ a = TypeDir" | "attr_typ a \<noteq> TypeLink" "attr_typ a \<noteq> TypeDir" by blast
      then show ?thesis
      proof cases
        case 1
        have d': "is_dir_at t (if HasPrefix (a_link a) ''/'' then [] else p)"
          using d is_dir_at_root [OF wf] by simp
        have S': "list_all2 (match_at K L root t) (prefixes (if HasPrefix (a_link a) ''/'' then [] else p))
            (if HasPrefix (a_link a) ''/'' then take 1 S else S)"
          using S match_root [OF S] by simp
        show ?thesis
          using "2.IH"(3) [OF _ c(3) Some 1(1) _ wf S' d'] c k raw m Some 1
          by (cases "HasPrefix (a_link a) ''/''") (simp_all split: sum.splits)
      next
        case 2
        then show ?thesis using c k raw Some by simp
      next
        case 3
        have "is_dir_at t (p @ [c])" using Some 3 by (simp add: is_dir_at_def)
        then show ?thesis
          using "2.IH"(4) [OF _ c(3) Some _ 3 wf match_snoc [OF S m(1)]] c k raw Some 3
          by (simp split: sum.splits)
      next
        case 4
        then show ?thesis using c k raw Some m by simp
      qed
    qed
  qed
qed

text \<open>
  Reading a stored tree agrees with the tree: when a key stands for a well-formed tree, Stat of
  any request path fails exactly as the walk in the tree fails (not found, not a directory, too many
  links) or returns the entry of the place the walk reaches, with that node's name and metadata.
\<close>

theorem Stat_agrees:
  assumes "wf_tree t" "stored K L root t"
  shows "case tree_stat t p of
           Inl er \<Rightarrow> Stat K L root p = Inl er
         | Inr q \<Rightarrow> \<exists>en. Stat K L root p = Inr en \<and> match_at K L root t q en"
proof -
  have "match_at K L root t [] (rootEntry root)"
    using assms by (simp add: match_at_def rootEntry_def)
  then have "list_all2 (match_at K L root t) (prefixes []) [rootEntry root]" by simp
  from fs_loop_stat [OF assms(1) this is_dir_at_root [OF assms(1)], of 0 "splitPath (Clean p)"]
  show ?thesis by (simp add: Stat_def fs_resolve_def tree_stat_def split: sum.splits)
qed

lemma stat_plain:
  assumes "wf_tree t" "is_dir_at t stack" "plain_path comps" "no_links (view t) (stack @ comps)"
  shows "case view t (stack @ comps) of
           Some a \<Rightarrow> stat_loop hops stack comps t = Inr (stack @ comps)
         | None \<Rightarrow> stat_loop hops stack comps t \<in> {Inl ErrFsNotFound, Inl ErrFsNotDir}"
  using assms
proof (induction comps arbitrary: stack)
  case Nil
  then show ?case by (auto simp: is_dir_at_def split: option.splits)
next
  case (Cons c comps)
  have c: "c \<noteq> ''''" "c \<noteq> ''.''" "c \<noteq> ''..''" using Cons.prems(3) by (auto simp: plain_comp_def)
  have more: "hasComponent comps" if "comps \<noteq> []"
    using that Cons.prems(3) by (cases comps) (auto simp: hasComponent_def plain_comp_def)
  show ?case
  proof (cases "view t (stack @ [c])")
    case None
    then have "view t (stack @ c # comps) = None"
      by (simp add: view_def get_at_append split: option.splits)
    then show ?thesis using None c by simp
  next
    case (Some a)
    then have nl: "attr_typ a \<noteq> TypeLink"
      using no_linksD [OF Cons.prems(4), of "stack @ [c]"] by (simp add: prefix_def)
    show ?thesis
    proof (cases "attr_typ a = TypeDir")
      case True
      with Some have "is_dir_at t (stack @ [c])" by (simp add: is_dir_at_def)
      from Cons.IH [OF Cons.prems(1) this] show ?thesis
        using Cons.prems(3,4) Some c True by (simp split: option.splits)
    next
      case False
      have "view t (stack @ c # comps) = None" if "comps \<noteq> []"
        using view_strict_below [OF Cons.prems(1), of "stack @ [c]" "hd comps" "tl comps"] False Some that
        by (cases "view t (stack @ c # comps)") (auto simp: is_dir_at_def)
      then show ?thesis
        using Some c nl False more by (cases "comps = []") (auto simp: hasComponent_def)
    qed
  qed
qed

lemma Clean_plain: "plain_path cs \<Longrightarrow> Clean (Join cs ''/'') = Join cs ''/''"
proof -
  assume p: "plain_path cs"
  have "clean_comps True (Split (''/'' @ Join cs ''/'') CHR ''/'') = cs"
  proof (cases "cs = []")
    case False
    then have "Split (''/'' @ Join cs ''/'') CHR ''/'' = [] # cs" using p by (simp add: Split_Join_plain)
    then show ?thesis using clean_comps_plain [OF p, of True] by (simp add: clean_comps_def clean_push_def)
  qed (simp add: clean_comps_def clean_push_def)
  then show ?thesis by (simp add: Clean_def path_Clean_def Let_def TrimPrefix_def)
qed

text \<open>
  (C1) End to end: after a successful Write, Stat of a path without symbolic links returns the
  attributes the merged tree has there (owner, mode, time, content key, link target, device), and
  reports not found or not a directory when the tree has nothing there.
\<close>

theorem Write_then_Stat:
  assumes "dirstore_ok K B L cont" "builder_wf b" "Write K B X b = Inr r"
    and "plain_path cs" "no_links (view (b_t b)) cs"
  shows "case view (b_t b) cs of
           Some a \<Rightarrow> \<exists>en. Stat K L (r_Root r) (Join cs ''/'') = Inr en
                       \<and> (cs \<noteq> [] \<longrightarrow> en_matches (last cs) en a)
         | None \<Rightarrow> Stat K L (r_Root r) (Join cs ''/'') \<in> {Inl ErrFsNotFound, Inl ErrFsNotDir}"
proof -
  have wf: "wf_tree (b_t b)" using assms(2) by (simp add: builder_wf_def)
  define k where r: "k = r_Root r"
  have st: "stored K L k (b_t b)"
    using Write_result [OF assms(1) wf assms(3)] by (simp add: r)
  have root: "list_all2 (match_at K L k (b_t b)) (prefixes []) [rootEntry k]"
    using wf st by (simp add: match_at_def rootEntry_def)
  note agree = fs_loop_stat [OF wf root is_dir_at_root [OF wf], of 0 cs]
  note walk = stat_plain [OF wf is_dir_at_root [OF wf] assms(4), of 0]
  have "Stat K L k (Join cs ''/'') = fs_loop K L 0 [rootEntry k] cs"
    by (simp add: Stat_def fs_resolve_def Clean_plain splitPath_plain assms(4))
  with agree walk assms(5) show ?thesis
    by (cases "view (b_t b) cs") (auto simp: r match_at_def view_def)
qed

section \<open>A store in memory\<close>

text \<open>Directory objects as keys that carry their entries, to instantiate the library parameters.\<close>

datatype mkey = MBlob nat | MDir "mkey fentry list" | MXattr

definition mem_keys :: "mkey keyops" where
  "mem_keys = \<lparr>key_ok = (\<lambda>_. True),
     key_Type = (\<lambda>k. case k of MBlob _ \<Rightarrow> KBlob | MDir _ \<Rightarrow> KDirLeaf | MXattr \<Rightarrow> KXattrSet),
     key_Length = (\<lambda>_. 0)\<rparr>"

definition mem_builder :: "(mkey fentry list, mkey) dirbuilder" where
  "mem_builder = \<lparr>db_New = [], db_AddEntry = (\<lambda>d e. Inr (d @ [e])), db_Finish = (\<lambda>d. Inr (MDir d))\<rparr>"

definition mem_lookup :: "mkey dirlookup" where
  "mem_lookup k name =
     (case k of
        MDir es \<Rightarrow> (case find (\<lambda>e. fe_Name e = name) es of None \<Rightarrow> Inl ErrStoreNotFound | Some e \<Rightarrow> Inr e)
      | _ \<Rightarrow> Inl (ErrOther ''not a directory''))"

definition mem_xattrs :: "mkey xattrops" where
  "mem_xattrs = \<lparr>xa_Encode = (\<lambda>_. ''x''), xa_EncodeSet = (\<lambda>_. Inr (MXattr, ''x'')), xa_Emit = (\<lambda>_. None)\<rparr>"

lemma mem_dirstore_ok: "dirstore_ok mem_keys mem_builder mem_lookup (\<lambda>d. d)"
  by (simp add: dirstore_ok_def mem_builder_def mem_lookup_def)

definition mem_entry :: "kind \<Rightarrow> string \<Rightarrow> mkey entry" where
  "mem_entry k p = \<lparr>e_kind = k, e_path = p, e_target = ''usr'', e_mode = 0x1ED, e_uid = 1, e_gid = 2,
     e_mtime = 7, e_rdev = (0, 0), e_xattrs = [], e_content = Some (MBlob 5), e_reason = ''''\<rparr>"

definition mem_build :: "mkey Builder" where
  "mem_build = snd (Apply New ''sha256:0''
     (Inr [mem_entry kindFile ''usr/bin/sh'', mem_entry kindSymlink ''bin'', mem_entry kindDir ''tmp'']))"

lemma mem_entry_wf: "plain_path cs \<Longrightarrow> p = Join cs ''/'' \<Longrightarrow> k \<noteq> kindWhiteout \<Longrightarrow> k \<noteq> kindHardlink
  \<Longrightarrow> entry_wf (mem_entry k p)"
  by (auto simp: entry_wf_def mem_entry_def perm_bits_def clean_path_def)

lemma mem_build_wf: "builder_wf mem_build"
proof -
  have "entry_wf (mem_entry kindFile ''usr/bin/sh'')"
    by (rule mem_entry_wf [of "[''usr'', ''bin'', ''sh'']"]) (simp_all add: plain_comp_def)
  moreover have "entry_wf (mem_entry kindSymlink ''bin'')"
    by (rule mem_entry_wf [of "[''bin'']"]) (simp_all add: plain_comp_def)
  moreover have "entry_wf (mem_entry kindDir ''tmp'')"
    by (rule mem_entry_wf [of "[''tmp'']"]) (simp_all add: plain_comp_def)
  moreover have "builder_wf (New :: mkey Builder)" by (simp add: builder_wf_def New_def wf_newTree)
  ultimately show ?thesis
    unfolding mem_build_def Apply_def by (simp add: place_pass_wf remove_pass_wf)
qed

definition mem_result :: "mkey Result" where
  "mem_result = (case Write mem_keys mem_builder mem_xattrs mem_build of
     Inr r \<Rightarrow> r | Inl _ \<Rightarrow> \<lparr>r_Root = MBlob 0, r_Entries = 0, r_Skipped = [], r_SkippedCount = 0\<rparr>)"

lemma mem_write: "Write mem_keys mem_builder mem_xattrs mem_build = Inr mem_result"
proof -
  have "(case Write mem_keys mem_builder mem_xattrs mem_build of Inl _ \<Rightarrow> False | Inr _ \<Rightarrow> True)"
    by code_simp
  then show ?thesis by (auto simp: mem_result_def split: sum.splits)
qed

theorem Write_stored_witness:
  "stored mem_keys mem_lookup (r_Root mem_result) (b_t mem_build) \<and> r_Entries mem_result = 5"
proof -
  have "node_count (b_t mem_build) = 5" by code_simp
  then show ?thesis using Write_stored [OF mem_dirstore_ok mem_build_wf mem_write] by simp
qed

theorem Write_then_Stat_witness:
  "\<exists>en. Stat mem_keys mem_lookup (r_Root mem_result) ''usr/bin/sh'' = Inr en \<and> en_Name en = ''sh''
     \<and> en_Content en = Some (MBlob 5) \<and> en_Mode en = 0x81ED"
proof -
  have v: "view (b_t mem_build) [''usr'', ''bin'', ''sh''] = Some (put_attr (mem_entry kindFile ''usr/bin/sh''))"
    and "no_links (view (b_t mem_build)) [''usr'', ''bin'', ''sh'']"
    and "attr_typ (put_attr (mem_entry kindFile ''usr/bin/sh'')) = TypeReg"
    and "a_content (put_attr (mem_entry kindFile ''usr/bin/sh'')) = Some (MBlob 5)"
    and "a_mode (put_attr (mem_entry kindFile ''usr/bin/sh'')) = 0x81ED"
    by code_simp+
  then show ?thesis
    using Write_then_Stat [OF mem_dirstore_ok mem_build_wf mem_write, of "[''usr'', ''bin'', ''sh'']"]
    by (auto simp: plain_comp_def en_matches_def)
qed

lemma mem_stored: "wf_tree (b_t mem_build)" "stored mem_keys mem_lookup (r_Root mem_result) (b_t mem_build)"
proof -
  show wf: "wf_tree (b_t mem_build)" using mem_build_wf by (simp add: builder_wf_def)
  show "stored mem_keys mem_lookup (r_Root mem_result) (b_t mem_build)"
    using Write_result [OF mem_dirstore_ok wf mem_write] by simp
qed

theorem Stat_agrees_witness:
  "\<exists>en. Stat mem_keys mem_lookup (r_Root mem_result) ''bin/./bin/sh'' = Inr en
     \<and> match_at mem_keys mem_lookup (r_Root mem_result) (b_t mem_build) [''usr'', ''bin'', ''sh''] en"
proof -
  have "tree_stat (b_t mem_build) ''bin/./bin/sh'' = Inr [''usr'', ''bin'', ''sh'']" by code_simp
  with Stat_agrees [OF mem_stored, of "''bin/./bin/sh''"] show ?thesis by simp
qed

end
