(* ===== verification/Rootfs_Emit.thy ===== *)
theory Rootfs_Emit
  imports Rootfs_FS
begin

unbundle bit_operations_syntax

text \<open>
  When Write succeeds. The directory builder, the xattr encoder and the pipeline behind them are
  assumed not to fail (\<open>lib_total\<close>); what is left are the checks of the store's own AddEntry. The
  trees that pass them are characterised by \<open>emittable\<close>, and two entries of an archive that parse and
  are placed without being recorded as skips lead out of it.
\<close>

definition lib_total :: "'k keyops \<Rightarrow> ('d, 'k) dirbuilder \<Rightarrow> 'k xattrops \<Rightarrow> bool" where
  "lib_total K B X \<longleftrightarrow>
     (\<forall>d e. \<exists>d'. db_AddEntry B d e = Inr d')
     \<and> (\<forall>d. \<exists>k. db_Finish B d = Inr k \<and> key_ok K k \<and> key_Type K k \<in> {KDirLeaf, KDirNode})
     \<and> (\<forall>m. \<exists>k raw. xa_EncodeSet X m = Inr (k, raw) \<and> xa_Emit X (k, raw) = None
            \<and> key_ok K k \<and> key_Type K k = KXattrSet)"

definition attr_emittable :: "'k keyops \<Rightarrow> 'k attr \<Rightarrow> bool" where
  "attr_emittable K a \<longleftrightarrow>
     (let t = attr_typ a in
      if t = TypeReg then
        (case a_content a of None \<Rightarrow> False | Some k \<Rightarrow> key_ok K k \<and> key_Type K k \<in> {KBlob, KFileNode})
      else if t = TypeLink then a_link a \<noteq> ''''
      else t \<in> {TypeDir, TypeChar, TypeBlock, TypeFIFO, TypeSocket})"

fun emittable :: "'k keyops \<Rightarrow> 'k node \<Rightarrow> bool" where
  "emittable K (Node a cs) \<longleftrightarrow>
     (\<forall>x \<in> set cs. entry_name_ok (fst x) \<and> attr_emittable K (attr (snd x)) \<and> emittable K (snd x))"

lemma PutXattrs_total:
  assumes "lib_total K B X"
  obtains inl sp where "PutXattrs X m = Inr (inl, sp)" "inl = [] \<or> sp = None"
    "\<And>k. sp = Some k \<Longrightarrow> key_ok K k \<and> key_Type K k = KXattrSet"
proof -
  from assms obtain k raw where "xa_EncodeSet X m = Inr (k, raw)" "xa_Emit X (k, raw) = None"
    "key_ok K k" "key_Type K k = KXattrSet"
    unfolding lib_total_def by meson
  then have "\<exists>inl sp. PutXattrs X m = Inr (inl, sp) \<and> (inl = [] \<or> sp = None)
      \<and> (\<forall>k. sp = Some k \<longrightarrow> key_ok K k \<and> key_Type K k = KXattrSet)"
    by (auto simp: PutXattrs_def Let_def)
  then show ?thesis using that by blast
qed

lemma emit_entry_ok:
  assumes "lib_total K B X"
    and "attr_typ a = TypeDir \<longrightarrow> (\<exists>k. dirkey = Some k \<and> key_ok K k \<and> key_Type K k \<in> {KDirLeaf, KDirNode})"
  shows "\<exists>e. emit_entry X name a dirkey = Inr e \<and> fe_Name e = name
           \<and> (validatePayload K e = None \<longleftrightarrow> attr_emittable K a)"
proof -
  obtain inl sp where x: "PutXattrs X (a_xattrs a) = Inr (inl, sp)" "inl = [] \<or> sp = None"
    "\<And>k. sp = Some k \<Longrightarrow> key_ok K k \<and> key_Type K k = KXattrSet"
    using PutXattrs_total [OF assms(1)] by metis
  define sp' where "sp' = (if a_xattrs a = [] then None else sp)"
  define inl' where "inl' = (if a_xattrs a = [] then [] else inl)"
  define e where "e = FEntry name (a_mode a) (a_uid a) (a_gid a) (a_mtime a)
     (if attr_typ a = TypeDir then dirkey else if attr_typ a = TypeReg then a_content a else None)
     (if attr_typ a = TypeLink then a_link a else '''')
     (if attr_typ a = TypeChar \<or> attr_typ a = TypeBlock then [fst (a_rdev a), snd (a_rdev a)] else [])
     inl' sp'"
  have em: "emit_entry X name a dirkey = Inr e"
    using x(1) by (simp add: emit_entry_def Let_def e_def sp'_def inl'_def)
  have xa: "\<not> (inl' \<noteq> [] \<and> sp' \<noteq> None)" "\<And>k. sp' = Some k \<Longrightarrow> key_ok K k \<and> key_Type K k = KXattrSet"
    using x by (auto simp: sp'_def inl'_def split: if_splits)
  have m: "a_mode a AND TypeMask = attr_typ a" by (simp add: attr_typ_def)
  have sock: "TypeSocket \<noteq> TypeReg" "TypeSocket \<noteq> TypeDir" "TypeSocket \<noteq> TypeLink" "TypeSocket \<noteq> TypeChar"
    "TypeSocket \<noteq> TypeBlock" by (simp_all add: type_bits)
  have "validatePayload K e = None \<longleftrightarrow> attr_emittable K a"
  proof (cases "attr_typ a = TypeDir")
    case True
    with assms(2) obtain k where "dirkey = Some k" "key_ok K k" "key_Type K k \<in> {KDirLeaf, KDirNode}" by blast
    with True xa show ?thesis
      by (auto simp: validatePayload_def Let_def e_def m attr_emittable_def split: option.split)
  next
    case False
    with xa sock show ?thesis
      by (auto simp: validatePayload_def Let_def e_def m attr_emittable_def split: option.split)
  qed
  with em show ?thesis by (auto simp: e_def)
qed

lemma AddEntry_total:
  assumes "lib_total K B X" "\<not> dir_done d" "dir_n d > 0 \<longrightarrow> dir_last d < fe_Name e"
  shows "(\<exists>d'. AddEntry K B d e = Inr d') \<longleftrightarrow> entry_ok K e"
proof -
  from assms(1) obtain db where "db_AddEntry B (dir_db d) e = Inr db"
    unfolding lib_total_def by meson
  then show ?thesis using assms(2,3) by (auto simp: AddEntry_Inr_iff)
qed

lemma sorted_sort_fst: "distinct (map fst cs) \<Longrightarrow> sorted_wrt (<) (map fst (sort_key fst cs))"
proof -
  assume "distinct (map fst cs)"
  then have "distinct (map fst (sort_key fst cs))" by (simp add: distinct_map)
  then show ?thesis by (metis strict_sorted_iff sorted_sort_key)
qed

definition child_emittable :: "'k keyops \<Rightarrow> string \<times> 'k node \<Rightarrow> bool" where
  "child_emittable K x \<longleftrightarrow>
     entry_name_ok (fst x) \<and> attr_emittable K (attr (snd x)) \<and> emittable K (snd x)"

lemma emittable_iff: "emittable K n \<longleftrightarrow> (\<forall>x \<in> set (children n). child_emittable K x)"
  by (cases n) (simp add: child_emittable_def)

lemma emit_children_open:
  "\<not> dir_done d \<Longrightarrow> emit_children K B X d count cs = Inr (d', cnt) \<Longrightarrow> \<not> dir_done d'"
proof (induction cs arbitrary: d count)
  case (Cons x cs)
  obtain name c where x: "x = (name, c)" by (cases x)
  from Cons.prems(2) obtain e d1 count1 where a: "AddEntry K B d e = Inr d1"
    and r: "emit_children K B X d1 count1 cs = Inr (d', cnt)"
    by (auto simp: x split: sum.splits prod.splits)
  have "\<not> dir_done d1" using a Cons.prems(1) by (auto simp: AddEntry_Inr_iff)
  from Cons.IH [OF this r] show ?case .
qed simp

lemma emit_succeeds:
  shows "lib_total K B X \<Longrightarrow> wf_node n \<Longrightarrow>
      ((\<exists>r. emitDir K B X n = Inr r) \<longleftrightarrow> emittable K n)
      \<and> (\<forall>k cnt. emitDir K B X n = Inr (k, cnt) \<longrightarrow> key_ok K k \<and> key_Type K k \<in> {KDirLeaf, KDirNode})"
    and "lib_total K B X \<Longrightarrow> \<forall>x \<in> set cs. wf_node (snd x) \<Longrightarrow> \<not> dir_done d \<Longrightarrow>
      sorted_wrt (<) (map fst cs) \<Longrightarrow> (dir_n d > 0 \<and> cs \<noteq> [] \<longrightarrow> dir_last d < fst (hd cs)) \<Longrightarrow>
      (\<exists>r. emit_children K B X d count cs = Inr r) \<longleftrightarrow> (\<forall>x \<in> set cs. child_emittable K x)"
proof (induction K B X n and K B X d count cs rule: emitDir_emit_children.induct)
  case (1 K B X a cs)
  have d: "\<not> dir_done (NewDir B)" "dir_n (NewDir B) = 0" by (simp_all add: NewDir_def)
  have fin: "\<exists>k d'. Dir_Finish B d = Inr (k, d') \<and> key_ok K k \<and> key_Type K k \<in> {KDirLeaf, KDirNode}"
    if nd: "\<not> dir_done d" for d
  proof -
    from "1.prems"(1) obtain k where "db_Finish B (dir_db d) = Inr k" "key_ok K k"
      "key_Type K k \<in> {KDirLeaf, KDirNode}" unfolding lib_total_def by meson
    then show ?thesis using nd by (simp add: Dir_Finish_def)
  qed
  have ch: "(\<exists>r. emit_children K B X (NewDir B) 0 (sort_key fst cs) = Inr r)
      \<longleftrightarrow> (\<forall>x \<in> set cs. child_emittable K x)"
    using 1 d sorted_sort_fst [of cs] by simp
  show ?case
  proof (cases "emit_children K B X (NewDir B) 0 (sort_key fst cs)")
    case (Inl er)
    then show ?thesis using ch by (simp add: child_emittable_def)
  next
    case (Inr r)
    then obtain d' cnt where r: "r = (d', cnt)" by (cases r)
    have "\<not> dir_done d'" using emit_children_open [OF d(1)] Inr r by blast
    from fin [OF this] obtain k d2 where "Dir_Finish B d' = Inr (k, d2)" "key_ok K k"
      "key_Type K k \<in> {KDirLeaf, KDirNode}" by blast
    then show ?thesis using Inr r ch by (auto simp: child_emittable_def)
  qed
next
  case (3 K B X d count name c rest)
  define sub where "sub = (if node_typ c = TypeDir
       then (case emitDir K B X c of Inl er \<Rightarrow> Inl er | Inr (k, n) \<Rightarrow> Inr (Some k, n))
       else Inr (None, 0))"
  have wfc: "wf_node c" using "3.prems"(2) by simp
  have leaf: "emittable K c" if "node_typ c \<noteq> TypeDir"
    using wfc that wf_node_iff [of c] by (simp add: emittable_iff)
  have ihc: "((\<exists>r. emitDir K B X c = Inr r) \<longleftrightarrow> emittable K c)
      \<and> (\<forall>k cnt. emitDir K B X c = Inr (k, cnt) \<longrightarrow> key_ok K k \<and> key_Type K k \<in> {KDirLeaf, KDirNode})"
    if "node_typ c = TypeDir" using "3.IH"(1) [OF that "3.prems"(1) wfc] .
  show ?case
  proof (cases sub)
    case (Inl er)
    then have "node_typ c = TypeDir" "emitDir K B X c = Inl er"
      by (auto simp: sub_def split: if_splits sum.splits)
    with ihc have "\<not> child_emittable K (name, c)" by (simp add: child_emittable_def)
    moreover have "emit_children K B X d count ((name, c) # rest) = Inl er"
      by (simp only: emit_children.simps Inl [unfolded sub_def] sum.case)
    ultimately show ?thesis by (simp del: emit_children.simps)
  next
    case (Inr r)
    then obtain dirkey n where r: "sub = Inr (dirkey, n)" by (cases r) auto
    have dir: "\<exists>k. dirkey = Some k \<and> emitDir K B X c = Inr (k, n)" if "node_typ c = TypeDir"
      using r that by (auto simp: sub_def split: sum.splits)
    have em: "emittable K c" using leaf dir ihc by blast
    have dk: "attr_typ (attr c) = TypeDir \<longrightarrow>
        (\<exists>k. dirkey = Some k \<and> key_ok K k \<and> key_Type K k \<in> {KDirLeaf, KDirNode})"
      using dir ihc unfolding node_typ_def by blast
    from emit_entry_ok [OF "3.prems"(1) dk, of name]
    obtain e where e: "emit_entry X name (attr c) dirkey = Inr e" "fe_Name e = name"
      "validatePayload K e = None \<longleftrightarrow> attr_emittable K (attr c)"
      by (elim exE conjE)
    have add: "(\<exists>d'. AddEntry K B d e = Inr d') \<longleftrightarrow> entry_name_ok name \<and> attr_emittable K (attr c)"
      using AddEntry_total [OF "3.prems"(1,3)] "3.prems"(5) e by (simp add: entry_ok_def)
    have eq: "emit_children K B X d count ((name, c) # rest) =
        (case AddEntry K B d e of
           Inl er \<Rightarrow> Inl er | Inr d' \<Rightarrow> emit_children K B X d' (Suc (count + n)) rest)"
      by (simp only: emit_children.simps r [unfolded sub_def] e(1) sum.case prod.case)
    show ?thesis
    proof (cases "AddEntry K B d e")
      case (Inl er)
      then show ?thesis
        using add by (auto simp: child_emittable_def eq simp del: emit_children.simps)
    next
      case (Inr d1)
      then have d1: "\<not> dir_done d1" "dir_last d1 = name" using e by (auto simp: AddEntry_Inr_iff)
      have "(\<exists>r. emit_children K B X d1 (Suc (count + n)) rest = Inr r)
          \<longleftrightarrow> (\<forall>x \<in> set rest. child_emittable K x)"
        by (rule "3.IH"(2) [OF r [unfolded sub_def] refl e(1) Inr "3.prems"(1) _ d1(1)])
           (use "3.prems"(2,4) d1(2) in auto)
      then show ?thesis
        using add Inr em by (simp add: child_emittable_def eq del: emit_children.simps)
    qed
  qed
qed auto

text \<open>
  When Write succeeds: with a library that does not fail, Write of a well-formed tree returns a
  result exactly when every name in the tree passes AddEntry's name check, every regular file has a
  file content key and every symbolic link has a non-empty target.
\<close>

theorem Write_succeeds_iff:
  assumes "lib_total K B X" "wf_tree (b_t b)"
  shows "(\<exists>r. Write K B X b = Inr r) \<longleftrightarrow> emittable K (b_t b)"
  using emit_succeeds(1) [OF assms(1), of "b_t b"] assms(2)
  by (auto simp: Write_def wf_tree_def split: sum.splits prod.splits)

lemma emittable_get_at:
  "emittable K t \<Longrightarrow> get_at t p = Some n \<Longrightarrow> p \<noteq> [] \<Longrightarrow>
   entry_name_ok (last p) \<and> attr_emittable K (attr n)"
proof (induction t p rule: get_at.induct)
  case (2 t c cs)
  then obtain m where m: "map_of (children t) c = Some m" "get_at m cs = Some n"
    by (auto split: option.splits)
  then have "child_emittable K (c, m)"
    using 2(2) map_of_SomeD [OF m(1)] by (auto simp: emittable_iff)
  with 2(1) [OF m(1) _ m(2)] m(2) show ?case
    by (cases "cs = []") (auto simp: child_emittable_def)
qed simp

text \<open>
  (C24) A hard link entry for the root is not refused: link has no guard for the empty path, places
  the link under the name dot and reports no skip. The tree can then not be written, so the push
  fails as a whole, where every other entry that cannot be represented is skipped.
\<close>

theorem hardlink_at_root_fails_Write:
  assumes "lib_total K B X" "wf_tree t" "entry_wf e" "e_path e = ''''"
    and "lookup t (e_target e) = Inr (Some n)" "node_typ n \<noteq> TypeDir"
  shows "fst (link t e) = None \<and> get_at (snd (link t e)) [''.''] \<noteq> None
    \<and> (\<exists>er. emitDir K B X (snd (link t e)) = Inl er)"
proof -
  have sp: "splitParent '''' = ('''', ''.'')" by code_simp
  have l: "link t e = (None, upd_at t [] (set_child ''.'' (Node (link_attr e (attr n)) (children n))))"
    using assms(4-6) by (simp add: link_def parentOf_def sp splitPath_def resolveDir_def)
  have wf: "wf_node (snd (link t e))" using link_op.op_wf [OF assms(2,3)] by (simp add: wf_tree_def)
  have g: "get_at (snd (link t e)) [''.''] = Some (Node (link_attr e (attr n)) (children n))"
    by (simp add: l)
  have "\<not> emittable K (snd (link t e))"
    using emittable_get_at [OF _ g] by (auto simp: entry_name_ok_def)
  then have "\<not> (\<exists>r. emitDir K B X (snd (link t e)) = Inr r)"
    using emit_succeeds(1) [OF assms(1) wf] by simp
  then show ?thesis using g l by (metis fst_conv option.distinct(1) sumE)
qed

text \<open>
  A symbolic link with an empty target is not refused either: put places it, and AddEntry, which
  wants a target, fails the write of the whole tree.
\<close>

theorem empty_symlink_fails_Write:
  assumes "lib_total K B X" "wf_tree t" "entry_wf e" "e_kind e = kindSymlink" "e_target e = ''''"
    and "e_path e \<noteq> ''''" "put t e = (None, t')"
  shows "\<exists>er. emitDir K B X t' = Inl er"
proof (cases rule: put_cases [of e t])
  case (3 s name n t1)
  have t': "t' = upd_at t1 s (set_child name n)" using 3(4) assms(7) by simp
  have wf: "wf_node t'" using put_op.op_wf [OF assms(2,3)] assms(7) by (simp add: wf_tree_def)
  obtain d where d: "get_at t1 s = Some d"
    using parentOf_ok(3) [OF assms(2) 3(2) refl] by (auto simp: is_dir_at_iff)
  have g: "get_at t' (s @ [name]) = Some n" by (simp add: t' get_upd_at_below [OF d])
  have "node_typ n = TypeLink" "a_link (attr n) = ''''"
    using put_node_typ [OF 3(3)] 3(3) assms(3-5)
    by (auto simp: kind_type_def entry_wf_def put_node_def Let_def)
  then have "\<not> emittable K t'"
    using emittable_get_at [OF _ g] by (auto simp: attr_emittable_def Let_def node_typ_def)
  then have "\<not> (\<exists>r. emitDir K B X t' = Inr r)"
    using emit_succeeds(1) [OF assms(1) wf] by simp
  then show ?thesis by (metis sumE)
qed (use assms in auto)

section \<open>Concrete trees\<close>

lemma mem_lib_total: "lib_total mem_keys mem_builder mem_xattrs"
  by (simp add: lib_total_def mem_keys_def mem_builder_def mem_xattrs_def)

theorem Write_succeeds_iff_witness:
  "(\<exists>r. Write mem_keys mem_builder mem_xattrs mem_build = Inr r) \<and> emittable mem_keys (b_t mem_build)"
proof -
  have "emittable mem_keys (b_t mem_build)" by code_simp
  with Write_succeeds_iff [OF mem_lib_total mem_stored(1)] show ?thesis by simp
qed

definition root_link :: "mkey entry" where
  "root_link = (mem_entry kindHardlink '''')\<lparr>e_target := ''usr/bin/sh''\<rparr>"

theorem hardlink_at_root_fails_Write_witness:
  "fst (link (b_t mem_build) root_link) = None
   \<and> (\<exists>er. emitDir mem_keys mem_builder mem_xattrs (snd (link (b_t mem_build) root_link)) = Inl er)"
proof -
  have wf: "entry_wf root_link"
    using cleanPath_ok [of "''usr/bin/sh''"] cleanPath_clean [of "[''usr'', ''bin'', ''sh'']"]
    by (simp add: entry_wf_def root_link_def mem_entry_def perm_bits_def plain_comp_def)
  have "case lookup (b_t mem_build) (e_target root_link) of
          Inr (Some n) \<Rightarrow> node_typ n \<noteq> TypeDir | _ \<Rightarrow> False" by code_simp
  then obtain n where n: "lookup (b_t mem_build) (e_target root_link) = Inr (Some n)" "node_typ n \<noteq> TypeDir"
    by (auto split: sum.splits option.splits)
  show ?thesis
    using hardlink_at_root_fails_Write [OF mem_lib_total mem_stored(1) wf _ n]
    by (simp add: root_link_def mem_entry_def)
qed

definition empty_symlink :: "mkey entry" where
  "empty_symlink = (mem_entry kindSymlink ''usr/lib'')\<lparr>e_target := ''''\<rparr>"

theorem empty_symlink_fails_Write_witness:
  "\<exists>er. emitDir mem_keys mem_builder mem_xattrs (snd (put (b_t mem_build) empty_symlink)) = Inl er"
proof -
  have wf: "entry_wf empty_symlink"
    using mem_entry_wf [of "[''usr'', ''lib'']" "''usr/lib''" kindSymlink]
    by (simp add: empty_symlink_def entry_wf_def plain_comp_def mem_entry_def)
  have "fst (put (b_t mem_build) empty_symlink) = None" by code_simp
  then have p: "put (b_t mem_build) empty_symlink = (None, snd (put (b_t mem_build) empty_symlink))"
    by (simp add: prod_eq_iff)
  show ?thesis
    by (rule empty_symlink_fails_Write [OF mem_lib_total mem_stored(1) wf _ _ _ p])
       (simp_all add: empty_symlink_def mem_entry_def)
qed

end
