(* ===== verification/Rootfs_Splice.thy ===== *)
theory Rootfs_Splice
  imports Rootfs_Builder
begin

text \<open>
  The splice and parseLayer (src/rootfs/layer.go): the virtual archive that archive/tar reads, and the
  loop that turns its headers into entries. A reader is the bytes it has left and the error after
  them (\<open>None\<close> for EOF); \<open>rchoice\<close> is how much one Read of it delivers at most and whether it reports
  the end together with the last bytes. archive/tar is a parameter: a \<open>tar_prog\<close> is what its Reader
  does with the file it is given, a tree of reads, seeks and headers.
\<close>

type_synonym reader = "bytes \<times> err option"

datatype rstat = RdOk | RdEOF | RdErr err

record rchoice =
  rc_max :: nat
  rc_eager :: bool

definition reader_end :: "reader \<Rightarrow> rstat" where
  "reader_end r = (case snd r of None \<Rightarrow> RdEOF | Some e \<Rightarrow> RdErr e)"

definition reader_Read :: "reader \<Rightarrow> nat \<Rightarrow> rchoice \<Rightarrow> bytes \<times> rstat \<times> reader" where
  "reader_Read r n c =
     (let b = take (min n (max 1 (rc_max c))) (fst r); rest = drop (length b) (fst r)
      in (b, if b = [] \<or> rc_eager c \<and> rest = [] then reader_end r else RdOk, (rest, snd r)))"

text \<open>The recipe's own Skip, and io.CopyN into io.Discard: the bytes passed and the error.\<close>

definition reader_Skip :: "reader \<Rightarrow> nat \<Rightarrow> err option \<times> reader" where
  "reader_Skip r n =
     (case snd r of
        Some e \<Rightarrow> if length (fst r) < n then (Some e, ([], snd r)) else (None, (drop n (fst r), snd r))
      | None \<Rightarrow> (None, (drop n (fst r), None)))"

definition reader_CopyN :: "reader \<Rightarrow> nat \<Rightarrow> nat \<times> rstat \<times> reader" where
  "reader_CopyN r n =
     (if n \<le> length (fst r) then (n, RdOk, (drop n (fst r), snd r))
      else (length (fst r), reader_end r, ([], snd r)))"

section \<open>The splice\<close>

record ix_entry =
  ix_Offset :: nat
  ix_Size :: nat

text \<open>\<open>sl_matched\<close> is \<open>None\<close> for -1.\<close>

record splice =
  sl_recipe :: reader
  sl_hasSkip :: bool
  sl_entries :: "ix_entry list"
  sl_starts :: "nat list"
  sl_open :: "nat \<Rightarrow> reader res"
  sl_pos :: nat
  sl_next :: nat
  sl_content :: "reader option"
  sl_zeros :: bool
  sl_matched :: "nat option"

fun starts_from :: "nat \<Rightarrow> ix_entry list \<Rightarrow> nat list" where
  "starts_from shift [] = []"
| "starts_from shift (e # es) = (ix_Offset e + shift) # starts_from (shift + ix_Size e) es"

definition newSplice :: "reader \<Rightarrow> bool \<Rightarrow> ix_entry list \<Rightarrow> (nat \<Rightarrow> reader res) \<Rightarrow> splice" where
  "newSplice recipe hasSkip entries opn =
     \<lparr>sl_recipe = recipe, sl_hasSkip = hasSkip, sl_entries = entries, sl_starts = starts_from 0 entries,
      sl_open = opn, sl_pos = 0, sl_next = 0, sl_content = None, sl_zeros = False, sl_matched = None\<rparr>"

definition sl_end :: "splice \<Rightarrow> nat \<Rightarrow> nat" where
  "sl_end s i = sl_starts s ! i + ix_Size (sl_entries s ! i)"

function pass_regions :: "splice \<Rightarrow> splice" where
  "pass_regions s =
     (if sl_next s < length (sl_starts s) \<and> sl_pos s \<ge> sl_end s (sl_next s)
      then pass_regions (s\<lparr>sl_content := None, sl_zeros := False, sl_next := Suc (sl_next s)\<rparr>)
      else s)"
  by pat_completeness auto
termination
  by (relation "measure (\<lambda>s. length (sl_starts s) - sl_next s)") auto

declare pass_regions.simps [simp del]

definition inRegion :: "splice \<Rightarrow> bool \<times> splice" where
  "inRegion s =
     (let s = pass_regions s in
      (sl_next s < length (sl_starts s) \<and> sl_pos s \<ge> sl_starts s ! sl_next s, s))"

text \<open>Reading inside region \<open>sl_next\<close>: the content where it is or can be opened, zeros otherwise.\<close>

definition read_region :: "splice \<Rightarrow> nat \<Rightarrow> rchoice \<Rightarrow> bytes \<times> rstat \<times> splice" where
  "read_region s len c =
     (let i = sl_next s; len = min len (sl_end s i - sl_pos s) in
      case (if \<not> sl_zeros s \<and> sl_content s = None \<and> sl_pos s = sl_starts s ! i
            then (case sl_open s i of Inl e \<Rightarrow> Inl e | Inr r \<Rightarrow> Inr (s\<lparr>sl_content := Some r\<rparr>))
            else Inr s) of
        Inl e \<Rightarrow> ([], RdErr e, s)
      | Inr s \<Rightarrow>
          (case sl_content s of
             Some r \<Rightarrow>
               (case reader_Read r len c of
                  (b, st, r') \<Rightarrow>
                    (let s = s\<lparr>sl_content := Some r', sl_pos := sl_pos s + length b\<rparr> in
                     case st of
                       RdErr e \<Rightarrow> (b, RdErr e, s)
                     | RdEOF \<Rightarrow> if b = [] then ([], RdErr (ErrOther ''short blob''), s) else (b, RdOk, s)
                     | RdOk \<Rightarrow> (b, RdOk, s)))
           | None \<Rightarrow> (replicate len (CHR 0x00), RdOk, s\<lparr>sl_pos := sl_pos s + len\<rparr>)))"

definition splice_Read :: "splice \<Rightarrow> nat \<Rightarrow> rchoice \<Rightarrow> bytes \<times> rstat \<times> splice" where
  "splice_Read s len c =
     (if len = 0 then ([], RdOk, s)
      else case inRegion s of
        (True, s) \<Rightarrow> read_region s len c
      | (False, s) \<Rightarrow>
          (let len = (if sl_next s < length (sl_starts s)
                      then min len (sl_starts s ! sl_next s - sl_pos s) else len) in
           case reader_Read (sl_recipe s) len c of
             (b, st, r) \<Rightarrow> (b, st, s\<lparr>sl_recipe := r, sl_pos := sl_pos s + length b\<rparr>)))"

text \<open>One round of Seek's loop; \<open>Inl\<close> leaves the loop with Seek's error.\<close>

definition seek_step :: "splice \<Rightarrow> nat \<Rightarrow> (err option \<times> splice) + splice" where
  "seek_step s target =
     (case inRegion s of
        (True, s) \<Rightarrow>
          Inr (s\<lparr>sl_content := None, sl_zeros := True, sl_pos := min target (sl_end s (sl_next s))\<rparr>)
      | (False, s) \<Rightarrow>
          (let n = (if sl_next s < length (sl_starts s)
                    then min (target - sl_pos s) (sl_starts s ! sl_next s - sl_pos s)
                    else target - sl_pos s) in
           if sl_hasSkip s then
             (case reader_Skip (sl_recipe s) n of
                (Some e, r) \<Rightarrow> Inl (Some e, s\<lparr>sl_recipe := r\<rparr>)
              | (None, r) \<Rightarrow> Inr (s\<lparr>sl_recipe := r, sl_pos := sl_pos s + n\<rparr>))
           else
             (case reader_CopyN (sl_recipe s) n of
                (m, st, r) \<Rightarrow>
                  (let s = s\<lparr>sl_recipe := r, sl_pos := sl_pos s + m\<rparr> in
                   case st of
                     RdOk \<Rightarrow> Inr s
                   | RdEOF \<Rightarrow> Inl (None, s)
                   | RdErr e \<Rightarrow> Inl (Some e, s)))))"

lemma pass_regions_pos [simp]: "sl_pos (pass_regions s) = sl_pos s"
  by (induction s rule: pass_regions.induct) (subst pass_regions.simps, simp)

lemma pass_regions_before:
  "sl_next (pass_regions s) < length (sl_starts (pass_regions s)) \<Longrightarrow>
   sl_pos s < sl_end (pass_regions s) (sl_next (pass_regions s))"
proof (induction s rule: pass_regions.induct)
  case (1 s)
  then show ?case by (subst (asm) (1 2) pass_regions.simps, subst (1 2) pass_regions.simps) (auto split: if_splits)
qed

lemma seek_step_progress: "seek_step s target = Inr s' \<Longrightarrow> sl_pos s < target \<Longrightarrow> sl_pos s < sl_pos s' \<and> sl_pos s' \<le> target"
  using pass_regions_before [of s]
  by (auto simp: seek_step_def inRegion_def Let_def reader_Skip_def reader_CopyN_def reader_end_def
      split: prod.splits bool.splits option.splits if_splits rstat.splits)

function seek_loop :: "splice \<Rightarrow> nat \<Rightarrow> err option \<times> splice" where
  "seek_loop s target =
     (if sl_pos s < target
      then (case seek_step s target of Inl r \<Rightarrow> r | Inr s' \<Rightarrow> seek_loop s' target)
      else (None, s))"
  by pat_completeness auto
termination
  by (relation "measure (\<lambda>(s, target). target - sl_pos s)") (auto dest: seek_step_progress)

declare seek_loop.simps [simp del]

text \<open>\<open>whence\<close> is 1 for io.SeekCurrent.\<close>

definition splice_Seek :: "splice \<Rightarrow> int \<Rightarrow> nat \<Rightarrow> (nat \<times> err option) \<times> splice" where
  "splice_Seek s offset whence =
     (if whence \<noteq> 1 \<or> offset < 0 then ((0, Some (ErrOther ''seek'')), s)
      else case seek_loop s (sl_pos s + nat offset) of (er, s') \<Rightarrow> ((sl_pos s', er), s'))"

definition regionAt :: "splice \<Rightarrow> nat option \<times> splice" where
  "regionAt s =
     (let i = sl_next s in
      if i \<ge> length (sl_starts s) \<or> Some i = sl_matched s \<or> sl_pos s < sl_starts s ! i \<or> sl_pos s > sl_end s i
      then (None, s)
      else (Some i, s\<lparr>sl_matched := Some i\<rparr>))"

section \<open>parseLayer\<close>

text \<open>
  What archive/tar's Reader does: it reads and seeks the splice, hands out headers (also those it
  reports as insecure, with their header complete), and ends with EOF, with an error of the splice, or
  with one of its own.
\<close>

datatype tar_prog =
    TarRead nat "bytes \<times> rstat \<Rightarrow> tar_prog"
  | TarSeek int nat "nat \<times> err option \<Rightarrow> tar_prog"
  | TarHeader tar_Header tar_prog
  | TarEOF
  | TarStoreFail err
  | TarFail err

definition ctxCheckEvery :: nat where "ctxCheckEvery = 1024"

definition check_ctx :: "(nat \<Rightarrow> err option) \<Rightarrow> nat \<Rightarrow> err option" where
  "check_ctx ctx n = (if n mod ctxCheckEvery = 0 then ctx n else None)"

text \<open>
  The loop: \<open>n\<close> counts the headers, \<open>k\<close> the operations on the splice, whose choices \<open>ch\<close> gives;
  \<open>acc\<close> are the headers so far with their content keys.
\<close>

primrec parse_headers ::
  "tar_prog \<Rightarrow> (nat \<Rightarrow> err option) \<Rightarrow> (nat \<Rightarrow> rchoice) \<Rightarrow> (nat \<Rightarrow> 'k res) \<Rightarrow> nat \<Rightarrow> nat \<Rightarrow> splice \<Rightarrow> nat
     \<Rightarrow> (tar_Header \<times> 'k option) list \<Rightarrow> parse_error + (tar_Header \<times> 'k option) list" where
  "parse_headers (TarRead len p) ctx ch bk n k s consumed acc =
     (case splice_Read s len (ch k) of
        (b, st, s') \<Rightarrow> parse_headers (p (b, st)) ctx ch bk n (Suc k) s' consumed acc)"
| "parse_headers (TarSeek off whence p) ctx ch bk n k s consumed acc =
     (case splice_Seek s off whence of
        (r, s') \<Rightarrow> parse_headers (p r) ctx ch bk n (Suc k) s' consumed acc)"
| "parse_headers (TarHeader hdr p) ctx ch bk n k s consumed acc =
     (let continue = (\<lambda>s consumed acc.
            case check_ctx ctx (Suc n) of
              Some e \<Rightarrow> Inl (PContext e)
            | None \<Rightarrow> parse_headers p ctx ch bk (Suc n) k s consumed acc) in
      if Typeflag hdr = CHR ''g'' then continue s consumed acc
      else if hasContent (Typeflag hdr) then
        (case regionAt s of
           (None, s) \<Rightarrow> Inl (PMalformed (ErrOther ''no blob there''))
         | (Some i, s) \<Rightarrow>
             (case bk i of
                Inl e \<Rightarrow> Inl (PStore e)
              | Inr key \<Rightarrow> continue s (Suc consumed) (acc @ [(hdr, Some key)])))
      else continue s consumed (acc @ [(hdr, None)]))"
| "parse_headers TarEOF ctx ch bk n k s consumed acc =
     (if consumed \<noteq> length (sl_entries s) then Inl (PMalformed (ErrOther ''count'')) else Inr acc)"
| "parse_headers (TarStoreFail e) ctx ch bk n k s consumed acc = Inl (PStore e)"
| "parse_headers (TarFail e) ctx ch bk n k s consumed acc = Inl (PMalformed e)"

record 'k Layer =
  ly_Index :: "ix_entry list res"
  ly_Recipe :: "reader res"
  ly_hasSkip :: bool
  ly_Blob :: "nat \<Rightarrow> reader res"
  ly_BlobKey :: "nat \<Rightarrow> 'k res"

definition parseLayer ::
  "(nat \<Rightarrow> err option) \<Rightarrow> (nat \<Rightarrow> rchoice) \<Rightarrow> tar_prog \<Rightarrow> 'k Layer \<Rightarrow> parse_error + 'k entry list" where
  "parseLayer ctx ch prog layer =
     (case ly_Index layer of
        Inl e \<Rightarrow> Inl (PStore e)
      | Inr idx \<Rightarrow>
          (case ly_Recipe layer of
             Inl e \<Rightarrow> Inl (PStore e)
           | Inr recipe \<Rightarrow>
               (case check_ctx ctx 0 of
                  Some e \<Rightarrow> Inl (PContext e)
                | None \<Rightarrow>
                    (case parse_headers prog ctx ch (ly_BlobKey layer) 0 0
                            (newSplice recipe (ly_hasSkip layer) idx (ly_Blob layer)) 0 [] of
                       Inl e \<Rightarrow> Inl e
                     | Inr hs \<Rightarrow> Inr (map (\<lambda>(h, c). convert h c) hs)))))"

section \<open>Every region is handed out once, in order\<close>

text \<open>What no operation changes, and that the regions are passed in order.\<close>

definition onward :: "splice \<Rightarrow> splice \<Rightarrow> bool" where
  "onward s s' \<longleftrightarrow>
     sl_entries s' = sl_entries s \<and> sl_starts s' = sl_starts s \<and> sl_open s' = sl_open s
     \<and> sl_hasSkip s' = sl_hasSkip s \<and> sl_matched s' = sl_matched s
     \<and> sl_next s \<le> sl_next s' \<and> sl_pos s \<le> sl_pos s'"

lemma onward_refl [simp]: "onward s s" by (simp add: onward_def)

lemma onward_trans: "onward s t \<Longrightarrow> onward t u \<Longrightarrow> onward s u"
  by (auto simp: onward_def)

lemma pass_regions_onward: "onward s (pass_regions s)"
proof (induction s rule: pass_regions.induct)
  case (1 s)
  then show ?case by (subst pass_regions.simps) (auto simp: onward_def)
qed

lemma onward_changes:
  "onward s (t\<lparr>sl_recipe := r\<rparr>) = onward s t" "onward s (t\<lparr>sl_content := c\<rparr>) = onward s t"
  "onward s (t\<lparr>sl_zeros := z\<rparr>) = onward s t" "onward s t \<Longrightarrow> sl_pos t \<le> p \<Longrightarrow> onward s (t\<lparr>sl_pos := p\<rparr>)"
  by (auto simp: onward_def)

lemma read_region_onward: "read_region s len c = (b, st, s') \<Longrightarrow> onward s s'"
  by (auto simp: read_region_def Let_def onward_def split: if_splits sum.splits option.splits prod.splits rstat.splits)

lemma splice_Read_onward:
  assumes "splice_Read s len c = (b, st, s')"
  shows "onward s s'"
proof (cases "len = 0 \<or> \<not> fst (inRegion s)")
  case True
  then show ?thesis
    using assms pass_regions_onward [of s]
    by (auto simp: splice_Read_def inRegion_def Let_def onward_def split: prod.splits if_splits)
next
  case False
  then have "read_region (pass_regions s) len c = (b, st, s')"
    using assms by (auto simp: splice_Read_def inRegion_def Let_def)
  then show ?thesis using onward_trans [OF pass_regions_onward read_region_onward] by blast
qed

lemma seek_step_onward:
  assumes "sl_pos s < target"
  shows "(case seek_step s target of Inl (er, s') \<Rightarrow> onward s s' | Inr s' \<Rightarrow> onward s s')"
  using assms pass_regions_onward [of s] pass_regions_before [of s]
  by (auto simp: seek_step_def inRegion_def Let_def onward_def
      split: prod.splits bool.splits option.splits rstat.splits)

lemma seek_loop_onward: "onward s (snd (seek_loop s target))"
proof (induction s target rule: seek_loop.induct)
  case (1 s target)
  show ?case
  proof (cases "sl_pos s < target")
    case True
    then show ?thesis
      using 1 seek_step_onward [OF True] onward_trans
      by (subst seek_loop.simps) (auto split: sum.splits prod.splits)
  qed (simp add: seek_loop.simps)
qed

lemma splice_Seek_onward: "splice_Seek s off whence = (r, s') \<Longrightarrow> onward s s'"
  using seek_loop_onward [of s "sl_pos s + nat off"]
  by (auto simp: splice_Seek_def split: if_splits prod.splits)

text \<open>
  The invariant of the loop: the regions handed out so far are an increasing list of \<open>consumed\<close>
  positions, the last one is the matched one and the splice has not gone back before it.
\<close>

definition handed :: "splice \<Rightarrow> nat list \<Rightarrow> bool" where
  "handed s is \<longleftrightarrow>
     sorted_wrt (<) is \<and> (\<forall>i \<in> set is. i < length (sl_starts s) \<and> i \<le> sl_next s)
     \<and> sl_matched s = (if is = [] then None else Some (last is))"

lemma handed_onward: "handed s is \<Longrightarrow> onward s s' \<Longrightarrow> handed s' is"
  by (force simp: handed_def onward_def)

lemma sorted_last_max: "sorted_wrt (<) (xs :: nat list) \<Longrightarrow> x \<in> set xs \<Longrightarrow> x \<le> last xs"
  by (induction xs) (auto, metis last_in_set less_imp_le)

lemma handed_regionAt:
  assumes "handed s is" "regionAt s = (Some i, s')"
  shows "handed s' (is @ [i])" "onward (s\<lparr>sl_matched := Some i\<rparr>) s'"
proof -
  have i: "i = sl_next s" "i < length (sl_starts s)" "sl_matched s \<noteq> Some i" "s' = s\<lparr>sl_matched := Some i\<rparr>"
    using assms(2) by (auto simp: regionAt_def Let_def split: if_splits)
  have "j < i" if "j \<in> set is" for j
  proof -
    have "j \<le> last is" using assms(1) that sorted_last_max by (auto simp: handed_def)
    moreover have "last is \<noteq> i" "last is \<le> i" using assms(1) i that by (auto simp: handed_def split: if_splits)
    ultimately show ?thesis by simp
  qed
  then show "handed s' (is @ [i])" using assms(1) i by (auto simp: handed_def sorted_wrt_append)
  show "onward (s\<lparr>sl_matched := Some i\<rparr>) s'" by (simp add: i(4))
qed

lemma length_starts_from [simp]: "length (starts_from sh es) = length es"
  by (induction es arbitrary: sh) simp_all

lemma sorted_full:
  assumes "sorted_wrt (<) xs" "\<forall>i \<in> set xs. i < n" "length xs = n"
  shows "xs = [0..<n]"
proof -
  have "distinct xs" "sorted xs" using assms(1) strict_sorted_iff by blast+
  then have "set xs = {..<n}"
    using assms(2,3) by (intro card_subset_eq) (auto simp: distinct_card)
  then show ?thesis using \<open>sorted xs\<close> \<open>distinct xs\<close>
    by (metis atLeast_upt sorted_distinct_set_unique sorted_upt distinct_upt)
qed

text \<open>The contents of the headers, in order.\<close>

definition contents :: "(tar_Header \<times> 'k option) list \<Rightarrow> 'k option list" where
  "contents hs = map snd (filter (\<lambda>(h, c). hasContent (Typeflag h)) hs)"

lemma parse_headers_contents:
  "parse_headers p ctx ch bk n k s consumed acc = Inr hs \<Longrightarrow>
   handed s is \<Longrightarrow> length (sl_starts s) = length (sl_entries s) \<Longrightarrow> consumed = length is \<Longrightarrow>
   map (\<lambda>i. Inr (the i)) (contents acc) = map bk is \<Longrightarrow> None \<notin> set (contents acc) \<Longrightarrow>
   \<exists>is'. prefix is is' \<and> is' = [0..<length (sl_entries s)]
     \<and> map (\<lambda>i. Inr (the i)) (contents hs) = map bk is' \<and> None \<notin> set (contents hs)"
proof (induction p arbitrary: n k s consumed acc "is")
  case (TarRead len p)
  obtain b st s' where rd: "splice_Read s len (ch k) = (b, st, s')" by (metis prod_cases3)
  note on = splice_Read_onward [OF rd]
  have "\<exists>is'. prefix is is' \<and> is' = [0..<length (sl_entries s')]
     \<and> map (\<lambda>i. Inr (the i)) (contents hs) = map bk is' \<and> None \<notin> set (contents hs)"
    by (rule TarRead.IH [OF _ _ handed_onward [OF TarRead.prems(2) on]])
      (use TarRead.prems rd on in \<open>auto simp: onward_def\<close>)
  then show ?case using on by (simp add: onward_def)
next
  case (TarSeek off whence p)
  obtain r s' where rd: "splice_Seek s off whence = (r, s')" by fastforce
  note on = splice_Seek_onward [OF rd]
  have "\<exists>is'. prefix is is' \<and> is' = [0..<length (sl_entries s')]
     \<and> map (\<lambda>i. Inr (the i)) (contents hs) = map bk is' \<and> None \<notin> set (contents hs)"
    by (rule TarSeek.IH [OF _ _ handed_onward [OF TarSeek.prems(2) on]])
      (use TarSeek.prems rd on in \<open>auto simp: onward_def\<close>)
  then show ?case using on by (simp add: onward_def)
next
  case (TarHeader hdr p)
  consider "Typeflag hdr = CHR ''g''" | "Typeflag hdr \<noteq> CHR ''g''" "\<not> hasContent (Typeflag hdr)"
    | "Typeflag hdr \<noteq> CHR ''g''" "hasContent (Typeflag hdr)" by blast
  then show ?case
  proof cases
    case 1
    then show ?thesis
      using TarHeader.prems TarHeader.IH [OF _ TarHeader.prems(2-6)] by (auto simp: Let_def split: option.splits)
  next
    case 2
    then have c: "contents (acc @ [(hdr, None)]) = contents acc" by (simp add: contents_def)
    have "parse_headers p ctx ch bk (Suc n) k s consumed (acc @ [(hdr, None)]) = Inr hs"
      using 2 TarHeader.prems(1) by (auto simp: Let_def split: option.splits)
    from TarHeader.IH [OF this TarHeader.prems(2-4)] TarHeader.prems(5,6) c show ?thesis by simp
  next
    case 3
    then obtain i s' key where r: "regionAt s = (Some i, s')" "bk i = Inr key"
      and p: "parse_headers p ctx ch bk (Suc n) k s' (Suc consumed) (acc @ [(hdr, Some key)]) = Inr hs"
      using TarHeader.prems(1) by (auto simp: Let_def split: option.splits prod.splits sum.splits)
    have c: "contents (acc @ [(hdr, Some key)]) = contents acc @ [Some key]" using 3 by (simp add: contents_def)
    note h = handed_regionAt [OF TarHeader.prems(2) r(1)]
    have "\<exists>is'. prefix (is @ [i]) is' \<and> is' = [0..<length (sl_entries s')]
        \<and> map (\<lambda>i. Inr (the i)) (contents hs) = map bk is' \<and> None \<notin> set (contents hs)"
      by (rule TarHeader.IH [OF p h(1)])
        (use TarHeader.prems(3-6) h(2) r(2) c in \<open>auto simp: onward_def\<close>)
    then show ?thesis using h(2) append_prefixD by (auto simp: onward_def)
  qed
next
  case TarEOF
  then have "is = [0..<length (sl_entries s)]" "hs = acc"
    using sorted_full [of "is" "length (sl_entries s)"] by (auto simp: handed_def split: if_splits)
  with TarEOF.prems show ?case by auto
qed simp_all

text \<open>
  Files get their own content: when parseLayer succeeds, whatever archive/tar did with the splice,
  the headers that carry content are as many as the index has entries, and the i-th of them got exactly
  the key of the i-th blob; the entries are the converted headers.
\<close>

theorem parseLayer_contents:
  assumes "parseLayer ctx ch prog layer = Inr entries" "ly_Index layer = Inr idx"
  shows "\<exists>hs keys. entries = map (\<lambda>(h, c). convert h c) hs
    \<and> contents hs = map Some keys \<and> map Inr keys = map (ly_BlobKey layer) [0..<length idx]"
proof -
  from assms obtain recipe hs where hs: "entries = map (\<lambda>(h, c). convert h c) hs"
    and p: "parse_headers prog ctx ch (ly_BlobKey layer) 0 0
        (newSplice recipe (ly_hasSkip layer) idx (ly_Blob layer)) 0 [] = Inr hs"
    by (auto simp: parseLayer_def split: sum.splits option.splits)
  have k: "map (\<lambda>i. Inr (the i)) (contents hs) = map (ly_BlobKey layer) [0..<length idx]" "None \<notin> set (contents hs)"
    using parse_headers_contents [OF p, of "[]"] by (simp_all add: handed_def newSplice_def contents_def)
  have "contents hs = map Some (map the (contents hs))"
  proof (rule nth_equalityI)
    show "contents hs ! i = map Some (map the (contents hs)) ! i" if "i < length (contents hs)" for i
      using k(2) that nth_mem [OF that] by (cases "contents hs ! i") auto
  qed simp
  moreover have "map Inr (map the (contents hs)) = map (ly_BlobKey layer) [0..<length idx]"
    using k(1) by (simp add: comp_def)
  ultimately show ?thesis using hs by blast
qed

end
