(* ===== verification/Rootfs_Archive.thy ===== *)
theory Rootfs_Archive
  imports Rootfs_Splice
begin

text \<open>
  What the splice serves: the archive that tar-prism took apart. \<open>spliced\<close> puts the contents back into
  the recipe; the operations of the splice act on what is left of it by taking and dropping bytes.
\<close>

fun spliced :: "(nat \<Rightarrow> bytes) \<Rightarrow> nat \<Rightarrow> nat \<Rightarrow> ix_entry list \<Rightarrow> bytes \<Rightarrow> bytes" where
  "spliced C off i [] rec = rec"
| "spliced C off i (e # es) rec =
     take (ix_Offset e - off) rec @ C i @ spliced C (ix_Offset e) (Suc i) es (drop (ix_Offset e - off) rec)"

text \<open>What is left of the archive at the splice's position.\<close>

definition ahead :: "(nat \<Rightarrow> bytes) \<Rightarrow> splice \<Rightarrow> bytes" where
  "ahead C s =
     (let i = sl_next s; rec = fst (sl_recipe s); gap = sl_starts s ! i - sl_pos s in
      case drop i (sl_entries s) of
        [] \<Rightarrow> rec
      | e # es \<Rightarrow>
          take gap rec @ drop (sl_pos s - sl_starts s ! i) (C i)
            @ spliced C (ix_Offset e) (Suc i) es (drop gap rec))"

text \<open>
  The index fits the recipe: offsets do not decrease and lie in the recipe, blobs are as long as the
  index says and can be read. \<open>splice_inv\<close> adds where the splice stands.
\<close>

definition index_fits :: "(nat \<Rightarrow> bytes) \<Rightarrow> (nat \<Rightarrow> reader res) \<Rightarrow> ix_entry list \<Rightarrow> bool" where
  "index_fits C opn es \<longleftrightarrow>
     sorted (map ix_Offset es)
     \<and> (\<forall>i < length es. opn i = Inr (C i, None) \<and> length (C i) = ix_Size (es ! i))"

definition splice_inv :: "(nat \<Rightarrow> bytes) \<Rightarrow> splice \<Rightarrow> bool" where
  "splice_inv C s \<longleftrightarrow>
     index_fits C (sl_open s) (sl_entries s) \<and> sl_starts s = starts_from 0 (sl_entries s)
     \<and> snd (sl_recipe s) = None
     \<and> (let i = sl_next s; st = sl_starts s ! i in
        if i < length (sl_entries s) then
          sl_pos s \<le> sl_end s i
          \<and> (\<forall>e \<in> set (drop i (sl_entries s)).
               (ix_Offset e - ix_Offset (sl_entries s ! i)) + (st - sl_pos s) \<le> length (fst (sl_recipe s)))
          \<and> (case sl_content s of
               Some r \<Rightarrow> \<not> sl_zeros s \<and> st \<le> sl_pos s \<and> r = (drop (sl_pos s - st) (C i), None)
             | None \<Rightarrow> if sl_zeros s then st \<le> sl_pos s else sl_pos s \<le> st)
        else sl_content s = None \<and> \<not> sl_zeros s)"

lemma starts_from_nth:
  "Suc i < length es \<Longrightarrow> sorted (map ix_Offset es) \<Longrightarrow>
   starts_from sh es ! Suc i = starts_from sh es ! i + ix_Size (es ! i) + (ix_Offset (es ! Suc i) - ix_Offset (es ! i))"
proof (induction es arbitrary: sh i)
  case (Cons e es)
  show ?case
  proof (cases i)
    case 0
    then show ?thesis using Cons.prems by (cases es) auto
  next
    case (Suc j)
    then show ?thesis using Cons.IH [of j] Cons.prems by simp
  qed
qed simp

lemma newSplice_inv:
  assumes "index_fits C opn es" "\<forall>e \<in> set es. ix_Offset e \<le> length rec"
  shows "splice_inv C (newSplice (rec, None) sk es opn)"
    "ahead C (newSplice (rec, None) sk es opn) = spliced C 0 0 es rec"
proof -
  show "splice_inv C (newSplice (rec, None) sk es opn)"
  proof (cases es)
    case (Cons e es')
    have "ix_Offset e \<le> ix_Offset x" if "x \<in> set es" for x
      using assms(1) that Cons by (auto simp: index_fits_def)
    then show ?thesis using assms Cons by (auto simp: splice_inv_def newSplice_def sl_end_def)
  qed (use assms in \<open>simp add: splice_inv_def newSplice_def\<close>)
  show "ahead C (newSplice (rec, None) sk es opn) = spliced C 0 0 es rec"
    by (cases es) (simp_all add: ahead_def newSplice_def Let_def)
qed

text \<open>Passing a region changes nothing that is ahead.\<close>

lemma pass_one:
  assumes inv: "splice_inv C s" and here: "sl_next s < length (sl_starts s)" "sl_pos s \<ge> sl_end s (sl_next s)"
  defines "t \<equiv> s\<lparr>sl_content := None, sl_zeros := False, sl_next := Suc (sl_next s)\<rparr>"
  shows "splice_inv C t \<and> ahead C t = ahead C s"
proof -
  let ?i = "sl_next s" and ?es = "sl_entries s"
  have es: "?i < length ?es" "sl_starts s = starts_from 0 ?es"
    using inv here by (auto simp: splice_inv_def)
  have pos: "sl_pos s = sl_starts s ! ?i + ix_Size (?es ! ?i)"
    using inv here es by (auto simp: splice_inv_def sl_end_def Let_def)
  have so: "sorted (map ix_Offset ?es)" and len: "length (C ?i) = ix_Size (?es ! ?i)"
    and rec: "snd (sl_recipe s) = None"
    using inv es by (auto simp: splice_inv_def index_fits_def)
  have fit: "ix_Offset e - ix_Offset (?es ! ?i) \<le> length (fst (sl_recipe s))" if "e \<in> set (drop ?i ?es)" for e
    using inv es that by (auto simp: splice_inv_def Let_def)
  have d: "drop ?i ?es = ?es ! ?i # drop (Suc ?i) ?es" using es(1) by (simp add: Cons_nth_drop_Suc)
  show ?thesis
  proof (cases "Suc ?i < length ?es")
    case False
    then show ?thesis
      using inv d pos len by (auto simp: t_def splice_inv_def ahead_def Let_def)
  next
    case True
    let ?j = "Suc ?i"
    have st: "sl_starts s ! ?j = sl_pos s + (ix_Offset (?es ! ?j) - ix_Offset (?es ! ?i))"
      unfolding pos es(2) by (rule starts_from_nth [OF True so])
    have d2: "drop ?j ?es = ?es ! ?j # drop (Suc ?j) ?es" using True by (simp add: Cons_nth_drop_Suc)
    have mono: "ix_Offset (?es ! ?i) \<le> ix_Offset (?es ! ?j)"
      using so True by (auto simp: sorted_iff_nth_mono)
    have later: "ix_Offset (?es ! ?j) \<le> ix_Offset e" if "e \<in> set (drop ?j ?es)" for e
    proof -
      from that obtain k where "k < length (drop ?j ?es)" "e = drop ?j ?es ! k" by (auto simp: in_set_conv_nth)
      then show ?thesis using so by (auto simp: sorted_iff_nth_mono)
    qed
    have "splice_inv C t"
    proof -
      have f: "ix_Offset e - ix_Offset (?es ! ?j) + (sl_starts s ! ?j - sl_pos s) \<le> length (fst (sl_recipe s))"
        if "e \<in> set (drop ?j ?es)" for e
      proof -
        have "e \<in> set (drop ?i ?es)" using that d by simp
        from fit [OF this] later [OF that] mono st show ?thesis by simp
      qed
      show ?thesis
        using inv True st f by (auto simp: t_def splice_inv_def Let_def sl_end_def)
    qed
    moreover have "ahead C t = ahead C s"
      using d d2 st pos len by (simp add: t_def ahead_def Let_def)
    ultimately show ?thesis by blast
  qed
qed

lemma pass_regions_inv: "splice_inv C s \<Longrightarrow> splice_inv C (pass_regions s) \<and> ahead C (pass_regions s) = ahead C s"
proof (induction s rule: pass_regions.induct)
  case (1 s)
  show ?case
  proof (cases "sl_next s < length (sl_starts s) \<and> sl_pos s \<ge> sl_end s (sl_next s)")
    case True
    then show ?thesis
      using 1 pass_one [OF "1.prems"] by (subst (1 2) pass_regions.simps) simp
  next
    case False
    then show ?thesis using "1.prems" by (subst (1 2) pass_regions.simps) auto
  qed
qed

lemma reader_Read_ok:
  assumes "reader_Read (bs, None) n c = (b, st, r)" "n > 0" "\<not> rc_eager c"
  shows "r = (drop (length b) bs, None)" "b = take (length b) bs" "length b \<le> n"
    "st = (if bs = [] then RdEOF else RdOk)" "b = [] \<longleftrightarrow> bs = []"
  using assms by (auto simp: reader_Read_def Let_def reader_end_def min_def split: if_splits)

text \<open>In a region: the state after consuming \<open>n\<close> bytes of it.\<close>

lemma consume_region:
  assumes inv: "splice_inv C s" and i: "sl_next s < length (sl_entries s)"
    and p: "sl_starts s ! sl_next s \<le> sl_pos s" "sl_pos s + n \<le> sl_end s (sl_next s)"
    and c: "case c of Some r \<Rightarrow> \<not> z \<and> r = (drop (sl_pos s + n - sl_starts s ! sl_next s) (C (sl_next s)), None)
      | None \<Rightarrow> z"
  defines "t \<equiv> s\<lparr>sl_content := c, sl_zeros := z, sl_pos := sl_pos s + n\<rparr>"
  shows "splice_inv C t \<and> ahead C t = drop n (ahead C s)
    \<and> take n (ahead C s) = take n (drop (sl_pos s - sl_starts s ! sl_next s) (C (sl_next s)))"
proof -
  let ?i = "sl_next s" and ?k = "sl_pos s - sl_starts s ! sl_next s"
  have len: "length (C ?i) = ix_Size (sl_entries s ! ?i)" using inv i by (auto simp: splice_inv_def index_fits_def)
  have fits: "n \<le> length (drop ?k (C ?i))" using len p by (simp add: sl_end_def)
  have d: "drop ?i (sl_entries s) = sl_entries s ! ?i # drop (Suc ?i) (sl_entries s)"
    using i by (simp add: Cons_nth_drop_Suc)
  have a: "ahead C s = drop ?k (C ?i) @ spliced C (ix_Offset (sl_entries s ! ?i)) (Suc ?i)
      (drop (Suc ?i) (sl_entries s)) (fst (sl_recipe s))"
    using d p(1) by (simp add: ahead_def Let_def)
  have "ahead C t = drop (?k + n) (C ?i) @ spliced C (ix_Offset (sl_entries s ! ?i)) (Suc ?i)
      (drop (Suc ?i) (sl_entries s)) (fst (sl_recipe s))"
    using d p(1) by (simp add: ahead_def Let_def t_def)
  then have "ahead C t = drop n (ahead C s)" using a fits by (simp add: add.commute)
  moreover have "splice_inv C t"
    using inv i p c
    by (auto simp: splice_inv_def Let_def t_def sl_end_def add.commute split: option.splits)
  ultimately show ?thesis using a fits by simp
qed

text \<open>Outside of the regions: the state after consuming \<open>n\<close> bytes of the recipe.\<close>

lemma consume_recipe:
  assumes inv: "splice_inv C s"
    and n: "n \<le> length (fst (sl_recipe s))"
      "sl_next s < length (sl_entries s) \<Longrightarrow> sl_pos s + n \<le> sl_starts s ! sl_next s \<and> sl_pos s < sl_starts s ! sl_next s"
  defines "t \<equiv> s\<lparr>sl_recipe := (drop n (fst (sl_recipe s)), None), sl_pos := sl_pos s + n\<rparr>"
  shows "splice_inv C t \<and> ahead C t = drop n (ahead C s) \<and> take n (ahead C s) = take n (fst (sl_recipe s))"
proof (cases "sl_next s < length (sl_entries s)")
  case False
  then show ?thesis using inv by (auto simp: splice_inv_def ahead_def t_def Let_def)
next
  case True
  let ?i = "sl_next s" and ?gap = "sl_starts s ! sl_next s - sl_pos s"
  have d: "drop ?i (sl_entries s) = sl_entries s ! ?i # drop (Suc ?i) (sl_entries s)"
    using True by (simp add: Cons_nth_drop_Suc)
  have g: "n \<le> ?gap" using conjunct1 [OF n(2) [OF True]] by linarith
  have cov: "?gap \<le> length (fst (sl_recipe s))"
    using inv True d by (auto simp: splice_inv_def Let_def)
  have st: "sl_content s = None \<and> \<not> sl_zeros s"
    using inv True n(2) [OF True] by (auto simp: splice_inv_def Let_def split: option.splits if_splits)
  have "ahead C t = drop n (ahead C s)"
    using d g n(2) [OF True] cov by (simp add: ahead_def Let_def t_def drop_take add.commute)
  moreover have "take n (ahead C s) = take n (fst (sl_recipe s))"
    using d g cov n(1) by (simp add: ahead_def Let_def)
  moreover have "splice_inv C t"
  proof -
    have "ix_Offset e - ix_Offset (sl_entries s ! ?i) + (?gap - n) \<le> length (fst (sl_recipe s)) - n"
      if "e \<in> set (drop ?i (sl_entries s))" for e
      using inv True that g n(1) by (auto simp: splice_inv_def Let_def)
    then show ?thesis
      using inv True st n(2) [OF True] by (auto simp: splice_inv_def Let_def t_def sl_end_def)
  qed
  ultimately show ?thesis by blast
qed

lemma inRegion_inv:
  assumes "splice_inv C s" "inRegion s = (inr, t)"
  shows "splice_inv C t" "ahead C t = ahead C s"
    "inr \<Longrightarrow> sl_next t < length (sl_entries t) \<and> sl_starts t ! sl_next t \<le> sl_pos t \<and> sl_pos t < sl_end t (sl_next t)"
    "\<not> inr \<Longrightarrow> sl_next t < length (sl_entries t) \<Longrightarrow> sl_pos t < sl_starts t ! sl_next t"
    "sl_pos t = sl_pos s"
proof -
  have t: "t = pass_regions s" "inr = (sl_next t < length (sl_starts t) \<and> sl_pos t \<ge> sl_starts t ! sl_next t)"
    using assms(2) by (auto simp: inRegion_def Let_def)
  show i: "splice_inv C t" "ahead C t = ahead C s" using pass_regions_inv [OF assms(1)] t by auto
  have l: "length (sl_starts t) = length (sl_entries t)" using i(1) by (simp add: splice_inv_def)
  show "sl_pos t = sl_pos s" by (simp add: t(1))
  show "inr \<Longrightarrow> sl_next t < length (sl_entries t) \<and> sl_starts t ! sl_next t \<le> sl_pos t \<and> sl_pos t < sl_end t (sl_next t)"
    using pass_regions_before [of s] t l by auto
  show "\<not> inr \<Longrightarrow> sl_next t < length (sl_entries t) \<Longrightarrow> sl_pos t < sl_starts t ! sl_next t"
    using t l by auto
qed

definition served :: "(nat \<Rightarrow> bytes) \<Rightarrow> splice \<Rightarrow> bytes \<Rightarrow> rstat \<Rightarrow> splice \<Rightarrow> bool" where
  "served C s b st s' \<longleftrightarrow>
     splice_inv C s' \<and> ahead C s' = drop (length b) (ahead C s)
     \<and> (b = take (length b) (ahead C s) \<or> sl_zeros s' \<and> b = replicate (length b) (CHR 0x00))
     \<and> (st = RdOk \<and> b \<noteq> [] \<or> st = RdEOF \<and> b = [] \<and> ahead C s = [])"

lemma read_region_served:
  assumes inv: "splice_inv C s" and i: "sl_next s < length (sl_entries s)"
    and p: "sl_starts s ! sl_next s \<le> sl_pos s" "sl_pos s < sl_end s (sl_next s)"
    and rd: "read_region s len c = (b, st, s')" "len > 0" "\<not> rc_eager c"
  shows "served C s b st s'"
proof -
  let ?i = "sl_next s" and ?k = "sl_pos s - sl_starts s ! sl_next s"
  let ?len = "min len (sl_end s (sl_next s) - sl_pos s)"
  have len: "?len > 0" using rd(2) p(2) by simp
  have cl: "length (C ?i) = ix_Size (sl_entries s ! ?i)" "sl_open s ?i = Inr (C ?i, None)"
    using inv i by (auto simp: splice_inv_def index_fits_def)
  have st: "case sl_content s of Some r \<Rightarrow> \<not> sl_zeros s \<and> r = (drop ?k (C ?i), None)
      | None \<Rightarrow> \<not> sl_zeros s \<longrightarrow> sl_pos s = sl_starts s ! ?i"
    using inv i p(1) by (auto simp: splice_inv_def Let_def split: option.splits if_splits)
  show ?thesis
  proof (cases "sl_content s = None \<and> sl_zeros s")
    case True
    then have r: "b = replicate ?len (CHR 0x00)" "st = RdOk" "s' = s\<lparr>sl_pos := sl_pos s + ?len\<rparr>"
      using rd(1) by (auto simp: read_region_def Let_def)
    have e: "s\<lparr>sl_pos := sl_pos s + ?len\<rparr> = s\<lparr>sl_content := None, sl_zeros := True, sl_pos := sl_pos s + ?len\<rparr>"
      using True by simp
    have "splice_inv C s' \<and> ahead C s' = drop ?len (ahead C s)"
      using consume_region [OF inv i p(1), where n = ?len and c = None and z = True] r(3) e p(2) by simp
    then show ?thesis using r len True by (simp add: served_def)
  next
    case False
    let ?t = "s\<lparr>sl_content := Some (drop ?k (C ?i), None)\<rparr>"
    have z: "\<not> sl_zeros s" using False st by (auto split: option.splits)
    obtain b' st' r' where rr: "reader_Read (drop ?k (C ?i), None) ?len c = (b', st', r')" by (metis prod_cases3)
    note ok = reader_Read_ok [OF rr len rd(3)]
    have "drop ?k (C ?i) \<noteq> []" using cl(1) p by (simp add: sl_end_def)
    then have b': "st' = RdOk" "b' \<noteq> []" using ok by auto
    have "(if \<not> sl_zeros s \<and> sl_content s = None \<and> sl_pos s = sl_starts s ! ?i
            then (case sl_open s ?i of Inl e \<Rightarrow> Inl e | Inr r \<Rightarrow> Inr (s\<lparr>sl_content := Some r\<rparr>))
            else Inr s) = Inr ?t"
      using st z cl(2) by (cases "sl_content s") auto
    then have "read_region s len c = (b', RdOk, ?t\<lparr>sl_content := Some r', sl_pos := sl_pos s + length b'\<rparr>)"
      using rr b' by (simp add: read_region_def Let_def)
    then have r: "b = b'" "st = RdOk"
      "s' = s\<lparr>sl_content := Some r', sl_zeros := False, sl_pos := sl_pos s + length b'\<rparr>"
      using rd(1) z by auto
    have "sl_pos s + length b' \<le> sl_end s ?i" using ok(3) p(2) by linarith
    moreover have "r' = (drop (sl_pos s + length b' - sl_starts s ! ?i) (C ?i), None)"
      using ok(1) p(1) by (simp add: add.commute)
    ultimately have "splice_inv C s' \<and> ahead C s' = drop (length b') (ahead C s)
        \<and> take (length b') (ahead C s) = take (length b') (drop ?k (C ?i))"
      using consume_region [OF inv i p(1), where n = "length b'" and c = "Some r'" and z = False] r(3) by simp
    then show ?thesis using r b' ok(2) by (simp add: served_def)
  qed
qed

lemma splice_Read_served:
  assumes inv: "splice_inv C s" and rd: "splice_Read s len c = (b, st, s')" "len > 0" "\<not> rc_eager c"
  shows "served C s b st s'"
proof -
  obtain inr t where t: "inRegion s = (inr, t)" by fastforce
  note ti = inRegion_inv [OF inv t]
  show ?thesis
  proof (cases inr)
    case True
    then have "read_region t len c = (b, st, s')" using rd t by (simp add: splice_Read_def)
    from read_region_served [OF ti(1) _ _ _ this rd(2,3)] ti True have "served C t b st s'" by blast
    then show ?thesis using ti(2) by (simp add: served_def)
  next
    case False
    let ?len = "if sl_next t < length (sl_starts t) then min len (sl_starts t ! sl_next t - sl_pos t) else len"
    have l: "length (sl_starts t) = length (sl_entries t)" using ti(1) by (simp add: splice_inv_def)
    have len: "?len > 0" using rd(2) ti(4) False l by auto
    have rec: "sl_recipe t = (fst (sl_recipe t), None)" using ti(1) by (simp add: splice_inv_def prod_eq_iff)
    obtain b' st' r where rr: "reader_Read (fst (sl_recipe t), None) ?len c = (b', st', r)" by (metis prod_cases3)
    note ok = reader_Read_ok [OF rr len rd(3)]
    have e: "b = b'" "st = st'" "s' = t\<lparr>sl_recipe := (drop (length b) (fst (sl_recipe t)), None), sl_pos := sl_pos t + length b\<rparr>"
      using rd(1,2) t False rr rec ok(1) by (auto simp: splice_Read_def Let_def)
    have le: "length b \<le> length (fst (sl_recipe t))" using ok(2) e(1) by (metis length_take min.cobounded1)
    have n: "sl_pos t + length b \<le> sl_starts t ! sl_next t \<and> sl_pos t < sl_starts t ! sl_next t"
      if "sl_next t < length (sl_entries t)"
      using that ok(3) ti(4) [OF False that] l e(1) by auto
    have c: "splice_inv C s' \<and> ahead C s' = drop (length b) (ahead C t)
        \<and> take (length b) (ahead C t) = take (length b) (fst (sl_recipe t))"
      unfolding e(3) by (rule consume_recipe [OF ti(1) le n])
    have "ahead C t = []" if "fst (sl_recipe t) = []"
    proof (cases "sl_next t < length (sl_entries t)")
      case True
      then have "sl_starts t ! sl_next t - sl_pos t \<le> length (fst (sl_recipe t))"
        using ti(1) by (auto simp: splice_inv_def Let_def simp flip: Cons_nth_drop_Suc)
      then show ?thesis using that ti(4) [OF False True] by simp
    qed (use that in \<open>simp add: ahead_def\<close>)
    then show ?thesis using c ok e ti(2) by (auto simp: served_def)
  qed
qed

text \<open>Seeking drops what it passes over.\<close>

lemma seek_step_drops:
  assumes inv: "splice_inv C s" and p: "sl_pos s < target"
  shows "case seek_step s target of
      Inr t \<Rightarrow> splice_inv C t \<and> ahead C t = drop (sl_pos t - sl_pos s) (ahead C s)
    | Inl (er, t) \<Rightarrow> er = None \<and> splice_inv C t \<and> ahead C t = [] \<and> ahead C s = drop 0 (ahead C s)
        \<and> length (ahead C s) \<le> target - sl_pos s"
proof -
  obtain inr t where t: "inRegion s = (inr, t)" by fastforce
  note ti = inRegion_inv [OF inv t]
  have l: "length (sl_starts t) = length (sl_entries t)" and rec: "snd (sl_recipe t) = None"
    using ti(1) by (simp_all add: splice_inv_def)
  show ?thesis
  proof (cases inr)
    case True
    let ?n = "min target (sl_end t (sl_next t)) - sl_pos t"
    have q: "min target (sl_end t (sl_next t)) = sl_pos t + ?n" using ti(3) [OF True] p ti(5) by simp
    have "seek_step s target = Inr (t\<lparr>sl_content := None, sl_zeros := True, sl_pos := sl_pos t + ?n\<rparr>)"
      using True t q by (simp add: seek_step_def)
    moreover have "sl_pos t + ?n \<le> sl_end t (sl_next t)" using q by linarith
    ultimately show ?thesis
      using consume_region [OF ti(1), where n = ?n and c = None and z = True] ti True by simp
  next
    case False
    let ?rec = "fst (sl_recipe t)"
    define n where "n = (if sl_next t < length (sl_starts t)
        then min (target - sl_pos t) (sl_starts t ! sl_next t - sl_pos t) else target - sl_pos t)"
    have n: "n > 0" "n \<le> target - sl_pos s" using p ti(4,5) False l by (auto simp: n_def)
    have inside: "sl_pos t + m \<le> sl_starts t ! sl_next t \<and> sl_pos t < sl_starts t ! sl_next t"
      if "sl_next t < length (sl_entries t)" "m \<le> n" for m
      using that ti(4) [OF False] l by (auto simp: n_def)
    have cover: "n \<le> length ?rec" if "sl_next t < length (sl_entries t)"
    proof -
      have "sl_starts t ! sl_next t - sl_pos t \<le> length ?rec"
        using ti(1) that by (auto simp: splice_inv_def Let_def simp flip: Cons_nth_drop_Suc)
      then show ?thesis using that l by (auto simp: n_def)
    qed
    show ?thesis
    proof (cases "n \<le> length ?rec")
      case True
      have c: "splice_inv C (t\<lparr>sl_recipe := (drop n ?rec, None), sl_pos := sl_pos t + n\<rparr>)
          \<and> ahead C (t\<lparr>sl_recipe := (drop n ?rec, None), sl_pos := sl_pos t + n\<rparr>) = drop n (ahead C t)"
        using consume_recipe [OF ti(1) True] inside [OF _ order_refl] by blast
      have "seek_step s target = Inr (t\<lparr>sl_recipe := (drop n ?rec, None), sl_pos := sl_pos t + n\<rparr>)"
      proof (cases "sl_hasSkip t")
        case True
        then show ?thesis using t False rec n_def [symmetric] by (simp add: seek_step_def reader_Skip_def)
      next
        case skip: False
        then show ?thesis using t False rec True n_def [symmetric] by (simp add: seek_step_def reader_CopyN_def)
      qed
      then show ?thesis using c ti(2,5) by simp
    next
      case short: False
      then have last: "\<not> sl_next t < length (sl_entries t)" using cover by blast
      then have a: "ahead C t = ?rec" by (simp add: ahead_def)
      have i: "splice_inv C (t\<lparr>sl_recipe := ([], None), sl_pos := q\<rparr>)
          \<and> ahead C (t\<lparr>sl_recipe := ([], None), sl_pos := q\<rparr>) = []" for q
        using ti(1) last by (simp add: splice_inv_def ahead_def Let_def)
      have "seek_step s target =
          (if sl_hasSkip t then Inr (t\<lparr>sl_recipe := ([], None), sl_pos := sl_pos t + n\<rparr>)
           else Inl (None, t\<lparr>sl_recipe := ([], None), sl_pos := sl_pos t + length ?rec\<rparr>))"
        using t False rec short n_def [symmetric]
        by (simp add: seek_step_def reader_Skip_def reader_CopyN_def reader_end_def)
      then show ?thesis using i a ti(2,5) short n(2) by simp
    qed
  qed
qed

lemma seek_loop_drops:
  "splice_inv C s \<Longrightarrow> sl_pos s \<le> target \<Longrightarrow>
   \<exists>t. seek_loop s target = (None, t) \<and> splice_inv C t \<and> ahead C t = drop (target - sl_pos s) (ahead C s)"
proof (induction s target rule: seek_loop.induct)
  case (1 s target)
  show ?case
  proof (cases "sl_pos s < target")
    case True
    note d = seek_step_drops [OF "1.prems"(1) True]
    show ?thesis
    proof (cases "seek_step s target")
      case (Inl x)
      then show ?thesis using d True by (subst seek_loop.simps) (auto split: prod.splits)
    next
      case (Inr t)
      have p: "sl_pos s < sl_pos t" "sl_pos t \<le> target" using seek_step_progress [OF Inr True] by auto
      have di: "splice_inv C t" "ahead C t = drop (sl_pos t - sl_pos s) (ahead C s)" using d Inr by auto
      have "\<exists>u. seek_loop t target = (None, u) \<and> splice_inv C u \<and> ahead C u = drop (target - sl_pos t) (ahead C t)"
        by (rule "1.IH" [OF True Inr di(1) p(2)])
      then show ?thesis using True Inr di(2) p by (subst seek_loop.simps) (auto simp: add.commute)
    qed
  next
    case False
    then show ?thesis using "1.prems" by (subst seek_loop.simps) simp
  qed
qed

text \<open>What archive/tar may ask of the splice, and the answers: the offset, the bytes and the status of
  every read.\<close>

datatype splice_op = OpRead nat rchoice | OpSeek nat

fun run_ops :: "splice_op list \<Rightarrow> nat \<Rightarrow> splice \<Rightarrow> (nat \<times> bytes \<times> rstat \<times> bool) list" where
  "run_ops [] p s = []"
| "run_ops (OpRead n c # ops) p s =
     (case splice_Read s n c of (b, st, s') \<Rightarrow> (p, b, st, sl_zeros s') # run_ops ops (p + length b) s')"
| "run_ops (OpSeek n # ops) p s =
     (case splice_Seek s (int n) 1 of ((q, er), s') \<Rightarrow> run_ops ops (p + n) s')"

definition op_fair :: "splice_op \<Rightarrow> bool" where
  "op_fair op = (case op of OpRead n c \<Rightarrow> n > 0 \<and> \<not> rc_eager c | OpSeek n \<Rightarrow> True)"

lemma run_ops_served:
  assumes "splice_inv C s" "ahead C s = drop p A" "list_all op_fair ops"
  shows "list_all (\<lambda>(q, b, st, z). (b = take (length b) (drop q A) \<or> z \<and> b = replicate (length b) (CHR 0x00))
      \<and> (st = RdOk \<and> b \<noteq> [] \<or> st = RdEOF \<and> b = [] \<and> length A \<le> q)) (run_ops ops p s)"
  using assms
proof (induction ops arbitrary: p s)
  case (Cons op ops)
  let ?ok = "list_all (\<lambda>(q, b, st, z). (b = take (length b) (drop q A) \<or> z \<and> b = replicate (length b) (CHR 0x00))
      \<and> (st = RdOk \<and> b \<noteq> [] \<or> st = RdEOF \<and> b = [] \<and> length A \<le> q))"
  have fair: "op_fair op" "list_all op_fair ops" using Cons.prems(3) by auto
  show ?case
  proof (cases op)
    case (OpRead n c)
    obtain b st s' where rd: "splice_Read s n c = (b, st, s')" by (metis prod_cases3)
    have sv: "served C s b st s'"
      using splice_Read_served [OF Cons.prems(1) rd] fair(1) OpRead by (simp add: op_fair_def)
    then have "?ok (run_ops ops (p + length b) s')"
      using Cons.prems(2) by (intro Cons.IH fair(2)) (auto simp: served_def add.commute)
    then show ?thesis using rd sv Cons.prems(2) OpRead by (auto simp: served_def)
  next
    case (OpSeek n)
    from seek_loop_drops [OF Cons.prems(1), of "sl_pos s + n"] obtain t where
      t: "seek_loop s (sl_pos s + n) = (None, t)" "splice_inv C t" "ahead C t = drop n (ahead C s)" by auto
    then have "splice_Seek s (int n) 1 = ((sl_pos t, None), t)" by (simp add: splice_Seek_def)
    moreover have "?ok (run_ops ops (p + n) t)"
      using t Cons.prems(2) by (intro Cons.IH fair(2)) (auto simp: add.commute)
    ultimately show ?thesis using OpSeek by simp
  qed
qed simp


section \<open>A layer of one file\<close>

definition one_index :: "ix_entry list" where
  "one_index = [\<lparr>ix_Offset = 2, ix_Size = 3\<rparr>]"

definition full_read :: rchoice where
  "full_read = \<lparr>rc_max = 100, rc_eager = False\<rparr>"

definition one_layer :: "nat Layer" where
  "one_layer = \<lparr>ly_Index = Inr one_index, ly_Recipe = Inr (''HHTT'', None), ly_hasSkip = False,
     ly_Blob = (\<lambda>i. Inr (''abc'', None)), ly_BlobKey = (\<lambda>i. Inr (i + 7))\<rparr>"

definition one_header :: tar_Header where
  "one_header = \<lparr>Typeflag = CHR ''0'', h_Name = ''f'', Linkname = '''', h_Mode = 420, h_Uid = 0, h_Gid = 0,
     ModTime = None, Devmajor = 0, Devminor = 0, PAXRecords = []\<rparr>"

text \<open>A header block, the header, a seek over the content, the trailer.\<close>

definition one_prog :: tar_prog where
  "one_prog = TarRead 2 (\<lambda>_. TarHeader one_header (TarSeek 3 1 (\<lambda>_. TarRead 2 (\<lambda>_. TarEOF))))"

lemma one_index_fits: "index_fits (\<lambda>_. ''abc'') (\<lambda>i. Inr (''abc'', None)) one_index"
  by (simp add: index_fits_def one_index_def)


theorem parseLayer_contents_witness:
  "\<exists>entries hs. parseLayer (\<lambda>_. None) (\<lambda>_. full_read) one_prog one_layer = Inr entries
     \<and> entries = map (\<lambda>(h, c). convert h c) hs \<and> contents hs = [Some 7]"
proof -
  have i: "ly_Index one_layer = Inr one_index" by (simp add: one_layer_def)
  have "\<not> Option.is_none (case parseLayer (\<lambda>_. None) (\<lambda>_. full_read) one_prog one_layer of Inl e \<Rightarrow> None | Inr es \<Rightarrow> Some es)"
    by code_simp
  then obtain entries where p: "parseLayer (\<lambda>_. None) (\<lambda>_. full_read) one_prog one_layer = Inr entries"
    by (cases "parseLayer (\<lambda>_. None) (\<lambda>_. full_read) one_prog one_layer") auto
  from parseLayer_contents [OF p i] obtain hs keys where h: "entries = map (\<lambda>(h, c). convert h c) hs"
    "contents hs = map Some keys" "map Inr keys = map (ly_BlobKey one_layer) [0..<length one_index]" by blast
  have "keys = [7]" using h(3) by (auto simp: one_layer_def one_index_def)
  with p h show ?thesis by auto
qed

end
