(* ===== verification/Store_Read.thy ===== *)
theory Store_Read
  imports Store_Dir "HOL-Library.Monad_Syntax"
begin

text \<open>
  Reading content (src/store/read.go). \<open>get\<close> is the packstore's Get, \<open>dec\<close> amber's DecodeFileNode and
  \<open>le\<close> its ListEntries. A Reader keeps the pending keys of every level; here the deepest level is the
  head of the list. The loops of fill, Skip and ListDir follow keys that are read from the store, so
  they are partial functions whose result \<open>None\<close> is not returning; the lemmas show that they return
  for every well-founded content.
\<close>

datatype rd_err = REOF | RErr err

record 'k Reader =
  r_stack :: "'k list list"
  r_cur :: bytes
  r_err :: "rd_err option"

definition NewReader :: "'k \<Rightarrow> 'k Reader" where
  "NewReader k = \<lparr>r_stack = [[k]], r_cur = [], r_err = None\<rparr>"

fun reader_next :: "'k list list \<Rightarrow> 'k option \<times> 'k list list" where
  "reader_next [] = (None, [])"
| "reader_next ([] # st) = reader_next st"
| "reader_next ((k # ks) # st) = (Some k, ks # st)"

definition descend ::
  "('k \<Rightarrow> bytes res) \<Rightarrow> (bytes \<Rightarrow> 'k list res) \<Rightarrow> 'k list list \<Rightarrow> 'k \<Rightarrow> 'k list list res" where
  "descend get dec st k =
     (case get k of
        Inl er \<Rightarrow> Inl er
      | Inr data \<Rightarrow> (case dec data of Inl er \<Rightarrow> Inl er | Inr ks \<Rightarrow> Inr (ks # st)))"

definition fetch_blob :: "'k keyops \<Rightarrow> ('k \<Rightarrow> bytes res) \<Rightarrow> 'k \<Rightarrow> bytes res" where
  "fetch_blob K get k =
     (case get k of
        Inl er \<Rightarrow> Inl er
      | Inr data \<Rightarrow>
          if length data \<noteq> key_Length K k then Inl (ErrOther ''store: object length'') else Inr data)"

partial_function (option) fill ::
  "'k keyops \<Rightarrow> ('k \<Rightarrow> bytes res) \<Rightarrow> (bytes \<Rightarrow> 'k list res) \<Rightarrow> 'k list list \<Rightarrow> bytes
     \<Rightarrow> (rd_err option \<times> 'k list list \<times> bytes) option" where
  "fill K get dec st cur =
     (if cur \<noteq> [] then Some (None, st, cur)
      else case reader_next st of
        (None, st1) \<Rightarrow> Some (Some REOF, st1, cur)
      | (Some k, st1) \<Rightarrow>
          (if key_Type K k = KBlob then
             (case fetch_blob K get k of
                Inl er \<Rightarrow> Some (Some (RErr er), st1, cur)
              | Inr data \<Rightarrow> fill K get dec st1 data)
           else if key_Type K k = KFileNode then
             (case descend get dec st1 k of
                Inl er \<Rightarrow> Some (Some (RErr er), st1, cur)
              | Inr st2 \<Rightarrow> fill K get dec st2 cur)
           else Some (Some (RErr (ErrOther ''not a file-content object'')), st1, cur)))"

text \<open>Read into a buffer of \<open>want\<close> bytes: the bytes, the error and the reader.\<close>

definition Reader_Read ::
  "'k keyops \<Rightarrow> ('k \<Rightarrow> bytes res) \<Rightarrow> (bytes \<Rightarrow> 'k list res) \<Rightarrow> nat \<Rightarrow> 'k Reader
     \<Rightarrow> (bytes \<times> rd_err option \<times> 'k Reader) option" where
  "Reader_Read K get dec want r =
     (case r_err r of
        Some er \<Rightarrow> Some ([], Some er, r)
      | None \<Rightarrow>
          if want = 0 then Some ([], None, r)
          else do {
            (er, st, cur) \<leftarrow> fill K get dec (r_stack r) (r_cur r);
            (case er of
               Some e \<Rightarrow> Some ([], Some e, r\<lparr>r_stack := st, r_cur := cur, r_err := Some e\<rparr>)
             | None \<Rightarrow> Some (take want cur, None, r\<lparr>r_stack := st, r_cur := drop want cur\<rparr>))
          })"

partial_function (option) skip_loop ::
  "'k keyops \<Rightarrow> ('k \<Rightarrow> bytes res) \<Rightarrow> (bytes \<Rightarrow> 'k list res) \<Rightarrow> nat \<Rightarrow> 'k list list
     \<Rightarrow> (rd_err option \<times> 'k list list \<times> bytes) option" where
  "skip_loop K get dec n st =
     (if n = 0 then Some (None, st, [])
      else case reader_next st of
        (None, st1) \<Rightarrow> Some (None, st1, [])
      | (Some k, st1) \<Rightarrow>
          (if key_Length K k \<le> n then skip_loop K get dec (n - key_Length K k) st1
           else if key_Type K k = KBlob then
             (case fetch_blob K get k of
                Inl er \<Rightarrow> Some (Some (RErr er), st1, [])
              | Inr data \<Rightarrow> Some (None, st1, drop n data))
           else if key_Type K k = KFileNode then
             (case descend get dec st1 k of
                Inl er \<Rightarrow> Some (Some (RErr er), st1, [])
              | Inr st2 \<Rightarrow> skip_loop K get dec n st2)
           else Some (Some (RErr (ErrOther ''not a file-content object'')), st1, [])))"

definition Reader_Skip ::
  "'k keyops \<Rightarrow> ('k \<Rightarrow> bytes res) \<Rightarrow> (bytes \<Rightarrow> 'k list res) \<Rightarrow> int \<Rightarrow> 'k Reader
     \<Rightarrow> (rd_err option \<times> 'k Reader) option" where
  "Reader_Skip K get dec n r =
     (if n < 0 then Some (Some (RErr (ErrOther ''store: Skip: negative count'')), r)
      else case r_err r of
        Some REOF \<Rightarrow> Some (None, r)
      | Some (RErr er) \<Rightarrow> Some (Some (RErr er), r)
      | None \<Rightarrow>
          if nat n \<le> length (r_cur r) then Some (None, r\<lparr>r_cur := drop (nat n) (r_cur r)\<rparr>)
          else do {
            (er, st, cur) \<leftarrow> skip_loop K get dec (nat n - length (r_cur r)) (r_stack r);
            Some (er, r\<lparr>r_stack := st, r_cur := cur, r_err := er\<rparr>)
          })"

text \<open>ReadFile; \<open>wc\<close> is amber's WriteContent into a buffer.\<close>

definition ReadFile :: "'k keyops \<Rightarrow> ('k \<Rightarrow> bytes res) \<Rightarrow> ('k \<Rightarrow> bytes res) \<Rightarrow> 'k \<Rightarrow> bytes res" where
  "ReadFile K get wc k =
     (case (if key_Type K k = KBlob then get k
            else if key_Type K k = KFileNode then wc k
            else Inl (ErrOther ''not a file-content object'')) of
        Inl er \<Rightarrow> Inl er
      | Inr data \<Rightarrow>
          if length data \<noteq> key_Length K k then Inl (ErrOther ''store: key length'') else Inr data)"

text \<open>Lookup over amber's LookupEntry, whose \<open>None\<close> is its not-found error.\<close>

definition store_Lookup :: "('k \<Rightarrow> string \<Rightarrow> 'k fentry option res) \<Rightarrow> 'k \<Rightarrow> string \<Rightarrow> 'k fentry res" where
  "store_Lookup lookupEntry dir name =
     (case lookupEntry dir name of
        Inl er \<Rightarrow> Inl er
      | Inr None \<Rightarrow> Inl ErrStoreNotFound
      | Inr (Some e) \<Rightarrow> Inr e)"

definition LookupKey ::
  "'k keyops \<Rightarrow> ('k \<Rightarrow> string \<Rightarrow> 'k fentry option res) \<Rightarrow> 'k \<Rightarrow> string \<Rightarrow> 'k res" where
  "LookupKey K lookupEntry dir name =
     (case store_Lookup lookupEntry dir name of
        Inl er \<Rightarrow> Inl er
      | Inr e \<Rightarrow>
          (case fe_ContentKey e of
             None \<Rightarrow> Inl (ErrOther ''entry has no content key'')
           | Some k \<Rightarrow> if key_ok K k then Inr k else Inl (ErrOther ''entry has no content key'')))"

definition listPage :: nat where "listPage = 1024"

partial_function (option) list_loop ::
  "('k \<Rightarrow> string \<Rightarrow> nat \<Rightarrow> ('k fentry list \<times> bool) res) \<Rightarrow> 'k \<Rightarrow> string \<Rightarrow> 'k fentry list
     \<Rightarrow> ('k fentry list \<times> bool) res option" where
  "list_loop le dir cursor acc =
     (case le dir cursor listPage of
        Inl er \<Rightarrow> Some (Inl er)
      | Inr (page, pageMore) \<Rightarrow>
          if \<not> pageMore then Some (Inr (acc @ page, False))
          else list_loop le dir (fe_Name (last page)) (acc @ page))"

definition store_ListDir ::
  "('k \<Rightarrow> string \<Rightarrow> nat \<Rightarrow> ('k fentry list \<times> bool) res) \<Rightarrow> 'k \<Rightarrow> string \<Rightarrow> int
     \<Rightarrow> ('k fentry list \<times> bool) res option" where
  "store_ListDir le dir after limit =
     (if limit > 0 then Some (le dir after (nat limit)) else list_loop le dir after [])"

section \<open>Content of a key\<close>

text \<open>
  \<open>content K get dec k bs\<close>: the object tree under \<open>k\<close> is complete and well formed and spells \<open>bs\<close>.
  \<open>pending st bs\<close>: the keys left on a reader's stack spell \<open>bs\<close>.
\<close>

inductive content ::
  "'k keyops \<Rightarrow> ('k \<Rightarrow> bytes res) \<Rightarrow> (bytes \<Rightarrow> 'k list res) \<Rightarrow> 'k \<Rightarrow> bytes \<Rightarrow> bool"
  for K get dec where
  content_blob: "key_Type K k = KBlob \<Longrightarrow> get k = Inr bs \<Longrightarrow> length bs = key_Length K k
    \<Longrightarrow> content K get dec k bs"
| content_node: "key_Type K k = KFileNode \<Longrightarrow> get k = Inr data \<Longrightarrow> dec data = Inr ks
    \<Longrightarrow> list_all2 (content K get dec) ks bss \<Longrightarrow> length (concat bss) = key_Length K k
    \<Longrightarrow> content K get dec k (concat bss)"

definition pending ::
  "'k keyops \<Rightarrow> ('k \<Rightarrow> bytes res) \<Rightarrow> (bytes \<Rightarrow> 'k list res) \<Rightarrow> 'k list list \<Rightarrow> bytes \<Rightarrow> bool" where
  "pending K get dec st bs \<longleftrightarrow> (\<exists>bss. list_all2 (content K get dec) (concat st) bss \<and> bs = concat bss)"

lemma content_length: "content K get dec k bs \<Longrightarrow> length bs = key_Length K k"
  by (cases rule: content.cases) auto

lemma pending_Nil [simp]: "pending K get dec [] bs \<longleftrightarrow> bs = []"
  by (auto simp: pending_def)

lemma pending_empty_level [simp]: "pending K get dec ([] # st) bs \<longleftrightarrow> pending K get dec st bs"
  by (simp add: pending_def)

lemma pending_Cons:
  "pending K get dec ((k # ks) # st) bs \<longleftrightarrow>
     (\<exists>b r. content K get dec k b \<and> pending K get dec (ks # st) r \<and> bs = b @ r)"
  by (fastforce simp: pending_def list_all2_Cons1)

lemma pending_level:
  "list_all2 (content K get dec) ks bss \<Longrightarrow> pending K get dec st r \<Longrightarrow>
   pending K get dec (ks # st) (concat bss @ r)"
  unfolding pending_def by (metis concat.simps(2) concat_append list_all2_appendI)

lemma fill_level: "fill K get dec ([] # st) [] = fill K get dec st []"
  by (subst (1 2) fill.simps) simp

lemma fill_cur: "cur \<noteq> [] \<Longrightarrow> fill K get dec st cur = Some (None, st, cur)"
  by (simp add: fill.simps)

text \<open>
  What fill does with the next key: an empty content is passed over, any other is opened up to its
  first chunk, and nothing of what the stack spells is lost.
\<close>

definition opens ::
  "'k keyops \<Rightarrow> ('k \<Rightarrow> bytes res) \<Rightarrow> (bytes \<Rightarrow> 'k list res) \<Rightarrow> 'k list list \<Rightarrow> bytes \<Rightarrow> bool" where
  "opens K get dec st bs \<longleftrightarrow>
     (\<exists>st' cur r. fill K get dec st [] = Some (None, st', cur) \<and> cur \<noteq> []
        \<and> pending K get dec st' r \<and> cur @ r = bs)"

lemma fill_key:
  "content K get dec k bs \<Longrightarrow>
   (\<forall>ks st r. pending K get dec (ks # st) r \<longrightarrow>
      (bs = [] \<longrightarrow> fill K get dec ((k # ks) # st) [] = fill K get dec (ks # st) [])
      \<and> (bs \<noteq> [] \<longrightarrow> opens K get dec ((k # ks) # st) (bs @ r)))"
proof (induction rule: content.induct)
  case (content_blob k bs)
  have f: "fill K get dec ((k # ks) # st) [] = fill K get dec (ks # st) bs" for ks st
    using content_blob by (subst fill.simps) (simp add: fetch_blob_def)
  show ?case
    by (auto simp: f opens_def fill_cur)
next
  case (content_node k data ks0 bss)
  have f: "fill K get dec ((k # ks) # st) [] = fill K get dec (ks0 # ks # st) []" for ks st
    using content_node(1-3) by (subst fill.simps) (simp add: descend_def)
  have "pending K get dec st r \<Longrightarrow>
      (concat bss = [] \<longrightarrow> fill K get dec (ks0 # st) [] = fill K get dec st [])
      \<and> (concat bss \<noteq> [] \<longrightarrow> opens K get dec (ks0 # st) (concat bss @ r))" for st r
    using content_node.IH
  proof (induction arbitrary: r rule: list_all2_induct)
    case Nil
    then show ?case by (simp add: fill_level)
  next
    case (Cons x xs y ys)
    have ih: "\<forall>ks st r. pending K get dec (ks # st) r \<longrightarrow>
      (y = [] \<longrightarrow> fill K get dec ((x # ks) # st) [] = fill K get dec (ks # st) [])
      \<and> (y \<noteq> [] \<longrightarrow> opens K get dec ((x # ks) # st) (y @ r))" using Cons by simp
    have xs: "list_all2 (content K get dec) xs ys" using Cons by (auto elim: list_all2_mono)
    have p: "pending K get dec (xs # st) (concat ys @ r)" by (rule pending_level [OF xs Cons.prems])
    show ?case
    proof (cases "y = []")
      case True
      then have "fill K get dec ((x # xs) # st) [] = fill K get dec (xs # st) []" using ih p by blast
      with True Cons.IH [OF Cons.prems] show ?thesis by (simp add: opens_def)
    next
      case False
      then have "opens K get dec ((x # xs) # st) (y @ concat ys @ r)" using ih p by blast
      with False show ?thesis by simp
    qed
  qed
  then show ?case using f by (simp add: opens_def)
qed

lemma fill_pending:
  "pending K get dec st bs \<Longrightarrow>
   if bs = [] then fill K get dec st [] = Some (Some REOF, [], []) else opens K get dec st bs"
proof (induction st arbitrary: bs)
  case Nil
  then show ?case by (simp add: fill.simps)
next
  case (Cons ks st)
  show ?case
    using Cons.prems
  proof (induction ks arbitrary: bs)
    case Nil
    then show ?case using Cons.IH [of bs] by (auto simp: fill_level opens_def split: if_splits)
  next
    case (Cons k ks)
    from Cons.prems obtain b r where b: "content K get dec k b" and r: "pending K get dec (ks # st) r"
      and bs: "bs = b @ r" by (auto simp: pending_Cons)
    show ?case
    proof (cases "b = []")
      case True
      then have "fill K get dec ((k # ks) # st) [] = fill K get dec (ks # st) []"
        using fill_key [OF b] r by blast
      with True bs Cons.IH [OF r] show ?thesis by (auto simp: opens_def split: if_splits)
    next
      case False
      then show ?thesis using fill_key [OF b] r bs by simp
    qed
  qed
qed

definition reader_rest ::
  "'k keyops \<Rightarrow> ('k \<Rightarrow> bytes res) \<Rightarrow> (bytes \<Rightarrow> 'k list res) \<Rightarrow> 'k Reader \<Rightarrow> bytes \<Rightarrow> bool" where
  "reader_rest K get dec r bs \<longleftrightarrow>
     (r_err r = None \<and> (\<exists>p. pending K get dec (r_stack r) p \<and> bs = r_cur r @ p))
     \<or> (r_err r = Some REOF \<and> bs = [])"

lemma Reader_Read_chunk:
  assumes "r_err r = None" "want > 0" "fill K get dec (r_stack r) (r_cur r) = Some (None, st, cur)"
    and "cur \<noteq> []" "pending K get dec st q"
  shows "\<exists>out r'. Reader_Read K get dec want r = Some (out, None, r') \<and> 0 < length out \<and> length out \<le> want
    \<and> (\<exists>rest. cur @ q = out @ rest \<and> reader_rest K get dec r' rest)"
proof -
  let ?r = "r\<lparr>r_stack := st, r_cur := drop want cur\<rparr>"
  have "Reader_Read K get dec want r = Some (take want cur, None, ?r)"
    using assms(1-3) by (simp add: Reader_Read_def)
  moreover have "reader_rest K get dec ?r (drop want cur @ q)"
    using assms(1,5) by (auto simp: reader_rest_def)
  moreover have "cur @ q = take want cur @ (drop want cur @ q)" by simp
  moreover have "0 < length (take want cur)" "length (take want cur) \<le> want" using assms(2,4) by simp_all
  ultimately show ?thesis by blast
qed

lemma Reader_Read_ok:
  assumes "reader_rest K get dec r bs" "want > 0"
  shows "\<exists>out er r'. Reader_Read K get dec want r = Some (out, er, r')
    \<and> (if bs = [] then out = [] \<and> er = Some REOF \<and> reader_rest K get dec r' []
       else er = None \<and> 0 < length out \<and> length out \<le> want
            \<and> (\<exists>rest. bs = out @ rest \<and> reader_rest K get dec r' rest))"
proof (cases "r_err r")
  case (Some e)
  then show ?thesis using assms by (auto simp: reader_rest_def Reader_Read_def)
next
  case None
  with assms(1) obtain p where p: "pending K get dec (r_stack r) p" "bs = r_cur r @ p"
    by (auto simp: reader_rest_def)
  show ?thesis
  proof (cases "r_cur r = []")
    case False
    then have f: "fill K get dec (r_stack r) (r_cur r) = Some (None, r_stack r, r_cur r)" by (rule fill_cur)
    show ?thesis using Reader_Read_chunk [OF None assms(2) f False p(1)] p(2) False by auto
  next
    case True
    with p have fp: "if bs = [] then fill K get dec (r_stack r) [] = Some (Some REOF, [], [])
        else opens K get dec (r_stack r) bs" using fill_pending [of K get dec "r_stack r" bs] by simp
    show ?thesis
    proof (cases "bs = []")
      case True
      with fp \<open>r_cur r = []\<close> None assms(2) show ?thesis by (simp add: Reader_Read_def reader_rest_def)
    next
      case False
      with fp obtain st cur q where f: "fill K get dec (r_stack r) [] = Some (None, st, cur)" "cur \<noteq> []"
        "pending K get dec st q" "cur @ q = bs" by (auto simp: opens_def)
      show ?thesis using Reader_Read_chunk [OF None assms(2) _ f(2,3)] f True False by auto
    qed
  qed
qed

text \<open>
  Reading a stored file: as long as the objects under the key are there and well formed, every
  Read returns; it reports end of file exactly when nothing is left, and otherwise returns between
  one and \<open>want\<close> bytes, the next ones of the content, and leaves the rest to be read.
\<close>

theorem Reader_Read_spec:
  assumes "reader_rest K get dec r bs" "want > 0"
  shows "\<exists>out er r'. Reader_Read K get dec want r = Some (out, er, r')
    \<and> (if bs = [] then out = [] \<and> er = Some REOF \<and> reader_rest K get dec r' []
       else er = None \<and> 0 < length out \<and> length out \<le> want
            \<and> (\<exists>rest. bs = out @ rest \<and> reader_rest K get dec r' rest))"
  using assms by (rule Reader_Read_ok)

section \<open>Skip\<close>

definition skips ::
  "'k keyops \<Rightarrow> ('k \<Rightarrow> bytes res) \<Rightarrow> (bytes \<Rightarrow> 'k list res) \<Rightarrow> nat \<Rightarrow> 'k list list \<Rightarrow> bytes \<Rightarrow> bool" where
  "skips K get dec n st bs \<longleftrightarrow>
     (\<exists>st' cur r. skip_loop K get dec n st = Some (None, st', cur) \<and> pending K get dec st' r
        \<and> cur @ r = drop n bs)"

lemma skip_zero: "pending K get dec st bs \<Longrightarrow> skips K get dec 0 st bs"
  by (simp add: skips_def skip_loop.simps)

lemma skip_level: "0 < n \<Longrightarrow> skip_loop K get dec n ([] # st) = skip_loop K get dec n st"
  by (subst (1 2) skip_loop.simps) simp

lemma skip_whole:
  "0 < n \<Longrightarrow> key_Length K k \<le> n \<Longrightarrow>
   skip_loop K get dec n ((k # ks) # st) = skip_loop K get dec (n - key_Length K k) (ks # st)"
  by (subst skip_loop.simps) simp

lemma skip_key:
  "content K get dec k bs \<Longrightarrow>
   (\<forall>n ks st r. pending K get dec (ks # st) r \<and> 0 < n \<and> n < length bs \<longrightarrow>
      skips K get dec n ((k # ks) # st) (bs @ r))"
proof (induction rule: content.induct)
  case (content_blob k bs)
  have "skip_loop K get dec n ((k # ks) # st) = Some (None, ks # st, drop n bs)"
    if "0 < n" "n < length bs" for n ks st
    using content_blob that by (subst skip_loop.simps) (simp add: fetch_blob_def)
  then show ?case by (auto simp: skips_def)
next
  case (content_node k data ks0 bss)
  have f: "skip_loop K get dec n ((k # ks) # st) = skip_loop K get dec n (ks0 # ks # st)"
    if "0 < n" "n < length (concat bss)" for n ks st
    using content_node.hyps that by (subst skip_loop.simps) (simp add: descend_def)
  have "pending K get dec st r \<Longrightarrow> 0 < n \<Longrightarrow> n < length (concat bss) \<Longrightarrow>
      skips K get dec n (ks0 # st) (concat bss @ r)" for n st r
    using content_node.IH
  proof (induction arbitrary: n rule: list_all2_induct)
    case (Cons x xs y ys)
    have y: "content K get dec x y"
      and ih: "\<forall>n ks st r. pending K get dec (ks # st) r \<and> 0 < n \<and> n < length y \<longrightarrow>
        skips K get dec n ((x # ks) # st) (y @ r)" using Cons by simp_all
    have xs: "list_all2 (content K get dec) xs ys" using Cons by (auto elim: list_all2_mono)
    have p: "pending K get dec (xs # st) (concat ys @ r)" by (rule pending_level [OF xs Cons.prems(1)])
    show ?case
    proof (cases "n < length y")
      case True
      then show ?thesis using ih p Cons.prems by simp
    next
      case False
      have len: "key_Length K x = length y" using content_length [OF y] by simp
      have w: "skip_loop K get dec n ((x # xs) # st) = skip_loop K get dec (n - length y) (xs # st)"
        using skip_whole [of n K x get dec xs st] False Cons.prems(2) len by simp
      show ?thesis
      proof (cases "n = length y")
        case True
        then show ?thesis using w skip_zero [OF p] by (simp add: skips_def)
      next
        case False2: False
        then have "skips K get dec (n - length y) (xs # st) (concat ys @ r)"
          using Cons.IH [of "n - length y"] Cons.prems False by simp
        then show ?thesis using w False by (simp add: skips_def)
      qed
    qed
  qed simp
  then show ?case using f by (simp add: skips_def)
qed

lemma skip_pending: "pending K get dec st bs \<Longrightarrow> skips K get dec n st bs"
proof (induction st arbitrary: n bs)
  case Nil
  then show ?case by (simp add: skips_def skip_loop.simps)
next
  case (Cons ks st)
  show ?case
    using Cons.prems
  proof (induction ks arbitrary: n bs)
    case Nil
    then show ?case
      using Cons.IH skip_zero [of K get dec "[] # st" bs] by (cases "n = 0") (auto simp: skip_level skips_def)
  next
    case (Cons k ks)
    from Cons.prems obtain b r where b: "content K get dec k b" and r: "pending K get dec (ks # st) r"
      and bs: "bs = b @ r" by (auto simp: pending_Cons)
    consider "n = 0" | "0 < n" "n < length b" | "0 < n" "length b \<le> n" by linarith
    then show ?case
    proof cases
      case 1
      then show ?thesis using skip_zero [OF Cons.prems] by simp
    next
      case 2
      then show ?thesis using skip_key [OF b] r bs by blast
    next
      case 3
      then have "skip_loop K get dec n ((k # ks) # st) = skip_loop K get dec (n - length b) (ks # st)"
        using skip_whole [of n K k get dec ks st] content_length [OF b] by simp
      then show ?thesis using Cons.IH [OF r, of "n - length b"] 3 bs by (simp add: skips_def)
    qed
  qed
qed

lemma Reader_Skip_ok:
  assumes "reader_rest K get dec r bs" "0 \<le> n"
  shows "\<exists>r'. Reader_Skip K get dec n r = Some (None, r') \<and> reader_rest K get dec r' (drop (nat n) bs)"
proof (cases "r_err r")
  case (Some e)
  then show ?thesis using assms by (auto simp: reader_rest_def Reader_Skip_def)
next
  case None
  with assms(1) obtain p where p: "pending K get dec (r_stack r) p" "bs = r_cur r @ p"
    by (auto simp: reader_rest_def)
  show ?thesis
  proof (cases "nat n \<le> length (r_cur r)")
    case True
    then show ?thesis using None p assms(2) by (auto simp: Reader_Skip_def reader_rest_def)
  next
    case False
    from skip_pending [OF p(1), of "nat n - length (r_cur r)"] obtain st cur q where
      "skip_loop K get dec (nat n - length (r_cur r)) (r_stack r) = Some (None, st, cur)"
      "pending K get dec st q" "cur @ q = drop (nat n - length (r_cur r)) p" by (auto simp: skips_def)
    then show ?thesis
      using False None p assms(2) by (auto simp: Reader_Skip_def reader_rest_def)
  qed
qed

text \<open>
  Skip is as good as reading and discarding: on a well-formed content it returns without an
  error, and what is left to read is what was left before without its first \<open>n\<close> bytes, none when
  fewer were left.
\<close>

theorem Reader_Skip_spec:
  assumes "reader_rest K get dec r bs" "0 \<le> n"
  shows "\<exists>r'. Reader_Skip K get dec n r = Some (None, r') \<and> reader_rest K get dec r' (drop (nat n) bs)"
  using assms by (rule Reader_Skip_ok)

section \<open>Listing a directory page by page\<close>

text \<open>
  What amber documents of ListEntries over the sorted entries of a directory: the entries after a
  name, at most \<open>limit\<close> of them, and whether more follow.
\<close>

definition after_name :: "'k fentry list \<Rightarrow> string \<Rightarrow> 'k fentry list" where
  "after_name es a = filter (\<lambda>e. a < fe_Name e) es"

definition list_entries_ok ::
  "('k \<Rightarrow> string \<Rightarrow> nat \<Rightarrow> ('k fentry list \<times> bool) res) \<Rightarrow> 'k \<Rightarrow> 'k fentry list \<Rightarrow> bool" where
  "list_entries_ok le dir es \<longleftrightarrow>
     (\<forall>a n. n > 0 \<longrightarrow> le dir a n = Inr (take n (after_name es a), n < length (after_name es a)))"

lemma after_name_take:
  assumes "sorted_wrt (<) (map fe_Name es)" "0 < n" "n < length (after_name es a)"
  shows "after_name es (fe_Name (last (take n (after_name es a)))) = drop n (after_name es a)"
proof -
  define xs where "xs = after_name es a"
  have s: "sorted_wrt (<) (map fe_Name xs)"
    using assms(1) unfolding xs_def after_name_def by (simp add: sorted_wrt_map sorted_wrt_filter)
  define m where "m = last (take n xs)"
  have "take n xs \<noteq> []" using assms(2,3) unfolding xs_def by auto
  then have m: "m = xs ! (n - 1)"
    using assms(2,3) unfolding m_def xs_def by (simp add: last_conv_nth min_def)
  have mem: "m \<in> set xs" using m assms(2,3) unfolding xs_def by auto


  have "after_name es (fe_Name m) = filter (\<lambda>e. fe_Name m < fe_Name e) xs"
    using mem unfolding xs_def after_name_def by (auto simp: filter_filter intro!: filter_cong)
  also have "\<dots> = filter (\<lambda>e. fe_Name m < fe_Name e) (take n xs @ drop n xs)" by simp
  also have "\<dots> = drop n xs"
  proof -
    have "\<not> fe_Name m < fe_Name e" if "e \<in> set (take n xs)" for e
    proof -
      from that obtain i where i: "i < n" "i < length xs" "e = xs ! i" by (auto simp: in_set_conv_nth)
      have "fe_Name (xs ! i) < fe_Name m" if "i < n - 1"
        using s m assms(3) i(2) that unfolding sorted_wrt_map xs_def [symmetric]
        by (auto intro: sorted_wrt_nth_less)
      moreover have "i = n - 1 \<or> i < n - 1" using i(1) by linarith
      ultimately show ?thesis using i(3) m by auto
    qed
    moreover have "fe_Name m < fe_Name e" if "e \<in> set (drop n xs)" for e
    proof -
      from that obtain i where "i < length xs - n" "e = xs ! (n + i)" by (auto simp: in_set_conv_nth)
      then show ?thesis
        using s m assms(2,3) unfolding sorted_wrt_map xs_def [symmetric]
        by (auto intro: sorted_wrt_nth_less)
    qed
    ultimately have "filter (\<lambda>e. fe_Name m < fe_Name e) (take n xs) = []"
      "filter (\<lambda>e. fe_Name m < fe_Name e) (drop n xs) = drop n xs"
      by (simp_all add: filter_id_conv filter_empty_conv)
    then show ?thesis by (simp only: filter_append) simp
  qed
  finally show ?thesis by (simp add: m_def xs_def)
qed

lemma list_loop_all:
  assumes "sorted_wrt (<) (map fe_Name es)" "list_entries_ok le dir es"
  shows "list_loop le dir a acc = Some (Inr (acc @ after_name es a, False))"
proof (induction "length (after_name es a)" arbitrary: a acc rule: less_induct)
  case less
  define xs where "xs = after_name es a"
  have p: "0 < listPage" by (simp add: listPage_def)
  have le: "le dir a listPage = Inr (take listPage xs, listPage < length xs)"
    using assms(2) p by (simp add: list_entries_ok_def xs_def)
  show ?case
  proof (cases "listPage < length xs")
    case False
    then show ?thesis using le by (subst list_loop.simps) (simp add: xs_def)
  next
    case True
    let ?a = "fe_Name (last (take listPage xs))"
    have nx: "after_name es ?a = drop listPage xs"
      using after_name_take [OF assms(1) p] True by (simp add: xs_def)
    have "list_loop le dir ?a (acc @ take listPage xs) = Some (Inr ((acc @ take listPage xs) @ after_name es ?a, False))"
      by (rule less) (use True p in \<open>simp add: nx xs_def [symmetric]\<close>)
    then show ?thesis using le True by (subst list_loop.simps) (simp add: nx xs_def [symmetric])
  qed
qed

text \<open>
  Listing without a limit walks a directory in pages of listPage entries and returns every
  entry after the given name once, in name order, however large the directory is; with a limit it
  returns the first entries and says whether more follow.
\<close>

theorem ListDir_complete:
  assumes "sorted_wrt (<) (map fe_Name es)" "list_entries_ok le dir es"
  shows "store_ListDir le dir a limit =
    Some (Inr (if limit > 0 then (take (nat limit) (after_name es a), nat limit < length (after_name es a))
               else (after_name es a, False)))"
  using list_loop_all [OF assms, of a "[]"] assms(2)
  by (simp add: store_ListDir_def list_entries_ok_def)

section \<open>A concrete file and directory\<close>

text \<open>Keys are numbers: 0 and 1 are chunks, 2 is an empty chunk, 9 the node above them.\<close>

definition file_keys :: "nat keyops" where
  "file_keys = \<lparr>key_ok = (\<lambda>_. True), key_Type = (\<lambda>k. if k = 9 then KFileNode else KBlob),
     key_Length = (\<lambda>k. if k = 9 then 5 else if k = 2 then 0 else if k = 0 then 3 else 2)\<rparr>"

definition file_get :: "nat \<Rightarrow> bytes res" where
  "file_get k = Inr (if k = 9 then ''node'' else if k = 2 then '''' else if k = 0 then ''abc'' else ''de'')"

definition file_dec :: "bytes \<Rightarrow> nat list res" where
  "file_dec _ = Inr [2, 0, 2, 1]"

lemma file_content: "content file_keys file_get file_dec 9 ''abcde''"
proof -
  have b: "content file_keys file_get file_dec 2 ''''" "content file_keys file_get file_dec 0 ''abc''"
    "content file_keys file_get file_dec 1 ''de''"
    by (auto intro!: content_blob simp: file_keys_def file_get_def)
  have "content file_keys file_get file_dec 9 (concat ['''', ''abc'', '''', ''de''])"
    by (rule content_node [where data = "''node''" and ks = "[2, 0, 2, 1]"])
       (use b in \<open>simp_all add: file_keys_def file_get_def file_dec_def\<close>)
  then show ?thesis by simp
qed

lemma file_reader: "reader_rest file_keys file_get file_dec (NewReader 9) ''abcde''"
  using file_content
  by (auto simp: reader_rest_def NewReader_def pending_def list_all2_Cons1 intro!: exI [of _ "[''abcde'']"])

theorem Reader_Read_spec_witness:
  "\<exists>out er r'. Reader_Read file_keys file_get file_dec 2 (NewReader 9) = Some (out, er, r')
     \<and> er = None \<and> 0 < length out \<and> length out \<le> 2
     \<and> (\<exists>rest. ''abcde'' = out @ rest \<and> reader_rest file_keys file_get file_dec r' rest)"
  using Reader_Read_spec [OF file_reader, of 2] by simp

theorem Reader_Skip_spec_witness:
  "\<exists>r'. Reader_Skip file_keys file_get file_dec 4 (NewReader 9) = Some (None, r')
     \<and> reader_rest file_keys file_get file_dec r' ''e''"
  using Reader_Skip_spec [OF file_reader, of 4] by simp

definition dir_entries :: "nat fentry list" where
  "dir_entries = map (\<lambda>n. FEntry n ModeFile 0 0 0 (Some 0) [] [] [] None) [''a'', ''b'', ''c'']"

theorem ListDir_complete_witness:
  "store_ListDir (\<lambda>_ a n. Inr (take n (after_name dir_entries a), n < length (after_name dir_entries a)))
     (0 :: nat) ''a'' 0 = Some (Inr (drop 1 dir_entries, False))"
proof -
  have "sorted_wrt (<) (map fe_Name dir_entries)" "after_name dir_entries ''a'' = drop 1 dir_entries"
    by (simp_all add: dir_entries_def after_name_def)
  then show ?thesis
    using ListDir_complete [of dir_entries "\<lambda>_ a n. Inr (take n (after_name dir_entries a),
        n < length (after_name dir_entries a))" "0 :: nat" "''a''" 0]
    by (simp add: list_entries_ok_def)
qed

end
