(* ===== verification/Store_Content.thy ===== *)
theory Store_Content
  imports Store_Read
begin

text \<open>
  Storing content and small directories (PutStream, addChunk and PutBytes of src/store/write.go and
  the directories that the blob and image packages build from it). \<open>objstore\<close> is the amber library as
  the packages use it: keys, directory builder, chunker, blob encoder, the Writer's Emit, the file
  index builder and the readers. \<open>objstore_ok\<close> says what it documents: chunks spell their input, an
  object that was emitted can be read, an index spells its children and a directory returns the
  entries that were added.
\<close>

record ('i, 'd, 'k) objstore =
  os_K :: "'k keyops"
  os_B :: "('d, 'k) dirbuilder"
  os_lookup :: "'k \<Rightarrow> string \<Rightarrow> 'k fentry option res"
  os_get :: "'k \<Rightarrow> bytes res"
  os_dec :: "bytes \<Rightarrow> 'k list res"
  os_WriteContent :: "'k \<Rightarrow> bytes res"
  os_Split :: "bytes \<Rightarrow> bytes list"
  os_EncodeBlob :: "bytes \<Rightarrow> ('k \<times> bytes) res"
  os_Emit :: "'k \<times> bytes \<Rightarrow> err option"
  os_ibNew :: 'i
  os_ibAddChild :: "'i \<Rightarrow> 'k \<Rightarrow> 'i res"
  os_ibFinish :: "'i \<Rightarrow> 'k res"

definition addChunk :: "('i, 'd, 'k) objstore \<Rightarrow> 'i \<Rightarrow> bytes \<Rightarrow> 'i res" where
  "addChunk S ib chunk =
     (case os_EncodeBlob S chunk of
        Inl er \<Rightarrow> Inl er
      | Inr obj \<Rightarrow>
          (case os_Emit S obj of Some er \<Rightarrow> Inl er | None \<Rightarrow> os_ibAddChild S ib (fst obj)))"

fun add_chunks :: "('i, 'd, 'k) objstore \<Rightarrow> 'i \<Rightarrow> bytes list \<Rightarrow> 'i res" where
  "add_chunks S ib [] = Inr ib"
| "add_chunks S ib (c # cs) = (case addChunk S ib c of Inl er \<Rightarrow> Inl er | Inr ib' \<Rightarrow> add_chunks S ib' cs)"

text \<open>PutStream of a reader that delivers some bytes and then an error, \<open>None\<close> for EOF.\<close>

definition PutStream :: "('i, 'd, 'k) objstore \<Rightarrow> bytes \<times> err option \<Rightarrow> 'k res" where
  "PutStream S r =
     (let chunks = os_Split S (fst r) in
      case add_chunks S (os_ibNew S) chunks of
        Inl er \<Rightarrow> Inl er
      | Inr ib \<Rightarrow>
          (case snd r of
             Some er \<Rightarrow> Inl er
           | None \<Rightarrow>
               (case (if chunks = [] then addChunk S ib [] else Inr ib) of
                  Inl er \<Rightarrow> Inl er
                | Inr ib' \<Rightarrow> os_ibFinish S ib')))"

definition PutBytes :: "('i, 'd, 'k) objstore \<Rightarrow> bytes \<Rightarrow> 'k res" where
  "PutBytes S b = PutStream S (b, None)"

text \<open>The readers of the store on this library.\<close>

definition os_LookupKey :: "('i, 'd, 'k) objstore \<Rightarrow> 'k \<Rightarrow> string \<Rightarrow> 'k res" where
  "os_LookupKey S = LookupKey (os_K S) (os_lookup S)"

definition os_ReadFile :: "('i, 'd, 'k) objstore \<Rightarrow> 'k \<Rightarrow> bytes res" where
  "os_ReadFile S = ReadFile (os_K S) (os_get S) (os_WriteContent S)"

text \<open>
  A directory whose entries are added one after another: \<open>True\<close> for AddDir, \<open>False\<close> for AddFile.
\<close>

fun add_each :: "('i, 'd, 'k) objstore \<Rightarrow> 'd Dir \<Rightarrow> (bool \<times> string \<times> 'k) list \<Rightarrow> 'd Dir res" where
  "add_each S d [] = Inr d"
| "add_each S d ((isdir, name, k) # es) =
     (case (if isdir then AddDir else AddFile) (os_K S) (os_B S) d name k of
        Inl er \<Rightarrow> Inl er
      | Inr d' \<Rightarrow> add_each S d' es)"

definition put_dir :: "('i, 'd, 'k) objstore \<Rightarrow> (bool \<times> string \<times> 'k) list \<Rightarrow> 'k res" where
  "put_dir S es =
     (case add_each S (NewDir (os_B S)) es of
        Inl er \<Rightarrow> Inl er
      | Inr d \<Rightarrow> (case Dir_Finish (os_B S) d of Inl er \<Rightarrow> Inl er | Inr (k, _) \<Rightarrow> Inr k))"

section \<open>What the library promises\<close>

definition objstore_ok ::
  "('i, 'd, 'k) objstore \<Rightarrow> ('d \<Rightarrow> 'k fentry list) \<Rightarrow> ('i \<Rightarrow> 'k list) \<Rightarrow> bool" where
  "objstore_ok S cont kids \<longleftrightarrow>
     cont (db_New (os_B S)) = []
     \<and> (\<forall>d e d'. db_AddEntry (os_B S) d e = Inr d' \<longrightarrow> cont d' = cont d @ [e])
     \<and> (\<forall>d k. db_Finish (os_B S) d = Inr k \<and> sorted_wrt (<) (map fe_Name (cont d)) \<longrightarrow>
          (\<forall>name. os_lookup S k name = Inr (find (\<lambda>e. fe_Name e = name) (cont d))))
     \<and> (\<forall>b. concat (os_Split S b) = b)
     \<and> (\<forall>b k d. os_EncodeBlob S b = Inr (k, d) \<longrightarrow>
          d = b \<and> key_Type (os_K S) k = KBlob \<and> key_Length (os_K S) k = length b)
     \<and> (\<forall>k d. os_Emit S (k, d) = None \<longrightarrow> os_get S k = Inr d)
     \<and> kids (os_ibNew S) = []
     \<and> (\<forall>ib k ib'. os_ibAddChild S ib k = Inr ib' \<longrightarrow> kids ib' = kids ib @ [k])
     \<and> (\<forall>ib k bss. os_ibFinish S ib = Inr k \<and> kids ib \<noteq> []
          \<and> list_all2 (content (os_K S) (os_get S) (os_dec S)) (kids ib) bss \<longrightarrow>
          content (os_K S) (os_get S) (os_dec S) k (concat bss))
     \<and> (\<forall>k bs. content (os_K S) (os_get S) (os_dec S) k bs \<longrightarrow> os_WriteContent S k = Inr bs)"

lemma objstore_okD:
  assumes "objstore_ok S cont kids"
  shows "cont (db_New (os_B S)) = []"
    and "db_AddEntry (os_B S) d e = Inr d' \<Longrightarrow> cont d' = cont d @ [e]"
    and "db_Finish (os_B S) d = Inr k \<Longrightarrow> sorted_wrt (<) (map fe_Name (cont d)) \<Longrightarrow>
          os_lookup S k name = Inr (find (\<lambda>e. fe_Name e = name) (cont d))"
    and "concat (os_Split S b) = b"
    and "os_EncodeBlob S b = Inr (k, x) \<Longrightarrow>
          x = b \<and> key_Type (os_K S) k = KBlob \<and> key_Length (os_K S) k = length b"
    and "os_Emit S (k, x) = None \<Longrightarrow> os_get S k = Inr x"
    and "kids (os_ibNew S) = []"
    and "os_ibAddChild S ib k = Inr ib' \<Longrightarrow> kids ib' = kids ib @ [k]"
    and "os_ibFinish S ib = Inr k \<Longrightarrow> kids ib \<noteq> [] \<Longrightarrow>
          list_all2 (content (os_K S) (os_get S) (os_dec S)) (kids ib) bss \<Longrightarrow>
          content (os_K S) (os_get S) (os_dec S) k (concat bss)"
    and "content (os_K S) (os_get S) (os_dec S) k b \<Longrightarrow> os_WriteContent S k = Inr b"
  using assms unfolding objstore_ok_def by blast+

abbreviation os_content :: "('i, 'd, 'k) objstore \<Rightarrow> 'k \<Rightarrow> bytes \<Rightarrow> bool" where
  "os_content S \<equiv> content (os_K S) (os_get S) (os_dec S)"

section \<open>Content that was put can be read\<close>

lemma addChunk_content:
  assumes ok: "objstore_ok S cont kids" and "addChunk S ib c = Inr ib'"
  obtains k where "kids ib' = kids ib @ [k]" "os_content S k c"
proof -
  from assms(2) obtain k x where e: "os_EncodeBlob S c = Inr (k, x)" "os_Emit S (k, x) = None"
    "os_ibAddChild S ib k = Inr ib'" by (auto simp: addChunk_def split: sum.splits option.splits)
  note enc = objstore_okD(5) [OF ok e(1)]
  have "os_content S k c"
    by (rule content_blob) (use enc objstore_okD(6) [OF ok e(2)] in auto)
  with objstore_okD(8) [OF ok e(3)] show ?thesis using that by blast
qed

lemma add_chunks_content:
  assumes ok: "objstore_ok S cont kids" and "add_chunks S ib cs = Inr ib'"
  shows "\<exists>ks. kids ib' = kids ib @ ks \<and> list_all2 (os_content S) ks cs"
  using assms(2)
proof (induction cs arbitrary: ib)
  case (Cons c cs)
  then obtain ib1 where "addChunk S ib c = Inr ib1" and r: "add_chunks S ib1 cs = Inr ib'"
    by (auto split: sum.splits)
  with addChunk_content [OF ok] obtain k where "kids ib1 = kids ib @ [k]" "os_content S k c" by metis
  with Cons.IH [OF r] show ?case by fastforce
qed simp

lemma PutStream_content:
  assumes ok: "objstore_ok S cont kids" and p: "PutStream S (bs, er) = Inr k"
  shows "os_content S k bs \<and> er = None"
proof -
  from p obtain ib ib1 where a: "add_chunks S (os_ibNew S) (os_Split S bs) = Inr ib" and er: "er = None"
    and l: "(if os_Split S bs = [] then addChunk S ib [] else Inr ib) = Inr ib1"
    and f: "os_ibFinish S ib1 = Inr k"
    by (auto simp: PutStream_def Let_def split: sum.splits option.splits)
  from add_chunks_content [OF ok a] obtain ks where
    ks: "kids ib = ks" "list_all2 (os_content S) ks (os_Split S bs)" using objstore_okD(7) [OF ok] by auto
  have "\<exists>bss. kids ib1 \<noteq> [] \<and> list_all2 (os_content S) (kids ib1) bss \<and> concat bss = bs"
  proof (cases "os_Split S bs = []")
    case True
    then have "bs = []" using objstore_okD(4) [OF ok, of bs] by simp
    moreover from True l obtain k0 where "kids ib1 = kids ib @ [k0]" "os_content S k0 []"
      using addChunk_content [OF ok, of ib "[]" ib1] by auto
    moreover have "kids ib = []" using ks True by simp
    ultimately show ?thesis by (intro exI [of _ "[[]]"]) simp
  next
    case False
    then have "ib1 = ib" using l by simp
    then show ?thesis using ks False objstore_okD(4) [OF ok, of bs] by (intro exI [of _ "os_Split S bs"]) auto
  qed
  then show ?thesis using objstore_okD(9) [OF ok f] er by auto
qed

lemma ReadFile_content:
  assumes ok: "objstore_ok S cont kids" and c: "os_content S k bs"
  shows "os_ReadFile S k = Inr bs"
  using c
proof (cases rule: content.cases)
  case content_blob
  then show ?thesis by (simp add: os_ReadFile_def ReadFile_def)
next
  case (content_node data ks bss)
  then show ?thesis
    using objstore_okD(10) [OF ok c] by (simp add: os_ReadFile_def ReadFile_def)
qed

lemma reader_rest_NewReader: "os_content S k bs \<Longrightarrow> reader_rest (os_K S) (os_get S) (os_dec S) (NewReader k) bs"
  by (auto simp: reader_rest_def NewReader_def pending_def list_all2_Cons1 intro!: exI [of _ "[bs]"])


section \<open>Directories that were put can be looked up\<close>

definition dir_fentry :: "bool \<times> string \<times> 'k \<Rightarrow> 'k fentry" where
  "dir_fentry e = FEntry (fst (snd e)) (if fst e then ModeDir else ModeFile) 0 0 0 (Some (snd (snd e))) [] [] [] None"

lemma dir_fentry_sel [simp]:
  "fe_Name (dir_fentry e) = fst (snd e)" "fe_ContentKey (dir_fentry e) = Some (snd (snd e))"
  by (simp_all add: dir_fentry_def)

lemma add_each_AddEntries:
  "add_each S d es = Inr d' \<Longrightarrow> AddEntries (os_K S) (os_B S) d (map dir_fentry es) = Inr d'"
  by (induction es arbitrary: d)
     (auto simp: AddDir_def AddFile_def dir_add_def dir_fentry_def split: if_splits sum.splits)

lemma db_adds_cont:
  assumes "objstore_ok S cont kids"
  shows "db_adds (os_B S) db es = Inr db' \<Longrightarrow> cont db' = cont db @ es"
proof (induction es arbitrary: db)
  case (Cons e es)
  then obtain db1 where "db_AddEntry (os_B S) db e = Inr db1" "db_adds (os_B S) db1 es = Inr db'"
    by (auto split: sum.splits)
  with Cons.IH objstore_okD(2) [OF assms] show ?case by fastforce
qed simp

lemma put_dir_sorted:
  assumes ok: "objstore_ok S cont kids" and p: "put_dir S es = Inr root"
  shows "sorted_wrt (<) (map (fst \<circ> snd) es)" "\<forall>e \<in> set es. key_ok (os_K S) (snd (snd e))"
    "os_lookup S root name = Inr (find (\<lambda>e. fe_Name e = name) (map dir_fentry es))"
proof -
  from p obtain d d' where a: "add_each S (NewDir (os_B S)) es = Inr d"
    and f: "Dir_Finish (os_B S) d = Inr (root, d')" by (auto simp: put_dir_def split: sum.splits)
  have nd: "\<not> dir_done (NewDir (os_B S))" by (simp add: NewDir_def)
  from add_each_AddEntries [OF a] AddEntries_Inr_iff [OF nd, of "os_K S" "os_B S"]
  obtain db where s: "sorted_wrt (<) (map fe_Name (map dir_fentry es))"
    and all: "list_all (entry_ok (os_K S)) (map dir_fentry es)"
    and db: "db_adds (os_B S) (db_New (os_B S)) (map dir_fentry es) = Inr db" "dir_db d = db"
    by (auto simp: NewDir_def)
  have "map fe_Name (map dir_fentry es) = map (fst \<circ> snd) es" by simp
  with s show "sorted_wrt (<) (map (fst \<circ> snd) es)" by (simp only:)
  show "\<forall>e \<in> set es. key_ok (os_K S) (snd (snd e))"
  proof
    fix e assume "e \<in> set es"
    with all have "validatePayload (os_K S) (dir_fentry e) = None" by (auto simp: list_all_iff entry_ok_def)
    then show "key_ok (os_K S) (snd (snd e))"
      by (auto simp: validatePayload_def dir_fentry_def Let_def ModeDir_def ModeFile_def type_bits split: if_splits)
  qed
  have "cont (dir_db d) = map dir_fentry es"
    using db_adds_cont [OF ok db(1)] db(2) objstore_okD(1) [OF ok] by simp
  moreover have "db_Finish (os_B S) (dir_db d) = Inr root"
    using f by (auto simp: Dir_Finish_def split: if_splits sum.splits)
  ultimately show "os_lookup S root name = Inr (find (\<lambda>e. fe_Name e = name) (map dir_fentry es))"
    using objstore_okD(3) [OF ok, of "dir_db d" root name] s by simp
qed

lemma find_name:
  assumes "distinct (map g es)" "e \<in> set es"
  shows "find (\<lambda>x. g x = g e) es = Some e"
  using assms by (induction es) (auto simp: rev_image_eqI)

lemma put_dir_LookupKey:
  assumes ok: "objstore_ok S cont kids" and p: "put_dir S es = Inr root"
  shows "(isdir, name, k) \<in> set es \<Longrightarrow> os_LookupKey S root name = Inr k"
    and "name \<notin> (fst \<circ> snd) ` set es \<Longrightarrow> os_LookupKey S root name = Inl ErrStoreNotFound"
proof -
  note l = put_dir_sorted [OF ok p]
  have dist: "distinct (map fe_Name (map dir_fentry es))"
    using l(1) strict_sorted_iff [of "map (fst \<circ> snd) es"] by (simp add: comp_def)
  {
    assume e: "(isdir, name, k) \<in> set es"
    then have "find (\<lambda>x. fe_Name x = name) (map dir_fentry es) = Some (dir_fentry (isdir, name, k))"
      using find_name [OF dist, of "dir_fentry (isdir, name, k)"] by simp
    moreover have "key_ok (os_K S) k" using l(2) e by fastforce
    ultimately show "os_LookupKey S root name = Inr k"
      using l(3) [of name] by (simp add: os_LookupKey_def LookupKey_def store_Lookup_def)
  next
    assume "name \<notin> (fst \<circ> snd) ` set es"
    then have "find (\<lambda>x. fe_Name x = name) (map dir_fentry es) = None"
      by (auto simp: find_None_iff image_iff)
    then show "os_LookupKey S root name = Inl ErrStoreNotFound"
      using l(3) [of name] by (simp add: os_LookupKey_def LookupKey_def store_Lookup_def)
  }
qed

section \<open>A library in memory\<close>

text \<open>
  Keys that carry their object. The chunker cuts after every fourth byte, and the index of several
  chunks is one object that holds them all.
\<close>

datatype okey = OBlob bytes | ODir "okey fentry list"

definition okeys :: "okey keyops" where
  "okeys = \<lparr>key_ok = (\<lambda>_. True), key_Type = (\<lambda>k. case k of OBlob _ \<Rightarrow> KBlob | ODir _ \<Rightarrow> KDirLeaf),
     key_Length = (\<lambda>k. case k of OBlob b \<Rightarrow> length b | ODir _ \<Rightarrow> 0)\<rparr>"

function cut4 :: "bytes \<Rightarrow> bytes list" where
  "cut4 b = (if b = [] then [] else take 4 b # cut4 (drop 4 b))"
  by auto
termination by (relation "measure length") auto

declare cut4.simps [simp del]

definition oget :: "okey \<Rightarrow> bytes res" where
  "oget k = (case k of OBlob b \<Rightarrow> Inr b | ODir _ \<Rightarrow> Inl (ErrOther ''directory''))"

fun ojoin :: "okey list \<Rightarrow> bytes res" where
  "ojoin [] = Inr []"
| "ojoin (k # ks) =
     (case oget k of Inl er \<Rightarrow> Inl er | Inr b \<Rightarrow> (case ojoin ks of Inl er \<Rightarrow> Inl er | Inr c \<Rightarrow> Inr (b @ c)))"

definition mem_os :: "(okey list, okey fentry list, okey) objstore" where
  "mem_os = \<lparr>os_K = okeys,
     os_B = \<lparr>db_New = [], db_AddEntry = (\<lambda>d e. Inr (d @ [e])), db_Finish = (\<lambda>d. Inr (ODir d))\<rparr>,
     os_lookup = (\<lambda>k name. case k of ODir es \<Rightarrow> Inr (find (\<lambda>e. fe_Name e = name) es)
                   | OBlob _ \<Rightarrow> Inl (ErrOther ''not a directory'')),
     os_get = oget, os_dec = (\<lambda>_. Inl (ErrOther ''no nodes'')), os_WriteContent = oget,
     os_Split = cut4, os_EncodeBlob = (\<lambda>b. Inr (OBlob b, b)),
     os_Emit = (\<lambda>(k, d). if k = OBlob d then None else Some (ErrOther ''key'')),
     os_ibNew = [], os_ibAddChild = (\<lambda>ib k. Inr (ib @ [k])),
     os_ibFinish = (\<lambda>ib. case ojoin ib of Inl er \<Rightarrow> Inl er | Inr b \<Rightarrow> Inr (OBlob b))\<rparr>"

lemma concat_cut4: "concat (cut4 b) = b"
  by (induction b rule: cut4.induct) (subst cut4.simps, simp)

lemma mem_content: "content okeys oget dec k b \<Longrightarrow> oget k = Inr b" if "dec = (\<lambda>_. Inl (ErrOther ''no nodes''))"
  by (erule content.cases) (auto simp: that)

lemma ojoin_content:
  "list_all2 (content okeys oget (\<lambda>_. Inl (ErrOther ''no nodes''))) ks bss \<Longrightarrow> ojoin ks = Inr (concat bss)"
  by (induction rule: list_all2_induct) (auto dest!: mem_content [OF refl])

lemma mem_os_ok: "objstore_ok mem_os (\<lambda>d. d) (\<lambda>ib. ib)"
  unfolding objstore_ok_def
  by (auto simp: mem_os_def concat_cut4 oget_def okeys_def ojoin_content [unfolded okeys_def]
      dest!: mem_content [OF refl, unfolded okeys_def] intro!: content_blob split: if_splits sum.splits)


end
