(* ===== verification/Store_Refs.thy ===== *)
theory Store_Refs
  imports Store_Dir
begin

text \<open>
  References (src/store/refs.go) and the parameter record of a store (src/store/store.go). The
  reference database, the record encoding and the collector's PrepareRef belong to the amber library:
  \<open>refdb\<close> collects them, \<open>refdb_ok\<close> states what their documentation promises in terms of the table
  \<open>tbl\<close> a database holds. Publish, Resolve, DeleteRef and ListRefs are the code's.
\<close>

record ('s, 'k) refdb =
  rd_ValidateName :: "string \<Rightarrow> err option"
  rd_Encode :: "string \<Rightarrow> 'k \<Rightarrow> bytes res"
  rd_Decode :: "bytes \<Rightarrow> 'k res"
  rd_PrepareRef :: "'s \<Rightarrow> 'k \<Rightarrow> err option"
  rd_Put :: "'s \<Rightarrow> string \<Rightarrow> bytes \<Rightarrow> 's res"
  rd_Get :: "'s \<Rightarrow> string \<Rightarrow> bytes option res"
  rd_Delete :: "'s \<Rightarrow> string \<Rightarrow> 's option res"
  rd_All :: "'s \<Rightarrow> (string \<times> bytes) list res"

text \<open>
  Publish runs under the stripe lock of the name, so its steps are not interleaved with another
  publication of the same name. The result is the error, \<open>None\<close> for nil, and the database.
\<close>

definition Publish :: "('s, 'k) refdb \<Rightarrow> 's \<Rightarrow> string \<Rightarrow> 'k \<Rightarrow> err option \<times> 's" where
  "Publish D s name root =
     (case rd_ValidateName D name of
        Some er \<Rightarrow> (Some er, s)
      | None \<Rightarrow>
          (case rd_Encode D name root of
             Inl er \<Rightarrow> (Some er, s)
           | Inr raw \<Rightarrow>
               (case rd_PrepareRef D s root of
                  Some er \<Rightarrow> (Some er, s)
                | None \<Rightarrow>
                    (case rd_Put D s name raw of Inl er \<Rightarrow> (Some er, s) | Inr s' \<Rightarrow> (None, s')))))"

definition decodeRef :: "('s, 'k) refdb \<Rightarrow> bytes \<Rightarrow> 'k res" where
  "decodeRef D raw = rd_Decode D raw"

definition Resolve :: "('s, 'k) refdb \<Rightarrow> 's \<Rightarrow> string \<Rightarrow> 'k res" where
  "Resolve D s name =
     (case rd_Get D s name of
        Inl er \<Rightarrow> Inl er
      | Inr None \<Rightarrow> Inl ErrStoreNotFound
      | Inr (Some raw) \<Rightarrow> decodeRef D raw)"

definition DeleteRef :: "('s, 'k) refdb \<Rightarrow> 's \<Rightarrow> string \<Rightarrow> err option \<times> 's" where
  "DeleteRef D s name =
     (case rd_Delete D s name of
        Inl er \<Rightarrow> (Some er, s)
      | Inr None \<Rightarrow> (Some ErrStoreNotFound, s)
      | Inr (Some s') \<Rightarrow> (None, s'))"

fun decode_all :: "('s, 'k) refdb \<Rightarrow> string \<Rightarrow> (string \<times> bytes) list \<Rightarrow> (string \<times> 'k) list res" where
  "decode_all D pre [] = Inr []"
| "decode_all D pre ((name, raw) # rs) =
     (if \<not> HasPrefix name pre then decode_all D pre rs
      else case decodeRef D raw of
        Inl er \<Rightarrow> Inl er
      | Inr k \<Rightarrow> (case decode_all D pre rs of Inl er \<Rightarrow> Inl er | Inr out \<Rightarrow> Inr ((name, k) # out)))"

definition ListRefs :: "('s, 'k) refdb \<Rightarrow> 's \<Rightarrow> string \<Rightarrow> (string \<times> 'k) list res" where
  "ListRefs D s pre =
     (case rd_All D s of Inl er \<Rightarrow> Inl er | Inr recs \<Rightarrow> decode_all D pre recs)"

section \<open>What the database promises\<close>

definition refdb_ok :: "('s, 'k) refdb \<Rightarrow> ('s \<Rightarrow> string \<rightharpoonup> bytes) \<Rightarrow> bool" where
  "refdb_ok D tbl \<longleftrightarrow>
     (\<forall>s n. rd_Get D s n = Inr (tbl s n))
     \<and> (\<forall>s n raw s'. rd_Put D s n raw = Inr s' \<longrightarrow> tbl s' = (tbl s)(n \<mapsto> raw))
     \<and> (\<forall>s n. rd_Delete D s n = Inr None \<longrightarrow> tbl s n = None)
     \<and> (\<forall>s n s'. rd_Delete D s n = Inr (Some s') \<longrightarrow> tbl s n \<noteq> None \<and> tbl s' = (tbl s)(n := None))
     \<and> (\<forall>s xs. rd_All D s = Inr xs \<longrightarrow> sorted_wrt (<) (map fst xs) \<and> map_of xs = tbl s)
     \<and> (\<forall>n k raw. rd_Encode D n k = Inr raw \<longrightarrow> rd_Decode D raw = Inr k)
     \<and> (\<forall>s n. rd_Delete D s n \<noteq> Inl ErrStoreNotFound)"

lemma refdb_okD:
  assumes "refdb_ok D tbl"
  shows "rd_Get D s n = Inr (tbl s n)"
    and "rd_Put D s n raw = Inr s' \<Longrightarrow> tbl s' = (tbl s)(n \<mapsto> raw)"
    and "rd_Delete D s n = Inr None \<Longrightarrow> tbl s n = None"
    and "rd_Delete D s n = Inr (Some s') \<Longrightarrow> tbl s n \<noteq> None"
    and "rd_Delete D s n = Inr (Some s') \<Longrightarrow> tbl s' = (tbl s)(n := None)"
    and "rd_All D s = Inr xs \<Longrightarrow> sorted_wrt (<) (map fst xs)"
    and "rd_All D s = Inr xs \<Longrightarrow> map_of xs = tbl s"
    and "rd_Encode D n k = Inr raw \<Longrightarrow> rd_Decode D raw = Inr k"
    and "rd_Delete D s n \<noteq> Inl ErrStoreNotFound"
  using assms unfolding refdb_ok_def by blast+

lemma Publish_None:
  "Publish D s name root = (None, s') \<longleftrightarrow>
     rd_ValidateName D name = None \<and> rd_PrepareRef D s root = None
     \<and> (\<exists>raw. rd_Encode D name root = Inr raw \<and> rd_Put D s name raw = Inr s')"
  by (auto simp: Publish_def split: option.splits sum.splits)

lemma Publish_Some: "fst (Publish D s name root) = Some er \<Longrightarrow> snd (Publish D s name root) = s"
  by (auto simp: Publish_def split: option.splits sum.splits)

lemma Resolve_ok:
  "refdb_ok D tbl \<Longrightarrow>
   Resolve D s n = (case tbl s n of None \<Rightarrow> Inl ErrStoreNotFound | Some raw \<Rightarrow> rd_Decode D raw)"
  by (simp add: Resolve_def refdb_okD decodeRef_def split: option.split)

lemma Publish_Resolve:
  assumes "refdb_ok D tbl" "Publish D s name root = (None, s')"
  shows "Resolve D s' n = (if n = name then Inr root else Resolve D s n)"
proof -
  from assms(2) obtain raw where "rd_Encode D name root = Inr raw" "rd_Put D s name raw = Inr s'"
    by (auto simp: Publish_None)
  with refdb_okD [OF assms(1)] show ?thesis by (simp add: Resolve_ok [OF assms(1)])
qed

lemma DeleteRef_Resolve:
  assumes "refdb_ok D tbl" "DeleteRef D s name = (None, s')"
  shows "Resolve D s' n = (if n = name then Inl ErrStoreNotFound else Resolve D s n)"
    "\<exists>raw. tbl s name = Some raw"
proof -
  from assms(2) have d: "rd_Delete D s name = Inr (Some s')"
    by (auto simp: DeleteRef_def split: sum.splits option.splits)
  show "Resolve D s' n = (if n = name then Inl ErrStoreNotFound else Resolve D s n)"
    using refdb_okD(5) [OF assms(1) d] by (simp add: Resolve_ok [OF assms(1)])
  show "\<exists>raw. tbl s name = Some raw" using refdb_okD(4) [OF assms(1) d] by blast
qed

lemma decode_all_names:
  "decode_all D pre recs = Inr out \<Longrightarrow> map fst out = filter (\<lambda>n. HasPrefix n pre) (map fst recs)"
  by (induction recs arbitrary: out) (auto split: if_splits sum.splits prod.splits)

lemma decode_all_mem:
  "decode_all D pre recs = Inr out \<Longrightarrow>
   (n, k) \<in> set out \<longleftrightarrow> HasPrefix n pre \<and> (\<exists>raw. (n, raw) \<in> set recs \<and> decodeRef D raw = Inr k)"
  by (induction recs arbitrary: out) (fastforce split: if_splits sum.splits prod.splits)+

lemma ListRefs_ok:
  assumes "refdb_ok D tbl" "ListRefs D s pre = Inr out"
  shows "sorted_wrt (<) (map fst out)" "(n, k) \<in> set out \<longleftrightarrow> HasPrefix n pre \<and> Resolve D s n = Inr k"
proof -
  from assms(2) obtain recs where r: "rd_All D s = Inr recs" "decode_all D pre recs = Inr out"
    by (auto simp: ListRefs_def split: sum.splits)
  note all = refdb_okD(6,7) [OF assms(1) r(1)]
  show "sorted_wrt (<) (map fst out)"
    using all(1) decode_all_names [OF r(2)] by (simp add: sorted_wrt_filter)
  have "distinct (map fst recs)" using all(1) strict_sorted_iff by blast
  then have "(n, raw) \<in> set recs \<longleftrightarrow> tbl s n = Some raw" for raw
    using all(2) map_of_eq_Some_iff by metis
  then show "(n, k) \<in> set out \<longleftrightarrow> HasPrefix n pre \<and> Resolve D s n = Inr k"
    using decode_all_mem [OF r(2)] by (auto simp: Resolve_ok [OF assms(1)] decodeRef_def split: option.splits)
qed

text \<open>
  (C20) References behave as a map from names to roots. A publication that succeeds resolves to the
  published root from then on and leaves every other name alone, and it can only succeed for a root
  all of whose objects the collector found; one that fails changes nothing. A deletion removes the
  name alone, and a listing returns, sorted by name, exactly the names with the prefix that resolve.
\<close>

theorem refs_are_a_map:
  assumes "refdb_ok D tbl"
  shows "(\<forall>s'. Publish D s name root = (None, s') \<longrightarrow>
            rd_PrepareRef D s root = None
            \<and> (\<forall>n. Resolve D s' n = (if n = name then Inr root else Resolve D s n)))
    \<and> (\<forall>er. fst (Publish D s name root) = Some er \<longrightarrow> snd (Publish D s name root) = s)
    \<and> (\<forall>s'. DeleteRef D s name = (None, s') \<longrightarrow>
            (\<forall>n. Resolve D s' n = (if n = name then Inl ErrStoreNotFound else Resolve D s n)))
    \<and> (\<forall>pre out. ListRefs D s pre = Inr out \<longrightarrow> sorted_wrt (<) (map fst out)
            \<and> (\<forall>n k. (n, k) \<in> set out \<longleftrightarrow> HasPrefix n pre \<and> Resolve D s n = Inr k))"
  using Publish_Resolve [OF assms] Publish_Some DeleteRef_Resolve(1) [OF assms] ListRefs_ok [OF assms]
  by (auto simp: Publish_None)

section \<open>A database in memory\<close>

text \<open>The table as a sorted association list; a key is its own encoding.\<close>

definition mem_refs :: "((string \<times> bytes) list, string) refdb" where
  "mem_refs = \<lparr>rd_ValidateName = (\<lambda>n. if n = '''' then Some (ErrOther ''name'') else None),
     rd_Encode = (\<lambda>_ k. Inr k), rd_Decode = Inr, rd_PrepareRef = (\<lambda>_ _. None),
     rd_Put = (\<lambda>s n raw. Inr (AList.update n raw s)), rd_Get = (\<lambda>s n. Inr (map_of s n)),
     rd_Delete = (\<lambda>s n. Inr (if map_of s n = None then None else Some (AList.delete n s))),
     rd_All = (\<lambda>s. if distinct (map fst s) then Inr (sort_key fst s) else Inl ErrCanceled)\<rparr>"

lemma mem_refs_ok: "refdb_ok mem_refs map_of"
proof -
  have "sorted_wrt (<) (map fst (sort_key fst s))" if "distinct (map fst s)" for s :: "(string \<times> bytes) list"
    using that by (metis distinct_map distinct_sort set_sort sorted_sort_key strict_sorted_iff)
  moreover have "map_of (sort_key fst s) = map_of s" if "distinct (map fst s)" for s :: "(string \<times> bytes) list"
    using that by (intro map_of_inject_set [THEN iffD2]) (simp_all add: distinct_map)
  ultimately show ?thesis
    by (auto simp: refdb_ok_def mem_refs_def split: if_splits)
qed

theorem refs_are_a_map_witness:
  "\<exists>s'. Publish mem_refs [] ''oci/r'' ''k1'' = (None, s') \<and> Resolve mem_refs s' ''oci/r'' = Inr ''k1''
     \<and> Resolve mem_refs s' ''x'' = Inl ErrStoreNotFound"
proof -
  have p: "Publish mem_refs [] ''oci/r'' ''k1'' = (None, [(''oci/r'', ''k1'')])"
    and r: "Resolve mem_refs [] ''x'' = Inl ErrStoreNotFound" by code_simp+
  with refs_are_a_map [OF mem_refs_ok, of "[]" "''oci/r''" "''k1''"] show ?thesis by auto
qed

end
