(* ===== verification/Store_Write.thy ===== *)
theory Store_Write
  imports Store_Refs "HOL-Library.Multiset"
begin

text \<open>
  The Writer's accounting and the staged packs (src/store/write.go, src/store/pack.go), and the
  parameter record of a store directory (src/store/store.go). The packstore is a parameter: \<open>has\<close> is
  its Has, \<open>stored_size\<close> its StoredSize, \<open>wp\<close> the WriteStats its WriteParallel returns for the objects
  it was offered. A staged pack is the multiset of its records in any order, since its encoders run
  concurrently, and the keys it left out.
\<close>

record Stats =
  LogicalBytes :: int
  NewLogicalBytes :: int
  DedupedBytes :: int
  DiskBytes :: int
  ObjectsNew :: int
  ObjectsDeduped :: int

definition Stats_Add :: "Stats \<Rightarrow> Stats \<Rightarrow> Stats" where
  "Stats_Add a b =
     \<lparr>LogicalBytes = LogicalBytes a + LogicalBytes b,
      NewLogicalBytes = NewLogicalBytes a + NewLogicalBytes b,
      DedupedBytes = DedupedBytes a + DedupedBytes b,
      DiskBytes = DiskBytes a + DiskBytes b,
      ObjectsNew = ObjectsNew a + ObjectsNew b,
      ObjectsDeduped = ObjectsDeduped a + ObjectsDeduped b\<rparr>"

record 'k item =
  it_key :: 'k
  it_logical :: int
  it_skipped :: bool

record WriteStats =
  BytesStored :: int
  Stored :: int
  Deduped :: int

record 'k Writer =
  w_logical :: int
  w_seen :: "('k \<times> bool) list"
  w_skippedDeduped :: int

definition newWriter :: "'k Writer" where
  "newWriter = \<lparr>w_logical = 0, w_seen = [], w_skippedDeduped = 0\<rparr>"

definition account :: "('k \<Rightarrow> bool res) \<Rightarrow> 'k Writer \<Rightarrow> 'k item \<Rightarrow> 'k Writer res" where
  "account has w it =
     (let w1 = w\<lparr>w_logical := w_logical w + it_logical it\<rparr> in
      if map_of (w_seen w1) (it_key it) \<noteq> None then Inr w1
      else case has (it_key it) of
        Inl er \<Rightarrow> Inl er
      | Inr h \<Rightarrow> Inr (w1\<lparr>w_seen := AList.update (it_key it) (\<not> h) (w_seen w1)\<rparr>))"

definition accountSkipped :: "('k \<Rightarrow> bool res) \<Rightarrow> 'k Writer \<Rightarrow> 'k item \<Rightarrow> 'k Writer res" where
  "accountSkipped has w it =
     (case has (it_key it) of
        Inl er \<Rightarrow> Inl er
      | Inr h \<Rightarrow>
          if \<not> h then Inl (ErrOther ''store: staged chunk is no longer in the store'')
          else Inr (w\<lparr>w_logical := w_logical w + it_logical it,
                      w_seen := (if map_of (w_seen w) (it_key it) = None
                                 then AList.update (it_key it) False (w_seen w) else w_seen w),
                      w_skippedDeduped := w_skippedDeduped w + 1\<rparr>))"

text \<open>The accounting iterator: the objects it forwards, in order, with the accounts at the end.\<close>

fun objects :: "('k \<Rightarrow> bool res) \<Rightarrow> 'k Writer \<Rightarrow> 'k item list \<Rightarrow> ('k Writer \<times> 'k item list) res" where
  "objects has w [] = Inr (w, [])"
| "objects has w (it # its) =
     (if it_skipped it then
        (case accountSkipped has w it of Inl er \<Rightarrow> Inl er | Inr w1 \<Rightarrow> objects has w1 its)
      else
        (case account has w it of
           Inl er \<Rightarrow> Inl er
         | Inr w1 \<Rightarrow>
             (case objects has w1 its of Inl er \<Rightarrow> Inl er | Inr (w2, out) \<Rightarrow> Inr (w2, it # out))))"

fun disk_bytes :: "int \<Rightarrow> ('k \<Rightarrow> int option res) \<Rightarrow> ('k \<times> bool) list \<Rightarrow> int res" where
  "disk_bytes hdr stored_size [] = Inr 0"
| "disk_bytes hdr stored_size ((k, absent) # rest) =
     (case disk_bytes hdr stored_size rest of
        Inl er \<Rightarrow> Inl er
      | Inr n \<Rightarrow>
          if \<not> absent then Inr n
          else case stored_size k of
            Inl er \<Rightarrow> Inl er
          | Inr None \<Rightarrow> Inr n
          | Inr (Some sz) \<Rightarrow> Inr (n + sz + hdr))"

text \<open>finish for the live backend; \<open>hdr\<close> is amberpack's record header size.\<close>

definition finish ::
  "int \<Rightarrow> ('k \<Rightarrow> int option res) \<Rightarrow> 'k Writer \<Rightarrow> WriteStats res \<Rightarrow> err option \<Rightarrow> Stats res" where
  "finish hdr stored_size w wres cause =
     (case wres of
        Inl er \<Rightarrow> Inl er
      | Inr ws \<Rightarrow>
          (case cause of
             Some er \<Rightarrow> Inl er
           | None \<Rightarrow>
               (case disk_bytes hdr stored_size (w_seen w) of
                  Inl er \<Rightarrow> Inl er
                | Inr disk \<Rightarrow>
                    Inr \<lparr>LogicalBytes = w_logical w, NewLogicalBytes = BytesStored ws,
                         DedupedBytes = w_logical w - BytesStored ws, DiskBytes = disk,
                         ObjectsNew = Stored ws, ObjectsDeduped = Deduped ws + w_skippedDeduped w\<rparr>)))"

definition live_run ::
  "int \<Rightarrow> ('k \<Rightarrow> int option res) \<Rightarrow> ('k \<Rightarrow> bool res) \<Rightarrow> ('k item list \<Rightarrow> WriteStats res)
     \<Rightarrow> 'k item list \<Rightarrow> Stats res" where
  "live_run hdr stored_size has wp its =
     (case objects has newWriter its of
        Inl er \<Rightarrow> Inl er
      | Inr (w, offered) \<Rightarrow> finish hdr stored_size w (wp offered) None)"

section \<open>Staging and adding a pack\<close>

text \<open>stage for one order in which the encoders take the items: the records and the skipped keys.\<close>

fun stage :: "('k \<Rightarrow> bool res) \<Rightarrow> 'k item list \<Rightarrow> ('k item list \<times> 'k item list \<times> int) res" where
  "stage has [] = Inr ([], [], 0)"
| "stage has (it # its) =
     (case has (it_key it) of
        Inl er \<Rightarrow> Inl er
      | Inr h \<Rightarrow>
          (case stage has its of
             Inl er \<Rightarrow> Inl er
           | Inr (recs, skipped, logical) \<Rightarrow>
               if h then Inr (recs, it # skipped, logical + it_logical it)
               else Inr (it # recs, skipped, logical + it_logical it)))"

text \<open>AddPack offers the records and then the skipped keys, marked as such.\<close>

definition AddPack_items :: "'k item list \<Rightarrow> 'k item list \<Rightarrow> 'k item list" where
  "AddPack_items recs skipped =
     map (\<lambda>it. it\<lparr>it_skipped := False\<rparr>) recs @ map (\<lambda>it. it\<lparr>it_skipped := True\<rparr>) skipped"

text \<open>A pack is added by a live Writer, and once.\<close>

definition AddPack_guard :: "bool \<Rightarrow> bool option \<Rightarrow> err option" where
  "AddPack_guard pack_writer used =
     (if pack_writer then Some (ErrOther ''store: AddPack on a pack writer'')
      else case used of
        None \<Rightarrow> Some (ErrOther ''store: AddPack: nil pack'')
      | Some u \<Rightarrow> if u then Some (ErrOther ''store: pack already added'') else None)"

section \<open>Accounting lemmas\<close>

definition plain_item :: "('k \<Rightarrow> int) \<Rightarrow> 'k item \<Rightarrow> bool" where
  "plain_item sz it \<longleftrightarrow> it_logical it = sz (it_key it)"

definition has_all :: "('k \<Rightarrow> bool res) \<Rightarrow> ('k \<Rightarrow> bool) \<Rightarrow> bool" where
  "has_all has pr \<longleftrightarrow> (\<forall>k. has k = Inr (pr k))"

definition seen_ok :: "('k \<Rightarrow> bool) \<Rightarrow> 'k set \<Rightarrow> ('k \<times> bool) list \<Rightarrow> bool" where
  "seen_ok pr ks al \<longleftrightarrow> distinct (map fst al) \<and> map_of al = (\<lambda>k. if k \<in> ks then Some (\<not> pr k) else None)"

lemma seen_ok_update:
  "seen_ok pr ks al \<Longrightarrow> k \<notin> ks \<Longrightarrow> seen_ok pr (insert k ks) (AList.update k (\<not> pr k) al)"
  by (auto simp: seen_ok_def distinct_update fun_eq_iff)

lemma objects_accounts:
  assumes "has_all has pr" "\<forall>it \<in> set its. it_skipped it \<longrightarrow> pr (it_key it)"
    and "seen_ok pr ks (w_seen w)"
  shows "\<exists>w'. objects has w its = Inr (w', filter (\<lambda>it. \<not> it_skipped it) its)
    \<and> w_logical w' = w_logical w + sum_list (map it_logical its)
    \<and> w_skippedDeduped w' = w_skippedDeduped w + int (length (filter it_skipped its))
    \<and> seen_ok pr (ks \<union> it_key ` set its) (w_seen w')"
  using assms(2,3)
proof (induction its arbitrary: w ks)
  case (Cons it its)
  have h: "has (it_key it) = Inr (pr (it_key it))" using assms(1) by (simp add: has_all_def)
  have m: "map_of (w_seen w) (it_key it) = (if it_key it \<in> ks then Some (\<not> pr (it_key it)) else None)"
    using Cons.prems(2) by (simp add: seen_ok_def)
  define w1 where "w1 = (if it_skipped it then w\<lparr>w_logical := w_logical w + it_logical it,
      w_seen := (if it_key it \<in> ks then w_seen w else AList.update (it_key it) False (w_seen w)),
      w_skippedDeduped := w_skippedDeduped w + 1\<rparr>
    else w\<lparr>w_logical := w_logical w + it_logical it,
      w_seen := (if it_key it \<in> ks then w_seen w else AList.update (it_key it) (\<not> pr (it_key it)) (w_seen w))\<rparr>)"
  have s1: "seen_ok pr (insert (it_key it) ks) (w_seen w1)"
    using seen_ok_update [OF Cons.prems(2), of "it_key it"] Cons.prems(1,2)
    by (auto simp: w1_def insert_absorb)
  from Cons.IH [OF _ s1] Cons.prems(1) obtain w2 where w2:
    "objects has w1 its = Inr (w2, filter (\<lambda>it. \<not> it_skipped it) its)"
    "w_logical w2 = w_logical w1 + sum_list (map it_logical its)"
    "w_skippedDeduped w2 = w_skippedDeduped w1 + int (length (filter it_skipped its))"
    "seen_ok pr (insert (it_key it) ks \<union> it_key ` set its) (w_seen w2)" by auto
  have "objects has w (it # its) = Inr (w2, filter (\<lambda>it. \<not> it_skipped it) (it # its))"
    using h m w2(1) Cons.prems(1) by (auto simp: accountSkipped_def account_def Let_def w1_def)
  with w2 show ?case by (auto simp: w1_def)
qed simp

lemma disk_bytes_sum:
  assumes "distinct (map fst al)" "\<forall>k. (k, True) \<in> set al \<longrightarrow> (\<exists>s. stored_size k = Inr s)"
  shows "disk_bytes hdr stored_size al =
    Inr (\<Sum>k \<in> {k. (k, True) \<in> set al}. case stored_size k of Inr (Some s) \<Rightarrow> s + hdr | _ \<Rightarrow> 0)"
  using assms
proof (induction al)
  case (Cons x al)
  obtain k b where x: "x = (k, b)" by (cases x)
  let ?f = "\<lambda>k. case stored_size k of Inr (Some s) \<Rightarrow> s + hdr | _ \<Rightarrow> 0"
  have ih: "disk_bytes hdr stored_size al = Inr (sum ?f {k. (k, True) \<in> set al})"
    using Cons by (auto simp: x)
  have nk: "k \<notin> {k. (k, True) \<in> set al}" using Cons.prems(1) by (force simp: x)
  have fin: "finite {k. (k, True) \<in> set al}"
    by (rule finite_subset [of _ "fst ` set al"]) force+
  show ?case
  proof (cases b)
    case True
    then obtain s where s: "stored_size k = Inr s" using Cons.prems(2) by (auto simp: x)
    have "{j. (j, True) \<in> set (x # al)} = insert k {j. (j, True) \<in> set al}" using True x by auto
    then show ?thesis using ih nk fin s True by (auto simp: x split: option.splits)
  next
    case False
    then have "{j. (j, True) \<in> set (x # al)} = {j. (j, True) \<in> set al}" using x by auto
    then show ?thesis using ih False by (simp add: x)
  qed
qed simp

text \<open>
  What WriteParallel documents of its result: an object is stored once, at its first offer, when the
  store did not hold it, and counted as deduplicated otherwise.
\<close>

definition wp_ok :: "('k \<Rightarrow> bool) \<Rightarrow> ('k \<Rightarrow> int) \<Rightarrow> ('k item list \<Rightarrow> WriteStats res) \<Rightarrow> bool" where
  "wp_ok pr sz wp \<longleftrightarrow>
     (\<forall>os. list_all (plain_item sz) os \<longrightarrow>
        wp os = Inr \<lparr>BytesStored = (\<Sum>k \<in> {k \<in> it_key ` set os. \<not> pr k}. sz k),
                     Stored = int (card {k \<in> it_key ` set os. \<not> pr k}),
                     Deduped = int (length os) - int (card {k \<in> it_key ` set os. \<not> pr k})\<rparr>)"

definition run_stats :: "int \<Rightarrow> ('k \<Rightarrow> int option res) \<Rightarrow> ('k \<Rightarrow> int) \<Rightarrow> 'k set \<Rightarrow> int \<Rightarrow> int \<Rightarrow> Stats" where
  "run_stats hdr stored_size sz new logical n =
     \<lparr>LogicalBytes = logical, NewLogicalBytes = (\<Sum>k \<in> new. sz k),
      DedupedBytes = logical - (\<Sum>k \<in> new. sz k),
      DiskBytes = (\<Sum>k \<in> new. case stored_size k of Inr (Some s) \<Rightarrow> s + hdr | _ \<Rightarrow> 0),
      ObjectsNew = int (card new), ObjectsDeduped = n - int (card new)\<rparr>"

lemma live_run_stats:
  assumes "has_all has pr" "wp_ok pr sz wp" "list_all (plain_item sz) its"
    and sk: "\<forall>it \<in> set its. it_skipped it \<longrightarrow> pr (it_key it)" and "\<forall>k. \<exists>s. stored_size k = Inr s"
  shows "live_run hdr stored_size has wp its =
    Inr (run_stats hdr stored_size sz {k \<in> it_key ` set its. \<not> pr k}
           (sum_list (map it_logical its)) (int (length its)))"
proof -
  have "seen_ok pr {} (w_seen (newWriter :: 'a Writer))" by (simp add: seen_ok_def newWriter_def)
  from objects_accounts [OF assms(1) sk this] obtain w where w:
    "objects has newWriter its = Inr (w, filter (\<lambda>it. \<not> it_skipped it) its)"
    "w_logical w = sum_list (map it_logical its)"
    "w_skippedDeduped w = int (length (filter it_skipped its))"
    "seen_ok pr (it_key ` set its) (w_seen w)" by (auto simp: newWriter_def)
  define new where "new = {k \<in> it_key ` set its. \<not> pr k}"
  have keys: "{k \<in> it_key ` set (filter (\<lambda>it. \<not> it_skipped it) its). \<not> pr k} = new"
    using sk by (auto simp: new_def)
  have wp: "wp (filter (\<lambda>it. \<not> it_skipped it) its) =
      Inr \<lparr>BytesStored = (\<Sum>k \<in> new. sz k), Stored = int (card new),
           Deduped = int (length (filter (\<lambda>it. \<not> it_skipped it) its)) - int (card new)\<rparr>"
    using assms(2,3) keys unfolding wp_ok_def by (simp add: list_all_iff)
  have "{k. (k, True) \<in> set (w_seen w)} = new"
    using w(4) by (auto simp: seen_ok_def new_def map_of_eq_Some_iff [symmetric] split: if_splits)
  then have disk: "disk_bytes hdr stored_size (w_seen w) =
      Inr (\<Sum>k \<in> new. case stored_size k of Inr (Some s) \<Rightarrow> s + hdr | _ \<Rightarrow> 0)"
    using disk_bytes_sum [of "w_seen w" stored_size hdr] w(4) assms(5) by (simp add: seen_ok_def)
  have "length its = length (filter it_skipped its) + length (filter (\<lambda>it. \<not> it_skipped it) its)"
    by (simp add: sum_length_filter_compl)
  then show ?thesis
    using w disk wp by (simp add: live_run_def finish_def run_stats_def new_def [symmetric])
qed

lemma stage_splits:
  assumes "has_all has pr"
  shows "stage has its = Inr (filter (\<lambda>it. \<not> pr (it_key it)) its, filter (\<lambda>it. pr (it_key it)) its,
                              sum_list (map it_logical its))"
  using assms by (induction its) (auto simp: has_all_def)

text \<open>
  A blob's accounts do not depend on when its duplicates were found: staging objects in a pack
  and adding the pack, its records and skipped keys in whatever order the encoders finished, yields
  the same Stats as offering the objects to a live Writer directly, as long as the store does not
  change in between; and the pack's own LogicalBytes already are the final ones.
\<close>

theorem pack_stats_equal:
  assumes "has_all has pr" "wp_ok pr sz wp" "list_all (plain_item sz) its"
    and "\<forall>it \<in> set its. \<not> it_skipped it" and "\<forall>k. \<exists>s. stored_size k = Inr s"
    and st: "stage has its = Inr (recs, skipped, logical)"
    and "mset recs' = mset recs" "mset skipped' = mset skipped"
  shows "live_run hdr stored_size has wp (AddPack_items recs' skipped')
           = live_run hdr stored_size has wp its
    \<and> (\<exists>st. live_run hdr stored_size has wp its = Inr st \<and> LogicalBytes st = logical)"
proof -
  let ?its' = "AddPack_items recs' skipped'"
  have recs: "recs = filter (\<lambda>it. \<not> pr (it_key it)) its" and sk: "skipped = filter (\<lambda>it. pr (it_key it)) its"
    and lg: "logical = sum_list (map it_logical its)"
    using st stage_splits [OF assms(1), of its] by auto
  have set: "set recs' = set recs" "set skipped' = set skipped"
    using assms(7,8) by (metis set_mset_mset)+
  have len: "length ?its' = length its"
    using assms(7,8) recs sk sum_length_filter_compl [of "\<lambda>it. pr (it_key it)" its]
    by (simp add: AddPack_items_def flip: size_mset)
  have "mset (map it_logical ?its') = image_mset it_logical (mset recs + mset skipped)"
    using assms(7,8) by (simp add: AddPack_items_def comp_def)
  also have "mset recs + mset skipped = mset its"
    by (simp add: recs sk mset_filter multiset_partition [symmetric] add.commute)
  finally have "sum_mset (mset (map it_logical ?its')) = sum_mset (mset (map it_logical its))" by simp
  then have logical: "sum_list (map it_logical ?its') = sum_list (map it_logical its)"
    by (simp only: sum_mset_sum_list)
  have keys: "{k \<in> it_key ` set ?its'. \<not> pr k} = {k \<in> it_key ` set its. \<not> pr k}"
  proof -
    have "it_key ` set ?its' = it_key ` set its"
      by (auto simp: AddPack_items_def set recs sk image_Un image_image)
    then show ?thesis by simp
  qed
  have plain: "list_all (plain_item sz) ?its'"
    using assms(3) by (auto simp: AddPack_items_def list_all_iff plain_item_def set recs sk)
  have skip: "\<forall>it \<in> set ?its'. it_skipped it \<longrightarrow> pr (it_key it)"
    by (auto simp: AddPack_items_def set sk)
  have skip0: "\<forall>it \<in> set its. it_skipped it \<longrightarrow> pr (it_key it)" using assms(4) by blast
  show ?thesis
    unfolding live_run_stats [OF assms(1,2) plain skip assms(5)] live_run_stats [OF assms(1-3) skip0 assms(5)]
      keys logical len
    by (simp add: run_stats_def lg)
qed

definition demo_items :: "nat item list" where
  "demo_items = map (\<lambda>k. \<lparr>it_key = k, it_logical = int k, it_skipped = False\<rparr>) [3, 5, 3, 8]"

theorem pack_stats_equal_witness:
  "let pr = (\<lambda>k. k = (5 :: nat)); has = (\<lambda>k. Inr (pr k)); sz = int;
       wp = (\<lambda>os. Inr \<lparr>BytesStored = (\<Sum>k \<in> {k \<in> it_key ` set os. \<not> pr k}. sz k),
                       Stored = int (card {k \<in> it_key ` set os. \<not> pr k}),
                       Deduped = int (length os) - int (card {k \<in> it_key ` set os. \<not> pr k})\<rparr>);
       ss = (\<lambda>k. Inr (Some (int k)))
   in live_run 40 ss has wp (AddPack_items [demo_items ! 3, demo_items ! 0, demo_items ! 2] [demo_items ! 1])
      = live_run 40 ss has wp demo_items"
  unfolding Let_def
  by (rule pack_stats_equal [where pr = "\<lambda>k. k = 5" and sz = int and its = demo_items
        and recs = "[demo_items ! 0, demo_items ! 2, demo_items ! 3]" and skipped = "[demo_items ! 1]"
        and logical = 19, THEN conjunct1])
     (simp_all add: has_all_def wp_ok_def demo_items_def plain_item_def)

section \<open>The parameter record of a store directory\<close>

record Chunking =
  MinSize :: int
  NormalSize :: int
  MaxSize :: int

record Config =
  Version :: int
  c_Chunking :: Chunking
  SegmentSize :: int

definition DefaultConfig :: Config where
  "DefaultConfig = \<lparr>Version = 1,
     c_Chunking = \<lparr>MinSize = 32768, NormalSize = 524288, MaxSize = 1048576\<rparr>, SegmentSize = 2147483648\<rparr>"

text \<open>
  writeConfig as the sequence of states the file system goes through: the files by name, after each
  system call, with the outcome of each call as input (\<open>None\<close> is success). A failed write may leave
  any prefix in the temporary file. The result is the error and the states, the last one final.
\<close>

type_synonym files = "string \<rightharpoonup> bytes"

record io =
  io_open :: "err option"
  io_write :: "(nat \<times> err) option"
  io_sync :: "err option"
  io_close :: "err option"
  io_rename :: "err option"

definition writeConfig ::
  "(Config \<Rightarrow> bytes) \<Rightarrow> io \<Rightarrow> files \<Rightarrow> string \<Rightarrow> Config \<Rightarrow> err option \<times> files list" where
  "writeConfig encodeConfig i fs path cfg =
     (let tmp = path @ ''.tmp''; data = encodeConfig cfg @ ''\<newline>'' in
      case io_open i of
        Some er \<Rightarrow> (Some er, [fs])
      | None \<Rightarrow>
          let fs1 = fs(tmp \<mapsto> []) in
          case io_write i of
            Some (n, er) \<Rightarrow>
              let fs2 = fs1(tmp \<mapsto> take n data) in (Some er, [fs, fs1, fs2, fs2(tmp := None)])
          | None \<Rightarrow>
              let fs2 = fs1(tmp \<mapsto> data) in
              case io_sync i of
                Some er \<Rightarrow> (Some er, [fs, fs1, fs2, fs2(tmp := None)])
              | None \<Rightarrow>
                  (case io_close i of
                     Some er \<Rightarrow> (Some er, [fs, fs1, fs2, fs2(tmp := None)])
                   | None \<Rightarrow>
                       (case io_rename i of
                          Some er \<Rightarrow> (Some er, [fs, fs1, fs2, fs2(tmp := None)])
                        | None \<Rightarrow> (None, [fs, fs1, fs2, fs2(tmp := None, path \<mapsto> data)]))))"

text \<open>
  loadOrWriteConfig; \<open>rd\<close> is the error of reading an existing file and \<open>decodeConfig\<close> the strict JSON
  decoder. The result carries the states of writeConfig, only the given one when nothing is written.
\<close>

definition loadOrWriteConfig ::
  "(Config \<Rightarrow> bytes) \<Rightarrow> (bytes \<Rightarrow> Config option) \<Rightarrow> err option \<Rightarrow> io \<Rightarrow> files \<Rightarrow> string
     \<Rightarrow> Config res \<times> files list" where
  "loadOrWriteConfig encodeConfig decodeConfig rd i fs path =
     (let want = DefaultConfig in
      case fs path of
        None \<Rightarrow>
          (case writeConfig encodeConfig i fs path want of
             (Some er, sts) \<Rightarrow> (Inl er, sts)
           | (None, sts) \<Rightarrow> (Inr want, sts))
      | Some data \<Rightarrow>
          (case rd of
             Some er \<Rightarrow> (Inl er, [fs])
           | None \<Rightarrow>
               (case decodeConfig data of
                  None \<Rightarrow> (Inl (ErrOther ''store: parsing store parameters''), [fs])
                | Some got \<Rightarrow>
                    if got \<noteq> want
                    then (Inl (ErrOther ''store parameters differ; refusing to open''), [fs])
                    else (Inr want, [fs]))))"

lemma path_not_tmp: "path @ ''.tmp'' \<noteq> path" "path \<noteq> path @ ''.tmp''"
  by simp_all

text \<open>
  The parameter record is never seen half written: in every state the file system goes through,
  whichever calls fail and wherever the process stops, the record is either exactly as it was before
  or complete; a store is only opened with the parameters of this binary; and a record that differs
  or cannot be parsed is left as found.
\<close>

theorem config_atomic:
  assumes "loadOrWriteConfig encodeConfig decodeConfig rd i fs path = (r, sts)"
  shows "(\<forall>st \<in> set sts. st path = fs path
            \<or> (fs path = None \<and> st path = Some (encodeConfig DefaultConfig @ ''\<newline>'')))
    \<and> (\<forall>cfg. r = Inr cfg \<longrightarrow> cfg = DefaultConfig)
    \<and> (\<forall>data. fs path = Some data \<longrightarrow> sts = [fs] \<and> (decodeConfig data \<noteq> Some DefaultConfig \<longrightarrow> (\<exists>er. r = Inl er)))"
proof (cases "fs path")
  case None
  obtain er sts' where w: "writeConfig encodeConfig i fs path DefaultConfig = (er, sts')" by fastforce
  have "st path = fs path \<or> st path = Some (encodeConfig DefaultConfig @ ''\<newline>'')" if "st \<in> set sts'" for st
    using w that None
    by (auto simp: writeConfig_def Let_def split: option.splits prod.splits)
  moreover have "sts = sts'" "\<forall>cfg. r = Inr cfg \<longrightarrow> cfg = DefaultConfig"
    using assms None w by (auto simp: loadOrWriteConfig_def Let_def split: option.splits)
  ultimately show ?thesis using None by auto
next
  case (Some data)
  then show ?thesis
    using assms by (auto simp: loadOrWriteConfig_def Let_def split: option.splits if_splits)
qed

theorem config_atomic_witness:
  "list_all (\<lambda>st. st ''oci-amber.json'' \<in> {None, Some ''{}\<newline>''})
     (snd (loadOrWriteConfig (\<lambda>_. ''{}'') (\<lambda>_. None) None
       \<lparr>io_open = None, io_write = None, io_sync = None, io_close = None, io_rename = None\<rparr>
       Map.empty ''oci-amber.json''))"
  using config_atomic [OF surjective_pairing, of "\<lambda>_. ''{}''" "\<lambda>_. None" None
      "\<lparr>io_open = None, io_write = None, io_sync = None, io_close = None, io_rename = None\<rparr>"
      Map.empty "''oci-amber.json''"]
  by (simp add: list_all_iff)

end
