(* ===== verification/Blob_Analyze.thy ===== *)
theory Blob_Analyze
  imports Store_Read
begin

text \<open>
  How a blob will be stored (src/blob/analyze.go): the tar probes and the classification that analyze
  makes before and after zrecipe's search. zrecipe and the decompressors are parameters: \<open>zrecipe\<close>
  collects its Detect, the parsed zstd window, the decompressed stream of newDecompressor and the
  outcome of Start. A stream is the bytes it delivers and the error after them, \<open>None\<close> for EOF.
\<close>

datatype Kind = KindPrism | KindRaw

datatype RawReason =
    ReasonNotReproducible | ReasonUnsupported | ReasonCorrupt | ReasonNotTar
  | ReasonAnalyzeTimeout | ReasonRoundTripFailed | ReasonDecomposeFailed

datatype format = FormatGzip | FormatZstd | FormatNone

type_synonym stream = "bytes \<times> err option"

section \<open>Tar headers\<close>

definition tarHeaderSize :: nat where "tarHeaderSize = 512"
definition emptyArchiveMax :: nat where "emptyArchiveMax = 10240"
definition maxZstdWindow :: nat where "maxZstdWindow = 128 * 2 ^ 20"

definition Trim :: "string \<Rightarrow> string \<Rightarrow> string" where
  "Trim s cutset =
     rev (dropWhile (\<lambda>c. c \<in> set cutset) (rev (dropWhile (\<lambda>c. c \<in> set cutset) s)))"

definition is_oct :: "char \<Rightarrow> bool" where
  "is_oct c \<longleftrightarrow> 48 \<le> (of_char c :: nat) \<and> (of_char c :: nat) \<le> 55"

fun oct_val :: "nat \<Rightarrow> string \<Rightarrow> nat" where
  "oct_val acc [] = acc"
| "oct_val acc (c # cs) = oct_val (8 * acc + digit_val c) cs"

text \<open>strconv.ParseInt(s, 8, 64).\<close>

definition ParseOct :: "string \<Rightarrow> int option" where
  "ParseOct s =
     (let (neg, ds) =
        (case s of [] \<Rightarrow> (False, [])
         | c # cs \<Rightarrow> if c = CHR ''-'' then (True, cs)
                    else if c = CHR ''+'' then (False, cs) else (False, s));
        n = int (oct_val 0 ds)
      in if ds = [] \<or> \<not> list_all is_oct ds then None
         else if neg then (if n \<le> max_int64 + 1 then Some (- n) else None)
         else (if n \<le> max_int64 then Some n else None))"

definition int8 :: "char \<Rightarrow> int" where
  "int8 c = (let n = int (of_char c) in if n < 128 then n else n - 256)"

text \<open>The loop over the block, with its index and the two sums.\<close>

fun tar_sums :: "nat \<Rightarrow> int \<Rightarrow> int \<Rightarrow> bytes \<Rightarrow> int \<times> int" where
  "tar_sums i us sg [] = (us, sg)"
| "tar_sums i us sg (x # xs) =
     (let c = (if 148 \<le> i \<and> i < 156 then CHR '' '' else x)
      in tar_sums (Suc i) (us + int (of_char c)) (sg + int8 c) xs)"

definition isTarHeader :: "bytes \<Rightarrow> bool" where
  "isTarHeader b =
     (if length b < tarHeaderSize then False
      else let (us, sg) = tar_sums 0 0 0 (take tarHeaderSize b);
               field = Trim (take 8 (drop 148 b)) [CHR '' '', CHR 0x00]
           in if field = '''' then False
              else case ParseOct field of
                None \<Rightarrow> False
              | Some want \<Rightarrow> want = us \<or> want = sg)"

definition probeTar :: "stream \<Rightarrow> bool res" where
  "probeTar r =
     (case r of (bs, er) \<Rightarrow>
        if length bs < tarHeaderSize then (case er of None \<Rightarrow> Inr False | Some e \<Rightarrow> Inl e)
        else let hdr = take tarHeaderSize bs in
          if isTarHeader hdr then Inr True
          else if hdr \<noteq> replicate tarHeaderSize (CHR 0x00) then Inr False
          else let limit = emptyArchiveMax - tarHeaderSize + 1;
                   rest = take limit (drop tarHeaderSize bs)
               in case (if length rest < limit then er else None) of
                    Some e \<Rightarrow> Inl e
                  | None \<Rightarrow>
                      if length rest > emptyArchiveMax - tarHeaderSize then Inr False
                      else Inr (list_all (\<lambda>c. c = CHR 0x00) rest))"

section \<open>analyze\<close>

datatype zerr = ZDeadline | ZNotReproducible | ZUnsupported | ZCorrupt | ZOther err

record 'a zrecipe =
  z_Detect :: "stream \<Rightarrow> format res"
  z_Window :: "stream \<Rightarrow> nat res"
  z_Decompress :: "format \<Rightarrow> stream \<Rightarrow> stream res"
  z_Start :: "stream \<Rightarrow> zerr + 'a"

datatype 'a decision =
    DecRaw (dec_reason: RawReason) (dec_format: format)
  | DecPrism (dec_analysis: 'a) (dec_format: format)

text \<open>\<open>seek\<close> is the outcome of rewinding the upload's reader.\<close>

definition startsWithCompressedTarHeader :: "'a zrecipe \<Rightarrow> err option \<Rightarrow> stream \<Rightarrow> format \<Rightarrow> bool res" where
  "startsWithCompressedTarHeader Z seek r f =
     (case seek of
        Some er \<Rightarrow> Inl er
      | None \<Rightarrow> (case z_Decompress Z f r of Inl er \<Rightarrow> Inl er | Inr dec \<Rightarrow> probeTar dec))"

definition zstdWindowSize :: "'a zrecipe \<Rightarrow> err option \<Rightarrow> stream \<Rightarrow> nat res" where
  "zstdWindowSize Z seek r = (case seek of Some er \<Rightarrow> Inl er | None \<Rightarrow> z_Window Z r)"

definition startsWithTarHeader :: "err option \<Rightarrow> stream \<Rightarrow> bool res" where
  "startsWithTarHeader seek r = (case seek of Some er \<Rightarrow> Inl er | None \<Rightarrow> probeTar r)"

text \<open>
  \<open>ctx0\<close> is the request context's error at the start and \<open>ctx1\<close> after Start has returned; \<open>opened\<close> is
  the result of the spool's Open.
\<close>

definition analyze ::
  "'a zrecipe \<Rightarrow> err option \<Rightarrow> err option \<Rightarrow> err option \<Rightarrow> stream res \<Rightarrow> 'a decision res" where
  "analyze Z ctx0 ctx1 seek opened =
     (case ctx0 of
        Some er \<Rightarrow> Inl er
      | None \<Rightarrow>
     (case opened of
        Inl er \<Rightarrow> Inl er
      | Inr r \<Rightarrow>
     (case z_Detect Z r of
        Inl er \<Rightarrow> Inl er
      | Inr f \<Rightarrow>
          if f = FormatZstd \<and> (case zstdWindowSize Z seek r of Inl _ \<Rightarrow> False | Inr w \<Rightarrow> w > maxZstdWindow)
          then Inr (DecRaw ReasonUnsupported f)
          else if f \<noteq> FormatNone \<and> startsWithCompressedTarHeader Z seek r f = Inr False
          then Inr (DecRaw ReasonNotTar f)
          else
            (case (if f = FormatNone then startsWithTarHeader seek r else Inr True) of
               Inl er \<Rightarrow> Inl er
             | Inr False \<Rightarrow> Inr (DecRaw ReasonNotTar f)
             | Inr True \<Rightarrow>
                 (case z_Start Z r of
                    Inr a \<Rightarrow> Inr (DecPrism a f)
                  | Inl ze \<Rightarrow>
                      (case ctx1 of
                         Some er \<Rightarrow> Inl er
                       | None \<Rightarrow>
                           (case ze of
                              ZDeadline \<Rightarrow> Inr (DecRaw ReasonAnalyzeTimeout f)
                            | ZNotReproducible \<Rightarrow> Inr (DecRaw ReasonNotReproducible f)
                            | ZUnsupported \<Rightarrow> Inr (DecRaw ReasonUnsupported f)
                            | ZCorrupt \<Rightarrow> Inr (DecRaw ReasonCorrupt f)
                            | ZOther er \<Rightarrow> Inl er)))))))"

section \<open>The checksum of a header\<close>

definition field_byte :: "nat \<Rightarrow> char \<Rightarrow> char" where
  "field_byte i x = (if 148 \<le> i \<and> i < 156 then CHR '' '' else x)"

definition sum_from :: "(char \<Rightarrow> int) \<Rightarrow> nat \<Rightarrow> bytes \<Rightarrow> int" where
  "sum_from f i xs = (\<Sum>j < length xs. f (field_byte (i + j) (xs ! j)))"

lemma sum_from_Nil [simp]: "sum_from f i [] = 0"
  by (simp add: sum_from_def)

lemma sum_from_Cons [simp]: "sum_from f i (x # xs) = f (field_byte i x) + sum_from f (Suc i) xs"
  by (simp only: sum_from_def length_Cons sum.lessThan_Suc_shift nth_Cons_0 nth_Cons_Suc) simp

lemma tar_sums_eq:
  "tar_sums i u s xs = (u + sum_from (\<lambda>c. int (of_char c)) i xs, s + sum_from int8 i xs)"
  by (induction i u s xs rule: tar_sums.induct) (simp_all add: Let_def field_byte_def)

lemma sum_from_update:
  assumes "j < length xs" "\<not> (148 \<le> i + j \<and> i + j < 156)"
  shows "sum_from f i (xs[j := c]) = sum_from f i xs - f (xs ! j) + f c"
  using assms
proof (induction xs arbitrary: i j)
  case (Cons x xs)
  show ?case
  proof (cases j)
    case 0
    with Cons.prems(2) show ?thesis by (auto simp: field_byte_def)
  next
    case (Suc j')
    with Cons.IH [of j' "Suc i"] Cons.prems show ?thesis by simp
  qed
qed simp

text \<open>The two sums differ by 256 for every byte with the top bit set.\<close>

lemma sums_differ: "\<exists>h. sum_from (\<lambda>c. int (of_char c)) i xs - sum_from int8 i xs = 256 * h"
proof (induction xs arbitrary: i)
  case (Cons x xs)
  from Cons.IH [of "Suc i"] obtain h where
    h: "sum_from (\<lambda>c. int (of_char c)) (Suc i) xs - sum_from int8 (Suc i) xs = 256 * h" ..
  have "int (of_char c) - int8 c = 0 \<or> int (of_char c) - int8 c = 256" for c
    by (simp add: int8_def Let_def)
  from this [of "field_byte i x"] h show ?case
    by (intro exI [of _ "h + (if int (of_char (field_byte i x)) - int8 (field_byte i x) = 0 then 0 else 1)"])
      (auto simp: algebra_simps)
qed simp

lemma of_char_bounds: "int (of_char c) < 256" "0 \<le> int (of_char (c :: char))"
  using nat_of_char_less_256 [of c] by simp_all

lemma int8_bounds: "- 128 \<le> int8 c" "int8 c < 128"
  using of_char_bounds [of c] unfolding int8_def Let_def
  by (simp_all only: split: if_split) linarith+

lemma int8_inj: "int8 c = int8 d \<longleftrightarrow> c = d"
proof
  assume "int8 c = int8 d"
  then have "int (of_char c) = int (of_char d)"
    using of_char_bounds [of c] of_char_bounds [of d] unfolding int8_def Let_def
    by (simp only: split: if_splits)
  then have "of_char c = (of_char d :: nat)" by simp
  then show "c = d" by (simp add: of_char_eq_iff)
qed simp

lemma mult_256_small: "(256 :: int) * h = d \<Longrightarrow> - 256 < d \<Longrightarrow> d < 256 \<Longrightarrow> d = 0"
  by presburger

lemma isTarHeader_changed:
  assumes ok: "isTarHeader b" and len: "i < 512" "\<not> (148 \<le> i \<and> i < 156)" and c: "c \<noteq> b ! i"
  shows "\<not> isTarHeader (b[i := c])"
proof -
  let ?u = "sum_from (\<lambda>c. int (of_char c)) 0" and ?s = "sum_from int8 0"
  from ok have lb: "512 \<le> length b" by (simp add: isTarHeader_def tarHeaderSize_def split: if_splits)
  have bi: "take 512 b ! i = b ! i" using len by simp
  have u: "?u (take 512 (b[i := c])) = ?u (take 512 b) - int (of_char (b ! i)) + int (of_char c)"
    and s: "?s (take 512 (b[i := c])) = ?s (take 512 b) - int8 (b ! i) + int8 c"
    using sum_from_update [of i "take 512 b" 0] len lb bi by (simp_all add: take_update_swap)
  have fld: "take 8 (drop 148 (b[i := c])) = take 8 (drop 148 b)"
  proof (cases "i < 148")
    case False
    with len have "8 \<le> i - 148" by simp
    with False show ?thesis by (simp add: drop_update_swap)
  qed simp
  from ok obtain want where w: "ParseOct (Trim (take 8 (drop 148 b)) [CHR '' '', CHR 0x00]) = Some want"
    "want = ?u (take 512 b) \<or> want = ?s (take 512 b)"
    by (auto simp: isTarHeader_def tarHeaderSize_def tar_sums_eq Let_def split: if_splits option.splits)
  obtain h where h: "?u (take 512 b) - ?s (take 512 b) = 256 * h" using sums_differ by blast
  have ne: "int (of_char c) - int (of_char (b ! i)) \<noteq> 0" "int8 c - int8 (b ! i) \<noteq> 0"
    using c int8_inj by (simp_all add: of_char_eq_iff)
  have "want \<noteq> ?u (take 512 (b[i := c]))"
    using w(2) u h ne(1) mult_256_small [of "- h" "int (of_char c) - int (of_char (b ! i))"]
      of_char_bounds [of c] of_char_bounds [of "b ! i"] by auto
  moreover have "want \<noteq> ?s (take 512 (b[i := c]))"
    using w(2) s h ne(2) mult_256_small [of h "int8 c - int8 (b ! i)"]
      int8_bounds [of c] int8_bounds [of "b ! i"] by auto
  ultimately show ?thesis
    using w(1) fld by (auto simp: isTarHeader_def tar_sums_eq tarHeaderSize_def Let_def)
qed

text \<open>
  The field as archivers write it: six octal digits of the unsigned sum, a NUL and a space.
\<close>

definition oct6 :: "nat \<Rightarrow> string" where
  "oct6 n = map (\<lambda>k. char_of (48 + n div 8 ^ k mod 8)) [5, 4, 3, 2, 1, 0]"

definition stamp :: "bytes \<Rightarrow> bytes" where
  "stamp hdr = take 148 hdr @ oct6 (nat (sum_from (\<lambda>c. int (of_char c)) 0 hdr))
     @ [CHR 0x00, CHR '' ''] @ drop 156 hdr"

lemma oct_char:
  assumes "k < 8"
  shows "is_oct (char_of (48 + k))" "digit_val (char_of (48 + k)) = k"
proof -
  have "of_char (char_of (48 + k)) = 48 + k" using assms by (simp add: of_char_of)
  then show "is_oct (char_of (48 + k))" "digit_val (char_of (48 + k)) = k"
    using assms by (simp_all add: is_oct_def digit_val_def)
qed

lemma oct_digit_step: "8 * (n div 8 ^ Suc k) + n div 8 ^ k mod 8 = n div 8 ^ k" for n :: nat
proof -
  have "n div 8 ^ Suc k = n div 8 ^ k div 8" by (metis div_mult2_eq mult.commute power_Suc)
  then show ?thesis by simp
qed

lemma oct_val_oct6:
  assumes "n < 8 ^ 6"
  shows "oct_val 0 (oct6 n) = n"
proof -
  define q where "q k = n div 8 ^ k" for k
  have dg: "digit_val (char_of (48 + m mod 8)) = m mod 8" for m :: nat by (rule oct_char) simp
  have st: "8 * q (Suc k) + q k mod 8 = q k" for k using oct_digit_step [of n k] by (simp only: q_def)
  have "q 5 mod 8 = q 5" using assms by (simp add: q_def less_mult_imp_div_less)
  moreover have "8 * q 5 + q 4 mod 8 = q 4" using st [of 4] by simp
  moreover have "8 * q 4 + q 3 mod 8 = q 3" using st [of 3] by simp
  moreover have "8 * q 3 + q 2 mod 8 = q 2" using st [of 2] by simp
  moreover have "8 * q 2 + q 1 mod 8 = q 1" using st [of 1] by (simp add: numeral_2_eq_2)
  moreover have "8 * q 1 + q 0 mod 8 = q 0" using st [of 0] by simp
  moreover have "q 0 = n" by (simp add: q_def)
  moreover have "oct_val 0 (oct6 n) =
      8 * (8 * (8 * (8 * (8 * (q 5 mod 8) + q 4 mod 8) + q 3 mod 8) + q 2 mod 8) + q 1 mod 8) + q 0 mod 8"
    by (simp only: oct6_def list.map q_def [symmetric] oct_val.simps dg mult_0_right add_0)
  ultimately show ?thesis by simp
qed

lemma oct6_chars: "list_all is_oct (oct6 n)"
proof -
  have "is_oct (char_of (48 + m mod 8))" for m :: nat by (rule oct_char) simp
  then show ?thesis by (simp add: oct6_def)
qed

lemma is_oct_not_cut: "is_oct c \<Longrightarrow> c \<noteq> CHR '' '' \<and> c \<noteq> CHR 0x00 \<and> c \<noteq> CHR ''-'' \<and> c \<noteq> CHR ''+''"
  by (auto simp: is_oct_def)

lemma ParseOct_field:
  assumes "n < 8 ^ 6"
  shows "Trim (oct6 n @ [CHR 0x00, CHR '' '']) [CHR '' '', CHR 0x00] = oct6 n" "ParseOct (oct6 n) = Some (int n)"
proof -
  obtain a b c d e f where o: "oct6 n = [a, b, c, d, e, f]" by (simp add: oct6_def)
  have "is_oct a" "is_oct f" using oct6_chars [of n] by (simp_all add: o)
  then have n: "a \<noteq> CHR '' ''" "a \<noteq> CHR 0x00" "a \<noteq> CHR ''-''" "a \<noteq> CHR ''+''" "f \<noteq> CHR '' ''" "f \<noteq> CHR 0x00"
    using is_oct_not_cut by blast+
  then show "Trim (oct6 n @ [CHR 0x00, CHR '' '']) [CHR '' '', CHR 0x00] = oct6 n" by (simp add: Trim_def o)
  have "int (oct_val 0 (oct6 n)) \<le> max_int64"
    using assms oct_val_oct6 [OF assms] by (simp add: max_int64_def)
  moreover have "ParseOct (oct6 n) = (if int (oct_val 0 (oct6 n)) \<le> max_int64 then Some (int (oct_val 0 (oct6 n))) else None)"
    using n oct6_chars [of n] by (simp add: ParseOct_def o Let_def)
  ultimately show "ParseOct (oct6 n) = Some (int n)" using oct_val_oct6 [OF assms] by simp
qed

lemma sum_from_bound: "sum_from (\<lambda>c. int (of_char c)) i xs \<le> 255 * int (length xs)"
proof (induction xs arbitrary: i)
  case (Cons x xs)
  have "int (of_char (field_byte i x)) \<le> 255" using of_char_bounds [of "field_byte i x"] by linarith
  with Cons [of "Suc i"] show ?case by simp
qed simp

lemma sum_from_nonneg: "0 \<le> sum_from (\<lambda>c. int (of_char c)) i xs"
  by (simp add: sum_from_def sum_nonneg)

lemma length_stamp: "length hdr = 512 \<Longrightarrow> length (stamp hdr) = 512"
  by (simp add: stamp_def oct6_def)

lemma sum_from_stamp:
  assumes "length hdr = 512"
  shows "sum_from f 0 (stamp hdr) = sum_from f 0 hdr"
proof -
  have "field_byte j (stamp hdr ! j) = field_byte j (hdr ! j)" if "j < 512" for j
  proof (cases "148 \<le> j \<and> j < 156")
    case False
    then show ?thesis using assms that by (auto simp: stamp_def oct6_def nth_append)
  qed (simp add: field_byte_def)
  then show ?thesis by (simp add: sum_from_def length_stamp assms)
qed

text \<open>
  A header block is recognised by its checksum: whatever the other bytes are, the block is a tar
  header once its checksum field holds the sum as archivers write it, and it is not a tar header any
  more when a single byte outside the field is changed, not even by way of the signed variant of the
  sum that is accepted too.
\<close>

theorem isTarHeader_checksum:
  assumes "length hdr = 512"
  shows "isTarHeader (stamp hdr)
    \<and> (\<forall>i c. i < 512 \<and> \<not> (148 \<le> i \<and> i < 156) \<and> c \<noteq> stamp hdr ! i \<longrightarrow> \<not> isTarHeader ((stamp hdr)[i := c]))"
proof -
  define n where "n = nat (sum_from (\<lambda>c. int (of_char c)) 0 hdr)"
  have n: "n < 8 ^ 6" "int n = sum_from (\<lambda>c. int (of_char c)) 0 hdr"
    using sum_from_bound [of 0 hdr] sum_from_nonneg [of 0 hdr] assms by (simp_all add: n_def)
  have "take 8 (drop 148 (stamp hdr)) = oct6 n @ [CHR 0x00, CHR '' '']"
    using assms by (simp add: stamp_def n_def [symmetric]) (simp add: oct6_def)
  then have "isTarHeader (stamp hdr)"
    using ParseOct_field [OF n(1)] n(2) length_stamp [OF assms] sum_from_stamp [OF assms]
    by (auto simp: isTarHeader_def tarHeaderSize_def tar_sums_eq Let_def oct6_def)
  then show ?thesis using isTarHeader_changed by blast
qed

theorem isTarHeader_checksum_witness:
  "isTarHeader (stamp (replicate 512 (CHR 0x00)))
   \<and> \<not> isTarHeader ((stamp (replicate 512 (CHR 0x00)))[0 := CHR ''x''])"
proof -
  have "stamp (replicate 512 (CHR 0x00)) ! 0 = CHR 0x00" by (simp add: stamp_def nth_append)
  then show ?thesis using isTarHeader_checksum [of "replicate 512 (CHR 0x00)"] by simp
qed

end
