(* ===== verification/Blob_Pipe.thy ===== *)
theory Blob_Pipe
  imports Store_Read Transition
begin

text \<open>
  The queued pipe between tar-prism and zrecipe (src/blob/pipe.go), as a step relation: one producer
  calls Write and CloseWrite, one consumer calls Read, and CloseRead may come from anywhere at any
  time. Every select statement is a step of its own; a goroutine that is blocked in a select is one
  with no step. \<open>p_sent\<close> and \<open>p_got\<close> record the writes that were queued and the bytes that were
  delivered, \<open>p_end\<close> the end that Read reported after the last write.
\<close>

definition ErrClosedPipe :: err where
  "ErrClosedPipe = ErrOther ''io: read/write on closed pipe''"

datatype producer = PIdle | PWrite bytes | PClosed
datatype consumer = CIdle | CRead nat | CWait nat

record pipe =
  p_slots :: nat
  p_ch :: "bytes list"
  p_chClosed :: bool
  p_closed :: bool
  p_cur :: bytes
  p_werr :: "err option"
  p_producer :: producer
  p_consumer :: consumer
  p_sent :: "bytes list"
  p_got :: bytes
  p_end :: "rd_err option"

definition newPipe :: "nat \<Rightarrow> pipe" where
  "newPipe slots = \<lparr>p_slots = slots, p_ch = [], p_chClosed = False, p_closed = False, p_cur = [],
     p_werr = None, p_producer = PIdle, p_consumer = CIdle, p_sent = [], p_got = [], p_end = None\<rparr>"

text \<open>Write: the check for a closed reader, then the select that queues the copy or sees it close.\<close>

definition Write_check :: "pipe \<Rightarrow> bytes \<Rightarrow> err option \<times> pipe" where
  "Write_check p b =
     (if p_closed p then (Some ErrClosedPipe, p) else (None, p\<lparr>p_producer := PWrite b\<rparr>))"

definition Write_queue :: "pipe \<Rightarrow> bytes \<Rightarrow> pipe option" where
  "Write_queue p b =
     (if length (p_ch p) < p_slots p
      then Some (p\<lparr>p_ch := p_ch p @ [b], p_sent := p_sent p @ [b], p_producer := PIdle\<rparr>) else None)"

definition Write_closed :: "pipe \<Rightarrow> pipe option" where
  "Write_closed p = (if p_closed p then Some (p\<lparr>p_producer := PIdle\<rparr>) else None)"

definition CloseWrite :: "pipe \<Rightarrow> err option \<Rightarrow> pipe" where
  "CloseWrite p er = p\<lparr>p_werr := er, p_chClosed := True, p_producer := PClosed\<rparr>"

text \<open>
  Read with a buffer of \<open>n\<close> bytes: the loop head, which delivers from the remainder or checks for a
  closed reader, and the select that takes a write, sees the end of the stream or sees the close.
\<close>

definition Read_head :: "pipe \<Rightarrow> nat \<Rightarrow> rd_err option \<times> pipe" where
  "Read_head p n =
     (if p_cur p \<noteq> [] then
        (None, p\<lparr>p_got := p_got p @ take n (p_cur p), p_cur := drop n (p_cur p), p_consumer := CIdle\<rparr>)
      else if p_closed p then (Some (RErr ErrClosedPipe), p\<lparr>p_consumer := CIdle\<rparr>)
      else (None, p\<lparr>p_consumer := CWait n\<rparr>))"

definition Read_take :: "pipe \<Rightarrow> nat \<Rightarrow> pipe option" where
  "Read_take p n =
     (case p_ch p of
        c # rest \<Rightarrow> Some (p\<lparr>p_ch := rest, p_cur := c, p_consumer := CRead n\<rparr>)
      | [] \<Rightarrow>
          if p_chClosed p then
            Some (p\<lparr>p_end := Some (case p_werr p of Some er \<Rightarrow> RErr er | None \<Rightarrow> REOF),
                    p_consumer := CIdle\<rparr>)
          else None)"

definition Read_closed :: "pipe \<Rightarrow> pipe option" where
  "Read_closed p = (if p_closed p then Some (p\<lparr>p_consumer := CIdle\<rparr>) else None)"

definition CloseRead :: "pipe \<Rightarrow> pipe" where
  "CloseRead p = p\<lparr>p_closed := True\<rparr>"

inductive pipe_step :: "pipe \<Rightarrow> pipe \<Rightarrow> bool" where
  start: "p_producer p = PIdle \<Longrightarrow> Write_check p b = (er, p') \<Longrightarrow> pipe_step p p'"
| queue: "p_producer p = PWrite b \<Longrightarrow> Write_queue p b = Some p' \<Longrightarrow> pipe_step p p'"
| refused: "p_producer p = PWrite b \<Longrightarrow> Write_closed p = Some p' \<Longrightarrow> pipe_step p p'"
| close_write: "p_producer p = PIdle \<Longrightarrow> pipe_step p (CloseWrite p er)"
| read: "p_consumer p = CIdle \<Longrightarrow> pipe_step p (p\<lparr>p_consumer := CRead n\<rparr>)"
| head: "p_consumer p = CRead n \<Longrightarrow> Read_head p n = (er, p') \<Longrightarrow> pipe_step p p'"
| take: "p_consumer p = CWait n \<Longrightarrow> Read_take p n = Some p' \<Longrightarrow> pipe_step p p'"
| abandoned: "p_consumer p = CWait n \<Longrightarrow> Read_closed p = Some p' \<Longrightarrow> pipe_step p p'"
| close_read: "pipe_step p (CloseRead p)"

inductive_simps pipe_step_iff: "pipe_step p p'"

definition pipe_init :: "nat \<Rightarrow> pipe \<Rightarrow> bool" where
  "pipe_init slots p \<longleftrightarrow> p = newPipe slots"

definition pipe_inv :: "nat \<Rightarrow> pipe \<Rightarrow> bool" where
  "pipe_inv slots p \<longleftrightarrow>
     p_slots p = slots \<and> length (p_ch p) \<le> slots
     \<and> concat (p_sent p) = p_got p @ p_cur p @ concat (p_ch p)
     \<and> (p_chClosed p \<longleftrightarrow> p_producer p = PClosed)
     \<and> (\<forall>n. p_consumer p = CWait n \<longrightarrow> p_cur p = [])
     \<and> (\<forall>e. p_end p = Some e \<longrightarrow>
          p_chClosed p \<and> p_ch p = [] \<and> p_cur p = []
          \<and> e = (case p_werr p of Some er \<Rightarrow> RErr er | None \<Rightarrow> REOF))"

interpretation pipe: invariant_system "pipe_init slots" pipe_step "pipe_inv slots"
proof
  show "pipe_init slots p \<Longrightarrow> pipe_inv slots p" for p
    by (simp add: pipe_init_def pipe_inv_def newPipe_def)
  show "pipe_inv slots p \<Longrightarrow> pipe_step p p' \<Longrightarrow> pipe_inv slots p'" for p p'
    by (erule pipe_step.cases)
      (auto simp: pipe_inv_def Write_check_def Write_queue_def Write_closed_def CloseWrite_def
        Read_head_def Read_take_def Read_closed_def CloseRead_def
        split: if_splits list.splits option.splits)
qed

text \<open>
  (C21) The pipe is a bounded queue. In every state that any interleaving of the two ends and of
  CloseRead reaches, the bytes delivered are a prefix of the bytes written, no more than the given
  number of writes are pending, and once Read has reported the end everything that was written has
  been delivered, and the end is the error given to CloseWrite, or EOF.
\<close>

theorem pipe_fifo:
  assumes "reach (pipe_init slots) pipe_step p"
  shows "prefix (p_got p) (concat (p_sent p)) \<and> length (p_ch p) \<le> slots
    \<and> (\<forall>e. p_end p = Some e \<longrightarrow> p_got p = concat (p_sent p)
         \<and> e = (case p_werr p of Some er \<Rightarrow> RErr er | None \<Rightarrow> REOF))"
  using pipe.reach_inv [OF assms] by (auto simp: pipe_inv_def prefix_def)

definition producer_blocked :: "pipe \<Rightarrow> bool" where
  "producer_blocked p \<longleftrightarrow>
     (\<exists>b. p_producer p = PWrite b \<and> Write_queue p b = None \<and> Write_closed p = None)"

definition consumer_blocked :: "pipe \<Rightarrow> bool" where
  "consumer_blocked p \<longleftrightarrow>
     (\<exists>n. p_consumer p = CWait n \<and> Read_take p n = None \<and> Read_closed p = None)"

text \<open>
  The two ends never wait for each other: with at least one slot, a blocked Write means a full
  queue that a Read would take from at once, a blocked Read means an empty one that takes a Write at
  once, so they are never blocked together; and after CloseRead neither is blocked, so a composer
  whose recompressor has stopped always ends.
\<close>

theorem pipe_no_deadlock:
  assumes "reach (pipe_init slots) pipe_step p" "0 < slots"
  shows "\<not> (producer_blocked p \<and> consumer_blocked p)
    \<and> \<not> producer_blocked (CloseRead p) \<and> \<not> consumer_blocked (CloseRead p)"
  using pipe.reach_inv [OF assms(1)] assms(2)
  by (auto simp: producer_blocked_def consumer_blocked_def Write_queue_def Read_take_def pipe_inv_def
      Write_closed_def Read_closed_def CloseRead_def split: if_splits list.splits)

definition pipe_run :: pipe where
  "pipe_run = (newPipe 8)\<lparr>p_chClosed := True, p_producer := PClosed, p_sent := [''ab'', ''c''],
     p_got := ''abc'', p_end := Some REOF\<rparr>"

lemma reach_pipe_run: "reach (pipe_init 8) pipe_step pipe_run"
proof -
  let ?p0 = "newPipe 8"
  let ?w = "\<lambda>p b. p\<lparr>p_producer := PWrite b\<rparr>"
  let ?q = "\<lambda>p b. p\<lparr>p_ch := p_ch p @ [b], p_sent := p_sent p @ [b], p_producer := PIdle\<rparr>"
  define p1 where "p1 = CloseWrite (?q (?w (?q (?w ?p0 ''ab'') ''ab'') ''c'') ''c'') None"
  note defs = Write_check_def Write_queue_def Read_head_def Read_take_def newPipe_def CloseWrite_def
  have "reach (pipe_init 8) pipe_step ?p0" by (intro reach_init) (simp add: pipe_init_def)
  then have "reach (pipe_init 8) pipe_step (?w ?p0 ''ab'')"
    by (rule reach_step) (auto intro!: pipe_step.start [where b = "''ab''"] simp: defs)
  then have "reach (pipe_init 8) pipe_step (?q (?w ?p0 ''ab'') ''ab'')"
    by (rule reach_step) (auto intro!: pipe_step.queue [where b = "''ab''"] simp: defs)
  then have "reach (pipe_init 8) pipe_step (?w (?q (?w ?p0 ''ab'') ''ab'') ''c'')"
    by (rule reach_step) (auto intro!: pipe_step.start [where b = "''c''"] simp: defs)
  then have "reach (pipe_init 8) pipe_step (?q (?w (?q (?w ?p0 ''ab'') ''ab'') ''c'') ''c'')"
    by (rule reach_step) (auto intro!: pipe_step.queue [where b = "''c''"] simp: defs)
  then have r: "reach (pipe_init 8) pipe_step p1"
    unfolding p1_def by (rule reach_step) (rule close_write, simp add: defs)
  define rd where "rd = (\<lambda>p :: pipe. p\<lparr>p_consumer := CRead 4\<rparr>)"
  define tk where "tk = (\<lambda>p :: pipe. the (Read_take p 4))"
  define hd1 where "hd1 = (\<lambda>p :: pipe. snd (Read_head p 4))"
  have s1: "reach (pipe_init 8) pipe_step p \<Longrightarrow> p_consumer p = CIdle \<Longrightarrow> reach (pipe_init 8) pipe_step (rd p)" for p
    unfolding rd_def by (erule reach_step) (rule read)
  have s2: "reach (pipe_init 8) pipe_step p \<Longrightarrow> p_consumer p = CRead 4 \<Longrightarrow> reach (pipe_init 8) pipe_step (hd1 p)" for p
    unfolding hd1_def by (erule reach_step) (rule head [where n = 4 and er = "fst (Read_head p 4)"], auto)
  have s3: "reach (pipe_init 8) pipe_step p \<Longrightarrow> p_consumer p = CWait 4 \<Longrightarrow> Read_take p 4 \<noteq> None
      \<Longrightarrow> reach (pipe_init 8) pipe_step (tk p)" for p
    unfolding tk_def by (erule reach_step) (rule take [where n = 4], auto)
  note all = defs p1_def rd_def tk_def hd1_def
  define p2 where "p2 = hd1 (tk (hd1 (rd p1)))"
  define p3 where "p3 = hd1 (tk (hd1 (rd p2)))"
  have "reach (pipe_init 8) pipe_step p2"
    unfolding p2_def by (intro s1 s2 s3 r) (simp_all add: all)
  then have "reach (pipe_init 8) pipe_step p3"
    unfolding p3_def by (intro s1 s2 s3) (simp_all add: all p2_def)
  then have "reach (pipe_init 8) pipe_step (tk (hd1 (rd p3)))"
    by (intro s1 s2 s3) (simp_all add: all p2_def p3_def)
  moreover have "tk (hd1 (rd p3)) = pipe_run"
    by (simp add: all p2_def p3_def pipe_run_def)
  ultimately show ?thesis by simp
qed

theorem pipe_fifo_witness: "p_got pipe_run = concat (p_sent pipe_run) \<and> p_got pipe_run = ''abc''"
  using pipe_fifo [OF reach_pipe_run] by (simp add: pipe_run_def)

theorem pipe_no_deadlock_witness: "\<not> producer_blocked (CloseRead pipe_run)"
  using pipe_no_deadlock [OF reach_pipe_run] by simp

end
