(* ===== verification/Blob_Prism.thy ===== *)
theory Blob_Prism
  imports Store_Content Store_Write Blob_Analyze Blob_Pipe
begin

text \<open>
  Prisms (src/blob/prism.go and the staging half of src/blob/analyze.go): the sink that stores what
  tar-prism takes out of an archive, the stager around it, the commit of a staged pack, and the
  source that gives the parts back. tar-prism and zrecipe are parameters: \<open>decomposed\<close> is the run of
  sink calls that DecomposeTo makes on a stream (the index as the number of its entries and their
  encoding), with its own verdict at the end; \<open>params\<close> has the fields of zrecipe's Params that the
  code reads.
\<close>

record tp_entry =
  te_Name :: string
  te_Blob :: string
  te_Size :: int

record decomposed =
  dc_recipe :: "bytes option"
  dc_blobs :: "(tp_entry \<times> stream) list"
  dc_index :: "(nat \<times> bytes res) option"
  dc_err :: "err option"

record params =
  pr_Blake3 :: string
  pr_Size :: int
  pr_Engine :: string
  pr_EngineVersion :: string

datatype stage_err = SinkError err | ReadError err | DecomposeError err | CtxError err | PlainError err

section \<open>amberSink\<close>

definition blobs_prefix :: string where "blobs_prefix = ''blobs/''"

text \<open>The format \<open>%08d\<close> of index + 1.\<close>

definition blob_name :: "nat \<Rightarrow> string" where
  "blob_name i = (let s = format_nat (Suc i) in replicate (8 - length s) CHR ''0'' @ s)"

definition LimitReader :: "stream \<Rightarrow> int \<Rightarrow> stream" where
  "LimitReader r n = (let bs = take (nat n) (fst r) in (bs, if length (fst r) < nat n then snd r else None))"

definition sink_Blob ::
  "('i, 'd, 'k) objstore \<Rightarrow> 'd Dir \<Rightarrow> nat \<Rightarrow> tp_entry \<Rightarrow> stream \<Rightarrow> stage_err + 'd Dir" where
  "sink_Blob S blobs i entry r =
     (let name = blob_name i in
      if te_Blob entry \<noteq> blobs_prefix @ name then Inl (SinkError (ErrOther ''unexpected blob path''))
      else if te_Size entry < 0 then Inl (SinkError (ErrOther ''negative size''))
      else let lr = LimitReader r (te_Size entry) in
        case PutStream S lr of
          Inl er \<Rightarrow> Inl (if snd lr = Some er then ReadError er else SinkError er)
        | Inr k \<Rightarrow>
            (case AddFile (os_K S) (os_B S) blobs name k of
               Inl er \<Rightarrow> Inl (SinkError er)
             | Inr d \<Rightarrow> Inr d))"

fun sink_blobs ::
  "('i, 'd, 'k) objstore \<Rightarrow> 'd Dir \<Rightarrow> nat \<Rightarrow> (tp_entry \<times> stream) list \<Rightarrow> stage_err + 'd Dir" where
  "sink_blobs S d i [] = Inr d"
| "sink_blobs S d i ((entry, r) # rest) =
     (case sink_Blob S d i entry r of Inl er \<Rightarrow> Inl er | Inr d' \<Rightarrow> sink_blobs S d' (Suc i) rest)"

text \<open>Index stores tar-prism's encoding of the index.\<close>

definition sink_Index :: "('i, 'd, 'k) objstore \<Rightarrow> bytes res \<Rightarrow> stage_err + 'k" where
  "sink_Index S encoded =
     (case encoded of
        Inl er \<Rightarrow> Inl (SinkError er)
      | Inr data \<Rightarrow> (case PutBytes S data of Inl er \<Rightarrow> Inl (SinkError er) | Inr k \<Rightarrow> Inr k))"

text \<open>
  finish, over the recipe's key or the error its goroutine ended with, \<open>None\<close> when tar-prism never
  asked for a recipe, and the index, \<open>None\<close> when it never delivered one.
\<close>

definition sink_finish ::
  "('i, 'd, 'k) objstore \<Rightarrow> 'k res option \<Rightarrow> 'k option \<Rightarrow> 'd Dir \<Rightarrow> stage_err + ('k \<times> 'k \<times> 'k)" where
  "sink_finish S recipe index blobs =
     (case recipe of
        None \<Rightarrow> Inl (DecomposeError (ErrOther ''tar-prism did not request a recipe''))
      | Some (Inl er) \<Rightarrow> Inl (SinkError er)
      | Some (Inr rk) \<Rightarrow>
          (case index of
             None \<Rightarrow> Inl (DecomposeError (ErrOther ''tar-prism did not deliver an index''))
           | Some ik \<Rightarrow>
               (case Dir_Finish (os_B S) blobs of
                  Inl er \<Rightarrow> Inl (SinkError er)
                | Inr (bk, _) \<Rightarrow> Inr (rk, ik, bk))))"

fun classifyDecomposeError :: "err option \<Rightarrow> stage_err \<Rightarrow> stage_err" where
  "classifyDecomposeError (Some cerr) _ = CtxError cerr"
| "classifyDecomposeError None (SinkError er) = SinkError er"
| "classifyDecomposeError None (ReadError er) = ReadError er"
| "classifyDecomposeError None (DecomposeError er) = DecomposeError er"
| "classifyDecomposeError None (CtxError er) = DecomposeError er"
| "classifyDecomposeError None (PlainError er) = DecomposeError er"

section \<open>stage\<close>

record 'k staged =
  sg_recipe :: 'k
  sg_index :: 'k
  sg_blobs :: 'k
  sg_entries :: nat
  sg_diffID :: digest
  sg_blake3 :: string
  sg_size :: int

text \<open>
  The calls DecomposeTo makes, up to the first that fails, and its verdict: the open blobs directory
  and the keys of the recipe and of the index.
\<close>

definition run_sink ::
  "('i, 'd, 'k) objstore \<Rightarrow> decomposed \<Rightarrow> stage_err + ('k res option \<times> 'k option \<times> 'd Dir)" where
  "run_sink S dc =
     (case sink_blobs S (NewDir (os_B S)) 0 (dc_blobs dc) of
        Inl er \<Rightarrow> Inl er
      | Inr d \<Rightarrow>
          (case (case dc_index dc of None \<Rightarrow> Inr None
                 | Some (_, enc) \<Rightarrow> (case sink_Index S enc of Inl er \<Rightarrow> Inl er | Inr k \<Rightarrow> Inr (Some k))) of
             Inl er \<Rightarrow> Inl er
           | Inr ik \<Rightarrow>
               (case dc_err dc of
                  Some er \<Rightarrow> Inl (PlainError er)
                | None \<Rightarrow> Inr (map_option (\<lambda>b. PutStream S (b, None)) (dc_recipe dc), ik, d))))"

definition stage_layer ::
  "('i, 'd, 'k) objstore \<Rightarrow> (bytes \<Rightarrow> 256 word) \<Rightarrow> (bytes \<Rightarrow> string) \<Rightarrow> (bytes \<Rightarrow> decomposed)
     \<Rightarrow> err option \<Rightarrow> err option \<Rightarrow> bytes \<Rightarrow> stage_err + 'k staged" where
  "stage_layer S sha blake3 DecomposeTo ctx close_err bs =
     (let dc = DecomposeTo bs in
      case (case run_sink S dc of
              Inl er \<Rightarrow> Inl er
            | Inr (rk, ik, d) \<Rightarrow>
                (case sink_finish S rk ik d of
                   Inl er \<Rightarrow> Inl er
                 | Inr keys \<Rightarrow> (case close_err of Some er \<Rightarrow> Inl (SinkError er) | None \<Rightarrow> Inr keys))) of
        Inl er \<Rightarrow> Inl (classifyDecomposeError ctx er)
      | Inr (rk, ik, bk) \<Rightarrow>
          Inr \<lparr>sg_recipe = rk, sg_index = ik, sg_blobs = bk, sg_entries = (case dc_index dc of None \<Rightarrow> 0 | Some (n, _) \<Rightarrow> n),
               sg_diffID = DigestOfBytes sha bs, sg_blake3 = blake3 bs, sg_size = int (length bs)\<rparr>)"

definition staged_check :: "stage_err + 'k staged \<Rightarrow> params \<Rightarrow> stage_err option" where
  "staged_check s params =
     (case s of
        Inl er \<Rightarrow> Some er
      | Inr g \<Rightarrow>
          if sg_blake3 g \<noteq> pr_Blake3 params \<or> sg_size g \<noteq> pr_Size params
          then Some (DecomposeError (ErrOther ''staged stream differs from what analyze recorded''))
          else None)"

section \<open>Prism, the source\<close>

record 'k Prism =
  ps_recipe :: 'k
  ps_index :: 'k
  ps_blobs :: 'k

definition BlobKey :: "('i, 'd, 'k) objstore \<Rightarrow> 'k Prism \<Rightarrow> tp_entry \<Rightarrow> 'k res" where
  "BlobKey S p entry =
     (case CutPrefix (te_Blob entry) blobs_prefix of
        None \<Rightarrow> Inl (ErrOther ''blob path'')
      | Some name \<Rightarrow>
          if name = '''' \<or> ContainsByte name CHR ''/'' then Inl (ErrOther ''blob path'')
          else case os_LookupKey S (ps_blobs p) name of
            Inl er \<Rightarrow> Inl er
          | Inr k \<Rightarrow>
              if int (key_Length (os_K S) k) \<noteq> te_Size entry then Inl (ErrOther ''blob length'') else Inr k)"

definition Prism_Index :: "('i, 'd, 'k) objstore \<Rightarrow> (bytes \<Rightarrow> 'x res) \<Rightarrow> 'k Prism \<Rightarrow> 'x res" where
  "Prism_Index S DecodeIndex p =
     (case os_ReadFile S (ps_index p) of Inl er \<Rightarrow> Inl er | Inr data \<Rightarrow> DecodeIndex data)"

definition openSource :: "('i, 'd, 'k) objstore \<Rightarrow> 'k \<Rightarrow> 'k Prism res" where
  "openSource S root =
     (case os_LookupKey S root ''recipe.bin'' of
        Inl er \<Rightarrow> Inl er
      | Inr recipe \<Rightarrow>
          (case os_LookupKey S root ''recipe.json'' of
             Inl er \<Rightarrow> Inl er
           | Inr index \<Rightarrow>
               (case os_LookupKey S root ''blobs'' of
                  Inl er \<Rightarrow> Inl er
                | Inr blobs \<Rightarrow> Inr \<lparr>ps_recipe = recipe, ps_index = index, ps_blobs = blobs\<rparr>)))"

definition readCompParams :: "('i, 'd, 'k) objstore \<Rightarrow> (bytes \<Rightarrow> params res) \<Rightarrow> 'k \<Rightarrow> params res" where
  "readCompParams S ReadParams k =
     (case os_ReadFile S k of Inl er \<Rightarrow> Inl er | Inr data \<Rightarrow> ReadParams data)"

definition readParams :: "('i, 'd, 'k) objstore \<Rightarrow> (bytes \<Rightarrow> params res) \<Rightarrow> 'k \<Rightarrow> params res" where
  "readParams S ReadParams root =
     (case os_LookupKey S root ''comp.json'' of Inl er \<Rightarrow> Inl er | Inr k \<Rightarrow> readCompParams S ReadParams k)"

text \<open>
  The error composeRecompress reports: \<open>cerr\<close> is ComposeFrom's, \<open>rerr\<close> Recompress's and \<open>ctx\<close> the
  context's once both have ended. A composer stopped by the closed pipe is not an error of its own.
\<close>

definition composeRecompress :: "err option \<Rightarrow> err option \<Rightarrow> err option \<Rightarrow> err option" where
  "composeRecompress ctx cerr rerr =
     (if (rerr \<noteq> None \<or> cerr \<noteq> None) \<and> ctx \<noteq> None then ctx
      else if cerr \<noteq> None \<and> cerr \<noteq> Some ErrClosedPipe then cerr
      else rerr)"

section \<open>What is staged can be served\<close>

lemma sink_blobs_add_each:
  assumes "objstore_ok S cont kids" "sink_blobs S d i bl = Inr d'"
  shows "\<exists>ks. length ks = length bl
    \<and> add_each S d (map (\<lambda>j. (False, blob_name (i + j), ks ! j)) [0..<length bl]) = Inr d'
    \<and> (\<forall>j < length bl. te_Blob (fst (bl ! j)) = blobs_prefix @ blob_name (i + j) \<and> 0 \<le> te_Size (fst (bl ! j))
         \<and> os_content S (ks ! j) (take (nat (te_Size (fst (bl ! j)))) (fst (snd (bl ! j)))))"
  using assms(2)
proof (induction bl arbitrary: d i)
  case (Cons x bl)
  obtain e r where x: "x = (e, r)" by (cases x)
  from Cons.prems obtain d1 where b: "sink_Blob S d i e r = Inr d1" and rest: "sink_blobs S d1 (Suc i) bl = Inr d'"
    by (auto simp: x split: sum.splits)
  from b obtain k where e: "te_Blob e = blobs_prefix @ blob_name i" "0 \<le> te_Size e"
    and k: "PutStream S (LimitReader r (te_Size e)) = Inr k" "AddFile (os_K S) (os_B S) d (blob_name i) k = Inr d1"
    by (auto simp: sink_Blob_def Let_def not_less split: if_splits sum.splits)
  from k(1) have c: "os_content S k (take (nat (te_Size e)) (fst r))"
    using PutStream_content [OF assms(1)] by (cases r) (fastforce simp: LimitReader_def Let_def)
  from Cons.IH [OF rest] obtain ks where ks: "length ks = length bl"
    "add_each S d1 (map (\<lambda>j. (False, blob_name (Suc i + j), ks ! j)) [0..<length bl]) = Inr d'"
    "\<forall>j < length bl. te_Blob (fst (bl ! j)) = blobs_prefix @ blob_name (Suc i + j) \<and> 0 \<le> te_Size (fst (bl ! j))
       \<and> os_content S (ks ! j) (take (nat (te_Size (fst (bl ! j)))) (fst (snd (bl ! j))))" by blast
  have m: "map (\<lambda>j. (False, blob_name (i + j), (k # ks) ! j)) [0..<length (x # bl)] =
      (False, blob_name i, k) # map (\<lambda>j. (False, blob_name (Suc i + j), ks ! j)) [0..<length bl]"
    by (simp only: length_Cons upt_conv_Cons [OF zero_less_Suc] map_Suc_upt [symmetric] list.map map_map)
      (simp add: comp_def)
  have "add_each S d (map (\<lambda>j. (False, blob_name (i + j), (k # ks) ! j)) [0..<length (x # bl)]) = Inr d'"
    unfolding m using k(2) ks(2) by simp
  moreover have "te_Blob (fst ((x # bl) ! j)) = blobs_prefix @ blob_name (i + j) \<and> 0 \<le> te_Size (fst ((x # bl) ! j))
      \<and> os_content S ((k # ks) ! j) (take (nat (te_Size (fst ((x # bl) ! j)))) (fst (snd ((x # bl) ! j))))"
    if "j < length (x # bl)" for j
    using that e c ks(3) by (cases j) (auto simp: x)
  ultimately show ?case using ks(1) by (intro exI [of _ "k # ks"]) auto
qed (simp add: exI [of _ "[]"])

lemma blob_name_ok: "blob_name i \<noteq> ''''" "\<not> ContainsByte (blob_name i) CHR ''/''"
proof -
  have "format_nat (Suc i) \<noteq> []" by (subst format_nat.simps) simp
  then show "blob_name i \<noteq> ''''" by (simp add: blob_name_def Let_def)
  have "is_digit c" if "c \<in> set (blob_name i)" for c
    using that format_nat_digits(1) by (auto simp: blob_name_def Let_def is_digit_def list_all_iff)
  from this [of "CHR ''/''"] show "\<not> ContainsByte (blob_name i) CHR ''/''"
    by (auto simp: ContainsByte_def is_digit_def)
qed

lemma stage_layer_Inr:
  assumes "stage_layer S sha b3 DecomposeTo ctx cl bs = Inr g"
  obtains d d' where "sink_blobs S (NewDir (os_B S)) 0 (dc_blobs (DecomposeTo bs)) = Inr d"
    "Dir_Finish (os_B S) d = Inr (sg_blobs g, d')" "dc_err (DecomposeTo bs) = None"
    "map_option (\<lambda>b. PutStream S (b, None)) (dc_recipe (DecomposeTo bs)) = Some (Inr (sg_recipe g))"
  using assms
  by (auto simp: stage_layer_def run_sink_def sink_finish_def Let_def
      split: sum.splits option.splits prod.splits)

text \<open>
  (C7) What the stager leaves behind can be served: when it succeeds, the recipe reads back as
  tar-prism wrote it, and for every file of the archive, at any position, the source's BlobKey finds
  the entry under the name the sink gave it, accepts its length and returns the key of exactly the
  bytes tar-prism delivered for that file.
\<close>

theorem staged_files_served:
  assumes ok: "objstore_ok S cont kids" and st: "stage_layer S sha b3 DecomposeTo ctx cl bs = Inr g"
    and j: "j < length (dc_blobs (DecomposeTo bs))" "dc_blobs (DecomposeTo bs) ! j = (e, data, er)"
    and full: "te_Size e \<le> int (length data)" and p: "ps_blobs p = sg_blobs g"
  shows "(\<exists>k. BlobKey S p e = Inr k \<and> os_ReadFile S k = Inr (take (nat (te_Size e)) data))
    \<and> (\<exists>r. dc_recipe (DecomposeTo bs) = Some r \<and> os_ReadFile S (sg_recipe g) = Inr r)"
proof -
  from stage_layer_Inr [OF st] obtain d d' where d: "sink_blobs S (NewDir (os_B S)) 0 (dc_blobs (DecomposeTo bs)) = Inr d"
    "Dir_Finish (os_B S) d = Inr (sg_blobs g, d')"
    and r: "map_option (\<lambda>b. PutStream S (b, None)) (dc_recipe (DecomposeTo bs)) = Some (Inr (sg_recipe g))"
    by blast
  let ?bl = "dc_blobs (DecomposeTo bs)"
  from sink_blobs_add_each [OF ok d(1)] obtain ks where ks: "length ks = length ?bl"
    "add_each S (NewDir (os_B S)) (map (\<lambda>j. (False, blob_name j, ks ! j)) [0..<length ?bl]) = Inr d"
    "te_Blob e = blobs_prefix @ blob_name j" "0 \<le> te_Size e"
    "os_content S (ks ! j) (take (nat (te_Size e)) data)" using j by fastforce
  have put: "put_dir S (map (\<lambda>j. (False, blob_name j, ks ! j)) [0..<length ?bl]) = Inr (sg_blobs g)"
    using ks(2) d(2) by (simp add: put_dir_def)
  have l: "os_LookupKey S (sg_blobs g) (blob_name j) = Inr (ks ! j)"
    by (rule put_dir_LookupKey(1) [OF ok put, of False]) (use j in auto)
  have "int (key_Length (os_K S) (ks ! j)) = te_Size e"
    using content_length [OF ks(5)] full ks(4) by simp
  then have "BlobKey S p e = Inr (ks ! j)"
    using l ks(3) blob_name_ok [of j] by (simp add: BlobKey_def p)
  with ReadFile_content [OF ok ks(5)] r show ?thesis
    using PutStream_content [OF ok] ReadFile_content [OF ok] by auto
qed

definition demo_archive :: decomposed where
  "demo_archive = \<lparr>dc_recipe = Some ''headers'',
     dc_blobs = [(\<lparr>te_Name = ''etc/hostname'', te_Blob = ''blobs/00000001'', te_Size = 5\<rparr>, ''host1'', None),
                 (\<lparr>te_Name = ''etc/issue'', te_Blob = ''blobs/00000002'', te_Size = 0\<rparr>, '''', None)],
     dc_index = Some (2, Inr ''[]''), dc_err = None\<rparr>"

theorem staged_files_served_witness:
  "\<exists>g k. stage_layer mem_os (\<lambda>_. 0) (\<lambda>_. ''b3'') (\<lambda>_. demo_archive) None None ''tar'' = Inr g
     \<and> BlobKey mem_os \<lparr>ps_recipe = sg_recipe g, ps_index = sg_index g, ps_blobs = sg_blobs g\<rparr>
         \<lparr>te_Name = ''etc/hostname'', te_Blob = ''blobs/00000001'', te_Size = 5\<rparr> = Inr k
     \<and> os_ReadFile mem_os k = Inr ''host1''"
proof -
  have "(case stage_layer mem_os (\<lambda>_. 0) (\<lambda>_. ''b3'') (\<lambda>_. demo_archive) None None ''tar'' of
      Inl _ \<Rightarrow> False | Inr _ \<Rightarrow> True)" by code_simp
  then obtain g where g: "stage_layer mem_os (\<lambda>_. 0) (\<lambda>_. ''b3'') (\<lambda>_. demo_archive) None None ''tar'' = Inr g"
    by (auto split: sum.splits)
  from staged_files_served [OF mem_os_ok g, of 0 "\<lparr>te_Name = ''etc/hostname'', te_Blob = ''blobs/00000001'', te_Size = 5\<rparr>"
      "''host1''" None "\<lparr>ps_recipe = sg_recipe g, ps_index = sg_index g, ps_blobs = sg_blobs g\<rparr>"]
  show ?thesis using g by (auto simp: demo_archive_def)
qed

end
