(* ===== verification/Upload.thy ===== *)
theory Upload
  imports Oci Transition
begin

text \<open>
  Upload sessions (src/upload/session.go, spool.go, manager.go). A session's bytes are in its buffer
  or, after the spill, in its file; \<open>s_hashed\<close> is the sequence of bytes the running sha256 has been
  fed. The file is modelled by the descriptor (\<open>s_open\<close>) and what is on disk under the session's path
  (\<open>s_disk\<close>). The clock, the chunks a request body arrives in and the outcome of every system call are
  inputs of the operations, so every failure path is a run of the model. Methods of one session are
  serialised by its mutex and those of the manager by its own, so an interleaving is a sequence of
  operations; Sweep is split at the points where it takes and drops the locks.
\<close>

record Session =
  s_ID :: string
  s_path :: string
  s_maxInMemory :: int
  s_buf :: bytes
  s_open :: bool
  s_disk :: "bytes option"
  s_size :: int
  s_hashed :: bytes
  s_closed :: bool
  s_removed :: bool
  s_lastActive :: int

definition newSession :: "string \<Rightarrow> string \<Rightarrow> int \<Rightarrow> int \<Rightarrow> Session" where
  "newSession sid path maxInMemory now =
     \<lparr>s_ID = sid, s_path = path, s_maxInMemory = maxInMemory, s_buf = [], s_open = False,
      s_disk = None, s_size = 0, s_hashed = [], s_closed = False, s_removed = False,
      s_lastActive = now\<rparr>"

definition touch :: "Session \<Rightarrow> int \<Rightarrow> Session" where
  "touch s now = s\<lparr>s_lastActive := now\<rparr>"

datatype spill_io = SpillOK | SpillOpenErr err | SpillWriteErr err

text \<open>spill: the file is created exclusively, so an existing one is an error too.\<close>

definition spill :: "Session \<Rightarrow> spill_io \<Rightarrow> err option \<times> Session" where
  "spill s io =
     (case io of
        SpillOpenErr er \<Rightarrow> (Some er, s)
      | SpillWriteErr er \<Rightarrow> (Some er, s)
      | SpillOK \<Rightarrow>
          if s_disk s \<noteq> None then (Some (ErrOther ''file exists''), s)
          else (None, s\<lparr>s_open := True, s_disk := Some (s_buf s), s_buf := []\<rparr>))"

text \<open>The outcome of one \<open>write\<close>: of the spill it may need, and a short write of the file.\<close>

record write_io =
  w_spill :: spill_io
  w_short :: "(nat \<times> err) option"

definition file_write :: "Session \<Rightarrow> bytes \<Rightarrow> (nat \<times> err) option \<Rightarrow> nat \<times> err option \<times> Session" where
  "file_write s p short =
     (let (n, er) = (case short of None \<Rightarrow> (length p, None) | Some (k, e) \<Rightarrow> (min k (length p), Some e));
          q = take n p
      in (n, er, s\<lparr>s_disk := map_option (\<lambda>d. d @ q) (s_disk s), s_hashed := s_hashed s @ q,
                   s_size := s_size s + int n\<rparr>))"

definition session_write :: "Session \<Rightarrow> int \<Rightarrow> bytes \<Rightarrow> write_io \<Rightarrow> nat \<times> err option \<times> Session" where
  "session_write s now p io =
     (let s1 = touch s now;
          (er, s2) = (if \<not> s_open s1 \<and> s_size s1 + int (length p) > s_maxInMemory s1
                      then spill s1 (w_spill io) else (None, s1))
      in case er of
           Some e \<Rightarrow> (0, Some e, s2)
         | None \<Rightarrow>
             if s_open s2 then file_write s2 p (w_short io)
             else (length p, None,
                   s2\<lparr>s_buf := s_buf s2 @ p, s_hashed := s_hashed s2 @ p,
                      s_size := s_size s2 + int (length p)\<rparr>))"

text \<open>
  io.Copy from a body that arrives in chunks: it stops at the first failing or short write, and ends
  with the reader's error, \<open>None\<close> for EOF.
\<close>

type_synonym body = "(int \<times> bytes \<times> write_io) list \<times> err option"

fun copy_chunks :: "Session \<Rightarrow> (int \<times> bytes \<times> write_io) list \<Rightarrow> err option \<Rightarrow> err option \<times> Session" where
  "copy_chunks s [] rerr = (rerr, s)"
| "copy_chunks s ((now, p, io) # rest) rerr =
     (case session_write s now p io of
        (n, Some e, s1) \<Rightarrow> (Some e, s1)
      | (n, None, s1) \<Rightarrow> copy_chunks s1 rest rerr)"

text \<open>Append returns the offset and the error; \<open>t0\<close> and \<open>t1\<close> are the times of entry and return.\<close>

definition Append :: "Session \<Rightarrow> int \<Rightarrow> body \<Rightarrow> int \<Rightarrow> int \<times> err option \<times> Session" where
  "Append s t0 b t1 =
     (let s1 = touch s t0 in
      if s_closed s1 then (s_size s1, Some ErrUploadUnknown, touch s1 t1)
      else let (er, s2) = copy_chunks s1 (fst b) (snd b); s3 = touch s2 t1
           in (s_size s3, er, s3))"

definition Offset :: "Session \<Rightarrow> int" where
  "Offset s = s_size s"

section \<open>Spools\<close>

text \<open>\<open>SpoolFile\<close> shares the session's path; \<open>SpoolSection\<close> is a window of the caller's reader.\<close>

datatype backing = SpoolMem bytes | SpoolFile string | SpoolSection bytes int

record Spool =
  sp_size :: int
  sp_digest :: digest
  sp_backing :: backing
  sp_removed :: bool

definition NewMemorySpool :: "(bytes \<Rightarrow> 256 word) \<Rightarrow> bytes \<Rightarrow> Spool" where
  "NewMemorySpool sha data =
     \<lparr>sp_size = int (length data), sp_digest = DigestOfBytes sha data, sp_backing = SpoolMem data,
      sp_removed = False\<rparr>"

definition NewSectionSpool :: "bytes \<Rightarrow> int \<Rightarrow> int \<Rightarrow> digest \<Rightarrow> Spool" where
  "NewSectionSpool r off sz d =
     \<lparr>sp_size = sz, sp_digest = d, sp_backing = SpoolSection r off, sp_removed = False\<rparr>"

definition session_Spool :: "(bytes \<Rightarrow> 256 word) \<Rightarrow> Session \<Rightarrow> int \<Rightarrow> Spool res \<times> Session" where
  "session_Spool sha s now =
     (let s1 = touch s now in
      if s_closed s1 then (Inl ErrUploadUnknown, s1)
      else (Inr \<lparr>sp_size = s_size s1, sp_digest = DigestOfBytes sha (s_hashed s1),
                 sp_backing = (if s_open s1 then SpoolFile (s_path s1) else SpoolMem (s_buf s1)),
                 sp_removed = False\<rparr>, s1))"

text \<open>What a reader of the spool yields, given what is on disk under the spool's path.\<close>

definition spool_Open :: "Spool \<Rightarrow> bytes option \<Rightarrow> bytes res" where
  "spool_Open sp disk =
     (if sp_removed sp then Inl (ErrOther ''upload: spool removed'')
      else case sp_backing sp of
        SpoolSection r off \<Rightarrow> Inr (take (nat (sp_size sp)) (drop (nat off) r))
      | SpoolMem m \<Rightarrow> Inr m
      | SpoolFile p \<Rightarrow>
          (case disk of
             None \<Rightarrow> Inl (ErrOther ''no such file'')
           | Some d \<Rightarrow> Inr (take (nat (sp_size sp)) d)))"

definition spool_Remove :: "Spool \<Rightarrow> bytes option \<Rightarrow> err option \<Rightarrow> err option \<times> Spool \<times> bytes option" where
  "spool_Remove sp disk rm =
     (let sp1 = sp\<lparr>sp_removed := True,
                   sp_backing := (case sp_backing sp of SpoolFile p \<Rightarrow> SpoolFile p | _ \<Rightarrow> SpoolMem [])\<rparr>
      in case sp_backing sp of
           SpoolFile p \<Rightarrow>
             (if disk = None then (None, sp1, None)
              else case rm of Some er \<Rightarrow> (Some er, sp1, disk) | None \<Rightarrow> (None, sp1, None))
         | _ \<Rightarrow> (None, sp1, disk))"

section \<open>Closing\<close>

text \<open>\<open>fd\<close> and \<open>rm\<close> are the errors of closing the descriptor and of removing an existing file.\<close>

definition session_close :: "Session \<Rightarrow> err option \<Rightarrow> err option \<Rightarrow> err option \<times> Session" where
  "session_close s fd rm =
     (let s1 = s\<lparr>s_closed := True\<rparr> in
      if s_removed s1 then (None, s1)
      else let s2 = s1\<lparr>s_buf := []\<rparr>;
               fdErr = (if s_open s2 then fd else None);
               s3 = (if s_open s2 \<and> fd = None then s2\<lparr>s_open := False\<rparr> else s2)
           in case (if s_disk s3 = None then None else rm) of
                Some er \<Rightarrow> (Some er, s3)
              | None \<Rightarrow> (fdErr, s3\<lparr>s_disk := None, s_removed := True\<rparr>))"

section \<open>The manager\<close>

record Manager =
  m_dir :: string
  m_maxInMemory :: int
  m_timeout :: int
  m_sessions :: "Session gomap"
  m_closed :: bool

definition NewManager :: "string \<Rightarrow> int \<Rightarrow> int \<Rightarrow> err option \<Rightarrow> Manager res" where
  "NewManager dir maxInMemory timeout setup =
     (if maxInMemory < 0 then Inl (ErrOther ''upload: max-in-memory must not be negative'')
      else if timeout \<le> 0 then Inl (ErrOther ''upload: timeout must be positive'')
      else case setup of
        Some er \<Rightarrow> Inl er
      | None \<Rightarrow> Inr \<lparr>m_dir = dir, m_maxInMemory = maxInMemory, m_timeout = timeout,
                     m_sessions = [], m_closed = False\<rparr>)"

text \<open>Durations are nanoseconds; Go's integer division truncates towards zero.\<close>

definition sweepInterval :: "int \<Rightarrow> int" where
  "sweepInterval timeout =
     max 10000000 (min 60000000000 (if timeout < 0 then - ((- timeout) div 10) else timeout div 10))"

definition Create :: "Manager \<Rightarrow> string res \<Rightarrow> int \<Rightarrow> Session res \<times> Manager" where
  "Create m newID now =
     (case newID of
        Inl er \<Rightarrow> (Inl er, m)
      | Inr sid \<Rightarrow>
          let s = newSession sid (m_dir m @ ''/'' @ sid) (m_maxInMemory m) now in
          if m_closed m then (Inl (ErrOther ''upload: manager closed''), m)
          else (Inr s, m\<lparr>m_sessions := AList.update sid s (m_sessions m)\<rparr>))"

definition set_session :: "Manager \<Rightarrow> string \<Rightarrow> Session \<Rightarrow> Manager" where
  "set_session m sid s = m\<lparr>m_sessions := AList.update sid s (m_sessions m)\<rparr>"

definition Get :: "Manager \<Rightarrow> string \<Rightarrow> int \<Rightarrow> Session res \<times> Manager" where
  "Get m sid now =
     (case map_of (m_sessions m) sid of
        None \<Rightarrow> (Inl ErrUploadUnknown, m)
      | Some s \<Rightarrow> (Inr (touch s now), set_session m sid (touch s now)))"

text \<open>
  close and then forget: the session stays registered, closed, when closing reports an error. The
  third component is the session that was forgotten.
\<close>

definition close_forget ::
  "Manager \<Rightarrow> string \<Rightarrow> err option \<Rightarrow> err option \<Rightarrow> err option \<times> Manager \<times> Session option" where
  "close_forget m sid fd rm =
     (case map_of (m_sessions m) sid of
        None \<Rightarrow> (Some ErrUploadUnknown, m, None)
      | Some s \<Rightarrow>
          (case session_close s fd rm of
             (Some er, s1) \<Rightarrow> (Some er, set_session m sid s1, None)
           | (None, s1) \<Rightarrow> (None, m\<lparr>m_sessions := AList.delete sid (m_sessions m)\<rparr>, Some s1)))"

definition Remove ::
  "Manager \<Rightarrow> string \<Rightarrow> err option \<Rightarrow> err option \<Rightarrow> err option \<times> Manager \<times> Session option" where
  "Remove m sid fd rm = close_forget m sid fd rm"

definition idle :: "Manager \<Rightarrow> int \<Rightarrow> Session \<Rightarrow> bool" where
  "idle m now s \<longleftrightarrow> now - s_lastActive s > m_timeout m"

text \<open>The two halves of Sweep: the candidates, and the step for one of them after the recheck.\<close>

definition sweep_candidates :: "Manager \<Rightarrow> int \<Rightarrow> string list" where
  "sweep_candidates m now = map fst (filter (\<lambda>(_, s). idle m now s) (m_sessions m))"

definition sweep_one ::
  "Manager \<Rightarrow> int \<Rightarrow> string \<Rightarrow> err option \<Rightarrow> err option \<Rightarrow> nat \<times> Manager \<times> Session option" where
  "sweep_one m now sid fd rm =
     (case map_of (m_sessions m) sid of
        None \<Rightarrow> (0, m, None)
      | Some s \<Rightarrow>
          if \<not> idle m now s then (0, m, None)
          else case close_forget m sid fd rm of (_, m1, gone) \<Rightarrow> (1, m1, gone))"

text \<open>Sweep without other requests in between; \<open>io\<close> gives the two outcomes for every session.\<close>

fun sweep_all ::
  "Manager \<Rightarrow> int \<Rightarrow> (string \<Rightarrow> err option \<times> err option) \<Rightarrow> string list \<Rightarrow> nat \<times> Manager" where
  "sweep_all m now io [] = (0, m)"
| "sweep_all m now io (sid # ids) =
     (let (n, m1, _) = sweep_one m now sid (fst (io sid)) (snd (io sid));
          (k, m2) = sweep_all m1 now io ids
      in (n + k, m2))"

definition Sweep :: "Manager \<Rightarrow> int \<Rightarrow> (string \<Rightarrow> err option \<times> err option) \<Rightarrow> nat \<times> Manager" where
  "Sweep m now io = sweep_all m now io (sweep_candidates m now)"

fun close_each ::
  "(string \<Rightarrow> err option \<times> err option) \<Rightarrow> (string \<times> Session) list \<Rightarrow> err list \<times> Session list" where
  "close_each io [] = ([], [])"
| "close_each io ((sid, s) # rest) =
     (let (er, s1) = session_close s (fst (io sid)) (snd (io sid)); (errs, ss) = close_each io rest
      in (opt_list er @ errs, s1 # ss))"

text \<open>Close forgets every session, whether or not its file could be removed.\<close>

definition Manager_Close ::
  "Manager \<Rightarrow> (string \<Rightarrow> err option \<times> err option) \<Rightarrow> err list \<times> Manager \<times> Session list" where
  "Manager_Close m io =
     (if m_closed m then ([], m, [])
      else let (errs, ss) = close_each io (m_sessions m)
           in (errs, m\<lparr>m_closed := True, m_sessions := []\<rparr>, ss))"

section \<open>The session invariant\<close>

definition sess_inv :: "Session \<Rightarrow> bool" where
  "sess_inv s \<longleftrightarrow>
     s_size s = int (length (s_hashed s))
     \<and> (s_closed s \<longrightarrow> s_buf s = [])
     \<and> (s_removed s \<longrightarrow> s_closed s \<and> s_disk s = None)
     \<and> (\<not> s_closed s \<longrightarrow>
          (if s_open s then s_disk s = Some (s_hashed s) \<and> s_buf s = []
           else s_buf s = s_hashed s \<and> s_disk s = None \<and> s_size s \<le> s_maxInMemory s))"

lemma sess_inv_new: "0 \<le> mx \<Longrightarrow> sess_inv (newSession sid p mx now)"
  by (simp add: sess_inv_def newSession_def)

lemma sess_inv_touch [simp]: "sess_inv (touch s now) = sess_inv s"
  by (simp add: sess_inv_def touch_def)

lemma touch_simps [simp]:
  "s_hashed (touch s now) = s_hashed s" "s_closed (touch s now) = s_closed s"
  "s_size (touch s now) = s_size s" "s_maxInMemory (touch s now) = s_maxInMemory s"
  "s_open (touch s now) = s_open s" "s_disk (touch s now) = s_disk s" "s_buf (touch s now) = s_buf s"
  "s_removed (touch s now) = s_removed s"
  by (simp_all add: touch_def)

lemma spill_ok:
  assumes "sess_inv s" "\<not> s_closed s" "\<not> s_open s" "spill s io = (er, s')"
  shows "er \<noteq> None \<and> s' = s
    \<or> er = None \<and> sess_inv s' \<and> s_open s' \<and> s_hashed s' = s_hashed s \<and> s_closed s' = s_closed s
      \<and> s_maxInMemory s' = s_maxInMemory s"
  using assms by (auto simp: spill_def sess_inv_def split: spill_io.splits if_splits)

lemma file_write_ok:
  assumes "sess_inv s" "\<not> s_closed s" "s_open s" "file_write s p short = (n, er, s')"
  shows "sess_inv s' \<and> s_hashed s' = s_hashed s @ take n p \<and> (er = None \<longrightarrow> n = length p)
    \<and> s_closed s' = s_closed s \<and> s_open s' \<and> s_maxInMemory s' = s_maxInMemory s"
  using assms by (auto simp: file_write_def Let_def sess_inv_def split: option.splits prod.splits)

lemma session_write_ok:
  assumes "sess_inv s" "\<not> s_closed s" "session_write s now p io = (n, er, s')"
  shows "sess_inv s' \<and> s_hashed s' = s_hashed s @ take n p \<and> (er = None \<longrightarrow> n = length p)
    \<and> \<not> s_closed s' \<and> (s_open s \<longrightarrow> s_open s') \<and> s_maxInMemory s' = s_maxInMemory s"
proof (cases "\<not> s_open s \<and> s_size s + int (length p) > s_maxInMemory s")
  case False
  show ?thesis
  proof (cases "s_open s")
    case True
    then have "file_write (touch s now) p (w_short io) = (n, er, s')"
      using assms(3) by (simp add: session_write_def Let_def)
    from file_write_ok [OF _ _ _ this] show ?thesis using assms True by simp
  next
    case closed: False
    then show ?thesis
      using False assms by (auto simp: session_write_def Let_def sess_inv_def touch_def)
  qed
next
  case True
  obtain e1 s1 where sp: "spill (touch s now) (w_spill io) = (e1, s1)" by fastforce
  from spill_ok [OF _ _ _ sp] True assms(1,2)
  consider "e1 \<noteq> None" "s1 = touch s now"
    | "e1 = None" "sess_inv s1" "s_open s1" "s_hashed s1 = s_hashed s" "\<not> s_closed s1"
      "s_maxInMemory s1 = s_maxInMemory s" by auto
  then show ?thesis
  proof cases
    case 1
    then show ?thesis using True sp assms by (auto simp: session_write_def Let_def)
  next
    case 2
    then have "file_write s1 p (w_short io) = (n, er, s')"
      using assms(3) sp True by (simp add: session_write_def Let_def)
    from file_write_ok [OF 2(2,5,3) this] 2 True show ?thesis by simp
  qed
qed

lemma copy_chunks_ok:
  assumes "sess_inv s" "\<not> s_closed s" "copy_chunks s cs rerr = (er, s')"
  shows "sess_inv s' \<and> \<not> s_closed s' \<and> (s_open s \<longrightarrow> s_open s') \<and> s_maxInMemory s' = s_maxInMemory s
    \<and> (\<exists>q. s_hashed s' = s_hashed s @ q \<and> prefix q (concat (map (\<lambda>(_, p, _). p) cs))
           \<and> (er = None \<longrightarrow> q = concat (map (\<lambda>(_, p, _). p) cs) \<and> rerr = None))"
  using assms
proof (induction cs arbitrary: s)
  case (Cons c cs)
  obtain now p io where c: "c = (now, p, io)" by (cases c)
  obtain n e1 s1 where w: "session_write s now p io = (n, e1, s1)" by (metis prod_cases3)
  note ok = session_write_ok [OF Cons.prems(1,2) w]
  show ?case
  proof (cases e1)
    case (Some e)
    have "prefix (take n p) (p @ concat (map (\<lambda>(_, p, _). p) cs))"
      by (meson prefix_append prefix_order.trans prefixI take_is_prefix prefix_prefix)
    then show ?thesis using Some ok Cons.prems(3) w by (auto simp: c)
  next
    case None
    with Cons.prems(3) w have "copy_chunks s1 cs rerr = (er, s')" by (simp add: c)
    from Cons.IH [OF _ _ this] ok obtain q where "sess_inv s'" "\<not> s_closed s'" "s_open s \<longrightarrow> s_open s'"
      "s_maxInMemory s' = s_maxInMemory s" "s_hashed s' = (s_hashed s @ p) @ q"
      "prefix q (concat (map (\<lambda>(_, p, _). p) cs))"
      "er = None \<longrightarrow> q = concat (map (\<lambda>(_, p, _). p) cs) \<and> rerr = None"
      using None by auto
    then show ?thesis by (auto simp: c intro!: exI [of _ "p @ q"])
  qed
qed auto

definition body_bytes :: "body \<Rightarrow> bytes" where
  "body_bytes b = concat (map (\<lambda>(_, p, _). p) (fst b))"

lemma Append_ok:
  assumes "sess_inv s" "Append s t0 b t1 = (off, er, s')"
  shows "sess_inv s' \<and> s_maxInMemory s' = s_maxInMemory s \<and> s_closed s' = s_closed s
    \<and> off = int (length (s_hashed s'))
    \<and> (s_closed s \<longrightarrow> er = Some ErrUploadUnknown \<and> s_hashed s' = s_hashed s)
    \<and> (\<not> s_closed s \<longrightarrow> (s_open s \<longrightarrow> s_open s')
        \<and> (\<exists>q. s_hashed s' = s_hashed s @ q \<and> prefix q (body_bytes b)
               \<and> (er = None \<longrightarrow> q = body_bytes b \<and> snd b = None)))"
proof (cases "s_closed s")
  case True
  then show ?thesis using assms by (auto simp: Append_def sess_inv_def touch_def)
next
  case False
  obtain e1 s1 where c: "copy_chunks (touch s t0) (fst b) (snd b) = (e1, s1)" by fastforce
  from copy_chunks_ok [OF _ _ c] assms(1) False
  obtain q where q: "sess_inv s1" "\<not> s_closed s1" "s_open s \<longrightarrow> s_open s1" "s_maxInMemory s1 = s_maxInMemory s"
    "s_hashed s1 = s_hashed s @ q" "prefix q (body_bytes b)" "e1 = None \<longrightarrow> q = body_bytes b \<and> snd b = None"
    by (auto simp: body_bytes_def)
  have "off = s_size s1" "er = e1" "s' = touch s1 t1"
    using assms(2) False c by (auto simp: Append_def Let_def)
  then show ?thesis using q False by (auto simp: sess_inv_def touch_def)
qed

text \<open>
  Appending to a session, whatever chunks the body arrives in and whichever system calls fail:
  the bytes in the session are what was there before followed by the bytes of the body that were
  taken, all of them when no error is reported; the returned offset counts exactly the bytes in the
  session, which are the bytes the digest runs over; and what is held in memory stays within the
  limit.
\<close>

theorem Append_spec:
  assumes "sess_inv s" "\<not> s_closed s" "Append s t0 b t1 = (off, er, s')"
  shows "\<exists>q. s_hashed s' = s_hashed s @ q \<and> prefix q (body_bytes b) \<and> (er = None \<longrightarrow> q = body_bytes b)
    \<and> off = int (length (s_hashed s'))
    \<and> (if s_open s' then s_disk s' = Some (s_hashed s') else s_buf s' = s_hashed s')
    \<and> (s_open s' \<longrightarrow> s_buf s' = []) \<and> (\<not> s_open s' \<longrightarrow> int (length (s_buf s')) \<le> s_maxInMemory s)"
proof -
  note ok = Append_ok [OF assms(1,3)]
  then obtain q where "s_hashed s' = s_hashed s @ q" "prefix q (body_bytes b)" "er = None \<longrightarrow> q = body_bytes b"
    using assms(2) by blast
  moreover have "sess_inv s'" "\<not> s_closed s'" "off = int (length (s_hashed s'))" "s_maxInMemory s' = s_maxInMemory s"
    using ok assms(2) by auto
  ultimately show ?thesis by (auto simp: sess_inv_def)
qed

lemma Spool_keeps:
  assumes "sess_inv s" "session_Spool sha s now = (Inr sp, s1)"
    and "s2 = foldl (\<lambda>s (t0, b, t1). snd (snd (Append s t0 b t1))) s1 later"
  shows "spool_Open sp (s_disk s2) = Inr (s_hashed s)
    \<and> sp_digest sp = DigestOfBytes sha (s_hashed s) \<and> sp_size sp = int (length (s_hashed s))"
proof -
  have open_: "\<not> s_closed s" and s1: "s1 = touch s now"
    and sp: "sp = \<lparr>sp_size = s_size s1, sp_digest = DigestOfBytes sha (s_hashed s1),
        sp_backing = (if s_open s1 then SpoolFile (s_path s1) else SpoolMem (s_buf s1)), sp_removed = False\<rparr>"
    using assms(2) by (auto simp: session_Spool_def Let_def split: if_splits)
  define P where "P x \<longleftrightarrow> sess_inv x \<and> \<not> s_closed x \<and> prefix (s_hashed s) (s_hashed x) \<and> (s_open s \<longrightarrow> s_open x)"
    for x
  have step: "P (snd (snd (Append x t0 b t1)))" if "P x" for x t0 b t1
  proof -
    obtain off er x' where a: "Append x t0 b t1 = (off, er, x')" by (metis prod_cases3)
    from Append_ok [OF _ a] that show ?thesis by (auto simp: P_def a intro: prefix_order.trans)
  qed
  have "P (foldl (\<lambda>s (t0, b, t1). snd (snd (Append s t0 b t1))) x later)" if "P x" for x
    using that by (induction later arbitrary: x) (auto simp: step)
  then have p2: "P s2" using assms(1,3) open_ s1 by (simp add: P_def)
  have "spool_Open sp (s_disk s2) = Inr (s_hashed s)"
  proof (cases "s_open s")
    case True
    then have "s_disk s2 = Some (s_hashed s2)" "take (length (s_hashed s)) (s_hashed s2) = s_hashed s"
      using p2 by (auto simp: P_def sess_inv_def prefix_def)
    then show ?thesis using True assms(1) by (simp add: spool_Open_def sp s1 sess_inv_def)
  next
    case False
    then show ?thesis using assms(1) open_ by (simp add: spool_Open_def sp s1 sess_inv_def)
  qed
  then show ?thesis using assms(1) by (simp add: sp s1 sess_inv_def)
qed

text \<open>
  A spool is a snapshot: whatever is appended to the session after it was taken, successfully or
  not, spilling or not, opening the spool reads exactly the bytes the session held when it was taken,
  and its size and digest are those of these bytes.
\<close>

theorem Spool_snapshot:
  assumes "sess_inv s" "session_Spool sha s now = (Inr sp, s1)"
    and "s2 = foldl (\<lambda>s (t0, b, t1). snd (snd (Append s t0 b t1))) s1 later"
  shows "spool_Open sp (s_disk s2) = Inr (s_hashed s)
    \<and> sp_digest sp = DigestOfBytes sha (s_hashed s) \<and> sp_size sp = int (length (s_hashed s))"
  by (rule Spool_keeps [OF assms])

section \<open>The manager's runs\<close>

text \<open>
  The state of a run is the manager and the sessions it has forgotten. Every request is a step; so is
  each half step of Sweep after its candidates were collected, so requests run between them.
\<close>

type_synonym mstate = "Manager \<times> Session list"

inductive up_step :: "mstate \<Rightarrow> mstate \<Rightarrow> bool" where
  create: "map_of (m_sessions m) sid = None \<Longrightarrow> Create m (Inr sid) now = (r, m') \<Longrightarrow> up_step (m, g) (m', g)"
| get: "Get m sid now = (r, m') \<Longrightarrow> up_step (m, g) (m', g)"
| append: "map_of (m_sessions m) sid = Some s \<Longrightarrow> Append s t0 b t1 = (off, er, s')
    \<Longrightarrow> up_step (m, g) (set_session m sid s', g)"
| spool: "map_of (m_sessions m) sid = Some s \<Longrightarrow> session_Spool sha s now = (r, s')
    \<Longrightarrow> up_step (m, g) (set_session m sid s', g)"
| remove: "Remove m sid fd rm = (er, m', x) \<Longrightarrow> up_step (m, g) (m', opt_list x @ g)"
| sweep: "sweep_one m now sid fd rm = (n, m', x) \<Longrightarrow> up_step (m, g) (m', opt_list x @ g)"

definition up_init :: "mstate \<Rightarrow> bool" where
  "up_init st \<longleftrightarrow> (\<exists>dir mx to. NewManager dir mx to None = Inr (fst st)) \<and> snd st = []"

definition up_inv :: "mstate \<Rightarrow> bool" where
  "up_inv st \<longleftrightarrow>
     0 \<le> m_maxInMemory (fst st)
     \<and> distinct (map fst (m_sessions (fst st)))
     \<and> (\<forall>sid s. map_of (m_sessions (fst st)) sid = Some s \<longrightarrow>
          sess_inv s \<and> s_maxInMemory s = m_maxInMemory (fst st))
     \<and> (\<forall>s \<in> set (snd st). s_closed s \<and> s_removed s \<and> s_disk s = None \<and> s_buf s = [])"

lemma session_close_ok:
  assumes "sess_inv s" "session_close s fd rm = (er, s')"
  shows "sess_inv s' \<and> s_closed s' \<and> s_maxInMemory s' = s_maxInMemory s
    \<and> (er = None \<longrightarrow> s_removed s' \<and> s_disk s' = None \<and> s_buf s' = [])"
  using assms by (auto simp: session_close_def sess_inv_def Let_def split: if_splits option.splits)

lemma up_inv_set:
  assumes "up_inv (m, g)" "sess_inv s" "s_maxInMemory s = m_maxInMemory m"
  shows "up_inv (set_session m sid s, g)"
  using assms by (auto simp: up_inv_def set_session_def distinct_update)

lemma up_inv_close_forget:
  assumes inv: "up_inv (m, g)" and c: "close_forget m sid fd rm = (er, m', x)"
  shows "up_inv (m', opt_list x @ g)"
proof (cases "map_of (m_sessions m) sid")
  case None
  then show ?thesis using inv c by (auto simp: close_forget_def opt_list_def)
next
  case (Some s)
  obtain e1 s1 where sc: "session_close s fd rm = (e1, s1)" by fastforce
  have s: "sess_inv s" "s_maxInMemory s = m_maxInMemory m" using inv Some by (auto simp: up_inv_def)
  note ok = session_close_ok [OF s(1) sc]
  show ?thesis
  proof (cases e1)
    case None
    then have "m' = m\<lparr>m_sessions := AList.delete sid (m_sessions m)\<rparr>" "x = Some s1"
      using c Some sc by (auto simp: close_forget_def)
    then show ?thesis
      using inv ok None by (auto simp: up_inv_def distinct_delete opt_list_def split: if_splits)
  next
    case (Some e)
    then have "m' = set_session m sid s1" "x = None"
      using c \<open>map_of (m_sessions m) sid = Some s\<close> sc by (auto simp: close_forget_def)
    then show ?thesis using up_inv_set [OF inv] ok s by (simp add: opt_list_def)
  qed
qed

lemma up_inv_step:
  assumes inv: "up_inv st" and step: "up_step st st'"
  shows "up_inv st'"
  using step inv
proof (cases rule: up_step.cases)
  case (create m sid now r m' g)
  define s where "s = newSession sid (m_dir m @ ''/'' @ sid) (m_maxInMemory m) now"
  have "0 \<le> m_maxInMemory m" using create inv by (simp add: up_inv_def)
  then have "sess_inv s" unfolding s_def by (rule sess_inv_new)
  moreover have "s_maxInMemory s = m_maxInMemory m" by (simp add: s_def newSession_def)
  moreover have "m' = m \<or> m' = set_session m sid s"
    using create by (simp add: Create_def Let_def set_session_def s_def split: if_splits)
  ultimately show ?thesis using create inv up_inv_set [of m g s sid] by auto
next
  case (get m sid now r m' g)
  show ?thesis
  proof (cases "map_of (m_sessions m) sid")
    case None
    with get inv show ?thesis by (simp add: Get_def)
  next
    case (Some s)
    with get inv have "sess_inv s" "s_maxInMemory s = m_maxInMemory m" by (auto simp: up_inv_def)
    then show ?thesis using get inv Some up_inv_set [of m g "touch s now" sid] by (simp add: Get_def)
  qed
next
  case (append m sid s t0 b t1 off er s' g)
  with inv have "sess_inv s" "s_maxInMemory s = m_maxInMemory m" by (auto simp: up_inv_def)
  with append inv show ?thesis using Append_ok [of s t0 b t1 off er s'] up_inv_set by auto
next
  case (spool m sid s sha now r s' g)
  then have "s' = touch s now" by (auto simp: session_Spool_def Let_def split: if_splits)
  moreover have "sess_inv s" "s_maxInMemory s = m_maxInMemory m"
    using spool inv by (auto simp: up_inv_def)
  ultimately show ?thesis using spool inv up_inv_set [of m g "touch s now" sid] by simp
next
  case (remove m sid fd rm er m' x g)
  with inv show ?thesis using up_inv_close_forget by (auto simp: Remove_def)
next
  case (sweep m now sid fd rm n m' x g)
  obtain er m1 x1 where "close_forget m sid fd rm = (er, m1, x1)" by (metis prod_cases3)
  with sweep inv show ?thesis
    using up_inv_close_forget [of m g sid fd rm]
    by (auto simp: sweep_one_def opt_list_def split: option.splits if_splits)
qed

interpretation up: invariant_system up_init up_step up_inv
proof
  show "up_init st \<Longrightarrow> up_inv st" for st
    by (cases st) (auto simp: up_init_def up_inv_def NewManager_def split: if_splits)
  show "up_inv st \<Longrightarrow> up_step st st' \<Longrightarrow> up_inv st'" for st st' by (rule up_inv_step)
qed


section \<open>Sweeping\<close>

lemma sweep_one_ok:
  assumes "distinct (map fst (m_sessions m))" "sweep_one m now sid None None = (n, m', x)"
  shows "map_of (m_sessions m') = (\<lambda>k. if k = sid \<and> n = 1 then None else map_of (m_sessions m) k)"
    "n = (case map_of (m_sessions m) sid of Some s \<Rightarrow> if idle m now s then 1 else 0 | None \<Rightarrow> 0)"
    "m_timeout m' = m_timeout m" "distinct (map fst (m_sessions m'))"
proof -
  have closed: "fst (session_close s None None) = None" for s
    by (auto simp: session_close_def Let_def split: option.splits)
  have "map_of (m_sessions m') = (\<lambda>k. if k = sid \<and> n = 1 then None else map_of (m_sessions m) k)
    \<and> n = (case map_of (m_sessions m) sid of Some s \<Rightarrow> if idle m now s then 1 else 0 | None \<Rightarrow> 0)
    \<and> m_timeout m' = m_timeout m \<and> distinct (map fst (m_sessions m'))"
  proof (cases "\<exists>s. map_of (m_sessions m) sid = Some s \<and> idle m now s")
    case False
    then have "n = 0" "m' = m"
      using assms(2) by (auto simp: sweep_one_def split: option.splits if_splits)
    moreover have "(case map_of (m_sessions m) sid of Some s \<Rightarrow> if idle m now s then 1 else 0 | None \<Rightarrow> 0) = (0 :: nat)"
      using False by (simp split: option.split)
    ultimately show ?thesis using assms(1) by simp
  next
    case True
    then obtain s where s: "map_of (m_sessions m) sid = Some s" "idle m now s" by blast
    obtain s1 where "session_close s None None = (None, s1)" using closed [of s] by (metis prod.collapse)
    then have "n = 1" "m' = m\<lparr>m_sessions := AList.delete sid (m_sessions m)\<rparr>"
      using assms(2) s by (auto simp: sweep_one_def close_forget_def)
    then show ?thesis using assms(1) s by (auto simp: distinct_delete fun_eq_iff)
  qed
  then show "map_of (m_sessions m') = (\<lambda>k. if k = sid \<and> n = 1 then None else map_of (m_sessions m) k)"
    "n = (case map_of (m_sessions m) sid of Some s \<Rightarrow> if idle m now s then 1 else 0 | None \<Rightarrow> 0)"
    "m_timeout m' = m_timeout m" "distinct (map fst (m_sessions m'))"
    by blast+
qed

lemma sweep_all_ok:
  assumes "distinct (map fst (m_sessions m))" "distinct sids"
    and "\<forall>sid \<in> set sids. \<exists>s. map_of (m_sessions m) sid = Some s \<and> idle m now s"
    and "sweep_all m now (\<lambda>_. (None, None)) sids = (k, m')"
  shows "k = length sids \<and> map_of (m_sessions m') = (\<lambda>x. if x \<in> set sids then None else map_of (m_sessions m) x)"
  using assms
proof (induction sids arbitrary: m k m')
  case (Cons sid sids)
  obtain n m1 x where o: "sweep_one m now sid None None = (n, m1, x)" by (metis prod_cases3)
  note ok = sweep_one_ok [OF Cons.prems(1) o]
  have n: "n = 1" using ok(2) Cons.prems(3) by auto
  obtain j m2 where r: "sweep_all m1 now (\<lambda>_. (None, None)) sids = (j, m2)" by fastforce
  have "\<forall>i \<in> set sids. \<exists>s. map_of (m_sessions m1) i = Some s \<and> idle m1 now s"
    using Cons.prems(2,3) ok(1,3) n by (auto simp: idle_def)
  from Cons.IH [OF ok(4) _ this r] Cons.prems(2) have
    "j = length sids" "map_of (m_sessions m2) = (\<lambda>x. if x \<in> set sids then None else map_of (m_sessions m1) x)"
    by simp_all
  then show ?case using Cons.prems(4) o r ok(1) n by (auto simp: Let_def fun_eq_iff)
qed simp

text \<open>
  A sweep that meets no failing system call expires exactly the idle sessions: it returns their
  number, the ones whose last activity is at most the timeout before now are all still registered,
  unchanged, and none of the others is.
\<close>

theorem Sweep_spec:
  assumes "distinct (map fst (m_sessions m))" "Sweep m now (\<lambda>_. (None, None)) = (k, m')"
  shows "k = length (filter (\<lambda>(_, s). idle m now s) (m_sessions m))
    \<and> map_of (m_sessions m') =
        (\<lambda>sid. case map_of (m_sessions m) sid of
                 Some s \<Rightarrow> if now - s_lastActive s > m_timeout m then None else Some s
               | None \<Rightarrow> None)"
proof -
  let ?c = "sweep_candidates m now"
  have d: "distinct ?c" using assms(1) by (simp add: sweep_candidates_def distinct_map_filter)
  have mem: "sid \<in> set ?c \<longleftrightarrow> (\<exists>s. map_of (m_sessions m) sid = Some s \<and> idle m now s)" for sid
    using assms(1) by (force simp: sweep_candidates_def)
  have "k = length ?c \<and> map_of (m_sessions m') = (\<lambda>x. if x \<in> set ?c then None else map_of (m_sessions m) x)"
    by (rule sweep_all_ok [OF assms(1) d]) (use mem assms(2) in \<open>auto simp: Sweep_def\<close>)
  moreover have "length ?c = length (filter (\<lambda>(_, s). idle m now s) (m_sessions m))"
    by (simp add: sweep_candidates_def)
  ultimately show ?thesis using mem by (auto simp: fun_eq_iff idle_def split: option.splits)
qed

section \<open>A concrete session\<close>

definition demo_session :: Session where
  "demo_session = newSession ''a1'' ''/up/a1'' 4 0"

definition demo_io :: write_io where
  "demo_io = \<lparr>w_spill = SpillOK, w_short = None\<rparr>"

lemma demo_session_inv: "sess_inv demo_session"
  by (simp add: demo_session_def sess_inv_new)

theorem Append_spec_witness:
  "\<exists>q. s_hashed (snd (snd (Append demo_session 1 ([(2, ''abc'', demo_io), (3, ''de'', demo_io)], None) 4))) = q
     \<and> q = ''abcde''
     \<and> s_disk (snd (snd (Append demo_session 1 ([(2, ''abc'', demo_io), (3, ''de'', demo_io)], None) 4))) = Some q"
proof -
  let ?a = "Append demo_session 1 ([(2, ''abc'', demo_io), (3, ''de'', demo_io)], None) 4"
  have e: "fst (snd ?a) = None" "s_open (snd (snd ?a))" by code_simp+
  have a: "?a = (fst ?a, None, snd (snd ?a))" using e(1) by (metis prod.collapse)
  have "\<not> s_closed demo_session" "s_hashed demo_session = []"
    by (simp_all add: demo_session_def newSession_def)
  with Append_spec [OF demo_session_inv _ a] e(2) show ?thesis by (auto simp: body_bytes_def)
qed

theorem Spool_snapshot_witness:
  "spool_Open (case session_Spool (\<lambda>_. 0) demo_session 1 of (Inr sp, _) \<Rightarrow> sp | _ \<Rightarrow> NewMemorySpool (\<lambda>_. 0) ''x'')
     (s_disk (snd (snd (Append (touch demo_session 1) 2 ([(2, ''abcdef'', demo_io)], None) 4)))) = Inr ''''"
proof -
  define sp where "sp = (case session_Spool (\<lambda>_. 0) demo_session 1 of
      (Inr sp, _) \<Rightarrow> sp | _ \<Rightarrow> NewMemorySpool (\<lambda>_. 0) ''x'')"
  have s: "session_Spool (\<lambda>_. 0) demo_session 1 = (Inr sp, touch demo_session 1)"
    by (simp add: sp_def session_Spool_def demo_session_def newSession_def touch_def)
  have "spool_Open sp (s_disk (snd (snd (Append (touch demo_session 1) 2 ([(2, ''abcdef'', demo_io)], None) 4))))
      = Inr (s_hashed demo_session)"
    using Spool_snapshot [OF demo_session_inv s, of _ "[(2, ([(2, ''abcdef'', demo_io)], None), 4)]"] by simp
  then show ?thesis by (simp add: sp_def demo_session_def newSession_def)
qed

definition demo_manager :: Manager where
  "demo_manager = \<lparr>m_dir = ''/up'', m_maxInMemory = 4, m_timeout = 10,
     m_sessions = [(''a'', demo_session), (''b'', touch demo_session 95)], m_closed = False\<rparr>"

theorem Sweep_spec_witness:
  "fst (Sweep demo_manager 100 (\<lambda>_. (None, None))) = 1
   \<and> map_of (m_sessions (snd (Sweep demo_manager 100 (\<lambda>_. (None, None))))) ''b'' = Some (touch demo_session 95)"
  using Sweep_spec [OF _ surjective_pairing, of demo_manager 100]
  by (simp add: demo_manager_def idle_def demo_session_def newSession_def touch_def)


end
