(* ===== verification/Blob_Store.thy ===== *)
theory Blob_Store
  imports Blob_Prism Upload
begin

text \<open>
  The blob store (src/blob/store.go, raw.go, refuse.go, pull.go, meta.go and the commit half of
  prism.go): finalizing an upload as a prism or as raw bytes, publishing it, the table of recent
  uploads, and serving it. \<open>blob_env\<close> collects the libraries (amber, the reference database, SHA-256,
  BLAKE3, JSON, zrecipe, tar-prism), \<open>fin_io\<close> what one call of Put meets: the context's error at its
  numbered checks, the spool's reader, and the outcomes of closing the writers. Put of one digest is
  serialized by the keyed mutex, so it is a function on the state it finds.
\<close>

record blob_Meta =
  bm_Version :: int
  bm_Digest :: digest
  bm_Size :: int
  bm_Kind :: Kind
  bm_Format :: format
  bm_RawReason :: "RawReason option"
  bm_DiffID :: digest
  bm_UncompressedSize :: int
  bm_Entries :: nat
  bm_Engine :: string
  bm_EngineVersion :: string
  bm_UploadedAt :: int
  bm_Stats :: Stats

definition MetaVersion :: int where "MetaVersion = 1"
definition MetaFile :: string where "MetaFile = ''meta.json''"
definition CompFile :: string where "CompFile = ''comp.json''"
definition RawFile :: string where "RawFile = ''raw''"
definition blobsDirName :: string where "blobsDirName = ''blobs''"

definition RefName :: "digest \<Rightarrow> string" where "RefName d = ''oci/blob/'' @ d"

record Options =
  o_VerifyRoundTrip :: bool
  o_AllowRaw :: bool
  o_RecentTTL :: int
  o_readOnly :: bool

record 's blob_store =
  bs_refs :: 's
  bs_recent :: "(digest \<times> Stats \<times> int) list"

record ('s, 'i, 'd, 'k, 'a) blob_env =
  be_S :: "('i, 'd, 'k) objstore"
  be_D :: "('s, 'k) refdb"
  be_sha :: "bytes \<Rightarrow> 256 word"
  be_blake3 :: "bytes \<Rightarrow> string"
  be_Encode :: "blob_Meta \<Rightarrow> bytes res"
  be_Unmarshal :: "bytes \<Rightarrow> blob_Meta option"
  be_Z :: "'a zrecipe"
  be_Confirm :: "'a \<Rightarrow> bytes \<times> (zerr + params)"
  be_DecomposeTo :: "bytes \<Rightarrow> decomposed"
  be_WriteParams :: "params \<Rightarrow> bytes res"
  be_ReadParams :: "bytes \<Rightarrow> params res"
  be_Recompress :: "'k Prism \<Rightarrow> params \<Rightarrow> bytes \<times> err option \<times> err option"

record fin_io =
  io_ctx :: "nat \<Rightarrow> err option"
  io_seek :: "err option"
  io_open :: "stream res"
  io_now :: int
  io_newPack :: "err option"
  io_packClose :: "err option"
  io_addPack :: "err option"
  io_close :: "Stats res"
  io_rawOpen :: "stream res"
  io_rawClose :: "Stats res"
  io_rootClose :: "err option"

section \<open>Reading (Open, Exists)\<close>

definition decodeMeta :: "('s, 'i, 'd, 'k, 'a) blob_env \<Rightarrow> bytes \<Rightarrow> blob_Meta res" where
  "decodeMeta E b =
     (case be_Unmarshal E b of
        None \<Rightarrow> Inl (ErrOther ''blob: decoding meta'')
      | Some m \<Rightarrow>
          if bm_Version m \<noteq> MetaVersion then Inl (ErrOther ''blob: unsupported meta version'') else Inr m)"

definition blob_readMeta :: "('s, 'i, 'd, 'k, 'a) blob_env \<Rightarrow> 'k \<Rightarrow> blob_Meta res" where
  "blob_readMeta E root =
     (case os_LookupKey (be_S E) root MetaFile of
        Inl er \<Rightarrow> Inl er
      | Inr k \<Rightarrow> (case os_ReadFile (be_S E) k of Inl er \<Rightarrow> Inl er | Inr data \<Rightarrow> decodeMeta E data))"

record 'k Blob =
  bl_Meta :: blob_Meta
  bl_root :: 'k

definition Exists :: "('s, 'i, 'd, 'k, 'a) blob_env \<Rightarrow> 's \<Rightarrow> digest \<Rightarrow> bool res" where
  "Exists E s d =
     (case Resolve (be_D E) s (RefName d) of
        Inl er \<Rightarrow> if er = ErrStoreNotFound then Inr False else Inl er
      | Inr _ \<Rightarrow> Inr True)"

definition blob_Open :: "('s, 'i, 'd, 'k, 'a) blob_env \<Rightarrow> 's \<Rightarrow> digest \<Rightarrow> 'k Blob res" where
  "blob_Open E s d =
     (case Resolve (be_D E) s (RefName d) of
        Inl er \<Rightarrow> Inl (if er = ErrStoreNotFound then ErrBlobNotFound else er)
      | Inr root \<Rightarrow>
          (case blob_readMeta E root of
             Inl er \<Rightarrow> Inl er
           | Inr meta \<Rightarrow>
               if bm_Digest meta \<noteq> d then Inl (ErrOther ''blob: meta.json names another digest'')
               else Inr \<lparr>bl_Meta = meta, bl_root = root\<rparr>))"

section \<open>The recent-uploads table\<close>

definition purgeRecent :: "Options \<Rightarrow> int \<Rightarrow> (digest \<times> Stats \<times> int) list \<Rightarrow> (digest \<times> Stats \<times> int) list" where
  "purgeRecent opts now recent = filter (\<lambda>(_, _, at). \<not> (now - at > o_RecentTTL opts)) recent"

definition recordRecent :: "Options \<Rightarrow> int \<Rightarrow> 's blob_store \<Rightarrow> digest \<Rightarrow> Stats \<Rightarrow> 's blob_store" where
  "recordRecent opts now st d stats =
     st\<lparr>bs_recent := AList.update d (stats, now) (purgeRecent opts now (bs_recent st))\<rparr>"

definition TakeRecent :: "Options \<Rightarrow> int \<Rightarrow> 's blob_store \<Rightarrow> digest \<Rightarrow> Stats option \<times> 's blob_store" where
  "TakeRecent opts now st d =
     (let recent = purgeRecent opts now (bs_recent st) in
      case map_of recent d of
        None \<Rightarrow> (None, st\<lparr>bs_recent := recent\<rparr>)
      | Some (stats, _) \<Rightarrow> (Some stats, st\<lparr>bs_recent := AList.delete d recent\<rparr>))"

definition blob_Delete :: "('s, 'i, 'd, 'k, 'a) blob_env \<Rightarrow> Options \<Rightarrow> 's blob_store \<Rightarrow> digest \<Rightarrow> err option \<times> 's blob_store" where
  "blob_Delete E opts st d =
     (if o_readOnly opts then (Some ErrReadOnly, st)
      else case DeleteRef (be_D E) (bs_refs st) (RefName d) of
        (er, s') \<Rightarrow>
          (if er = Some ErrStoreNotFound then Some ErrBlobNotFound else er, st\<lparr>bs_refs := s'\<rparr>))"

section \<open>Blob roots\<close>

text \<open>\<open>blobsDir\<close> is \<open>None\<close> for the zero key. Entries are added in the byte order of their names.\<close>

definition root_entries :: "(string \<times> 'k) list \<Rightarrow> 'k \<Rightarrow> 'k option \<Rightarrow> (string \<times> 'k) list" where
  "root_entries files metaKey blobsDir =
     (let entries = AList.update MetaFile metaKey files
      in case blobsDir of None \<Rightarrow> entries | Some k \<Rightarrow> AList.update blobsDirName k entries)"

definition buildRoot ::
  "('s, 'i, 'd, 'k, 'a) blob_env \<Rightarrow> blob_Meta \<Rightarrow> (string \<times> 'k) list \<Rightarrow> 'k option \<Rightarrow> 'k res" where
  "buildRoot E meta files blobsDir =
     (case be_Encode E meta of
        Inl er \<Rightarrow> Inl er
      | Inr data \<Rightarrow>
          (case PutBytes (be_S E) data of
             Inl er \<Rightarrow> Inl er
           | Inr metaKey \<Rightarrow>
               put_dir (be_S E) (map (\<lambda>(name, k). (blobsDir \<noteq> None \<and> name = blobsDirName, name, k))
                 (sort_key fst (root_entries files metaKey blobsDir)))))"

definition writeRoot ::
  "('s, 'i, 'd, 'k, 'a) blob_env \<Rightarrow> fin_io \<Rightarrow> blob_Meta \<Rightarrow> (string \<times> 'k) list \<Rightarrow> 'k option \<Rightarrow> 'k res" where
  "writeRoot E io meta files blobsDir =
     (case buildRoot E meta files blobsDir of
        Inl er \<Rightarrow> Inl er
      | Inr root \<Rightarrow> (case io_rootClose io of Some er \<Rightarrow> Inl er | None \<Rightarrow> Inr root))"

section \<open>The raw path\<close>

definition refuseRaw :: "Options \<Rightarrow> RawReason \<Rightarrow> err option" where
  "refuseRaw opts reason =
     (if reason = ReasonNotTar \<or> o_AllowRaw opts then None else Some (ErrRawRefused ''raw layers are refused''))"

definition ingestRaw :: "('s, 'i, 'd, 'k, 'a) blob_env \<Rightarrow> fin_io \<Rightarrow> Spool \<Rightarrow> 'k res" where
  "ingestRaw E io sp =
     (case io_ctx io 3 of
        Some er \<Rightarrow> Inl er
      | None \<Rightarrow>
          (case io_rawOpen io of
             Inl er \<Rightarrow> Inl er
           | Inr r \<Rightarrow>
               (case PutStream (be_S E) r of
                  Inl er \<Rightarrow> Inl er
                | Inr k \<Rightarrow>
                    if int (key_Length (os_K (be_S E)) k) \<noteq> sp_size sp
                    then Inl (ErrOther ''blob: stored raw bytes, spool holds another number'')
                    else Inr k)))"

definition finalizeRaw ::
  "('s, 'i, 'd, 'k, 'a) blob_env \<Rightarrow> fin_io \<Rightarrow> Spool \<Rightarrow> blob_Meta \<Rightarrow> RawReason \<Rightarrow> ('k \<times> blob_Meta) res" where
  "finalizeRaw E io sp meta reason =
     (case ingestRaw E io sp of
        Inl er \<Rightarrow> Inl er
      | Inr rawKey \<Rightarrow>
          (case io_rawClose io of
             Inl er \<Rightarrow> Inl er
           | Inr stats \<Rightarrow>
               (let meta' = meta\<lparr>bm_Kind := KindRaw, bm_RawReason := Some reason, bm_DiffID := '''',
                      bm_UncompressedSize := 0, bm_Entries := 0, bm_Engine := '''',
                      bm_EngineVersion := '''', bm_Stats := stats\<rparr>
                in case writeRoot E io meta' [(RawFile, rawKey)] None of
                     Inl er \<Rightarrow> Inl er
                   | Inr root \<Rightarrow> Inr (root, meta'))))"

section \<open>The prism path\<close>

record 'k prismResult =
  px_recipe :: 'k
  px_index :: 'k
  px_blobs :: 'k
  px_comp :: 'k
  px_entries :: nat
  px_diffID :: digest
  px_uncompressedSize :: int

definition commit ::
  "('s, 'i, 'd, 'k, 'a) blob_env \<Rightarrow> fin_io \<Rightarrow> 'k staged \<Rightarrow> params \<Rightarrow> 'k prismResult res" where
  "commit E io s params =
     (case io_addPack io of
        Some er \<Rightarrow> Inl er
      | None \<Rightarrow>
          (case be_WriteParams E params of
             Inl er \<Rightarrow> Inl er
           | Inr encoded \<Rightarrow>
               (case PutBytes (be_S E) encoded of
                  Inl er \<Rightarrow> Inl er
                | Inr compKey \<Rightarrow>
                    Inr \<lparr>px_recipe = sg_recipe s, px_index = sg_index s, px_blobs = sg_blobs s,
                         px_comp = compKey, px_entries = sg_entries s, px_diffID = sg_diffID s,
                         px_uncompressedSize = sg_size s\<rparr>)))"

definition roundTripCheck ::
  "('s, 'i, 'd, 'k, 'a) blob_env \<Rightarrow> err option \<Rightarrow> 'k Prism \<Rightarrow> params \<Rightarrow> digest \<Rightarrow> err option" where
  "roundTripCheck E ctx src params want =
     (case be_Recompress E src params of
        (out, cerr, rerr) \<Rightarrow>
          (case composeRecompress ctx cerr rerr of
             Some er \<Rightarrow> Some er
           | None \<Rightarrow>
               if DigestOfBytes (be_sha E) out \<noteq> want then Some (ErrOther ''round trip produced another digest'')
               else None))"

datatype 'k prism_outcome = POk "'k prismResult" params Stats | PFallback RawReason | PFail err

fun stage_cause :: "stage_err \<Rightarrow> err" where
  "stage_cause (SinkError er) = er"
| "stage_cause (ReadError er) = er"
| "stage_cause (DecomposeError er) = er"
| "stage_cause (CtxError er) = er"
| "stage_cause (PlainError er) = er"

fun zerr_cause :: "zerr \<Rightarrow> err" where
  "zerr_cause (ZOther er) = er"
| "zerr_cause ze = ErrOther ''blob: confirm''"

definition or_ctx :: "err option \<Rightarrow> 'k prism_outcome \<Rightarrow> 'k prism_outcome" where
  "or_ctx ctx p = (case ctx of Some er \<Rightarrow> PFail er | None \<Rightarrow> p)"

definition finalizePrism ::
  "('s, 'i, 'd, 'k, 'a) blob_env \<Rightarrow> Options \<Rightarrow> fin_io \<Rightarrow> 'a \<Rightarrow> digest \<Rightarrow> 'k prism_outcome" where
  "finalizePrism E opts io a d =
     (case io_newPack io of
        Some er \<Rightarrow> PFail er
      | None \<Rightarrow>
     (case be_Confirm E a of
        (_, Inl ze) \<Rightarrow>
          or_ctx (io_ctx io 4)
            (if ze = ZNotReproducible then PFallback ReasonNotReproducible else PFail (zerr_cause ze))
      | (bs, Inr params) \<Rightarrow>
          (let s = stage_layer (be_S E) (be_sha E) (be_blake3 E) (be_DecomposeTo E) (io_ctx io 5) (io_packClose io) bs
           in case (staged_check s params, s) of
                (Some er, _) \<Rightarrow>
                  or_ctx (io_ctx io 6)
                    (case er of DecomposeError _ \<Rightarrow> PFallback ReasonDecomposeFailed | _ \<Rightarrow> PFail (stage_cause er))
              | (None, Inl er) \<Rightarrow> PFail (stage_cause er)
              | (None, Inr g) \<Rightarrow>
                  (case commit E io g params of
                     Inl er \<Rightarrow> or_ctx (io_ctx io 7) (PFail er)
                   | Inr res \<Rightarrow>
                       (case io_close io of
                          Inl er \<Rightarrow> PFail er
                        | Inr stats \<Rightarrow>
                            if \<not> o_VerifyRoundTrip opts then POk res params stats
                            else case readCompParams (be_S E) (be_ReadParams E) (px_comp res) of
                              Inl er \<Rightarrow> PFail er
                            | Inr stored \<Rightarrow>
                                (case roundTripCheck E (io_ctx io 8)
                                    \<lparr>ps_recipe = px_recipe res, ps_index = px_index res, ps_blobs = px_blobs res\<rparr>
                                    stored d of
                                   None \<Rightarrow> POk res params stats
                                 | Some er \<Rightarrow> or_ctx (io_ctx io 9) (PFallback ReasonRoundTripFailed)))))))"

section \<open>Put\<close>

definition dedupHit :: "Options \<Rightarrow> int \<Rightarrow> 's blob_store \<Rightarrow> blob_Meta \<Rightarrow> blob_Meta \<times> 's blob_store" where
  "dedupHit opts now st existing =
     (let stats = \<lparr>LogicalBytes = bm_Size existing, NewLogicalBytes = 0, DedupedBytes = bm_Size existing,
                   DiskBytes = 0, ObjectsNew = 0, ObjectsDeduped = 0\<rparr>
      in (existing\<lparr>bm_Stats := stats\<rparr>, recordRecent opts now st (bm_Digest existing) stats))"

definition Reuse ::
  "('s, 'i, 'd, 'k, 'a) blob_env \<Rightarrow> Options \<Rightarrow> int \<Rightarrow> 's blob_store \<Rightarrow> digest \<Rightarrow> blob_Meta res \<times> 's blob_store" where
  "Reuse E opts now st d =
     (case blob_Open E (bs_refs st) d of
        Inl er \<Rightarrow> (Inl er, st)
      | Inr existing \<Rightarrow> (case dedupHit opts now st (bl_Meta existing) of (meta, st') \<Rightarrow> (Inr meta, st')))"

definition new_meta :: "Spool \<Rightarrow> format \<Rightarrow> int \<Rightarrow> blob_Meta" where
  "new_meta sp f now =
     \<lparr>bm_Version = MetaVersion, bm_Digest = sp_digest sp, bm_Size = sp_size sp, bm_Kind = KindRaw,
      bm_Format = f, bm_RawReason = None, bm_DiffID = '''', bm_UncompressedSize = 0, bm_Entries = 0,
      bm_Engine = '''', bm_EngineVersion = '''', bm_UploadedAt = now,
      bm_Stats = \<lparr>LogicalBytes = 0, NewLogicalBytes = 0, DedupedBytes = 0, DiskBytes = 0,
                  ObjectsNew = 0, ObjectsDeduped = 0\<rparr>\<rparr>"

text \<open>The root of a decided blob: steps 6 to 8 of the finalization.\<close>

definition raw_root ::
  "('s, 'i, 'd, 'k, 'a) blob_env \<Rightarrow> Options \<Rightarrow> fin_io \<Rightarrow> Spool \<Rightarrow> blob_Meta \<Rightarrow> RawReason \<Rightarrow> ('k \<times> blob_Meta) res" where
  "raw_root E opts io sp meta reason =
     (case refuseRaw opts reason of Some er \<Rightarrow> Inl er | None \<Rightarrow> finalizeRaw E io sp meta reason)"

definition prism_meta :: "blob_Meta \<Rightarrow> 'k prismResult \<Rightarrow> params \<Rightarrow> Stats \<Rightarrow> blob_Meta" where
  "prism_meta meta res params stats =
     meta\<lparr>bm_Kind := KindPrism, bm_DiffID := px_diffID res,
          bm_UncompressedSize := px_uncompressedSize res, bm_Entries := px_entries res,
          bm_Engine := pr_Engine params, bm_EngineVersion := pr_EngineVersion params, bm_Stats := stats\<rparr>"

definition store_decided ::
  "('s, 'i, 'd, 'k, 'a) blob_env \<Rightarrow> Options \<Rightarrow> fin_io \<Rightarrow> Spool \<Rightarrow> 'a decision \<Rightarrow> ('k \<times> blob_Meta) res" where
  "store_decided E opts io sp dec =
     (let meta = new_meta sp (dec_format dec) (io_now io) in
      case dec of
        DecRaw reason _ \<Rightarrow> raw_root E opts io sp meta reason
      | DecPrism a _ \<Rightarrow>
          (case finalizePrism E opts io a (sp_digest sp) of
             PFail er \<Rightarrow> Inl er
           | PFallback reason \<Rightarrow> raw_root E opts io sp meta reason
           | POk res params stats \<Rightarrow>
               (let meta' = prism_meta meta res params stats
                in case writeRoot E io meta'
                      [(''recipe.bin'', px_recipe res), (''recipe.json'', px_index res), (CompFile, px_comp res)]
                      (Some (px_blobs res)) of
                     Inl er \<Rightarrow> Inl er
                   | Inr root \<Rightarrow> Inr (root, meta'))))"

text \<open>
  Put returns the stored Meta, the state and whether the spool was removed. \<open>slot\<close> is the context's
  error when it ended while waiting for a finalize slot.
\<close>

definition Put ::
  "('s, 'i, 'd, 'k, 'a) blob_env \<Rightarrow> Options \<Rightarrow> fin_io \<Rightarrow> err option \<Rightarrow> 's blob_store \<Rightarrow> Spool option
     \<Rightarrow> blob_Meta res \<times> 's blob_store \<times> bool" where
  "Put E opts io slot st spo =
     (case spo of
        None \<Rightarrow> (Inl (ErrOther ''blob: nil spool''), st, False)
      | Some sp \<Rightarrow>
     (if o_readOnly opts then (Inl ErrReadOnly, st, False)
      else case io_ctx io 0 of
        Some er \<Rightarrow> (Inl er, st, False)
      | None \<Rightarrow>
     (case blob_Open E (bs_refs st) (sp_digest sp) of
        Inr existing \<Rightarrow>
          (case dedupHit opts (io_now io) st (bl_Meta existing) of (meta, st') \<Rightarrow> (Inr meta, st', True))
      | Inl er \<Rightarrow>
          if er \<noteq> ErrBlobNotFound then (Inl er, st, False)
          else case slot of
            Some er \<Rightarrow> (Inl er, st, False)
          | None \<Rightarrow>
              (case analyze (be_Z E) (io_ctx io 1) (io_ctx io 2) (io_seek io) (io_open io) of
                 Inl er \<Rightarrow> (Inl er, st, False)
               | Inr dec \<Rightarrow>
                   (case store_decided E opts io sp dec of
                      Inl er \<Rightarrow> (Inl er, st, False)
                    | Inr (root, meta) \<Rightarrow>
                        (case Publish (be_D E) (bs_refs st) (RefName (sp_digest sp)) root of
                           (Some er, s') \<Rightarrow> (Inl er, st\<lparr>bs_refs := s'\<rparr>, False)
                         | (None, s') \<Rightarrow>
                             (Inr meta,
                              recordRecent opts (io_now io) (st\<lparr>bs_refs := s'\<rparr>) (sp_digest sp) (bm_Stats meta),
                              True)))))))"

section \<open>Serving (pull.go)\<close>

definition SupportsRange :: "'k Blob \<Rightarrow> bool" where
  "SupportsRange bl \<longleftrightarrow> bm_Kind (bl_Meta bl) = KindRaw"

definition blob_Prism :: "('s, 'i, 'd, 'k, 'a) blob_env \<Rightarrow> 'k Blob \<Rightarrow> 'k Prism res" where
  "blob_Prism E bl =
     (if bm_Kind (bl_Meta bl) \<noteq> KindPrism then Inl ErrNotPrism else openSource (be_S E) (bl_root bl))"

definition writeRaw :: "('s, 'i, 'd, 'k, 'a) blob_env \<Rightarrow> 'k \<Rightarrow> bytes \<times> err option" where
  "writeRaw E root =
     (case os_LookupKey (be_S E) root RawFile of
        Inl er \<Rightarrow> ([], Some er)
      | Inr k \<Rightarrow> (case os_WriteContent (be_S E) k of Inl er \<Rightarrow> ([], Some er) | Inr bs \<Rightarrow> (bs, None)))"

definition writePrism ::
  "('s, 'i, 'd, 'k, 'a) blob_env \<Rightarrow> err option \<Rightarrow> 'k \<Rightarrow> params \<Rightarrow> bytes \<times> err option" where
  "writePrism E ctx root params =
     (case openSource (be_S E) root of
        Inl er \<Rightarrow> ([], Some er)
      | Inr src \<Rightarrow>
          (case be_Recompress E src params of (out, cerr, rerr) \<Rightarrow> (out, composeRecompress ctx cerr rerr)))"

text \<open>
  WriteTo: the bytes written and the error. \<open>ctx\<close> is the context's error as the writer, or after
  composing the pipeline, sees it; a cancelled raw pull writes nothing more.
\<close>

definition WriteTo :: "('s, 'i, 'd, 'k, 'a) blob_env \<Rightarrow> err option \<Rightarrow> 'k Blob \<Rightarrow> bytes \<times> err option" where
  "WriteTo E ctx bl =
     (case (case bm_Kind (bl_Meta bl) of
              KindRaw \<Rightarrow> (case ctx of Some er \<Rightarrow> ([], Some er) | None \<Rightarrow> writeRaw E (bl_root bl))
            | KindPrism \<Rightarrow>
                (case readParams (be_S E) (be_ReadParams E) (bl_root bl) of
                   Inl er \<Rightarrow> ([], Some er)
                 | Inr params \<Rightarrow> writePrism E ctx (bl_root bl) params)) of
        (out, Some er) \<Rightarrow> (out, Some er)
      | (out, None) \<Rightarrow>
          (out, if DigestOfBytes (be_sha E) out \<noteq> bm_Digest (bl_Meta bl) then Some ErrBlobDigestMismatch else None))"

text \<open>io.CopyN from a Reader: reads of at most 32 KiB until \<open>n\<close> bytes are written.\<close>

partial_function (option) copyN ::
  "'k keyops \<Rightarrow> ('k \<Rightarrow> bytes res) \<Rightarrow> (bytes \<Rightarrow> 'k list res) \<Rightarrow> nat \<Rightarrow> 'k Reader \<Rightarrow> bytes
     \<Rightarrow> (bytes \<times> rd_err option) option" where
  "copyN K get dec n r acc =
     (if n = 0 then Some (acc, None)
      else do {
        (out, er, r') \<leftarrow> Reader_Read K get dec (min 32768 n) r;
        (case er of
           Some e \<Rightarrow> Some (acc, Some e)
         | None \<Rightarrow> copyN K get dec (n - length out) r' (acc @ out))
      })"

definition WriteRange ::
  "('s, 'i, 'd, 'k, 'a) blob_env \<Rightarrow> 'k Blob \<Rightarrow> int \<Rightarrow> int \<Rightarrow> (bytes \<times> rd_err option) option" where
  "WriteRange E bl start stop =
     (if \<not> SupportsRange bl then Some ([], Some (RErr (ErrOther ''blob: cannot serve ranges'')))
      else if start < 0 \<or> stop < start \<or> stop \<ge> bm_Size (bl_Meta bl)
      then Some ([], Some (RErr (ErrOther ''blob: range is not satisfiable'')))
      else case os_LookupKey (be_S E) (bl_root bl) RawFile of
        Inl er \<Rightarrow> Some ([], Some (RErr er))
      | Inr k \<Rightarrow>
          do {
            (er, r) \<leftarrow> Reader_Skip (os_K (be_S E)) (os_get (be_S E)) (os_dec (be_S E)) start (NewReader k);
            (case er of
               Some e \<Rightarrow> Some ([], Some e)
             | None \<Rightarrow>
                 copyN (os_K (be_S E)) (os_get (be_S E)) (os_dec (be_S E)) (nat (stop - start + 1)) r [])
          })"

section \<open>What was stored is found again\<close>

definition blob_env_ok ::
  "('s, 'i, 'd, 'k, 'a) blob_env \<Rightarrow> ('s \<Rightarrow> string \<rightharpoonup> bytes) \<Rightarrow> ('d \<Rightarrow> 'k fentry list) \<Rightarrow> ('i \<Rightarrow> 'k list) \<Rightarrow> bool" where
  "blob_env_ok E tbl cont kids \<longleftrightarrow>
     refdb_ok (be_D E) tbl \<and> objstore_ok (be_S E) cont kids
     \<and> (\<forall>m data. be_Encode E m = Inr data \<longrightarrow> be_Unmarshal E data = Some m)"

lemma set_update_same: "(k, v) \<in> set (AList.update k v al)"
  by (induction al) auto

lemma set_update_other: "(k, v) \<in> set al \<Longrightarrow> k \<noteq> k' \<Longrightarrow> (k, v) \<in> set (AList.update k' v' al)"
  by (induction al) auto

lemmas file_names = MetaFile_def CompFile_def RawFile_def blobsDirName_def

lemma writeRoot_lookup:
  assumes ok: "blob_env_ok E tbl cont kids" and w: "writeRoot E io meta files bd = Inr root"
    and v: "bm_Version meta = MetaVersion"
  shows "blob_readMeta E root = Inr meta"
    and "(name, k) \<in> set files \<Longrightarrow> name \<noteq> MetaFile \<Longrightarrow> name \<noteq> blobsDirName \<Longrightarrow> os_LookupKey (be_S E) root name = Inr k"
    and "bd = Some k \<Longrightarrow> os_LookupKey (be_S E) root blobsDirName = Inr k"
proof -
  have os: "objstore_ok (be_S E) cont kids" using ok by (simp add: blob_env_ok_def)
  from w obtain data mk where e: "be_Encode E meta = Inr data" "PutBytes (be_S E) data = Inr mk"
    and p: "put_dir (be_S E) (map (\<lambda>(name, k). (bd \<noteq> None \<and> name = blobsDirName, name, k))
             (sort_key fst (root_entries files mk bd))) = Inr root"
    by (auto simp: writeRoot_def buildRoot_def split: sum.splits option.splits)
  have l: "os_LookupKey (be_S E) root name = Inr k" if "(name, k) \<in> set (root_entries files mk bd)" for name k
    using that by (intro put_dir_LookupKey(1) [OF os p, of "bd \<noteq> None \<and> name = blobsDirName"]) (force simp: image_iff)
  have "(MetaFile, mk) \<in> set (root_entries files mk bd)"
    by (cases bd) (simp_all add: root_entries_def Let_def set_update_same set_update_other file_names)
  note lm = l [OF this]
  have "os_ReadFile (be_S E) mk = Inr data"
    using e(2) ReadFile_content [OF os] PutStream_content [OF os] by (simp add: PutBytes_def)
  moreover have "be_Unmarshal E data = Some meta" using ok e(1) by (simp add: blob_env_ok_def)
  ultimately show "blob_readMeta E root = Inr meta"
    using v lm by (simp add: blob_readMeta_def decodeMeta_def)
  show "os_LookupKey (be_S E) root name = Inr k"
    if "(name, k) \<in> set files" "name \<noteq> MetaFile" "name \<noteq> blobsDirName"
    by (rule l) (use that in \<open>auto simp: root_entries_def Let_def intro!: set_update_other split: option.split\<close>)
  show "os_LookupKey (be_S E) root blobsDirName = Inr k" if "bd = Some k"
    by (rule l) (simp add: that root_entries_def Let_def set_update_same)
qed

lemma finalizeRaw_ok:
  assumes ok: "blob_env_ok E tbl cont kids" and f: "finalizeRaw E io sp meta reason = Inr (root, meta')"
    and v: "bm_Version meta = MetaVersion"
  shows "blob_readMeta E root = Inr meta' \<and> bm_Digest meta' = bm_Digest meta \<and> bm_Kind meta' = KindRaw
    \<and> bm_Size meta' = bm_Size meta \<and> bm_RawReason meta' = Some reason
    \<and> (\<exists>k bs. io_rawOpen io = Inr (bs, None) \<and> int (length bs) = sp_size sp
         \<and> os_LookupKey (be_S E) root RawFile = Inr k \<and> os_content (be_S E) k bs)"
proof -
  have os: "objstore_ok (be_S E) cont kids" using ok by (simp add: blob_env_ok_def)
  from f obtain k stats where i: "ingestRaw E io sp = Inr k" "io_rawClose io = Inr stats"
    and m: "meta' = meta\<lparr>bm_Kind := KindRaw, bm_RawReason := Some reason, bm_DiffID := '''',
        bm_UncompressedSize := 0, bm_Entries := 0, bm_Engine := '''', bm_EngineVersion := '''', bm_Stats := stats\<rparr>"
    and w: "writeRoot E io meta' [(RawFile, k)] None = Inr root"
    by (auto simp: finalizeRaw_def Let_def split: sum.splits)
  from i(1) obtain bs er where r: "io_rawOpen io = Inr (bs, er)" "PutStream (be_S E) (bs, er) = Inr k"
    "int (key_Length (os_K (be_S E)) k) = sp_size sp"
    by (auto simp: ingestRaw_def split: option.splits sum.splits if_splits prod.splits)
  note c = PutStream_content [OF os r(2)]
  have "bm_Version meta' = MetaVersion" using v m by simp
  note wl = writeRoot_lookup [OF ok w this]
  show ?thesis
    using c r wl(1) wl(2) [of RawFile k] m content_length [of _ _ _ k bs] by (auto simp: file_names)
qed

lemma raw_root_ok:
  assumes "blob_env_ok E tbl cont kids" "raw_root E opts io sp meta reason = Inr (root, meta')"
    and "bm_Version meta = MetaVersion"
  shows "blob_readMeta E root = Inr meta' \<and> bm_Digest meta' = bm_Digest meta \<and> bm_Kind meta' = KindRaw
    \<and> bm_Size meta' = bm_Size meta
    \<and> bm_RawReason meta' = Some reason \<and> (reason = ReasonNotTar \<or> o_AllowRaw opts)
    \<and> (\<exists>k bs. io_rawOpen io = Inr (bs, None) \<and> int (length bs) = sp_size sp
         \<and> os_LookupKey (be_S E) root RawFile = Inr k \<and> os_content (be_S E) k bs)"
  using assms(2) finalizeRaw_ok [OF assms(1) _ assms(3)]
  by (auto simp: raw_root_def refuseRaw_def split: option.splits if_splits)

lemma store_decided_ok:
  assumes ok: "blob_env_ok E tbl cont kids" and s: "store_decided E opts io sp dec = Inr (root, meta)"
  shows "blob_readMeta E root = Inr meta \<and> bm_Digest meta = sp_digest sp \<and> bm_Size meta = sp_size sp
    \<and> (bm_Kind meta = KindRaw \<longrightarrow>
         (\<exists>reason. bm_RawReason meta = Some reason \<and> (reason = ReasonNotTar \<or> o_AllowRaw opts))
         \<and> (\<exists>k bs. io_rawOpen io = Inr (bs, None) \<and> int (length bs) = sp_size sp
              \<and> os_LookupKey (be_S E) root RawFile = Inr k \<and> os_content (be_S E) k bs))
    \<and> (bm_Kind meta = KindPrism \<longrightarrow>
         (\<exists>a f. dec = DecPrism a f) \<and> (\<exists>src. openSource (be_S E) root = Inr src))"
proof -
  let ?m = "new_meta sp (dec_format dec) (io_now io)"
  have v: "bm_Version ?m = MetaVersion" "bm_Digest ?m = sp_digest sp" "bm_Size ?m = sp_size sp"
    by (simp_all add: new_meta_def)
  from s consider (raw) reason where "raw_root E opts io sp ?m reason = Inr (root, meta)"
    | (prism) a f res params stats where "dec = DecPrism a f"
      "meta = prism_meta ?m res params stats"
      "writeRoot E io meta [(''recipe.bin'', px_recipe res), (''recipe.json'', px_index res), (CompFile, px_comp res)]
         (Some (px_blobs res)) = Inr root"
    by (auto simp: store_decided_def Let_def split: decision.splits prism_outcome.splits sum.splits)
  then show ?thesis
  proof cases
    case raw
    from raw_root_ok [OF ok raw v(1)] show ?thesis using v by auto
  next
    case prism
    have "bm_Version meta = MetaVersion" using v prism(2) by (simp add: prism_meta_def)
    note wl = writeRoot_lookup [OF ok prism(3) this]
    have "openSource (be_S E) root = Inr \<lparr>ps_recipe = px_recipe res, ps_index = px_index res, ps_blobs = px_blobs res\<rparr>"
      using wl(2) [of "''recipe.bin''" "px_recipe res"] wl(2) [of "''recipe.json''" "px_index res"] wl(3)
      by (simp add: openSource_def file_names)
    then show ?thesis using wl(1) prism v by (simp add: prism_meta_def)
  qed
qed

text \<open>
  The three ways a Put ends: it fails and leaves the state alone, it finds the digest published, or
  it publishes a root that store_decided built.
\<close>

lemma Put_cases:
  assumes "Put E opts io slot st (Some sp) = (r, st', rm)"
  obtains (err) er where "r = Inl er" "st' = st" "\<not> rm"
  | (dedup) b where "blob_Open E (bs_refs st) (sp_digest sp) = Inr b" "rm"
      "(\<lambda>m s. r = Inr m \<and> st' = s) (fst (dedupHit opts (io_now io) st (bl_Meta b))) (snd (dedupHit opts (io_now io) st (bl_Meta b)))"
  | (stored) dec root meta s' where "rm" "r = Inr meta"
      "blob_Open E (bs_refs st) (sp_digest sp) = Inl ErrBlobNotFound"
      "analyze (be_Z E) (io_ctx io 1) (io_ctx io 2) (io_seek io) (io_open io) = Inr dec"
      "store_decided E opts io sp dec = Inr (root, meta)"
      "Publish (be_D E) (bs_refs st) (RefName (sp_digest sp)) root = (None, s')"
      "st' = recordRecent opts (io_now io) (st\<lparr>bs_refs := s'\<rparr>) (sp_digest sp) (bm_Stats meta)"
proof -
  have same: "st\<lparr>bs_refs := s\<rparr> = st" if "Publish (be_D E) (bs_refs st) n root = (Some er, s)" for n root er s
    using Publish_Some [of "be_D E" "bs_refs st" n root er] that by simp
  have fail: "\<exists>er. r = Inl er \<and> st' = st \<and> \<not> rm \<Longrightarrow> ?thesis" using err by blast
  show ?thesis
  proof (cases "blob_Open E (bs_refs st) (sp_digest sp)")
    case (Inr b)
    then show ?thesis
      using assms fail dedup [of b] by (auto simp: Put_def split: if_splits option.splits prod.splits)
  next
    case (Inl er)
    show ?thesis
    proof (cases "o_readOnly opts \<or> io_ctx io 0 \<noteq> None \<or> er \<noteq> ErrBlobNotFound \<or> slot \<noteq> None")
      case True
      then have "\<exists>er. r = Inl er \<and> st' = st \<and> \<not> rm"
        using assms Inl by (cases "o_readOnly opts"; cases "io_ctx io 0"; cases slot) (auto simp: Put_def split: if_splits)
      then show ?thesis by (rule fail)
    next
      case False
      then have run: "(r, st', rm) =
          (case analyze (be_Z E) (io_ctx io 1) (io_ctx io 2) (io_seek io) (io_open io) of
             Inl er \<Rightarrow> (Inl er, st, False)
           | Inr dec \<Rightarrow>
               (case store_decided E opts io sp dec of
                  Inl er \<Rightarrow> (Inl er, st, False)
                | Inr (root, meta) \<Rightarrow>
                    (case Publish (be_D E) (bs_refs st) (RefName (sp_digest sp)) root of
                       (Some er, s') \<Rightarrow> (Inl er, st\<lparr>bs_refs := s'\<rparr>, False)
                     | (None, s') \<Rightarrow>
                         (Inr meta,
                          recordRecent opts (io_now io) (st\<lparr>bs_refs := s'\<rparr>) (sp_digest sp) (bm_Stats meta),
                          True))))"
        using assms Inl by (simp add: Put_def)
      have nf: "blob_Open E (bs_refs st) (sp_digest sp) = Inl ErrBlobNotFound" using Inl False by simp
      show ?thesis
        using run fail stored [OF _ _ nf] same by (fastforce split: sum.splits prod.splits option.splits)
    qed
  qed
qed

lemma bs_refs_recordRecent [simp]: "bs_refs (recordRecent opts now st d stats) = bs_refs st"
  by (simp add: recordRecent_def)

lemma blob_Open_Inr:
  "blob_Open E s d = Inr b \<longleftrightarrow>
     Resolve (be_D E) s (RefName d) = Inr (bl_root b) \<and> blob_readMeta E (bl_root b) = Inr (bl_Meta b)
     \<and> bm_Digest (bl_Meta b) = d"
  by (cases b) (auto simp: blob_Open_def split: sum.splits if_splits)

lemma Put_effects:
  assumes ok: "blob_env_ok E tbl cont kids" and put: "Put E opts io slot st (Some sp) = (r, st', rm)"
  shows "case r of
           Inl er \<Rightarrow> st' = st \<and> \<not> rm
         | Inr meta \<Rightarrow> rm \<and> bm_Digest meta = sp_digest sp
             \<and> (\<exists>b. blob_Open E (bs_refs st') (sp_digest sp) = Inr b
                   \<and> bl_Meta b = meta\<lparr>bm_Stats := bm_Stats (bl_Meta b)\<rparr>)
             \<and> (\<forall>n. n \<noteq> RefName (sp_digest sp) \<longrightarrow> Resolve (be_D E) (bs_refs st') n = Resolve (be_D E) (bs_refs st) n)
             \<and> (blob_Open E (bs_refs st) (sp_digest sp) = Inl ErrBlobNotFound \<and> bm_Kind meta = KindRaw \<longrightarrow>
                  bm_RawReason meta = Some ReasonNotTar \<or> o_AllowRaw opts)"
  using put
proof (cases rule: Put_cases)
  case (dedup b)
  then show ?thesis
    using blob_Open_Inr [of E "bs_refs st" "sp_digest sp" b] by (auto simp: dedupHit_def Let_def)
next
  case (stored dec root meta s')
  have db: "refdb_ok (be_D E) tbl" using ok by (simp add: blob_env_ok_def)
  note sd = store_decided_ok [OF ok stored(5)]
  note res = Publish_Resolve [OF db stored(6)]
  have "blob_Open E (bs_refs st') (sp_digest sp) = Inr \<lparr>bl_Meta = meta, bl_root = root\<rparr>"
    using res sd stored(7) by (simp add: blob_Open_Inr)
  then show ?thesis using sd stored res by auto
qed simp

text \<open>
  Finalizing an upload. When Put fails, for whatever reason and at whatever step, the store is
  as it was and the spool is still there. When it succeeds, the digest can be opened and yields the
  Meta that Put returned, apart from the accounting of a duplicate, with the spool's digest; no other
  reference has changed; and a blob that Put stored raw is one that was not a tar, or one of a store
  that accepts raw layers.
\<close>

theorem Put_publishes:
  assumes ok: "blob_env_ok E tbl cont kids" and put: "Put E opts io slot st (Some sp) = (r, st', rm)"
  shows "case r of
           Inl er \<Rightarrow> st' = st \<and> \<not> rm
         | Inr meta \<Rightarrow> rm \<and> bm_Digest meta = sp_digest sp
             \<and> (\<exists>b. blob_Open E (bs_refs st') (sp_digest sp) = Inr b
                   \<and> bl_Meta b = meta\<lparr>bm_Stats := bm_Stats (bl_Meta b)\<rparr>)
             \<and> (\<forall>n. n \<noteq> RefName (sp_digest sp) \<longrightarrow> Resolve (be_D E) (bs_refs st') n = Resolve (be_D E) (bs_refs st) n)
             \<and> (blob_Open E (bs_refs st) (sp_digest sp) = Inl ErrBlobNotFound \<and> bm_Kind meta = KindRaw \<longrightarrow>
                  bm_RawReason meta = Some ReasonNotTar \<or> o_AllowRaw opts)"
  by (rule Put_effects [OF assms])

section \<open>What was stored is served\<close>

lemma copyN_ok:
  assumes "reader_rest K get dec r bs" "n \<le> length bs"
  shows "copyN K get dec n r acc = Some (acc @ take n bs, None)"
  using assms
proof (induction n arbitrary: r bs acc rule: less_induct)
  case (less n)
  show ?case
  proof (cases "n = 0")
    case True
    then show ?thesis by (simp add: copyN.simps)
  next
    case False
    then have "bs \<noteq> []" "0 < min 32768 n" using less.prems(2) by auto
    with Reader_Read_ok [OF less.prems(1), of "min 32768 n"] obtain out r' rest where
      rd: "Reader_Read K get dec (min 32768 n) r = Some (out, None, r')"
      and out: "0 < length out" "length out \<le> min 32768 n" "bs = out @ rest" "reader_rest K get dec r' rest"
      by auto
    have "copyN K get dec (n - length out) r' (acc @ out) = Some ((acc @ out) @ take (n - length out) rest, None)"
      by (rule less.IH) (use out less.prems(2) False in auto)
    then show ?thesis using rd out False by (subst copyN.simps) auto
  qed
qed

lemma WriteRange_ok:
  assumes "SupportsRange bl" "os_LookupKey (be_S E) (bl_root bl) RawFile = Inr k"
    and "os_content (be_S E) k bs" "int (length bs) = bm_Size (bl_Meta bl)"
    and "0 \<le> start" "start \<le> stop" "stop < int (length bs)"
  shows "WriteRange E bl start stop = Some (take (nat (stop - start + 1)) (drop (nat start) bs), None)"
proof -
  from Reader_Skip_ok [OF reader_rest_NewReader [OF assms(3)] assms(5)] obtain r' where
    "Reader_Skip (os_K (be_S E)) (os_get (be_S E)) (os_dec (be_S E)) start (NewReader k) = Some (None, r')"
    "reader_rest (os_K (be_S E)) (os_get (be_S E)) (os_dec (be_S E)) r' (drop (nat start) bs)" by blast
  moreover have "nat (stop - start + 1) \<le> length (drop (nat start) bs)" using assms(5-7) by simp
  ultimately show ?thesis
    using assms copyN_ok [of _ _ _ r' "drop (nat start) bs" "nat (stop - start + 1)" "[]"]
    by (simp add: WriteRange_def)
qed

lemma WriteRange_bad:
  assumes "\<not> (SupportsRange bl \<and> 0 \<le> start \<and> start \<le> stop \<and> stop < bm_Size (bl_Meta bl))"
  shows "\<exists>er. WriteRange E bl start stop = Some ([], Some er)"
  using assms by (auto simp: WriteRange_def)

lemma Put_pull:
  assumes ok: "blob_env_ok E tbl cont kids" and put: "Put E opts io slot st (Some sp) = (Inr meta, st', rm)"
    and new: "blob_Open E (bs_refs st) (sp_digest sp) = Inl ErrBlobNotFound"
    and bytes: "io_rawOpen io = Inr (bs, None)" "sp_digest sp = DigestOfBytes (be_sha E) bs"
      "sp_size sp = int (length bs)"
  shows "\<exists>b. blob_Open E (bs_refs st') (sp_digest sp) = Inr b
    \<and> (\<forall>ctx out. WriteTo E ctx b = (out, None) \<longrightarrow> DigestOfBytes (be_sha E) out = sp_digest sp)
    \<and> (bm_Kind meta = KindRaw \<longrightarrow> WriteTo E None b = (bs, None)
        \<and> (\<forall>i j. if 0 \<le> i \<and> i \<le> j \<and> j < sp_size sp
             then WriteRange E b i j = Some (take (nat (j - i + 1)) (drop (nat i) bs), None)
             else \<exists>er. WriteRange E b i j = Some ([], Some er)))"
  using put
proof (cases rule: Put_cases)
  case (dedup b)
  then show ?thesis using new by simp
next
  case (stored dec root meta' s')
  have m: "meta' = meta" using stored(2) by simp
  have os: "objstore_ok (be_S E) cont kids" and db: "refdb_ok (be_D E) tbl" using ok by (simp_all add: blob_env_ok_def)
  note sd = store_decided_ok [OF ok stored(5)]
  let ?b = "\<lparr>bl_Meta = meta, bl_root = root\<rparr>"
  have o: "blob_Open E (bs_refs st') (sp_digest sp) = Inr ?b"
    using Publish_Resolve [OF db stored(6)] sd stored(7) m by (simp add: blob_Open_Inr)
  have ver: "WriteTo E ctx ?b = (out, None) \<longrightarrow> DigestOfBytes (be_sha E) out = sp_digest sp" for ctx out
    using sd m by (auto simp: WriteTo_def split: prod.splits option.splits if_splits)
  have raw: "WriteTo E None ?b = (bs, None)
      \<and> (if 0 \<le> i \<and> i \<le> j \<and> j < sp_size sp
         then WriteRange E ?b i j = Some (take (nat (j - i + 1)) (drop (nat i) bs), None)
         else \<exists>er. WriteRange E ?b i j = Some ([], Some er))" if k: "bm_Kind meta = KindRaw" for i j
  proof -
    from sd k m bytes obtain key where key: "os_LookupKey (be_S E) root RawFile = Inr key" "os_content (be_S E) key bs"
      by auto
    have sz: "bm_Size meta = sp_size sp" using sd m by simp
    have "WriteTo E None ?b = (bs, None)"
      using key k sd m bytes objstore_okD(10) [OF os key(2)] by (simp add: WriteTo_def writeRaw_def)
    moreover have "SupportsRange ?b" using k by (simp add: SupportsRange_def)
    ultimately show ?thesis
      using WriteRange_ok [of ?b E key bs i j] WriteRange_bad [of ?b i j E] key sz bytes(3) by auto
  qed
  show ?thesis using o ver raw by blast
qed simp

text \<open>
  (C6) Pushing and pulling a blob. After a Put that stored a new blob, the digest opens, and whatever
  WriteTo reports as served without an error hashes to that digest. If the blob was stored raw, a pull
  that is not cancelled serves exactly the uploaded bytes, every satisfiable range serves exactly the
  bytes of the range, and every other range is refused before anything is written.
\<close>

theorem Put_then_pull:
  assumes ok: "blob_env_ok E tbl cont kids" and put: "Put E opts io slot st (Some sp) = (Inr meta, st', rm)"
    and new: "blob_Open E (bs_refs st) (sp_digest sp) = Inl ErrBlobNotFound"
    and bytes: "io_rawOpen io = Inr (bs, None)" "sp_digest sp = DigestOfBytes (be_sha E) bs"
      "sp_size sp = int (length bs)"
  shows "\<exists>b. blob_Open E (bs_refs st') (sp_digest sp) = Inr b
    \<and> (\<forall>ctx out. WriteTo E ctx b = (out, None) \<longrightarrow> DigestOfBytes (be_sha E) out = sp_digest sp)
    \<and> (bm_Kind meta = KindRaw \<longrightarrow> WriteTo E None b = (bs, None)
        \<and> (\<forall>i j. if 0 \<le> i \<and> i \<le> j \<and> j < sp_size sp
             then WriteRange E b i j = Some (take (nat (j - i + 1)) (drop (nat i) bs), None)
             else \<exists>er. WriteRange E b i j = Some ([], Some er)))"
  by (rule Put_pull [OF assms])

section \<open>The recent-uploads table accounts once\<close>

text \<open>
  The accounting of an upload is consumed once: after a Put, or a duplicate, was recorded at time
  t, the first TakeRecent of that digest within RecentTTL returns exactly its numbers, a second one
  returns nothing, and one after RecentTTL returns nothing.
\<close>

theorem recent_taken_once:
  assumes "now' \<ge> now" "distinct (map fst (bs_recent st))"
  shows "let st1 = recordRecent opts now st d stats;
             (r, st2) = TakeRecent opts now' st1 d
         in (r = (if now' - now \<le> o_RecentTTL opts then Some stats else None))
            \<and> (\<forall>now''. fst (TakeRecent opts now'' st2 d) = None)"
proof -
  let ?u = "AList.update d (stats, now) (purgeRecent opts now (bs_recent st))"
  have dist: "distinct (map fst ?u)"
    using assms(2) by (simp add: distinct_update purgeRecent_def distinct_map_filter)
  have m: "map_of (purgeRecent opts n al) d = (case map_of al d of None \<Rightarrow> None
      | Some (x, at) \<Rightarrow> if n - at > o_RecentTTL opts then None else Some (x, at))"
    if "distinct (map fst al)" for n and al :: "(digest \<times> Stats \<times> int) list"
    using that
    by (induction al) (auto simp: purgeRecent_def map_of_eq_None_iff rev_image_eqI split: option.splits)
  have none: "map_of (purgeRecent opts n al) d = None" if "map_of al d = None" for n and al :: "(digest \<times> Stats \<times> int) list"
    using that by (induction al) (auto simp: purgeRecent_def split: if_splits)
  have "map_of (purgeRecent opts now' ?u) d = (if now' - now > o_RecentTTL opts then None else Some (stats, now))"
    using m [OF dist, of now'] by simp
  moreover have "map_of (AList.delete d al) d = None" for al :: "(digest \<times> Stats \<times> int) list" by simp
  ultimately show ?thesis
    using none by (simp add: recordRecent_def TakeRecent_def Let_def)
qed

section \<open>A store in memory\<close>

text \<open>
  References to the keys of a list, a key's encoding being its position, and a store whose JSON
  encoder knows one Meta.
\<close>

fun pos_of :: "'k \<Rightarrow> 'k list \<Rightarrow> nat option" where
  "pos_of k [] = None"
| "pos_of k (x # xs) = (if x = k then Some 0 else map_option Suc (pos_of k xs))"

lemma pos_of_Some: "pos_of k ks = Some i \<Longrightarrow> i < length ks \<and> ks ! i = k"
  by (induction ks arbitrary: i) (auto split: if_splits)

definition key_refs :: "'k list \<Rightarrow> ((string \<times> bytes) list, 'k) refdb" where
  "key_refs ks = \<lparr>rd_ValidateName = (\<lambda>_. None),
     rd_Encode = (\<lambda>_ k. case pos_of k ks of None \<Rightarrow> Inl (ErrOther ''key'') | Some i \<Rightarrow> Inr (replicate i CHR ''x'')),
     rd_Decode = (\<lambda>raw. if length raw < length ks then Inr (ks ! length raw) else Inl (ErrOther ''record'')),
     rd_PrepareRef = (\<lambda>_ _. None), rd_Put = rd_Put mem_refs, rd_Get = rd_Get mem_refs,
     rd_Delete = rd_Delete mem_refs, rd_All = rd_All mem_refs\<rparr>"

lemma key_refs_ok: "refdb_ok (key_refs ks) map_of"
proof -
  have "rd_Decode (key_refs ks) raw = Inr k" if "rd_Encode (key_refs ks) n k = Inr raw" for n k raw
    using that pos_of_Some [of k ks] by (auto simp: key_refs_def split: option.splits)
  then show ?thesis
    using mem_refs_ok by (auto simp: refdb_ok_def key_refs_def)
qed

definition demo_stats :: Stats where
  "demo_stats = \<lparr>LogicalBytes = 2, NewLogicalBytes = 2, DedupedBytes = 0, DiskBytes = 30, ObjectsNew = 1, ObjectsDeduped = 0\<rparr>"

definition demo_spool :: Spool where
  "demo_spool = NewMemorySpool (\<lambda>_. 0) ''{}''"

definition demo_meta :: blob_Meta where
  "demo_meta = (new_meta demo_spool FormatNone 5)\<lparr>bm_RawReason := Some ReasonNotTar, bm_Stats := demo_stats\<rparr>"

definition demo_root :: okey where
  "demo_root = ODir [dir_fentry (False, ''meta.json'', OBlob ''M''), dir_fentry (False, ''raw'', OBlob ''{}'')]"

definition demo_env :: "((string \<times> bytes) list, okey list, okey fentry list, okey, nat) blob_env" where
  "demo_env = \<lparr>be_S = mem_os, be_D = key_refs [demo_root], be_sha = (\<lambda>_. 0), be_blake3 = (\<lambda>_. ''''),
     be_Encode = (\<lambda>m. if m = demo_meta then Inr ''M'' else Inl (ErrOther ''json'')),
     be_Unmarshal = (\<lambda>b. if b = ''M'' then Some demo_meta else None),
     be_Z = \<lparr>z_Detect = (\<lambda>_. Inr FormatNone), z_Window = (\<lambda>_. Inr 0), z_Decompress = (\<lambda>_ r. Inr r),
             z_Start = (\<lambda>_. Inr 0)\<rparr>,
     be_Confirm = (\<lambda>_. ('''', Inl ZNotReproducible)), be_DecomposeTo = (\<lambda>_. demo_archive),
     be_WriteParams = (\<lambda>_. Inr ''''), be_ReadParams = (\<lambda>_. Inl (ErrOther ''params'')),
     be_Recompress = (\<lambda>_ _. ('''', None, None))\<rparr>"

definition fin_demo :: fin_io where
  "fin_demo = \<lparr>io_ctx = (\<lambda>_. None), io_seek = None, io_open = Inr (''{}'', None), io_now = 5,
     io_newPack = None, io_packClose = None, io_addPack = None, io_close = Inr demo_stats,
     io_rawOpen = Inr (''{}'', None), io_rawClose = Inr demo_stats, io_rootClose = None\<rparr>"

definition demo_opts :: Options where
  "demo_opts = \<lparr>o_VerifyRoundTrip = False, o_AllowRaw = False, o_RecentTTL = 60, o_readOnly = False\<rparr>"

lemma demo_env_ok: "blob_env_ok demo_env map_of (\<lambda>d. d) (\<lambda>ib. ib)"
  using mem_os_ok key_refs_ok by (auto simp: blob_env_ok_def demo_env_def split: if_splits)

definition demo_before :: "(string \<times> bytes) list blob_store" where
  "demo_before = \<lparr>bs_refs = [], bs_recent = []\<rparr>"

lemma demo_put:
  "\<exists>st'. Put demo_env demo_opts fin_demo None demo_before (Some demo_spool) = (Inr demo_meta, st', True)"
proof -
  have nf: "blob_Open demo_env (bs_refs demo_before) (sp_digest demo_spool) = Inl ErrBlobNotFound"
    by (simp add: demo_before_def blob_Open_def Resolve_def demo_env_def key_refs_def mem_refs_def)
  have an: "analyze (be_Z demo_env) None None None (Inr (''{}'', None)) = Inr (DecRaw ReasonNotTar FormatNone)"
    by (simp add: demo_env_def analyze_def startsWithTarHeader_def probeTar_def tarHeaderSize_def)
  have sp: "sp_size demo_spool = 2" by (simp add: demo_spool_def NewMemorySpool_def)
  have raw: "PutStream mem_os (''{}'', None) = Inr (OBlob ''{}'')" by code_simp
  have ing: "ingestRaw demo_env fin_demo demo_spool = Inr (OBlob ''{}'')"
    by (simp add: ingestRaw_def fin_demo_def raw demo_env_def sp) (simp add: mem_os_def okeys_def)
  have meta: "(new_meta demo_spool FormatNone 5)\<lparr>bm_Kind := KindRaw, bm_RawReason := Some ReasonNotTar, bm_DiffID := '''',
        bm_UncompressedSize := 0, bm_Entries := 0, bm_Engine := '''', bm_EngineVersion := '''', bm_Stats := demo_stats\<rparr> = demo_meta"
    by (simp add: demo_meta_def new_meta_def)
  have mb: "PutBytes mem_os ''M'' = Inr (OBlob ''M'')" by code_simp
  have dir: "put_dir mem_os [(False, ''meta.json'', OBlob ''M''), (False, ''raw'', OBlob ''{}'')] = Inr demo_root"
    by code_simp
  have root: "writeRoot demo_env fin_demo demo_meta [(RawFile, OBlob ''{}'')] None = Inr demo_root"
    using mb dir by (simp add: writeRoot_def buildRoot_def demo_env_def fin_demo_def root_entries_def file_names)
  have "store_decided demo_env demo_opts fin_demo demo_spool (DecRaw ReasonNotTar FormatNone) = Inr (demo_root, demo_meta)"
    using ing meta root
    by (simp add: store_decided_def raw_root_def refuseRaw_def finalizeRaw_def Let_def fin_demo_def)
  then show ?thesis
    using nf an
    by (simp add: Put_def demo_opts_def fin_demo_def Publish_def)
       (simp add: demo_env_def key_refs_def mem_refs_def demo_before_def)
qed

theorem Put_publishes_witness:
  "\<exists>st' b. Put demo_env demo_opts fin_demo None demo_before (Some demo_spool) = (Inr demo_meta, st', True)
     \<and> blob_Open demo_env (bs_refs st') (sp_digest demo_spool) = Inr b \<and> bm_Kind (bl_Meta b) = KindRaw"
proof -
  from demo_put obtain st' where p:
    "Put demo_env demo_opts fin_demo None demo_before (Some demo_spool) = (Inr demo_meta, st', True)" ..
  from Put_publishes [OF demo_env_ok p] obtain b where
    "blob_Open demo_env (bs_refs st') (sp_digest demo_spool) = Inr b"
    "bl_Meta b = demo_meta\<lparr>bm_Stats := bm_Stats (bl_Meta b)\<rparr>" by auto
  moreover from this(2) have "bm_Kind (bl_Meta b) = bm_Kind demo_meta"
    by (metis blob_Meta.select_convs(4) blob_Meta.surjective blob_Meta.update_convs(13))
  moreover have "bm_Kind demo_meta = KindRaw" by (simp add: demo_meta_def new_meta_def)
  ultimately show ?thesis using p by auto
qed

theorem Put_then_pull_witness:
  "\<exists>st' b. Put demo_env demo_opts fin_demo None demo_before (Some demo_spool) = (Inr demo_meta, st', True)
     \<and> blob_Open demo_env (bs_refs st') (sp_digest demo_spool) = Inr b
     \<and> WriteTo demo_env None b = (''{}'', None) \<and> WriteRange demo_env b 1 1 = Some (''}'', None)"
proof -
  from demo_put obtain st' where p:
    "Put demo_env demo_opts fin_demo None demo_before (Some demo_spool) = (Inr demo_meta, st', True)" ..
  have nf: "blob_Open demo_env (bs_refs demo_before) (sp_digest demo_spool) = Inl ErrBlobNotFound"
    by (simp add: demo_before_def blob_Open_def Resolve_def demo_env_def key_refs_def mem_refs_def)
  have io: "io_rawOpen fin_demo = Inr (''{}'', None)" "sp_digest demo_spool = DigestOfBytes (be_sha demo_env) ''{}''"
    "sp_size demo_spool = int (length ''{}'')" "bm_Kind demo_meta = KindRaw"
    by (simp_all add: fin_demo_def demo_spool_def NewMemorySpool_def demo_env_def demo_meta_def new_meta_def)
  from Put_then_pull [OF demo_env_ok p nf io(1-3)] obtain b where
    b: "blob_Open demo_env (bs_refs st') (sp_digest demo_spool) = Inr b" "WriteTo demo_env None b = (''{}'', None)"
    "\<forall>i j. if 0 \<le> i \<and> i \<le> j \<and> j < sp_size demo_spool
       then WriteRange demo_env b i j = Some (take (nat (j - i + 1)) (drop (nat i) ''{}''), None)
       else \<exists>er. WriteRange demo_env b i j = Some ([], Some er)" using io(4) by blast
  have "WriteRange demo_env b 1 1 = Some (''}'', None)"
    using b(3) [rule_format, of 1 1] io(3) by simp
  with p b show ?thesis by blast
qed

theorem recent_taken_once_witness:
  "fst (TakeRecent demo_opts 9 (recordRecent demo_opts 5 demo_before ''d'' demo_stats) ''d'') = Some demo_stats"
  using recent_taken_once [of 5 9 demo_before demo_opts "''d''" demo_stats]
  by (simp add: demo_before_def demo_opts_def Let_def split: prod.splits)

end
