(* ===== verification/Image_Refs.thy ===== *)
theory Image_Refs
  imports Store_Refs
begin

text \<open>
  Reference names of the image package (src/image/refs.go) and the listings built on them
  (src/image/list.go). Each of the three name forms is an instance of the \<open>codec\<close> contract, from which
  the listings take that a name belongs to one repository only. Errors of the reference database are
  passed on.
\<close>

definition TagPrefix :: string where "TagPrefix = ''oci/tag/''"
definition ManifestPrefix :: string where "ManifestPrefix = ''oci/manifest/''"
definition ReferrerPrefix :: string where "ReferrerPrefix = ''oci/referrer/''"

definition TagRef :: "string \<Rightarrow> string \<Rightarrow> string" where
  "TagRef repo tag = TagPrefix @ repo @ '':'' @ tag"

definition ManifestRef :: "string \<Rightarrow> digest \<Rightarrow> string" where
  "ManifestRef repo d = ManifestPrefix @ repo @ ''/'' @ d"

definition ReferrerRef :: "string \<Rightarrow> digest \<Rightarrow> digest \<Rightarrow> string" where
  "ReferrerRef repo subject referrer = ReferrerPrefix @ repo @ ''/'' @ subject @ ''/'' @ referrer"

definition ParseTagRef :: "string \<Rightarrow> (string \<times> string) option" where
  "ParseTagRef name =
     (case CutPrefix name TagPrefix of
        None \<Rightarrow> None
      | Some rest \<Rightarrow>
          (case Cut rest CHR '':'' of
             None \<Rightarrow> None
           | Some (repo, tag) \<Rightarrow>
               if repo = '''' \<or> tag = '''' then None
               else if ValidateRepository repo \<noteq> None \<or> ValidateTag tag \<noteq> None then None
               else Some (repo, tag)))"

definition ParseManifestRef :: "string \<Rightarrow> (string \<times> digest) option" where
  "ParseManifestRef name =
     (case CutPrefix name ManifestPrefix of
        None \<Rightarrow> None
      | Some rest \<Rightarrow>
          (case LastIndexByte rest CHR ''/'' of
             None \<Rightarrow> None
           | Some i \<Rightarrow>
               if i = 0 then None
               else case ParseDigest (drop (Suc i) rest) of
                 Inl _ \<Rightarrow> None
               | Inr d \<Rightarrow> if ValidateRepository (take i rest) \<noteq> None then None else Some (take i rest, d)))"

definition ParseReferrerRef :: "string \<Rightarrow> (string \<times> digest \<times> digest) option" where
  "ParseReferrerRef name =
     (case CutPrefix name ReferrerPrefix of
        None \<Rightarrow> None
      | Some rest \<Rightarrow>
          (case LastIndexByte rest CHR ''/'' of
             None \<Rightarrow> None
           | Some i \<Rightarrow>
               if i = 0 then None
               else case ParseDigest (drop (Suc i) rest) of
                 Inl _ \<Rightarrow> None
               | Inr referrer \<Rightarrow>
                   (let rest1 = take i rest in
                    case LastIndexByte rest1 CHR ''/'' of
                      None \<Rightarrow> None
                    | Some j \<Rightarrow>
                        if j = 0 then None
                        else case ParseDigest (drop (Suc j) rest1) of
                          Inl _ \<Rightarrow> None
                        | Inr subject \<Rightarrow>
                            if ValidateRepository (take j rest1) \<noteq> None then None
                            else Some (take j rest1, subject, referrer))))"

section \<open>Listings (list.go)\<close>

definition repoHasManifests :: "('s, 'k) refdb \<Rightarrow> 's \<Rightarrow> string \<Rightarrow> bool res" where
  "repoHasManifests D s repo =
     (case ListRefs D s (ManifestRef repo '''') of
        Inl er \<Rightarrow> Inl er
      | Inr refs \<Rightarrow>
          Inr (\<exists>r \<in> set refs. case ParseManifestRef (fst r) of None \<Rightarrow> False | Some (refRepo, _) \<Rightarrow> refRepo = repo))"

definition Tags :: "('s, 'k) refdb \<Rightarrow> 's \<Rightarrow> string \<Rightarrow> string list res" where
  "Tags D s repo =
     (case ListRefs D s (TagRef repo '''') of
        Inl er \<Rightarrow> Inl er
      | Inr refs \<Rightarrow>
          (let tags = List.map_filter (\<lambda>r. case ParseTagRef (fst r) of
                        None \<Rightarrow> None
                      | Some (refRepo, tag) \<Rightarrow> if refRepo \<noteq> repo then None else Some tag) refs
           in if tags = [] then
                (case repoHasManifests D s repo of
                   Inl er \<Rightarrow> Inl er
                 | Inr known \<Rightarrow> if \<not> known then Inl ErrImageNotFound else Inr (sort tags))
              else Inr (sort tags)))"

definition Manifests :: "('s, 'k) refdb \<Rightarrow> 's \<Rightarrow> string \<Rightarrow> digest list res" where
  "Manifests D s repo =
     (case ListRefs D s (ManifestRef repo '''') of
        Inl er \<Rightarrow> Inl er
      | Inr refs \<Rightarrow>
          (let digests = List.map_filter (\<lambda>r. case ParseManifestRef (fst r) of
                           None \<Rightarrow> None
                         | Some (refRepo, d) \<Rightarrow> if refRepo = repo then Some d else None) refs
           in if digests = [] then Inl ErrImageNotFound else Inr (sort digests)))"

definition Repositories :: "('s, 'k) refdb \<Rightarrow> 's \<Rightarrow> string list res" where
  "Repositories D s =
     (case ListRefs D s TagPrefix of
        Inl er \<Rightarrow> Inl er
      | Inr tagRefs \<Rightarrow>
          (case ListRefs D s ManifestPrefix of
             Inl er \<Rightarrow> Inl er
           | Inr manifestRefs \<Rightarrow>
               Inr (sort (remdups
                 (List.map_filter (\<lambda>r. map_option fst (ParseTagRef (fst r))) tagRefs
                  @ List.map_filter (\<lambda>r. map_option fst (ParseManifestRef (fst r))) manifestRefs)))))"

section \<open>The names are unambiguous\<close>

lemma tag_not_Nil: "ValidateTag t = None \<Longrightarrow> t \<noteq> ''''"
  by (auto simp: ValidateTag_iff)

interpretation tag_ref: codec "\<lambda>(repo, tag). TagRef repo tag" ParseTagRef
  "\<lambda>(repo, tag). ValidateRepository repo = None \<and> ValidateTag tag = None"
proof
  show "(case x of (repo, tag) \<Rightarrow> ValidateRepository repo = None \<and> ValidateTag tag = None) \<Longrightarrow>
      ParseTagRef (case x of (repo, tag) \<Rightarrow> TagRef repo tag) = Some x" for x
    using repo_no_sep(1) [of "fst x"] repo_not_Nil [of "fst x"] tag_not_Nil [of "snd x"]
    by (auto simp: ParseTagRef_def TagRef_def)
  show "(case x of (repo, tag) \<Rightarrow> ValidateRepository repo = None \<and> ValidateTag tag = None)
      \<and> (case x of (repo, tag) \<Rightarrow> TagRef repo tag) = n" if "ParseTagRef n = Some x" for n x
    using that by (auto simp: ParseTagRef_def TagRef_def CutPrefix_Some_iff Cut_Some_iff
        split: option.splits if_splits prod.splits)
qed

lemma last_slash:
  assumes "CHR ''/'' \<notin> set d"
  shows "LastIndexByte (r @ CHR ''/'' # d) CHR ''/'' = Some (length r)"
  using assms by simp

interpretation manifest_ref: codec "\<lambda>(repo, d). ManifestRef repo d" ParseManifestRef
  "\<lambda>(repo, d). ValidateRepository repo = None \<and> ParseDigest d = Inr d"
proof
  show "(case x of (repo, d) \<Rightarrow> ValidateRepository repo = None \<and> ParseDigest d = Inr d) \<Longrightarrow>
      ParseManifestRef (case x of (repo, d) \<Rightarrow> ManifestRef repo d) = Some x" for x
    using repo_not_Nil [of "fst x"] digest_no_slash [of "snd x"]
    by (auto simp: ParseManifestRef_def ManifestRef_def)
  show "(case x of (repo, d) \<Rightarrow> ValidateRepository repo = None \<and> ParseDigest d = Inr d)
      \<and> (case x of (repo, d) \<Rightarrow> ManifestRef repo d) = n" if "ParseManifestRef n = Some x" for n x
    using that
    by (auto simp: ParseManifestRef_def ManifestRef_def CutPrefix_Some_iff ParseDigest_Inr_iff
        split: option.splits if_splits sum.splits dest!: LastIndexByte_Some)
qed

interpretation referrer_ref: codec "\<lambda>(repo, s, r). ReferrerRef repo s r" ParseReferrerRef
  "\<lambda>(repo, s, r). ValidateRepository repo = None \<and> ParseDigest s = Inr s \<and> ParseDigest r = Inr r"
proof
  fix x :: "string \<times> digest \<times> digest" and n
  obtain repo s r where x: "x = (repo, s, r)" by (cases x)
  {
    assume "case x of (repo, s, r) \<Rightarrow> ValidateRepository repo = None \<and> ParseDigest s = Inr s \<and> ParseDigest r = Inr r"
    then have v: "ValidateRepository repo = None" "ParseDigest s = Inr s" "ParseDigest r = Inr r" by (simp_all add: x)
    have "LastIndexByte (repo @ CHR ''/'' # s @ CHR ''/'' # r) CHR ''/'' = Some (length (repo @ CHR ''/'' # s))"
      using last_slash [OF digest_no_slash [OF v(3)], of "repo @ CHR ''/'' # s"] by simp
    then show "ParseReferrerRef (case x of (repo, s, r) \<Rightarrow> ReferrerRef repo s r) = Some x"
      using v repo_not_Nil [OF v(1)] digest_no_slash [OF v(2)]
      by (simp add: ParseReferrerRef_def ReferrerRef_def x)
  next
    assume p: "ParseReferrerRef n = Some x"
    then obtain rest i j where n: "n = ReferrerPrefix @ rest" and i: "LastIndexByte rest CHR ''/'' = Some i"
      "ParseDigest (drop (Suc i) rest) = Inr r" and j: "LastIndexByte (take i rest) CHR ''/'' = Some j"
      "ParseDigest (drop (Suc j) (take i rest)) = Inr s"
      and repo: "repo = take j (take i rest)" "ValidateRepository (take j (take i rest)) = None"
      by (auto simp: ParseReferrerRef_def CutPrefix_Some_iff x Let_def split: option.splits if_splits sum.splits)
    have r: "drop (Suc i) rest = r" "drop (Suc j) (take i rest) = s"
      using i(2) j(2) by (simp_all add: ParseDigest_Inr_iff)
    have "rest = take i rest @ CHR ''/'' # r" using LastIndexByte_Some [OF i(1)] r(1) by simp
    moreover have "take i rest = repo @ CHR ''/'' # s"
      unfolding repo(1) r(2) [symmetric] by (rule LastIndexByte_Some [OF j(1), THEN conjunct1])
    ultimately have "rest = (repo @ CHR ''/'' # s) @ CHR ''/'' # r" by (simp only:)
    then show "(case x of (repo, s, r) \<Rightarrow> ValidateRepository repo = None \<and> ParseDigest s = Inr s \<and> ParseDigest r = Inr r)
        \<and> (case x of (repo, s, r) \<Rightarrow> ReferrerRef repo s r) = n"
      using repo i(2) j(2) r by (simp add: x n ReferrerRef_def)
  }
qed

lemma prefixes_differ:
  "\<not> (prefix TagPrefix n \<and> prefix ManifestPrefix n)" "\<not> (prefix TagPrefix n \<and> prefix ReferrerPrefix n)"
  "\<not> (prefix ManifestPrefix n \<and> prefix ReferrerPrefix n)"
  by (auto simp: prefix_def TagPrefix_def ManifestPrefix_def ReferrerPrefix_def)

text \<open>
  (C12) Reference names are unambiguous: for valid parts the three parsers return exactly the parts a
  name was built from, a name that a parser accepts is the name of the parts it returns, and no name
  is of two kinds, although repository names hold slashes and digests hold colons.
\<close>

theorem ref_names_unambiguous:
  "(ParseTagRef n = Some (repo, tag) \<longleftrightarrow>
      ValidateRepository repo = None \<and> ValidateTag tag = None \<and> n = TagRef repo tag)
   \<and> (ParseManifestRef n = Some (repo, d) \<longleftrightarrow>
      ValidateRepository repo = None \<and> ParseDigest d = Inr d \<and> n = ManifestRef repo d)
   \<and> (ParseReferrerRef n = Some (repo, d, d') \<longleftrightarrow>
      ValidateRepository repo = None \<and> ParseDigest d = Inr d \<and> ParseDigest d' = Inr d' \<and> n = ReferrerRef repo d d')
   \<and> length (filter id [ParseTagRef n \<noteq> None, ParseManifestRef n \<noteq> None, ParseReferrerRef n \<noteq> None]) \<le> 1"
proof -
  have "ParseTagRef n \<noteq> None \<Longrightarrow> prefix TagPrefix n" "ParseManifestRef n \<noteq> None \<Longrightarrow> prefix ManifestPrefix n"
    "ParseReferrerRef n \<noteq> None \<Longrightarrow> prefix ReferrerPrefix n"
    by (simp_all add: ParseTagRef_def ParseManifestRef_def ParseReferrerRef_def CutPrefix_def split: if_splits)
  then have "\<not> (ParseTagRef n \<noteq> None \<and> ParseManifestRef n \<noteq> None)" "\<not> (ParseTagRef n \<noteq> None \<and> ParseReferrerRef n \<noteq> None)"
    "\<not> (ParseManifestRef n \<noteq> None \<and> ParseReferrerRef n \<noteq> None)"
    using prefixes_differ [of n] by blast+
  then have one: "length (filter id [ParseTagRef n \<noteq> None, ParseManifestRef n \<noteq> None, ParseReferrerRef n \<noteq> None]) \<le> 1"
    by auto
  have "ParseTagRef n = Some (repo, tag) \<longleftrightarrow>
      ValidateRepository repo = None \<and> ValidateTag tag = None \<and> n = TagRef repo tag"
    by (simp only: tag_ref.dec_iff split conj_assoc eq_commute [of n])
  moreover have "ParseManifestRef n = Some (repo, d) \<longleftrightarrow>
      ValidateRepository repo = None \<and> ParseDigest d = Inr d \<and> n = ManifestRef repo d"
    by (simp only: manifest_ref.dec_iff split conj_assoc eq_commute [of n])
  moreover have "ParseReferrerRef n = Some (repo, d, d') \<longleftrightarrow>
      ValidateRepository repo = None \<and> ParseDigest d = Inr d \<and> ParseDigest d' = Inr d' \<and> n = ReferrerRef repo d d'"
    by (simp only: referrer_ref.dec_iff split conj_assoc eq_commute [of n])
  ultimately show ?thesis using one by (intro conjI)
qed

section \<open>The listings are exact\<close>

lemma set_map_filter_iff: "y \<in> set (List.map_filter f xs) \<longleftrightarrow> (\<exists>x \<in> set xs. f x = Some y)"
  by (induction xs) (auto simp: List.map_filter_simps split: option.splits)

lemma distinct_map_filter_names:
  assumes "distinct (map fst xs)" "\<And>n n' v. f n = Some v \<Longrightarrow> f n' = Some v \<Longrightarrow> n = n'"
  shows "distinct (List.map_filter (\<lambda>r. f (fst r)) xs)"
  using assms(1)
proof (induction xs)
  case (Cons x xs)
  have "v \<notin> set (List.map_filter (\<lambda>r. f (fst r)) xs)" if "f (fst x) = Some v" for v
    using Cons.prems assms(2) [OF that] by (fastforce simp: set_map_filter_iff)
  with Cons show ?case by (auto simp: List.map_filter_simps split: option.splits)
qed (simp add: List.map_filter_simps)

lemma sorted_sort: "distinct xs \<Longrightarrow> sorted_wrt (<) (sort xs)" for xs :: "string list"
  by (simp add: strict_sorted_iff)

definition tag_in :: "string \<Rightarrow> string \<Rightarrow> string option" where
  "tag_in repo n = (case ParseTagRef n of None \<Rightarrow> None
                    | Some (refRepo, tag) \<Rightarrow> if refRepo \<noteq> repo then None else Some tag)"

definition manifest_in :: "string \<Rightarrow> string \<Rightarrow> digest option" where
  "manifest_in repo n = (case ParseManifestRef n of None \<Rightarrow> None
                         | Some (refRepo, d) \<Rightarrow> if refRepo = repo then Some d else None)"

lemma tag_in_iff: "tag_in repo n = Some t \<longleftrightarrow> ValidateRepository repo = None \<and> ValidateTag t = None \<and> n = TagRef repo t"
  using tag_ref.dec_iff [of n "(repo, t)"] by (auto simp: tag_in_def split: option.splits)

lemma manifest_in_iff:
  "manifest_in repo n = Some d \<longleftrightarrow> ValidateRepository repo = None \<and> ParseDigest d = Inr d \<and> n = ManifestRef repo d"
  using manifest_ref.dec_iff [of n "(repo, d)"] by (auto simp: manifest_in_def split: option.splits)

text \<open>A listing through a parser: the parsed values of exactly the names with the prefix that resolve.\<close>

lemma listed:
  assumes "refdb_ok D tbl" "ListRefs D s pre = Inr refs"
    and f: "\<And>n v. f n = Some v \<longleftrightarrow> P v \<and> n = g v" and pre: "\<And>v. P v \<Longrightarrow> prefix pre (g v)"
  shows "v \<in> set (List.map_filter (\<lambda>r. f (fst r)) refs) \<longleftrightarrow> P v \<and> (\<exists>k. Resolve D s (g v) = Inr k)"
    "distinct (List.map_filter (\<lambda>r. f (fst r)) refs)"
proof -
  note l = ListRefs_ok [OF assms(1,2)]
  show "v \<in> set (List.map_filter (\<lambda>r. f (fst r)) refs) \<longleftrightarrow> P v \<and> (\<exists>k. Resolve D s (g v) = Inr k)"
    using l(2) f pre by (fastforce simp: set_map_filter_iff)
  show "distinct (List.map_filter (\<lambda>r. f (fst r)) refs)"
    by (rule distinct_map_filter_names) (use l(1) strict_sorted_iff f in auto)
qed

lemma kind_prefix [simp]: "prefix TagPrefix (TagRef repo t)" "prefix ManifestPrefix (ManifestRef repo d)"
  by (simp_all add: TagRef_def ManifestRef_def)

lemma TagRef_prefix: "prefix (TagRef repo '''') (TagRef repo t)"
  by (simp add: TagRef_def)

lemma ManifestRef_prefix: "prefix (ManifestRef repo '''') (ManifestRef repo d)"
  by (simp add: ManifestRef_def)

definition is_tag :: "('s, 'k) refdb \<Rightarrow> 's \<Rightarrow> string \<Rightarrow> string \<Rightarrow> bool" where
  "is_tag D s repo t \<longleftrightarrow> ValidateRepository repo = None \<and> ValidateTag t = None \<and> (\<exists>k. Resolve D s (TagRef repo t) = Inr k)"

definition is_manifest :: "('s, 'k) refdb \<Rightarrow> 's \<Rightarrow> string \<Rightarrow> digest \<Rightarrow> bool" where
  "is_manifest D s repo d \<longleftrightarrow> ValidateRepository repo = None \<and> ParseDigest d = Inr d \<and> (\<exists>k. Resolve D s (ManifestRef repo d) = Inr k)"

lemma Manifests_exact:
  assumes "refdb_ok D tbl" "\<And>pre. \<exists>out. ListRefs D s pre = Inr out"
  shows "case Manifests D s repo of
           Inr ds \<Rightarrow> sorted_wrt (<) ds \<and> (\<forall>d. d \<in> set ds \<longleftrightarrow> is_manifest D s repo d)
         | Inl er \<Rightarrow> er = ErrImageNotFound \<and> (\<forall>d. \<not> is_manifest D s repo d)"
    and "repoHasManifests D s repo = Inr (\<exists>d. is_manifest D s repo d)"
proof -
  from assms(2) obtain refs where r: "ListRefs D s (ManifestRef repo '''') = Inr refs" by blast
  have f: "manifest_in repo n = Some d \<longleftrightarrow> (ValidateRepository repo = None \<and> ParseDigest d = Inr d) \<and> n = ManifestRef repo d" for n d
    by (auto simp: manifest_in_iff)
  note l = listed [OF assms(1) r f ManifestRef_prefix]
  have m: "Manifests D s repo = (let ds = List.map_filter (\<lambda>r. manifest_in repo (fst r)) refs
      in if ds = [] then Inl ErrImageNotFound else Inr (sort ds))"
    by (simp add: Manifests_def r manifest_in_def)
  let ?ds = "List.map_filter (\<lambda>r. manifest_in repo (fst r)) refs"
  have mem: "d \<in> set ?ds \<longleftrightarrow> is_manifest D s repo d" for d using l(1) by (simp add: is_manifest_def)
  show "case Manifests D s repo of
           Inr ds \<Rightarrow> sorted_wrt (<) ds \<and> (\<forall>d. d \<in> set ds \<longleftrightarrow> is_manifest D s repo d)
         | Inl er \<Rightarrow> er = ErrImageNotFound \<and> (\<forall>d. \<not> is_manifest D s repo d)"
    using mem [of d for d] l(2) mem by (cases "?ds = []") (auto simp: m sorted_sort)
  have "(case ParseManifestRef n of None \<Rightarrow> False | Some (refRepo, _) \<Rightarrow> refRepo = repo) \<longleftrightarrow> (\<exists>d. manifest_in repo n = Some d)" for n
    by (auto simp: manifest_in_def split: option.splits)
  then show "repoHasManifests D s repo = Inr (\<exists>d. is_manifest D s repo d)"
    unfolding mem [symmetric] by (auto simp: repoHasManifests_def r set_map_filter_iff)
qed

text \<open>
  Listings show exactly what is there. On a database that can be read, Tags returns the tags of
  the repository that resolve, in byte order and without duplicates, and never one of a repository
  whose name merely starts the same; it reports not found exactly when there is neither a tag nor a
  manifest. Manifests does the same for digests, and Repositories returns every repository that has a
  tag or a manifest, sorted.
\<close>

theorem listings_exact:
  assumes db: "refdb_ok D tbl" and all: "\<forall>pre. \<exists>out. ListRefs D s pre = Inr out"
  shows "(case Tags D s repo of
            Inr ts \<Rightarrow> sorted_wrt (<) ts \<and> (\<forall>t. t \<in> set ts \<longleftrightarrow> is_tag D s repo t)
          | Inl er \<Rightarrow> er = ErrImageNotFound \<and> (\<forall>t. \<not> is_tag D s repo t) \<and> (\<forall>d. \<not> is_manifest D s repo d))
    \<and> (case Manifests D s repo of
         Inr ds \<Rightarrow> sorted_wrt (<) ds \<and> (\<forall>d. d \<in> set ds \<longleftrightarrow> is_manifest D s repo d)
       | Inl er \<Rightarrow> er = ErrImageNotFound \<and> (\<forall>d. \<not> is_manifest D s repo d))
    \<and> (\<exists>rs. Repositories D s = Inr rs \<and> sorted_wrt (<) rs
         \<and> (\<forall>r. r \<in> set rs \<longleftrightarrow> (\<exists>t. is_tag D s r t) \<or> (\<exists>d. is_manifest D s r d)))"
proof -
  from all obtain refs where r: "ListRefs D s (TagRef repo '''') = Inr refs" by blast
  have f: "tag_in repo n = Some t \<longleftrightarrow> (ValidateRepository repo = None \<and> ValidateTag t = None) \<and> n = TagRef repo t" for n t
    by (auto simp: tag_in_iff)
  let ?ts = "List.map_filter (\<lambda>r. tag_in repo (fst r)) refs"
  note l = listed [OF db r f TagRef_prefix]
  have mem: "t \<in> set ?ts \<longleftrightarrow> is_tag D s repo t" for t using l(1) by (simp add: is_tag_def)
  note man = Manifests_exact [OF db, of s, OF all [rule_format]]
  have "Tags D s repo = (if ?ts = [] \<and> \<not> (\<exists>d. is_manifest D s repo d) then Inl ErrImageNotFound else Inr (sort ?ts))"
    by (simp add: Tags_def r man(2) tag_in_def Let_def)
  then have tags: "case Tags D s repo of
            Inr ts \<Rightarrow> sorted_wrt (<) ts \<and> (\<forall>t. t \<in> set ts \<longleftrightarrow> is_tag D s repo t)
          | Inl er \<Rightarrow> er = ErrImageNotFound \<and> (\<forall>t. \<not> is_tag D s repo t) \<and> (\<forall>d. \<not> is_manifest D s repo d)"
    using l(2) mem by (cases "?ts = []") (auto simp: sorted_sort)
  from all obtain ta ma where ta: "ListRefs D s TagPrefix = Inr ta" and ma: "ListRefs D s ManifestPrefix = Inr ma" by blast
  let ?rs = "sort (remdups (List.map_filter (\<lambda>r. map_option fst (ParseTagRef (fst r))) ta
      @ List.map_filter (\<lambda>r. map_option fst (ParseManifestRef (fst r))) ma))"
  have ex: "(\<exists>x \<in> set xs. P (fst x)) \<longleftrightarrow> (\<exists>n k. (n, k) \<in> set xs \<and> P n)" for xs :: "(string \<times> 'b) list" and P by force
  have pt: "map_option fst (ParseTagRef n) = Some q \<longleftrightarrow> (\<exists>t. tag_in q n = Some t)" for n q
    by (auto simp: tag_in_def split: option.splits)
  have pm: "map_option fst (ParseManifestRef n) = Some q \<longleftrightarrow> (\<exists>d. manifest_in q n = Some d)" for n q
    by (auto simp: manifest_in_def split: option.splits)
  have t: "(\<exists>x \<in> set ta. map_option fst (ParseTagRef (fst x)) = Some q) \<longleftrightarrow> (\<exists>t. is_tag D s q t)" for q
    unfolding ex [of ta "\<lambda>n. map_option fst (ParseTagRef n) = Some q"] unfolding pt tag_in_iff ListRefs_ok(2) [OF db ta] by (auto simp: is_tag_def intro: exI [where x = "TagRef q t" for t])
  have m: "(\<exists>x \<in> set ma. map_option fst (ParseManifestRef (fst x)) = Some q) \<longleftrightarrow> (\<exists>d. is_manifest D s q d)" for q
    unfolding ex [of ma "\<lambda>n. map_option fst (ParseManifestRef n) = Some q"] unfolding pm manifest_in_iff ListRefs_ok(2) [OF db ma] by (auto simp: is_manifest_def intro: exI [where x = "ManifestRef q d" for d])
  have "Repositories D s = Inr ?rs" by (simp add: Repositories_def ta ma)
  moreover have "q \<in> set ?rs \<longleftrightarrow> (\<exists>t. is_tag D s q t) \<or> (\<exists>d. is_manifest D s q d)" for q
    unfolding set_sort set_remdups set_append Un_iff set_map_filter_iff t m ..
  moreover have "sorted_wrt (<) ?rs" by (rule sorted_sort) simp
  ultimately show ?thesis using tags man(1) [of repo] by blast
qed

theorem listings_exact_witness:
  "Repositories mem_refs [(''oci/tag/app:v1'', ''k'')] = Inr [''app'']"
proof -
  let ?s = "[(''oci/tag/app:v1'', ''k'')]"
  have l: "\<forall>pre. \<exists>out. ListRefs mem_refs ?s pre = Inr out"
    by (auto simp: ListRefs_def mem_refs_def decodeRef_def)
  from listings_exact [OF mem_refs_ok l, of "''app''"] obtain rs where
    rs: "Repositories mem_refs ?s = Inr rs" "sorted_wrt (<) rs"
      "\<forall>r. r \<in> set rs \<longleftrightarrow> (\<exists>t. is_tag mem_refs ?s r t) \<or> (\<exists>d. is_manifest mem_refs ?s r d)" by blast
  have "ParseTagRef ''oci/tag/app:v1'' = Some (''app'', ''v1'')" by code_simp
  then have v: "ValidateRepository ''app'' = None" "ValidateTag ''v1'' = None"
    by (auto dest: tag_ref.dec_sound)
  have res: "(\<exists>k. Resolve mem_refs ?s n = Inr k) \<longleftrightarrow> n = ''oci/tag/app:v1''" for n
    by (auto simp: Resolve_def mem_refs_def decodeRef_def split: option.splits)
  have t: "is_tag mem_refs ?s ''app'' ''v1''"
    using v res by (simp add: is_tag_def TagRef_def TagPrefix_def)
  have tag: "r = ''app''" if "is_tag mem_refs ?s r x" for r x
  proof -
    have "ParseTagRef (TagRef r x) = Some (r, x)" using that tag_ref.dec_enc [of "(r, x)"] by (simp add: is_tag_def)
    moreover have "TagRef r x = ''oci/tag/app:v1''" using that res by (simp add: is_tag_def)
    ultimately show ?thesis using \<open>ParseTagRef ''oci/tag/app:v1'' = _\<close> by simp
  qed
  have "\<not> is_manifest mem_refs ?s r d" for r d
    using res by (simp add: is_manifest_def ManifestRef_def ManifestPrefix_def)
  with rs(3) t tag have "set rs = {''app''}" by blast
  moreover have "distinct rs" using rs(2) strict_sorted_iff by blast
  ultimately have "rs = [''app'']"
    by (metis distinct_card empty_set card.empty card.insert finite.emptyI insert_absorb insert_not_empty length_0_conv
        length_Suc_conv list.simps(15) One_nat_def singleton_iff list.set_intros(1) ex_in_conv)
  with rs(1) show ?thesis by simp
qed

end
