(* ===== verification/Image_Store.thy ===== *)
theory Image_Store
  imports Blob_Store Image_Refs Rootfs_Builder
begin

text \<open>
  The image store (src/image/meta.go, store.go, rootfs.go, stats.go and Referrers of list.go): pushing
  a manifest or an index, opening it, deleting it. \<open>image_env\<close> adds to the blob store's libraries the
  JSON decoder of manifests, the JSON codec of Meta and the parser of a layer's archive. The first half
  of Put runs before the repository lock is taken, so it reads an earlier state \<open>st0\<close> than the second
  half, which runs under the lock on \<open>st\<close>. Log lines are not modelled.
\<close>

datatype image_Kind = KindManifest | KindIndex

datatype RootfsStatus = RootfsOK | RootfsPartial | RootfsUnavailable | RootfsNotApplicable

text \<open>Reason names the layer that prevented the tree and why: it is stored raw, or cannot be parsed.\<close>

datatype rootfs_reason = LayerRaw digest "RawReason option" | LayerBad digest

record Rootfs =
  rf_Status :: RootfsStatus
  rf_Entries :: nat
  rf_Reason :: "rootfs_reason option"
  rf_Skipped :: "Skip list"
  rf_SkippedCount :: nat

record image_Stats =
  is_TotalBytes :: int
  is_LogicalBytes :: int
  is_DedupedBytes :: int
  is_DiskBytes :: int

record image_Meta =
  im_Version :: int
  im_Kind :: image_Kind
  im_MediaType :: string
  im_Digest :: digest
  im_Size :: int
  im_ArtifactType :: string
  im_Subject :: "Descriptor option"
  im_Annotations :: "string gomap"
  im_CreatedAt :: int
  im_Stats :: image_Stats
  im_Rootfs :: "Rootfs option"

definition metaVersion :: int where "metaVersion = 1"
definition ManifestFile :: string where "ManifestFile = ''manifest''"
definition BlobsDir :: string where "BlobsDir = ''blobs''"
definition ManifestsDir :: string where "ManifestsDir = ''manifests''"
definition RootfsDir :: string where "RootfsDir = ''rootfs''"

record ('s, 'i, 'd, 'k, 'a) image_env =
  ie_E :: "('s, 'i, 'd, 'k, 'a) blob_env"
  ie_opts :: Options
  ie_X :: "'k xattrops"
  ie_unmarshal :: "bytes \<Rightarrow> Manifest option"
  ie_Marshal :: "image_Meta \<Rightarrow> bytes res"
  ie_UnmarshalMeta :: "bytes \<Rightarrow> image_Meta option"
  ie_parseLayer :: "'k Prism \<Rightarrow> parse_error + 'k entry list"

record image_io =
  ii_ctx :: "nat \<Rightarrow> err option"
  ii_now :: int
  ii_close :: "Stats res"
  ii_rootClose :: "err option"

abbreviation ie_S :: "('s, 'i, 'd, 'k, 'a) image_env \<Rightarrow> ('i, 'd, 'k) objstore" where
  "ie_S E \<equiv> be_S (ie_E E)"
abbreviation ie_D :: "('s, 'i, 'd, 'k, 'a) image_env \<Rightarrow> ('s, 'k) refdb" where
  "ie_D E \<equiv> be_D (ie_E E)"

definition blobUnknown :: "digest \<Rightarrow> err" where
  "blobUnknown d = WithDetail (NewError CodeManifestBlobUnknown) (Fields [(''digest'', d)])"

section \<open>Resolving what a manifest names\<close>

text \<open>The loop of resolveBlobs and of resolveChildren; \<open>name\<close> is the reference of a digest.\<close>

fun resolve_roots ::
  "('s, 'k) refdb \<Rightarrow> 's \<Rightarrow> (digest \<Rightarrow> string) \<Rightarrow> (digest \<times> 'k) list \<Rightarrow> Descriptor list \<Rightarrow> (digest \<times> 'k) list res" where
  "resolve_roots D s name roots [] = Inr roots"
| "resolve_roots D s name roots (d # ds) =
     (if map_of roots (d_Digest d) \<noteq> None then resolve_roots D s name roots ds
      else case Resolve D s (name (d_Digest d)) of
        Inl er \<Rightarrow> Inl (if er = ErrStoreNotFound then blobUnknown (d_Digest d) else er)
      | Inr k \<Rightarrow> resolve_roots D s name (roots @ [(d_Digest d, k)]) ds)"

definition resolveBlobs :: "('s, 'k) refdb \<Rightarrow> 's \<Rightarrow> Manifest \<Rightarrow> (digest \<times> 'k) list res" where
  "resolveBlobs D s m = resolve_roots D s RefName [] (BlobDescriptors m)"

definition resolveChildren :: "('s, 'k) refdb \<Rightarrow> 's \<Rightarrow> string \<Rightarrow> Manifest \<Rightarrow> (digest \<times> 'k) list res" where
  "resolveChildren D s repo m = resolve_roots D s (ManifestRef repo) [] (ManifestChildren m)"

definition buildRefDir :: "('i, 'd, 'k) objstore \<Rightarrow> (digest \<times> 'k) list \<Rightarrow> 'k res" where
  "buildRefDir S roots = put_dir S (map (\<lambda>(d, k). (True, d, k)) (sort_key fst roots))"

definition image_readMeta :: "('s, 'i, 'd, 'k, 'a) image_env \<Rightarrow> 'k \<Rightarrow> image_Meta res" where
  "image_readMeta E root =
     (case os_LookupKey (ie_S E) root MetaFile of
        Inl er \<Rightarrow> Inl er
      | Inr k \<Rightarrow>
          (case os_ReadFile (ie_S E) k of
             Inl er \<Rightarrow> Inl er
           | Inr b \<Rightarrow>
               (case ie_UnmarshalMeta E b of
                  None \<Rightarrow> Inl (ErrOther ''image: decoding meta.json'')
                | Some m \<Rightarrow> Inr m)))"

section \<open>The root filesystem (rootfs.go)\<close>

definition rootfsApplies :: "Manifest \<Rightarrow> bool" where
  "rootfsApplies m =
     (case m_Config m of
        None \<Rightarrow> False
      | Some c \<Rightarrow> \<not> IsIndex m \<and> (d_MediaType c = MediaTypeOCIConfig \<or> d_MediaType c = MediaTypeDockerConfig))"

definition has_tree :: "image_Meta \<Rightarrow> Rootfs option" where
  "has_tree meta =
     (case im_Rootfs meta of
        None \<Rightarrow> None
      | Some rf \<Rightarrow> if rf_Status rf = RootfsOK \<or> rf_Status rf = RootfsPartial then Some rf else None)"

definition reuseRootfs ::
  "('s, 'i, 'd, 'k, 'a) image_env \<Rightarrow> 's \<Rightarrow> string \<Rightarrow> digest \<Rightarrow> (Rootfs \<times> 'k) option res" where
  "reuseRootfs E s repo digest =
     (case Resolve (ie_D E) s (ManifestRef repo digest) of
        Inl er \<Rightarrow> if er = ErrStoreNotFound then Inr None else Inl er
      | Inr root \<Rightarrow>
          (case image_readMeta E root of
             Inl er \<Rightarrow> Inl er
           | Inr meta \<Rightarrow>
               (case has_tree meta of
                  None \<Rightarrow> Inr None
                | Some rf \<Rightarrow>
                    (case os_LookupKey (ie_S E) root RootfsDir of
                       Inl er \<Rightarrow> Inl er
                     | Inr k \<Rightarrow> Inr (Some (rf, k))))))"

definition rootfs_status :: "RootfsStatus \<Rightarrow> Rootfs" where
  "rootfs_status s = \<lparr>rf_Status = s, rf_Entries = 0, rf_Reason = None, rf_Skipped = [], rf_SkippedCount = 0\<rparr>"

text \<open>
  The loop over the layers: an error, \<open>Inr (Inl reason)\<close> when a layer makes the tree unavailable, or
  the builder with all layers applied.
\<close>

fun apply_layers ::
  "('s, 'i, 'd, 'k, 'a) image_env \<Rightarrow> 's \<Rightarrow> 'k Builder \<Rightarrow> Descriptor list \<Rightarrow> (rootfs_reason + 'k Builder) res" where
  "apply_layers E s b [] = Inr (Inr b)"
| "apply_layers E s b (d # ds) =
     (case blob_Open (ie_E E) s (d_Digest d) of
        Inl er \<Rightarrow> Inl (if er = ErrBlobNotFound then blobUnknown (d_Digest d) else er)
      | Inr bl \<Rightarrow>
          (case blob_Prism (ie_E E) bl of
             Inl er \<Rightarrow> if er = ErrNotPrism then Inr (Inl (LayerRaw (d_Digest d) (bm_RawReason (bl_Meta bl)))) else Inl er
           | Inr prism \<Rightarrow>
               (case Apply b (d_Digest d) (ie_parseLayer E prism) of
                  (None, b') \<Rightarrow> apply_layers E s b' ds
                | (Some er, _) \<Rightarrow> if er = ErrLayer then Inr (Inl (LayerBad (d_Digest d))) else Inl er)))"

definition buildRootfs ::
  "('s, 'i, 'd, 'k, 'a) image_env \<Rightarrow> 's \<Rightarrow> string \<Rightarrow> digest \<Rightarrow> Manifest \<Rightarrow> (Rootfs \<times> 'k option) res" where
  "buildRootfs E s repo digest m =
     (if \<not> rootfsApplies m then Inr (rootfs_status RootfsNotApplicable, None)
      else case reuseRootfs E s repo digest of
        Inl er \<Rightarrow> Inl er
      | Inr (Some (info, k)) \<Rightarrow> Inr (info, Some k)
      | Inr None \<Rightarrow>
          (case apply_layers E s New (m_Layers m) of
             Inl er \<Rightarrow> Inl er
           | Inr (Inl reason) \<Rightarrow> Inr ((rootfs_status RootfsUnavailable)\<lparr>rf_Reason := Some reason\<rparr>, None)
           | Inr (Inr b) \<Rightarrow>
               (case Write (os_K (ie_S E)) (os_B (ie_S E)) (ie_X E) b of
                  Inl er \<Rightarrow> Inl er
                | Inr res \<Rightarrow>
                    Inr ((if r_SkippedCount res > 0
                          then \<lparr>rf_Status = RootfsPartial, rf_Entries = r_Entries res, rf_Reason = None,
                                rf_Skipped = r_Skipped res, rf_SkippedCount = r_SkippedCount res\<rparr>
                          else \<lparr>rf_Status = RootfsOK, rf_Entries = r_Entries res, rf_Reason = None,
                                rf_Skipped = [], rf_SkippedCount = 0\<rparr>), Some (r_Root res)))))"

section \<open>Accounting (stats.go)\<close>

text \<open>The sums are of int64 values, descriptor sizes among them that nothing bounds: they wrap.\<close>

definition add_stats :: "image_Stats \<Rightarrow> int \<Rightarrow> int \<Rightarrow> int \<Rightarrow> int \<Rightarrow> image_Stats" where
  "add_stats a tot logical deduped disk =
     \<lparr>is_TotalBytes = i64 (is_TotalBytes a + tot), is_LogicalBytes = i64 (is_LogicalBytes a + logical),
      is_DedupedBytes = i64 (is_DedupedBytes a + deduped), is_DiskBytes = i64 (is_DiskBytes a + disk)\<rparr>"

fun blob_stats ::
  "Options \<Rightarrow> int \<Rightarrow> 's blob_store \<Rightarrow> digest list \<Rightarrow> image_Stats \<Rightarrow> Descriptor list \<Rightarrow> image_Stats \<times> 's blob_store" where
  "blob_stats opts now st seen acc [] = (acc, st)"
| "blob_stats opts now st seen acc (d # ds) =
     (if d_Digest d \<in> set seen then blob_stats opts now st seen acc ds
      else case TakeRecent opts now st (d_Digest d) of
        (Some recent, st') \<Rightarrow>
          blob_stats opts now st' (d_Digest d # seen)
            (add_stats acc (d_Size d) (LogicalBytes recent) (DedupedBytes recent) (DiskBytes recent)) ds
      | (None, st') \<Rightarrow>
          blob_stats opts now st' (d_Digest d # seen) (add_stats acc (d_Size d) (d_Size d) (d_Size d) 0) ds)"

fun child_stats ::
  "('s, 'i, 'd, 'k, 'a) image_env \<Rightarrow> 's \<Rightarrow> string \<Rightarrow> digest list \<Rightarrow> image_Stats \<Rightarrow> Descriptor list \<Rightarrow> image_Stats res" where
  "child_stats E s repo seen acc [] = Inr acc"
| "child_stats E s repo seen acc (d # ds) =
     (if d_Digest d \<in> set seen then child_stats E s repo seen acc ds
      else case Resolve (ie_D E) s (ManifestRef repo (d_Digest d)) of
        Inl er \<Rightarrow> Inl (if er = ErrStoreNotFound then blobUnknown (d_Digest d) else er)
      | Inr root \<Rightarrow>
          (case image_readMeta E root of
             Inl er \<Rightarrow> Inl er
           | Inr child \<Rightarrow>
               (let c = im_Stats child in
                child_stats E s repo (d_Digest d # seen)
                  (add_stats acc (is_TotalBytes c) (is_LogicalBytes c) (is_DedupedBytes c) (is_DiskBytes c)) ds)))"

definition computeStats ::
  "('s, 'i, 'd, 'k, 'a) image_env \<Rightarrow> image_io \<Rightarrow> 's blob_store \<Rightarrow> string \<Rightarrow> Manifest \<Rightarrow> bytes \<Rightarrow> Stats
     \<Rightarrow> image_Stats res \<times> 's blob_store" where
  "computeStats E io st repo m body objs =
     (case ii_ctx io 1 of
        Some er \<Rightarrow> (Inl er, st)
      | None \<Rightarrow>
          (case blob_stats (ie_opts E) (ii_now io) st []
              \<lparr>is_TotalBytes = int (length body), is_LogicalBytes = LogicalBytes objs,
               is_DedupedBytes = DedupedBytes objs, is_DiskBytes = DiskBytes objs\<rparr> (BlobDescriptors m) of
             (acc, st') \<Rightarrow>
               if \<not> IsIndex m then (Inr acc, st')
               else (child_stats E (bs_refs st') repo [] acc (ManifestChildren m), st')))"

section \<open>Put\<close>

text \<open>The checks of the request: the tag, empty for a digest, and the manifest.\<close>

definition put_check ::
  "('s, 'i, 'd, 'k, 'a) image_env \<Rightarrow> string \<Rightarrow> string \<Rightarrow> bytes \<Rightarrow> (string \<times> Manifest) res" where
  "put_check E repo reference body =
     (if ValidateRepository repo \<noteq> None then Inl (NewError CodeNameInvalid)
      else case (if IsDigest reference then
                   (case ParseDigest reference of
                      Inl _ \<Rightarrow> Inl (NewError CodeDigestInvalid)
                    | Inr d \<Rightarrow> if d \<noteq> DigestOfBytes (be_sha (ie_E E)) body then Inl (NewError CodeDigestInvalid)
                              else Inr '''')
                 else if ValidateTag reference \<noteq> None then Inl (NewError CodeManifestInvalid)
                 else Inr reference) of
        Inl er \<Rightarrow> Inl er
      | Inr tag \<Rightarrow>
          (case ParseManifest (ie_unmarshal E) body of
             Inl er \<Rightarrow> Inl er
           | Inr m \<Rightarrow>
               (case m_Subject m of
                  None \<Rightarrow> Inr (tag, m)
                | Some s \<Rightarrow>
                    (case ParseDigest (d_Digest s) of
                       Inl _ \<Rightarrow> Inl (NewError CodeManifestInvalid)
                     | Inr _ \<Rightarrow> Inr (tag, m)))))"

definition new_image_meta ::
  "('s, 'i, 'd, 'k, 'a) image_env \<Rightarrow> image_io \<Rightarrow> Manifest \<Rightarrow> bytes \<Rightarrow> string \<Rightarrow> Rootfs option \<Rightarrow> image_Stats \<Rightarrow> image_Meta" where
  "new_image_meta E io m body contentType rf stats =
     \<lparr>im_Version = metaVersion, im_Kind = (if IsIndex m then KindIndex else KindManifest),
      im_MediaType = EffectiveMediaType m contentType, im_Digest = DigestOfBytes (be_sha (ie_E E)) body,
      im_Size = int (length body), im_ArtifactType = EffectiveArtifactType m, im_Subject = m_Subject m,
      im_Annotations = m_Annotations m, im_CreatedAt = ii_now io, im_Stats = stats, im_Rootfs = rf\<rparr>"

text \<open>
  Pass one after the lock: manifest bytes, blobs/ and, for an index, manifests/. Pass two: meta.json
  and the root.
\<close>

definition pass_one ::
  "('s, 'i, 'd, 'k, 'a) image_env \<Rightarrow> image_io \<Rightarrow> bytes \<Rightarrow> (digest \<times> 'k) list \<Rightarrow> (digest \<times> 'k) list option
     \<Rightarrow> ('k \<times> 'k \<times> 'k option \<times> Stats) res" where
  "pass_one E io body blobRoots childRoots =
     (case PutBytes (ie_S E) body of
        Inl er \<Rightarrow> Inl er
      | Inr manifestKey \<Rightarrow>
          (case buildRefDir (ie_S E) blobRoots of
             Inl er \<Rightarrow> Inl er
           | Inr blobsKey \<Rightarrow>
               (case (case childRoots of
                        None \<Rightarrow> Inr None
                      | Some rs \<Rightarrow> (case buildRefDir (ie_S E) rs of Inl er \<Rightarrow> Inl er | Inr k \<Rightarrow> Inr (Some k))) of
                  Inl er \<Rightarrow> Inl er
                | Inr manifestsKey \<Rightarrow>
                    (case ii_close io of
                       Inl er \<Rightarrow> Inl er
                     | Inr objs \<Rightarrow> Inr (manifestKey, blobsKey, manifestsKey, objs)))))"

definition image_entries :: "'k \<Rightarrow> 'k \<Rightarrow> 'k option \<Rightarrow> 'k \<Rightarrow> 'k option \<Rightarrow> (bool \<times> string \<times> 'k) list" where
  "image_entries blobsKey manifestKey manifestsKey metaKey rootfsKey =
     [(True, BlobsDir, blobsKey), (False, ManifestFile, manifestKey)]
     @ map (\<lambda>k. (True, ManifestsDir, k)) (opt_list manifestsKey)
     @ [(False, MetaFile, metaKey)]
     @ map (\<lambda>k. (True, RootfsDir, k)) (opt_list rootfsKey)"

definition pass_two ::
  "('s, 'i, 'd, 'k, 'a) image_env \<Rightarrow> image_io \<Rightarrow> image_Meta \<Rightarrow> 'k \<Rightarrow> 'k \<Rightarrow> 'k option \<Rightarrow> 'k option \<Rightarrow> 'k res" where
  "pass_two E io meta blobsKey manifestKey manifestsKey rootfsKey =
     (case ie_Marshal E meta of
        Inl er \<Rightarrow> Inl er
      | Inr metaBytes \<Rightarrow>
          (case PutBytes (ie_S E) metaBytes of
             Inl er \<Rightarrow> Inl er
           | Inr metaKey \<Rightarrow>
               (case put_dir (ie_S E) (image_entries blobsKey manifestKey manifestsKey metaKey rootfsKey) of
                  Inl er \<Rightarrow> Inl er
                | Inr root \<Rightarrow> (case ii_rootClose io of Some er \<Rightarrow> Inl er | None \<Rightarrow> Inr root))))"

text \<open>The manifest reference, then the tag, then the referrer.\<close>

definition publish_refs ::
  "('s, 'k) refdb \<Rightarrow> 's \<Rightarrow> string \<Rightarrow> digest \<Rightarrow> string \<Rightarrow> Descriptor option \<Rightarrow> 'k \<Rightarrow> err option \<times> 's" where
  "publish_refs D s repo digest tag subject root =
     (case Publish D s (ManifestRef repo digest) root of
        (Some er, s1) \<Rightarrow> (Some er, s1)
      | (None, s1) \<Rightarrow>
          (case (if tag \<noteq> '''' then Publish D s1 (TagRef repo tag) root else (None, s1)) of
             (Some er, s2) \<Rightarrow> (Some er, s2)
           | (None, s2) \<Rightarrow>
               (case subject of
                  None \<Rightarrow> (None, s2)
                | Some d \<Rightarrow> Publish D s2 (ReferrerRef repo (d_Digest d) digest) root)))"

text \<open>Before the lock: the blob roots and the root filesystem.\<close>

definition put_before ::
  "('s, 'i, 'd, 'k, 'a) image_env \<Rightarrow> image_io \<Rightarrow> 's \<Rightarrow> string \<Rightarrow> Manifest \<Rightarrow> bytes
     \<Rightarrow> ((digest \<times> 'k) list \<times> Rootfs option \<times> 'k option) res" where
  "put_before E io s0 repo m body =
     (case ii_ctx io 0 of
        Some er \<Rightarrow> Inl er
      | None \<Rightarrow>
          (case resolveBlobs (ie_D E) s0 m of
             Inl er \<Rightarrow> Inl er
           | Inr blobRoots \<Rightarrow>
               if IsIndex m then Inr (blobRoots, None, None)
               else case buildRootfs E s0 repo (DigestOfBytes (be_sha (ie_E E)) body) m of
                 Inl er \<Rightarrow> Inl er
               | Inr (info, k) \<Rightarrow> Inr (blobRoots, Some info, k)))"

definition image_Put ::
  "('s, 'i, 'd, 'k, 'a) image_env \<Rightarrow> image_io \<Rightarrow> 's blob_store \<Rightarrow> 's blob_store \<Rightarrow> string \<Rightarrow> string \<Rightarrow> string
     \<Rightarrow> bytes \<Rightarrow> image_Meta res \<times> 's blob_store" where
  "image_Put E io st0 st repo reference contentType body =
     (case put_check E repo reference body of
        Inl er \<Rightarrow> (Inl er, st)
      | Inr (tag, m) \<Rightarrow>
     (case put_before E io (bs_refs st0) repo m body of
        Inl er \<Rightarrow> (Inl er, st)
      | Inr (blobRoots, rf, rootfsKey) \<Rightarrow>
     (case (if IsIndex m then (case resolveChildren (ie_D E) (bs_refs st) repo m of
                                 Inl er \<Rightarrow> Inl er | Inr rs \<Rightarrow> Inr (Some rs))
            else Inr None) of
        Inl er \<Rightarrow> (Inl er, st)
      | Inr childRoots \<Rightarrow>
     (case pass_one E io body blobRoots childRoots of
        Inl er \<Rightarrow> (Inl er, st)
      | Inr (manifestKey, blobsKey, manifestsKey, objs) \<Rightarrow>
     (case computeStats E io st repo m body objs of
        (Inl er, st1) \<Rightarrow> (Inl er, st1)
      | (Inr stats, st1) \<Rightarrow>
     (let meta = new_image_meta E io m body contentType rf stats in
      case pass_two E io meta blobsKey manifestKey manifestsKey rootfsKey of
        Inl er \<Rightarrow> (Inl er, st1)
      | Inr root \<Rightarrow>
          (case publish_refs (ie_D E) (bs_refs st1) repo (im_Digest meta) tag (m_Subject m) root of
             (Some er, s') \<Rightarrow> (Inl er, st1\<lparr>bs_refs := s'\<rparr>)
           | (None, s') \<Rightarrow> (Inr meta, st1\<lparr>bs_refs := s'\<rparr>))))))))"

section \<open>Open, Delete, Referrers\<close>

definition refFor :: "string \<Rightarrow> string \<Rightarrow> string res" where
  "refFor repo reference =
     (if ValidateRepository repo \<noteq> None then Inl ErrImageNotFound
      else if IsDigest reference then
        (case ParseDigest reference of Inl _ \<Rightarrow> Inl (NewError CodeDigestInvalid) | Inr d \<Rightarrow> Inr (ManifestRef repo d))
      else if ValidateTag reference \<noteq> None then Inl ErrImageNotFound
      else Inr (TagRef repo reference))"

record 'k Image =
  img_Meta :: image_Meta
  img_root :: 'k
  img_manifest :: 'k
  img_rootfs :: "'k option"

definition image_Open :: "('s, 'i, 'd, 'k, 'a) image_env \<Rightarrow> 's \<Rightarrow> string \<Rightarrow> string \<Rightarrow> 'k Image res" where
  "image_Open E s repo reference =
     (case refFor repo reference of
        Inl er \<Rightarrow> Inl er
      | Inr name \<Rightarrow>
          (case Resolve (ie_D E) s name of
             Inl er \<Rightarrow> Inl (if er = ErrStoreNotFound then ErrImageNotFound else er)
           | Inr root \<Rightarrow>
               (case image_readMeta E root of
                  Inl er \<Rightarrow> Inl er
                | Inr meta \<Rightarrow>
                    (case os_LookupKey (ie_S E) root ManifestFile of
                       Inl er \<Rightarrow> Inl er
                     | Inr manifestKey \<Rightarrow>
                         (case has_tree meta of
                            None \<Rightarrow> Inr \<lparr>img_Meta = meta, img_root = root, img_manifest = manifestKey, img_rootfs = None\<rparr>
                          | Some _ \<Rightarrow>
                              (case os_LookupKey (ie_S E) root RootfsDir of
                                 Inl er \<Rightarrow> Inl er
                               | Inr k \<Rightarrow> Inr \<lparr>img_Meta = meta, img_root = root, img_manifest = manifestKey,
                                            img_rootfs = Some k\<rparr>))))))"

text \<open>The deletion of a reference that may be gone already.\<close>

definition drop_ref :: "('s, 'k) refdb \<Rightarrow> 's \<Rightarrow> string \<Rightarrow> err option \<times> 's" where
  "drop_ref D s name =
     (case DeleteRef D s name of (er, s') \<Rightarrow> (if er = Some ErrStoreNotFound then None else er, s'))"

fun delete_tags ::
  "('s, 'i, 'd, 'k, 'a) image_env \<Rightarrow> 's \<Rightarrow> 'k \<Rightarrow> image_Meta \<Rightarrow> (string \<times> 'k) list \<Rightarrow> err option \<times> 's" where
  "delete_tags E s root meta [] = (None, s)"
| "delete_tags E s root meta ((name, k) # refs) =
     (case (if k = root then Inr True
            else case image_readMeta E k of Inl er \<Rightarrow> Inl er | Inr tm \<Rightarrow> Inr (im_Digest tm = im_Digest meta)) of
        Inl er \<Rightarrow> (Some er, s)
      | Inr same \<Rightarrow>
          if \<not> same then delete_tags E s root meta refs
          else case drop_ref (ie_D E) s name of
            (Some er, s') \<Rightarrow> (Some er, s')
          | (None, s') \<Rightarrow> delete_tags E s' root meta refs)"

definition not_found_as :: "err \<Rightarrow> err \<Rightarrow> err" where
  "not_found_as nf er = (if er = ErrStoreNotFound then nf else er)"

definition image_Delete ::
  "('s, 'i, 'd, 'k, 'a) image_env \<Rightarrow> 's \<Rightarrow> string \<Rightarrow> string \<Rightarrow> err option \<times> 's" where
  "image_Delete E s repo reference =
     (case refFor repo reference of
        Inl er \<Rightarrow> (Some er, s)
      | Inr name \<Rightarrow>
          if \<not> IsDigest reference then
            (case DeleteRef (ie_D E) s name of (er, s') \<Rightarrow> (map_option (not_found_as ErrImageNotFound) er, s'))
          else case Resolve (ie_D E) s name of
            Inl er \<Rightarrow> (Some (not_found_as ErrImageNotFound er), s)
          | Inr root \<Rightarrow>
              (case image_readMeta E root of
                 Inl er \<Rightarrow> (Some er, s)
               | Inr meta \<Rightarrow>
                   (case DeleteRef (ie_D E) s name of
                      (Some er, s1) \<Rightarrow> (Some (not_found_as ErrImageNotFound er), s1)
                    | (None, s1) \<Rightarrow>
                        (case ListRefs (ie_D E) s1 (TagPrefix @ repo @ '':'') of
                           Inl er \<Rightarrow> (Some er, s1)
                         | Inr tags \<Rightarrow>
                             (case delete_tags E s1 root meta tags of
                                (Some er, s2) \<Rightarrow> (Some er, s2)
                              | (None, s2) \<Rightarrow>
                                  (case im_Subject meta of
                                     None \<Rightarrow> (None, s2)
                                   | Some d \<Rightarrow>
                                       drop_ref (ie_D E) s2 (ReferrerRef repo (d_Digest d) (im_Digest meta))))))))"

definition referrer_desc :: "image_Meta \<Rightarrow> Descriptor" where
  "referrer_desc m = \<lparr>d_MediaType = im_MediaType m, d_Digest = im_Digest m, d_Size = im_Size m,
     d_ArtifactType = im_ArtifactType m, d_Annotations = im_Annotations m, d_Platform = None\<rparr>"

fun collect_referrers ::
  "('s, 'i, 'd, 'k, 'a) image_env \<Rightarrow> string \<Rightarrow> digest \<Rightarrow> string \<Rightarrow> (string \<times> 'k) list \<Rightarrow> Descriptor list res" where
  "collect_referrers E repo subject artifactType [] = Inr []"
| "collect_referrers E repo subject artifactType ((name, k) # refs) =
     (if (case ParseReferrerRef name of None \<Rightarrow> True | Some (refRepo, refSubject, _) \<Rightarrow> refRepo \<noteq> repo \<or> refSubject \<noteq> subject)
      then collect_referrers E repo subject artifactType refs
      else case image_readMeta E k of
        Inl er \<Rightarrow> Inl er
      | Inr m \<Rightarrow>
          (case collect_referrers E repo subject artifactType refs of
             Inl er \<Rightarrow> Inl er
           | Inr out \<Rightarrow>
               Inr (if artifactType \<noteq> '''' \<and> im_ArtifactType m \<noteq> artifactType then out else referrer_desc m # out)))"

definition Referrers ::
  "('s, 'i, 'd, 'k, 'a) image_env \<Rightarrow> 's \<Rightarrow> string \<Rightarrow> digest \<Rightarrow> string \<Rightarrow> Descriptor list res" where
  "Referrers E s repo subject artifactType =
     (case ListRefs (ie_D E) s (ReferrerRef repo subject '''') of
        Inl er \<Rightarrow> Inl er
      | Inr refs \<Rightarrow>
          (case collect_referrers E repo subject artifactType refs of
             Inl er \<Rightarrow> Inl er
           | Inr out \<Rightarrow> Inr (sort_key d_Digest out)))"

text \<open>
  WriteTo of an image: reads of 64 KiB until EOF, the context checked before each, and the digest of
  what was written.
\<close>

partial_function (option) copy_all ::
  "'k keyops \<Rightarrow> ('k \<Rightarrow> bytes res) \<Rightarrow> (bytes \<Rightarrow> 'k list res) \<Rightarrow> (nat \<Rightarrow> err option) \<Rightarrow> nat \<Rightarrow> 'k Reader \<Rightarrow> bytes
     \<Rightarrow> (bytes \<times> err option) option" where
  "copy_all K get dec ctx i r acc =
     (case ctx i of
        Some e \<Rightarrow> Some (acc, Some e)
      | None \<Rightarrow>
          do {
            (out, er, r') \<leftarrow> Reader_Read K get dec 65536 r;
            (case er of
               Some REOF \<Rightarrow> Some (acc @ out, None)
             | Some (RErr e) \<Rightarrow> Some (acc @ out, Some e)
             | None \<Rightarrow> copy_all K get dec ctx (Suc i) r' (acc @ out))
          })"

definition image_WriteTo ::
  "('s, 'i, 'd, 'k, 'a) image_env \<Rightarrow> (nat \<Rightarrow> err option) \<Rightarrow> 'k Image \<Rightarrow> (bytes \<times> err option) option" where
  "image_WriteTo E ctx im =
     (case copy_all (os_K (ie_S E)) (os_get (ie_S E)) (os_dec (ie_S E)) ctx 0 (NewReader (img_manifest im)) [] of
        None \<Rightarrow> None
      | Some (out, Some er) \<Rightarrow> Some (out, Some er)
      | Some (out, None) \<Rightarrow>
          Some (out, if DigestOfBytes (be_sha (ie_E E)) out \<noteq> im_Digest (img_Meta im)
                     then Some ErrImageDigestMismatch else None))"

end
