(* ===== verification/Registry_Http.thy ===== *)
theory Registry_Http
  imports Image_Store
begin

text \<open>
  The HTTP surface of the registry, first part: requests and responses, the mapping of errors to
  answers (src/registry/errors.go), the routes (server.go) and the paginated listings (lists.go).
  A request is what net/http hands to a handler: method, decoded path, parsed query, canonical
  headers. A response writer keeps the header map, the status and header snapshot once they were
  sent, and the bytes of the body. \<open>json.Marshal\<close> is the parameter \<open>J\<close>. Log lines are not modelled.
\<close>

section \<open>Requests and responses (net/http)\<close>

record request =
  rq_Method :: string
  rq_Path :: string
  rq_EscapedPath :: string
  rq_Query :: "string list gomap"
  rq_Header :: "string gomap"
  rq_ContentLength :: int
  rq_ctxErr :: "err option"

definition QueryGet :: "request \<Rightarrow> string \<Rightarrow> string" where
  "QueryGet r k = (case map_of (rq_Query r) k of Some (v # _) \<Rightarrow> v | _ \<Rightarrow> '''')"

definition HeaderGet :: "request \<Rightarrow> string \<Rightarrow> string" where
  "HeaderGet r k = (case map_of (rq_Header r) k of Some v \<Rightarrow> v | None \<Rightarrow> '''')"

record writer =
  w_Header :: "string gomap"
  w_Sent :: "(nat \<times> string gomap) option"
  w_Body :: bytes

definition new_writer :: writer where
  "new_writer = \<lparr>w_Header = [], w_Sent = None, w_Body = []\<rparr>"

definition Set :: "writer \<Rightarrow> string \<Rightarrow> string \<Rightarrow> writer" where
  "Set w k v = w\<lparr>w_Header := AList.update k v (w_Header w)\<rparr>"

definition Del :: "writer \<Rightarrow> string list \<Rightarrow> writer" where
  "Del w ks = w\<lparr>w_Header := foldl (\<lambda>h k. AList.delete k h) (w_Header w) ks\<rparr>"

definition WriteHeader :: "writer \<Rightarrow> nat \<Rightarrow> writer" where
  "WriteHeader w code = (case w_Sent w of None \<Rightarrow> w\<lparr>w_Sent := Some (code, w_Header w)\<rparr> | Some _ \<Rightarrow> w)"

definition write_body :: "writer \<Rightarrow> bytes \<Rightarrow> writer" where
  "write_body w p = (let w' = WriteHeader w 200 in w'\<lparr>w_Body := w_Body w' @ p\<rparr>)"

text \<open>A handler answers, or panics with http.ErrAbortHandler, which cuts the connection.\<close>

datatype outcome = Answered writer | Aborted writer

section \<open>Bodies\<close>

record fsEntry =
  fj_Name :: string
  fj_Type :: string
  fj_Mode :: string
  fj_UID :: "64 word"
  fj_GID :: "64 word"
  fj_Mtime :: string
  fj_Size :: "int option"
  fj_Target :: string
  fj_Major :: "64 word option"
  fj_Minor :: "64 word option"

datatype json =
    JErrors "(ErrorCode \<times> detail) list"
  | JTags string "string list"
  | JCatalog "string list"
  | JReferrers int string "Descriptor list"
  | JListing string "fsEntry list"
  | JEntry fsEntry

section \<open>Error answers (errors.go)\<close>

definition writeJSON :: "(json \<Rightarrow> bytes option) \<Rightarrow> writer \<Rightarrow> nat \<Rightarrow> json \<Rightarrow> writer" where
  "writeJSON J w status v =
     (let (body, status') = (case J v of Some b \<Rightarrow> (b, status) | None \<Rightarrow> (''{\"errors\":[]}'', 500));
          w1 = Set w ''Content-Type'' ''application/json'';
          w2 = Set w1 ''Content-Length'' (FormatInt (int (length body)))
      in write_body (WriteHeader w2 status') body)"

definition writeErrorStatus :: "(json \<Rightarrow> bytes option) \<Rightarrow> writer \<Rightarrow> nat \<Rightarrow> ErrorCode \<Rightarrow> detail \<Rightarrow> writer" where
  "writeErrorStatus J w status code d = writeJSON J w status (JErrors [(code, d)])"

definition writeError :: "(json \<Rightarrow> bytes option) \<Rightarrow> writer \<Rightarrow> ErrorCode \<Rightarrow> detail \<Rightarrow> writer" where
  "writeError J w code d = writeErrorStatus J w (DefaultStatus code) code d"

definition writeEmptyErrors :: "(json \<Rightarrow> bytes option) \<Rightarrow> writer \<Rightarrow> nat \<Rightarrow> writer" where
  "writeEmptyErrors J w status = writeJSON J w status (JErrors [])"

definition notFound :: "(json \<Rightarrow> bytes option) \<Rightarrow> writer \<Rightarrow> writer" where
  "notFound J w = writeEmptyErrors J w 404"

definition methodNotAllowed :: "(json \<Rightarrow> bytes option) \<Rightarrow> writer \<Rightarrow> string list \<Rightarrow> writer" where
  "methodNotAllowed J w allowed = writeError J (Set w ''Allow'' (Join allowed '', '')) CodeUnsupported NoDetail"

definition isClientGone :: "request \<Rightarrow> err \<Rightarrow> bool" where
  "isClientGone r er \<longleftrightarrow>
     rq_ctxErr r \<noteq> None \<or> er = ErrCanceled \<or> er = ErrDeadlineExceeded \<or> er = ErrUnexpectedEOF \<or> er = ErrNetOp"

definition handleError :: "(json \<Rightarrow> bytes option) \<Rightarrow> request \<Rightarrow> writer \<Rightarrow> err \<Rightarrow> writer" where
  "handleError J r w er =
     (case er of
        OciError code d \<Rightarrow> writeError J w code d
      | ErrRawRefused _ \<Rightarrow> writeError J w CodeBlobUploadInvalid NoDetail
      | ErrBlobNotFound \<Rightarrow> writeError J w CodeBlobUnknown NoDetail
      | ErrImageNotFound \<Rightarrow> writeError J w CodeManifestUnknown NoDetail
      | ErrUploadUnknown \<Rightarrow> writeError J w CodeBlobUploadUnknown NoDetail
      | _ \<Rightarrow> if isClientGone r er \<and> rq_ctxErr r \<noteq> None then w
            else writeEmptyErrors J w 500)"

section \<open>Routes (server.go)\<close>

record route =
  rt_name :: string
  rt_kind :: string
  rt_rest :: string

definition route_kinds :: "string list" where
  "route_kinds = [''blobs'', ''manifests'', ''tags'', ''referrers'']"

text \<open>
  pathRE, with the leftmost greedy match of package regexp: the name group takes as much as it can, so
  the last occurrence of a keyword segment after at least one byte of name ends it. The dot does not
  match a newline.
\<close>

definition kind_at :: "string \<Rightarrow> string option" where
  "kind_at s = find (\<lambda>k. HasPrefix s (CHR ''/'' # k @ ''/'')) route_kinds"

definition pathRE_match :: "string \<Rightarrow> (string \<times> string \<times> string) option" where
  "pathRE_match p =
     (case CutPrefix p ''/v2/'' of
        None \<Rightarrow> None
      | Some t \<Rightarrow>
          if CHR ''\<newline>'' \<in> set t then None
          else case find (\<lambda>i. kind_at (drop i t) \<noteq> None) (rev [1..<length t]) of
            None \<Rightarrow> None
          | Some i \<Rightarrow>
              (case kind_at (drop i t) of
                 None \<Rightarrow> None
               | Some k \<Rightarrow> Some (take i t, k, drop (i + length k + 2) t)))"

definition parsePath :: "string \<Rightarrow> route option" where
  "parsePath p =
     (case pathRE_match p of
        None \<Rightarrow> None
      | Some (name, kind, rest) \<Rightarrow>
          (case (if kind = ''blobs'' then CutPrefix rest ''uploads/'' else None) of
             Some after \<Rightarrow> Some \<lparr>rt_name = name, rt_kind = ''uploads'', rt_rest = after\<rparr>
           | None \<Rightarrow> Some \<lparr>rt_name = name, rt_kind = kind, rt_rest = rest\<rparr>))"

definition handleBase :: "(json \<Rightarrow> bytes option) \<Rightarrow> request \<Rightarrow> writer \<Rightarrow> writer" where
  "handleBase J r w =
     (if rq_Method r = ''GET'' \<or> rq_Method r = ''HEAD'' then
        (let w1 = WriteHeader (Set (Set w ''Content-Type'' ''application/json'') ''Content-Length'' ''2'') 200
         in if rq_Method r = ''GET'' then write_body w1 ''{}'' else w1)
      else methodNotAllowed J w [''GET'', ''HEAD''])"

section \<open>Listings (lists.go)\<close>

text \<open>strconv.Atoi of a 64-bit int is ParseInt of base 10; the size is \<open>None\<close> for the error.\<close>

definition pageSize :: "request \<Rightarrow> int option" where
  "pageSize r =
     (let raw = QueryGet r ''n'' in
      if raw = '''' then Some (-1)
      else case ParseInt raw of None \<Rightarrow> None | Some n \<Rightarrow> if n < 0 then None else Some n)"

fun first_after :: "string list \<Rightarrow> string \<Rightarrow> nat" where
  "first_after [] l = 0"
| "first_after (it # its) l = (if it > l then 0 else Suc (first_after its l))"

definition paginate :: "string list \<Rightarrow> int \<Rightarrow> string \<Rightarrow> string list \<times> string" where
  "paginate items n l =
     (let page = drop (first_after items l) items in
      if 0 \<le> n \<and> n < int (length page) then
        (let page' = take (nat n) page in (page', if n > 0 then page' ! nat (n - 1) else ''''))
      else (page, ''''))"

text \<open>url.QueryEscape: unreserved bytes stay, a blank becomes +, any other byte is %XX.\<close>

definition unreserved :: "char \<Rightarrow> bool" where
  "unreserved c \<longleftrightarrow> alnum c \<or> c \<in> set ''-_.~''"

definition upper_hex_digit :: "nat \<Rightarrow> char" where
  "upper_hex_digit n = (if n < 10 then char_of (48 + n) else char_of (55 + n))"

definition escape_byte :: "char \<Rightarrow> string" where
  "escape_byte c =
     (if unreserved c then [c] else if c = CHR '' '' then ''+''
      else [CHR ''%'', upper_hex_digit (of_char c div 16), upper_hex_digit (of_char c mod 16)])"

definition QueryEscape :: "string \<Rightarrow> string" where
  "QueryEscape s = concat (map escape_byte s)"

definition nextLink :: "string \<Rightarrow> int \<Rightarrow> string \<Rightarrow> string" where
  "nextLink path n l = ''<'' @ path @ ''?n='' @ FormatInt n @ ''&last='' @ QueryEscape l @ ''>; rel=\"next\"''"

definition writeJSONAs :: "(json \<Rightarrow> bytes option) \<Rightarrow> writer \<Rightarrow> nat \<Rightarrow> string \<Rightarrow> json \<Rightarrow> writer" where
  "writeJSONAs J w status contentType v =
     (case J v of
        None \<Rightarrow> writeEmptyErrors J w 500
      | Some body \<Rightarrow>
          write_body (WriteHeader (Set (Set w ''Content-Type'' contentType)
            ''Content-Length'' (FormatInt (int (length body)))) status) body)"

definition invalidPageSize :: "(json \<Rightarrow> bytes option) \<Rightarrow> writer \<Rightarrow> writer" where
  "invalidPageSize J w = writeErrorStatus J w 400 CodeUnsupported NoDetail"

definition handleTags ::
  "('s, 'k) refdb \<Rightarrow> (json \<Rightarrow> bytes option) \<Rightarrow> 's \<Rightarrow> request \<Rightarrow> writer \<Rightarrow> route \<Rightarrow> writer" where
  "handleTags D J s r w rt =
     (if rt_rest rt \<noteq> ''list'' then notFound J w
      else if rq_Method r \<noteq> ''GET'' then methodNotAllowed J w [''GET'']
      else case pageSize r of
        None \<Rightarrow> invalidPageSize J w
      | Some n \<Rightarrow>
          (case Tags D s (rt_name rt) of
             Inl er \<Rightarrow> if er = ErrImageNotFound then writeError J w CodeNameUnknown NoDetail
                      else handleError J r w er
           | Inr tags \<Rightarrow>
               (let (page, next) = paginate tags n (QueryGet r ''last'');
                    w1 = (if next \<noteq> '''' then Set w ''Link'' (nextLink (''/v2/'' @ rt_name rt @ ''/tags/list'') n next) else w)
                in writeJSON J w1 200 (JTags (rt_name rt) page))))"

definition handleReferrers ::
  "('s, 'i, 'd, 'k, 'a) image_env \<Rightarrow> (json \<Rightarrow> bytes option) \<Rightarrow> 's \<Rightarrow> request \<Rightarrow> writer \<Rightarrow> route \<Rightarrow> writer" where
  "handleReferrers E J s r w rt =
     (if rt_rest rt = '''' then notFound J w
      else if rq_Method r \<noteq> ''GET'' then methodNotAllowed J w [''GET'']
      else case ParseDigest (rt_rest rt) of
        Inl _ \<Rightarrow> writeError J w CodeDigestInvalid NoDetail
      | Inr subject \<Rightarrow>
          (let artifactType = QueryGet r ''artifactType'' in
           case Referrers E s (rt_name rt) subject artifactType of
             Inl er \<Rightarrow> handleError J r w er
           | Inr ds \<Rightarrow>
               (let w1 = (if artifactType \<noteq> '''' then Set w ''OCI-Filters-Applied'' ''artifactType'' else w)
                in writeJSONAs J w1 200 MediaTypeOCIIndex (JReferrers 2 MediaTypeOCIIndex ds))))"

definition handleCatalog ::
  "('s, 'k) refdb \<Rightarrow> (json \<Rightarrow> bytes option) \<Rightarrow> 's \<Rightarrow> request \<Rightarrow> writer \<Rightarrow> writer" where
  "handleCatalog D J s r w =
     (if rq_Method r \<noteq> ''GET'' then methodNotAllowed J w [''GET'']
      else case pageSize r of
        None \<Rightarrow> invalidPageSize J w
      | Some n \<Rightarrow>
          (case Repositories D s of
             Inl er \<Rightarrow> handleError J r w er
           | Inr repos \<Rightarrow>
               (let (page, next) = paginate repos n (QueryGet r ''last'');
                    w1 = (if next \<noteq> '''' then Set w ''Link'' (nextLink ''/v2/_catalog'' n next) else w)
                in writeJSON J w1 200 (JCatalog page))))"

end
