(* ===== verification/Registry_Blobs.thy ===== *)
theory Registry_Blobs
  imports Registry_Http
begin

text \<open>
  Serving and deleting blobs and manifests (src/registry/blobs.go and manifests.go). A body is
  streamed by \<open>bodyWriter\<close>, which sends the status with the first byte: \<open>serve_stream\<close> is the code
  that follows the stream's end in serveBlob, serveManifest, serveFile and serveTar. A handler that
  streams returns \<open>None\<close> where the reader of the store would not return.
\<close>

section \<open>Ranges\<close>

datatype range_result = FullBody | Unsatisfiable | ByteRange int int

definition parseRange :: "string \<Rightarrow> int \<Rightarrow> range_result" where
  "parseRange header sz =
     (case CutPrefix (TrimSpace header) ''bytes='' of
        None \<Rightarrow> FullBody
      | Some spec \<Rightarrow>
          if ContainsByte spec CHR '','' then FullBody
          else case Cut (TrimSpace spec) CHR ''-'' of
            None \<Rightarrow> FullBody
          | Some (a, b) \<Rightarrow>
              (let first = TrimSpace a; last = TrimSpace b in
               if first = '''' then
                 (case ParseInt last of
                    None \<Rightarrow> FullBody
                  | Some n \<Rightarrow>
                      if n < 0 then FullBody
                      else if n = 0 \<or> sz = 0 then Unsatisfiable
                      else ByteRange (sz - min n sz) (sz - 1))
               else
                 (case ParseInt first of
                    None \<Rightarrow> FullBody
                  | Some start \<Rightarrow>
                      if start < 0 then FullBody
                      else case (if last \<noteq> '''' then
                                   (case ParseInt last of
                                      None \<Rightarrow> None | Some e \<Rightarrow> if e < start then None else Some e)
                                 else Some (sz - 1)) of
                        None \<Rightarrow> FullBody
                      | Some stop \<Rightarrow>
                          if start \<ge> sz then Unsatisfiable else ByteRange start (min stop (sz - 1)))))"

definition content_range :: "int \<Rightarrow> int \<Rightarrow> int \<Rightarrow> string" where
  "content_range start stop sz =
     ''bytes '' @ FormatInt start @ ''-'' @ FormatInt stop @ ''/'' @ FormatInt sz"

definition content_range_none :: "int \<Rightarrow> string" where
  "content_range_none sz = ''bytes */'' @ FormatInt sz"

section \<open>Streaming a body\<close>

text \<open>The bytes written so far, with the status before the first of them.\<close>

definition body_sent :: "writer \<Rightarrow> nat \<Rightarrow> bytes \<Rightarrow> writer" where
  "body_sent w status out = (if out = [] then w else write_body (WriteHeader w status) out)"

definition serve_stream ::
  "(json \<Rightarrow> bytes option) \<Rightarrow> request \<Rightarrow> writer \<Rightarrow> nat \<Rightarrow> string list \<Rightarrow> (writer \<Rightarrow> err \<Rightarrow> writer)
     \<Rightarrow> bytes \<times> err option \<Rightarrow> outcome" where
  "serve_stream J r w status dels onError res =
     (case res of
        (out, None) \<Rightarrow> Answered (WriteHeader (body_sent w status out) status)
      | (out, Some er) \<Rightarrow>
          if isClientGone r er then Answered (body_sent w status out)
          else if out = [] then Answered (onError (Del w dels) er)
          else Aborted (body_sent w status out))"

definition rd_error :: "rd_err \<Rightarrow> err" where
  "rd_error e = (case e of REOF \<Rightarrow> ErrOther ''EOF'' | RErr er \<Rightarrow> er)"

section \<open>Blobs\<close>

definition blobLocation :: "string \<Rightarrow> digest \<Rightarrow> string" where
  "blobLocation name d = ''/v2/'' @ name @ ''/blobs/'' @ d"

definition serveBlob ::
  "('s, 'i, 'd, 'k, 'a) blob_env \<Rightarrow> (json \<Rightarrow> bytes option) \<Rightarrow> err option \<Rightarrow> 's \<Rightarrow> request \<Rightarrow> writer \<Rightarrow> digest
     \<Rightarrow> bool \<Rightarrow> outcome option" where
  "serveBlob E J ctx s r w d withBody =
     (case blob_Open E s d of
        Inl er \<Rightarrow> Some (Answered (handleError J r w er))
      | Inr bl \<Rightarrow>
          (let sz = bm_Size (bl_Meta bl);
               w1 = Set (Set (Set w ''Content-Type'' ''application/octet-stream'') ''Docker-Content-Digest'' d)
                      ''Content-Length'' (FormatInt sz);
               w2 = (if SupportsRange bl then Set w1 ''Accept-Ranges'' ''bytes'' else w1);
               dels = [''Content-Length'', ''Content-Range'', ''Docker-Content-Digest'', ''Accept-Ranges'']
           in if \<not> withBody then Some (Answered (WriteHeader w2 200))
              else case (if SupportsRange bl then parseRange (HeaderGet r ''Range'') sz else FullBody) of
                Unsatisfiable \<Rightarrow>
                  (let w3 = Del w2 [''Content-Type'', ''Docker-Content-Digest''];
                       w4 = Set (Set w3 ''Content-Length'' ''0'') ''Content-Range'' (content_range_none sz)
                   in Some (Answered (WriteHeader w4 416)))
              | FullBody \<Rightarrow> Some (serve_stream J r w2 200 dels (handleError J r) (WriteTo E ctx bl))
              | ByteRange a b \<Rightarrow>
                  (let w3 = Set (Set w2 ''Content-Range'' (content_range a b sz))
                              ''Content-Length'' (FormatInt (b - a + 1))
                   in case WriteRange E bl a b of
                        None \<Rightarrow> None
                      | Some (out, er) \<Rightarrow>
                          Some (serve_stream J r w3 206 dels (handleError J r) (out, map_option rd_error er)))))"

definition deleteBlob ::
  "('s, 'i, 'd, 'k, 'a) blob_env \<Rightarrow> Options \<Rightarrow> (json \<Rightarrow> bytes option) \<Rightarrow> 's blob_store \<Rightarrow> request \<Rightarrow> writer
     \<Rightarrow> digest \<Rightarrow> writer \<times> 's blob_store" where
  "deleteBlob E opts J st r w d =
     (case blob_Delete E opts st d of
        (Some er, st') \<Rightarrow> (handleError J r w er, st')
      | (None, st') \<Rightarrow> (WriteHeader w 202, st'))"

definition handleBlob ::
  "('s, 'i, 'd, 'k, 'a) blob_env \<Rightarrow> Options \<Rightarrow> (json \<Rightarrow> bytes option) \<Rightarrow> err option \<Rightarrow> 's blob_store \<Rightarrow> request
     \<Rightarrow> writer \<Rightarrow> route \<Rightarrow> outcome option \<times> 's blob_store" where
  "handleBlob E opts J ctx st r w rt =
     (if rt_rest rt = '''' then (Some (Answered (notFound J w)), st)
      else case ParseDigest (rt_rest rt) of
        Inl _ \<Rightarrow> (Some (Answered (writeError J w CodeDigestInvalid NoDetail)), st)
      | Inr d \<Rightarrow>
          if rq_Method r = ''HEAD'' then (serveBlob E J ctx (bs_refs st) r w d False, st)
          else if rq_Method r = ''GET'' then (serveBlob E J ctx (bs_refs st) r w d True, st)
          else if rq_Method r = ''DELETE'' then
            (case deleteBlob E opts J st r w d of (w', st') \<Rightarrow> (Some (Answered w'), st'))
          else (Some (Answered (methodNotAllowed J w [''HEAD'', ''GET'', ''DELETE''])), st))"

section \<open>Manifests (manifests.go)\<close>

definition maxManifestSize :: int where "maxManifestSize = 4194304"

definition manifestLocation :: "string \<Rightarrow> digest \<Rightarrow> string" where
  "manifestLocation name d = ''/v2/'' @ name @ ''/manifests/'' @ d"

definition serveManifest ::
  "('s, 'i, 'd, 'k, 'a) image_env \<Rightarrow> (json \<Rightarrow> bytes option) \<Rightarrow> (nat \<Rightarrow> err option) \<Rightarrow> 's \<Rightarrow> request \<Rightarrow> writer
     \<Rightarrow> string \<Rightarrow> string \<Rightarrow> bool \<Rightarrow> outcome option" where
  "serveManifest E J ctx s r w name reference withBody =
     (case image_Open E s name reference of
        Inl er \<Rightarrow> Some (Answered (handleError J r w er))
      | Inr im \<Rightarrow>
          (let m = img_Meta im;
               w1 = Set (Set (Set w ''Content-Type'' (im_MediaType m)) ''Content-Length'' (FormatInt (im_Size m)))
                      ''Docker-Content-Digest'' (im_Digest m)
           in if \<not> withBody then Some (Answered (WriteHeader w1 200))
              else case image_WriteTo E ctx im of
                None \<Rightarrow> None
              | Some res \<Rightarrow>
                  Some (serve_stream J r w1 200 [''Content-Type'', ''Content-Length'', ''Docker-Content-Digest'']
                          (handleError J r) res)))"

definition manifestTooLarge :: "(json \<Rightarrow> bytes option) \<Rightarrow> writer \<Rightarrow> writer" where
  "manifestTooLarge J w = writeErrorStatus J w 413 CodeManifestInvalid NoDetail"

text \<open>
  io.ReadAll of http.MaxBytesReader: a body with more bytes than the limit is a MaxBytesError
  (\<open>Inl True\<close>), a read error before that is another error (\<open>Inl False\<close>).
\<close>

definition read_limited :: "stream \<Rightarrow> int \<Rightarrow> bool + bytes" where
  "read_limited b limit =
     (if int (length (fst b)) > limit then Inl True
      else case snd b of Some _ \<Rightarrow> Inl False | None \<Rightarrow> Inr (fst b))"

definition putManifest ::
  "('s, 'i, 'd, 'k, 'a) image_env \<Rightarrow> (json \<Rightarrow> bytes option) \<Rightarrow> image_io \<Rightarrow> 's blob_store \<Rightarrow> 's blob_store
     \<Rightarrow> request \<Rightarrow> stream \<Rightarrow> writer \<Rightarrow> string \<Rightarrow> string \<Rightarrow> writer \<times> 's blob_store" where
  "putManifest E J io st0 st r body w name reference =
     (if rq_ContentLength r > maxManifestSize then (manifestTooLarge J w, st)
      else case read_limited body maxManifestSize of
        Inl tooLarge \<Rightarrow>
          ((if tooLarge then manifestTooLarge J w else writeError J w CodeManifestInvalid NoDetail), st)
      | Inr bs \<Rightarrow>
          (case image_Put E io st0 st name reference (HeaderGet r ''Content-Type'') bs of
             (Inl er, st') \<Rightarrow> (handleError J r w er, st')
           | (Inr meta, st') \<Rightarrow>
               (let w1 = Set (Set w ''Location'' (manifestLocation name (im_Digest meta)))
                           ''Docker-Content-Digest'' (im_Digest meta);
                    w2 = (case im_Subject meta of None \<Rightarrow> w1 | Some d \<Rightarrow> Set w1 ''OCI-Subject'' (d_Digest d))
                in (WriteHeader w2 201, st'))))"

definition deleteManifest ::
  "('s, 'i, 'd, 'k, 'a) image_env \<Rightarrow> (json \<Rightarrow> bytes option) \<Rightarrow> 's blob_store \<Rightarrow> request \<Rightarrow> writer
     \<Rightarrow> string \<Rightarrow> string \<Rightarrow> writer \<times> 's blob_store" where
  "deleteManifest E J st r w name reference =
     (case image_Delete E (bs_refs st) name reference of
        (Some er, s') \<Rightarrow> (handleError J r w er, st\<lparr>bs_refs := s'\<rparr>)
      | (None, s') \<Rightarrow> (WriteHeader w 202, st\<lparr>bs_refs := s'\<rparr>))"

definition handleManifests ::
  "('s, 'i, 'd, 'k, 'a) image_env \<Rightarrow> (json \<Rightarrow> bytes option) \<Rightarrow> image_io \<Rightarrow> 's blob_store \<Rightarrow> 's blob_store
     \<Rightarrow> request \<Rightarrow> stream \<Rightarrow> writer \<Rightarrow> route \<Rightarrow> outcome option \<times> 's blob_store" where
  "handleManifests E J io st0 st r body w rt =
     (if rt_rest rt = '''' then (Some (Answered (notFound J w)), st)
      else if rq_Method r = ''HEAD'' then
        (serveManifest E J (ii_ctx io) (bs_refs st) r w (rt_name rt) (rt_rest rt) False, st)
      else if rq_Method r = ''GET'' then
        (serveManifest E J (ii_ctx io) (bs_refs st) r w (rt_name rt) (rt_rest rt) True, st)
      else if rq_Method r = ''PUT'' then
        (case putManifest E J io st0 st r body w (rt_name rt) (rt_rest rt) of (w', st') \<Rightarrow> (Some (Answered w'), st'))
      else if rq_Method r = ''DELETE'' then
        (case deleteManifest E J st r w (rt_name rt) (rt_rest rt) of (w', st') \<Rightarrow> (Some (Answered w'), st'))
      else (Some (Answered (methodNotAllowed J w [''HEAD'', ''GET'', ''PUT'', ''DELETE''])), st))"

end
