(* ===== verification/Registry_Uploads.thy ===== *)
theory Registry_Uploads
  imports Registry_Blobs
begin

text \<open>
  The upload protocol (src/registry/uploads.go): POST starts a session, mounts a stored blob or
  uploads in one request, PATCH appends, PUT finalizes, GET reports and DELETE cancels. The requests
  of one session hold its lock in the keyed mutex, so each handler is a function on the state it finds.
  \<open>up_io\<close> is what one request meets: the clock, the new session's identifier, the body's chunks and
  their write outcomes, the outcomes of closing and removing the spilled file, read faults of the
  spool when it is analysed and when it is stored raw, and the writers of the blob store.
\<close>

record 's server =
  sv_blobs :: "'s blob_store"
  sv_uploads :: Manager

record up_io =
  ui_now :: int
  ui_newID :: "string res"
  ui_body :: body
  ui_fd :: "err option"
  ui_rm :: "err option"
  ui_read :: "(nat \<times> err) option \<times> (nat \<times> err) option"
  ui_slot :: "err option"
  ui_fin :: fin_io

definition uploadLocation :: "string \<Rightarrow> string \<Rightarrow> string" where
  "uploadLocation name sid = ''/v2/'' @ name @ ''/blobs/uploads/'' @ sid"

definition uploadRange :: "int \<Rightarrow> string" where
  "uploadRange offset = ''0-'' @ FormatInt (max (offset - 1) 0)"

definition setUploadHeaders :: "writer \<Rightarrow> string \<Rightarrow> Session \<Rightarrow> writer" where
  "setUploadHeaders w name sess =
     Set (Set (Set w ''Location'' (uploadLocation name (s_ID sess))) ''Docker-Upload-UUID'' (s_ID sess))
       ''Range'' (uploadRange (Offset sess))"

definition writeBlobCreated :: "writer \<Rightarrow> string \<Rightarrow> digest \<Rightarrow> writer" where
  "writeBlobCreated w name d =
     WriteHeader (Set (Set w ''Location'' (blobLocation name d)) ''Docker-Content-Digest'' d) 201"

definition knownBlob ::
  "('s, 'i, 'd, 'k, 'a) blob_env \<Rightarrow> Options \<Rightarrow> int \<Rightarrow> 's blob_store \<Rightarrow> digest \<Rightarrow> bool res \<times> 's blob_store" where
  "knownBlob E opts now st want =
     (case Reuse E opts now st want of
        (Inl er, st') \<Rightarrow> (if er = ErrBlobNotFound then Inr False else Inl er, st')
      | (Inr _, st') \<Rightarrow> (Inr True, st'))"

text \<open>Errors of Remove are logged only.\<close>

definition discardSession :: "Manager \<Rightarrow> up_io \<Rightarrow> string \<Rightarrow> Manager" where
  "discardSession m io sid = (case Remove m sid (ui_fd io) (ui_rm io) of (_, m', _) \<Rightarrow> m')"

text \<open>parseContentRange: the start and the end, \<open>None\<close> for an error.\<close>

definition parseContentRange :: "string \<Rightarrow> (int \<times> int) option" where
  "parseContentRange h =
     (let v1 = TrimPrefix (TrimPrefix (TrimSpace h) ''bytes='') ''bytes '';
          v = (case IndexByte v1 CHR ''/'' of Some i \<Rightarrow> take i v1 | None \<Rightarrow> v1)
      in case Cut v CHR ''-'' of
           None \<Rightarrow> None
         | Some (a, b) \<Rightarrow>
             (case ParseInt (TrimSpace a) of
                None \<Rightarrow> None
              | Some start \<Rightarrow>
                  if start < 0 then None
                  else case ParseInt (TrimSpace b) of
                    None \<Rightarrow> None
                  | Some stop \<Rightarrow> if stop < start then None else Some (start, stop)))"

section \<open>Finalizing\<close>

text \<open>What the blob store reads from the spool: its bytes, or a prefix of them and a read error.\<close>

definition spool_stream :: "Spool \<Rightarrow> bytes option \<Rightarrow> (nat \<times> err) option \<Rightarrow> stream res" where
  "spool_stream sp disk fault =
     (case spool_Open sp disk of
        Inl er \<Rightarrow> Inl er
      | Inr b \<Rightarrow> Inr (case fault of None \<Rightarrow> (b, None) | Some (k, er) \<Rightarrow> (take k b, Some er)))"

definition fin_of :: "up_io \<Rightarrow> Spool \<Rightarrow> bytes option \<Rightarrow> fin_io" where
  "fin_of io sp disk =
     (ui_fin io)\<lparr>io_open := spool_stream sp disk (fst (ui_read io)), io_rawOpen := spool_stream sp disk (snd (ui_read io))\<rparr>"

definition digest_mismatch :: "digest \<Rightarrow> digest \<Rightarrow> detail" where
  "digest_mismatch want got = Fields [(''expected'', want), (''actual'', got)]"

text \<open>removeSpool after discardSession only removes a file the session has removed already.\<close>

definition finalize ::
  "('s, 'i, 'd, 'k, 'a) blob_env \<Rightarrow> Options \<Rightarrow> (json \<Rightarrow> bytes option) \<Rightarrow> up_io \<Rightarrow> 's server \<Rightarrow> request \<Rightarrow> writer
     \<Rightarrow> string \<Rightarrow> Session \<Rightarrow> digest \<Rightarrow> bool \<Rightarrow> writer \<times> 's server" where
  "finalize E opts J io sv r w name sess want monolithic =
     (let discard = (\<lambda>sv. sv\<lparr>sv_uploads := discardSession (sv_uploads sv) io (s_ID sess)\<rparr>) in
      case session_Spool (be_sha E) sess (ui_now io) of
        (Inl er, sess1) \<Rightarrow>
          (let sv1 = sv\<lparr>sv_uploads := set_session (sv_uploads sv) (s_ID sess) sess1\<rparr>
           in (handleError J r w er, if monolithic then discard sv1 else sv1))
      | (Inr sp, sess1) \<Rightarrow>
          (let sv1 = sv\<lparr>sv_uploads := set_session (sv_uploads sv) (s_ID sess) sess1\<rparr> in
           if sp_digest sp \<noteq> want then
             (writeError J w CodeDigestInvalid (digest_mismatch want (sp_digest sp)), discard sv1)
           else case Put E opts (fin_of io sp (s_disk sess1)) (ui_slot io) (sv_blobs sv1) (Some sp) of
             (Inl er, bs', _) \<Rightarrow>
               (let sv2 = sv1\<lparr>sv_blobs := bs'\<rparr>
                in (handleError J r w er,
                    if monolithic \<or> (case er of ErrRawRefused _ \<Rightarrow> True | _ \<Rightarrow> False) then discard sv2 else sv2))
           | (Inr meta, bs', _) \<Rightarrow>
               (writeBlobCreated w name (bm_Digest meta), discard (sv1\<lparr>sv_blobs := bs'\<rparr>))))"

text \<open>A session that appended to is written back to the manager.\<close>

definition append_to :: "'s server \<Rightarrow> up_io \<Rightarrow> Session \<Rightarrow> err option \<times> Session \<times> 's server" where
  "append_to sv io sess =
     (case Append sess (ui_now io) (ui_body io) (ui_now io) of
        (_, er, sess') \<Rightarrow> (er, sess', sv\<lparr>sv_uploads := set_session (sv_uploads sv) (s_ID sess) sess'\<rparr>))"

section \<open>Handlers\<close>

definition start_session ::
  "(json \<Rightarrow> bytes option) \<Rightarrow> up_io \<Rightarrow> 's server \<Rightarrow> request \<Rightarrow> writer \<Rightarrow> string \<Rightarrow> writer \<times> 's server" where
  "start_session J io sv r w name =
     (case Create (sv_uploads sv) (ui_newID io) (ui_now io) of
        (Inl er, m') \<Rightarrow> (handleError J r w er, sv\<lparr>sv_uploads := m'\<rparr>)
      | (Inr sess, m') \<Rightarrow> (WriteHeader (setUploadHeaders w name sess) 202, sv\<lparr>sv_uploads := m'\<rparr>))"

definition monolithic_upload ::
  "('s, 'i, 'd, 'k, 'a) blob_env \<Rightarrow> Options \<Rightarrow> (json \<Rightarrow> bytes option) \<Rightarrow> up_io \<Rightarrow> 's server \<Rightarrow> request \<Rightarrow> writer
     \<Rightarrow> string \<Rightarrow> writer \<times> 's server" where
  "monolithic_upload E opts J io sv r w name =
     (case ParseDigest (QueryGet r ''digest'') of
        Inl _ \<Rightarrow> (writeError J w CodeDigestInvalid NoDetail, sv)
      | Inr want \<Rightarrow>
          (case knownBlob E opts (ui_now io) (sv_blobs sv) want of
             (Inl er, bs') \<Rightarrow> (handleError J r w er, sv\<lparr>sv_blobs := bs'\<rparr>)
           | (Inr True, bs') \<Rightarrow> (writeBlobCreated w name want, sv\<lparr>sv_blobs := bs'\<rparr>)
           | (Inr False, bs') \<Rightarrow>
               (case Create (sv_uploads sv) (ui_newID io) (ui_now io) of
                  (Inl er, m') \<Rightarrow> (handleError J r w er, sv\<lparr>sv_blobs := bs', sv_uploads := m'\<rparr>)
                | (Inr sess, m') \<Rightarrow>
                    (case append_to (sv\<lparr>sv_blobs := bs', sv_uploads := m'\<rparr>) io sess of
                       (Some er, sess', sv') \<Rightarrow>
                         (handleError J r w er, sv'\<lparr>sv_uploads := discardSession (sv_uploads sv') io (s_ID sess)\<rparr>)
                     | (None, sess', sv') \<Rightarrow> finalize E opts J io sv' r w name sess' want True))))"

definition startUpload ::
  "('s, 'i, 'd, 'k, 'a) blob_env \<Rightarrow> Options \<Rightarrow> (json \<Rightarrow> bytes option) \<Rightarrow> up_io \<Rightarrow> 's server \<Rightarrow> request \<Rightarrow> writer
     \<Rightarrow> string \<Rightarrow> writer \<times> 's server" where
  "startUpload E opts J io sv r w name =
     (case (if QueryGet r ''mount'' \<noteq> '''' then
              (case ParseDigest (QueryGet r ''mount'') of
                 Inl _ \<Rightarrow> Inr None
               | Inr d \<Rightarrow> (case Exists E (bs_refs (sv_blobs sv)) d of
                            Inl er \<Rightarrow> Inl er | Inr yes \<Rightarrow> Inr (if yes then Some d else None)))
            else Inr None) of
        Inl er \<Rightarrow> (handleError J r w er, sv)
      | Inr (Some d) \<Rightarrow> (writeBlobCreated w name d, sv)
      | Inr None \<Rightarrow>
          if map_of (rq_Query r) ''digest'' \<noteq> None then monolithic_upload E opts J io sv r w name
          else start_session J io sv r w name)"

definition patchUpload ::
  "(json \<Rightarrow> bytes option) \<Rightarrow> up_io \<Rightarrow> 's server \<Rightarrow> request \<Rightarrow> writer \<Rightarrow> string \<Rightarrow> string \<Rightarrow> writer \<times> 's server" where
  "patchUpload J io sv r w name sid =
     (case Get (sv_uploads sv) sid (ui_now io) of
        (Inl er, m') \<Rightarrow> (handleError J r w er, sv\<lparr>sv_uploads := m'\<rparr>)
      | (Inr sess, m') \<Rightarrow>
          (let sv1 = sv\<lparr>sv_uploads := m'\<rparr>; cr = HeaderGet r ''Content-Range'';
               go = (case append_to sv1 io sess of
                       (Some er, sess', sv') \<Rightarrow> (handleError J r w er, sv')
                     | (None, sess', sv') \<Rightarrow> (WriteHeader (setUploadHeaders w name sess') 202, sv'))
           in if cr = '''' then go
              else case parseContentRange cr of
                None \<Rightarrow> (writeError J w CodeBlobUploadInvalid NoDetail, sv1)
              | Some (start, _) \<Rightarrow>
                  if start \<noteq> Offset sess
                  then (writeErrorStatus J (setUploadHeaders w name sess) 416 CodeBlobUploadInvalid NoDetail, sv1)
                  else go))"

definition putUpload ::
  "('s, 'i, 'd, 'k, 'a) blob_env \<Rightarrow> Options \<Rightarrow> (json \<Rightarrow> bytes option) \<Rightarrow> up_io \<Rightarrow> 's server \<Rightarrow> request \<Rightarrow> writer
     \<Rightarrow> string \<Rightarrow> string \<Rightarrow> writer \<times> 's server" where
  "putUpload E opts J io sv r w name sid =
     (case Get (sv_uploads sv) sid (ui_now io) of
        (Inl er, m') \<Rightarrow> (handleError J r w er, sv\<lparr>sv_uploads := m'\<rparr>)
      | (Inr sess, m') \<Rightarrow>
          (let sv1 = sv\<lparr>sv_uploads := m'\<rparr>; dq = QueryGet r ''digest'' in
           if dq = '''' then (writeError J w CodeDigestInvalid NoDetail, sv1)
           else case ParseDigest dq of
             Inl _ \<Rightarrow> (writeError J w CodeDigestInvalid NoDetail, sv1)
           | Inr want \<Rightarrow>
               (case knownBlob E opts (ui_now io) (sv_blobs sv1) want of
                  (Inl er, bs') \<Rightarrow> (handleError J r w er, sv1\<lparr>sv_blobs := bs'\<rparr>)
                | (Inr True, bs') \<Rightarrow>
                    (writeBlobCreated w name want,
                     sv1\<lparr>sv_blobs := bs', sv_uploads := discardSession (sv_uploads sv1) io (s_ID sess)\<rparr>)
                | (Inr False, bs') \<Rightarrow>
                    (case append_to (sv1\<lparr>sv_blobs := bs'\<rparr>) io sess of
                       (Some er, sess', sv') \<Rightarrow> (handleError J r w er, sv')
                     | (None, sess', sv') \<Rightarrow> finalize E opts J io sv' r w name sess' want False))))"

definition uploadStatus ::
  "(json \<Rightarrow> bytes option) \<Rightarrow> up_io \<Rightarrow> 's server \<Rightarrow> request \<Rightarrow> writer \<Rightarrow> string \<Rightarrow> string \<Rightarrow> writer \<times> 's server" where
  "uploadStatus J io sv r w name sid =
     (case Get (sv_uploads sv) sid (ui_now io) of
        (Inl er, m') \<Rightarrow> (handleError J r w er, sv\<lparr>sv_uploads := m'\<rparr>)
      | (Inr sess, m') \<Rightarrow> (WriteHeader (setUploadHeaders w name sess) 204, sv\<lparr>sv_uploads := m'\<rparr>))"

definition cancelUpload ::
  "(json \<Rightarrow> bytes option) \<Rightarrow> up_io \<Rightarrow> 's server \<Rightarrow> request \<Rightarrow> writer \<Rightarrow> string \<Rightarrow> writer \<times> 's server" where
  "cancelUpload J io sv r w sid =
     (case Remove (sv_uploads sv) sid (ui_fd io) (ui_rm io) of
        (Some er, m', _) \<Rightarrow> (handleError J r w er, sv\<lparr>sv_uploads := m'\<rparr>)
      | (None, m', _) \<Rightarrow> (WriteHeader w 204, sv\<lparr>sv_uploads := m'\<rparr>))"

definition handleUpload ::
  "('s, 'i, 'd, 'k, 'a) blob_env \<Rightarrow> Options \<Rightarrow> (json \<Rightarrow> bytes option) \<Rightarrow> up_io \<Rightarrow> 's server \<Rightarrow> request \<Rightarrow> writer
     \<Rightarrow> route \<Rightarrow> writer \<times> 's server" where
  "handleUpload E opts J io sv r w rt =
     (if rt_rest rt = '''' then
        (if rq_Method r \<noteq> ''POST'' then (methodNotAllowed J w [''POST''], sv)
         else startUpload E opts J io sv r w (rt_name rt))
      else if ContainsByte (rt_rest rt) CHR ''/'' then (notFound J w, sv)
      else if rq_Method r = ''PATCH'' then patchUpload J io sv r w (rt_name rt) (rt_rest rt)
      else if rq_Method r = ''PUT'' then putUpload E opts J io sv r w (rt_name rt) (rt_rest rt)
      else if rq_Method r = ''GET'' then uploadStatus J io sv r w (rt_name rt) (rt_rest rt)
      else if rq_Method r = ''DELETE'' then cancelUpload J io sv r w (rt_rest rt)
      else (methodNotAllowed J w [''PATCH'', ''PUT'', ''GET'', ''DELETE''], sv))"

end
