(* ===== verification/Registry_FS.thy ===== *)
theory Registry_FS
  imports Registry_Blobs Rootfs_FS
begin

text \<open>
  The root filesystem API (src/registry/fs.go): a directory as a listing or a tar, a file as bytes with
  ranges and an ETag, any other entry as its description. \<open>fs_env\<close> holds what is not this program's:
  the store's listing of a directory, amber's tarexport, the text of a key, of a time and of a reason.
\<close>

record 'k fs_env =
  fv_ListDir :: "'k dirlist"
  fv_tarexport :: "'k \<Rightarrow> bytes \<times> err option"
  fv_keyString :: "'k option \<Rightarrow> string"
  fv_formatTime :: "int \<Rightarrow> string"
  fv_reason :: "rootfs_reason \<Rightarrow> string"

record fsRoute =
  fr_repo :: string
  fr_reference :: string
  fr_path :: string

definition fsPrefix :: string where "fsPrefix = ''/fs/''"

definition seg_sep :: "string \<Rightarrow> nat option" where
  "seg_sep seg = (case IndexByte seg CHR ''@'' of Some i \<Rightarrow> Some i | None \<Rightarrow> IndexByte seg CHR '':'')"

text \<open>The loop over the segments; \<open>before\<close> are the ones without a separator that came first.\<close>

fun parse_segs :: "string list \<Rightarrow> string list \<Rightarrow> fsRoute option" where
  "parse_segs before [] = None"
| "parse_segs before (seg # segs) =
     (case seg_sep seg of
        None \<Rightarrow> parse_segs (before @ [seg]) segs
      | Some sep \<Rightarrow>
          Some \<lparr>fr_repo = Join before ''/'' @ (if before \<noteq> [] then ''/'' else '''') @ take sep seg,
                fr_reference = drop (Suc sep) seg, fr_path = Join segs ''/''\<rparr>)"

definition parseFSPath :: "string \<Rightarrow> fsRoute option" where
  "parseFSPath rest = parse_segs [] (Split rest CHR ''/'')"

section \<open>Choosing the image\<close>

definition index_platforms :: "Manifest \<Rightarrow> string list" where
  "index_platforms idx =
     List.map_filter (\<lambda>d. map_option Platform_String (d_Platform d)) (ManifestChildren idx)"

definition platform_unknown :: "Manifest \<Rightarrow> err" where
  "platform_unknown idx = WithDetail (NewError CodePlatformUnknown) (Platforms (index_platforms idx))"

definition matching_child :: "Platform \<Rightarrow> Manifest \<Rightarrow> Descriptor option" where
  "matching_child want idx =
     find (\<lambda>d. case d_Platform d of None \<Rightarrow> False | Some p \<Rightarrow> Platform_Matches want p) (ManifestChildren idx)"

definition open_child ::
  "('s, 'i, 'd, 'k, 'a) image_env \<Rightarrow> 's \<Rightarrow> string \<Rightarrow> Manifest \<Rightarrow> string \<Rightarrow> 'k Image res" where
  "open_child E s repo idx platform =
     (if platform = '''' then Inl (platform_unknown idx)
      else case ParsePlatform platform of
        Inl _ \<Rightarrow> Inl (platform_unknown idx)
      | Inr want \<Rightarrow>
          (case matching_child want idx of
             None \<Rightarrow> Inl (platform_unknown idx)
           | Some d \<Rightarrow>
               (case image_Open E s repo (d_Digest d) of
                  Inl er \<Rightarrow> Inl (if er = ErrImageNotFound then platform_unknown idx else er)
                | Inr child \<Rightarrow>
                    if im_Kind (img_Meta child) = KindIndex then Inl (platform_unknown idx) else Inr child)))"

definition openRootfsImage ::
  "('s, 'i, 'd, 'k, 'a) image_env \<Rightarrow> (nat \<Rightarrow> err option) \<Rightarrow> 's \<Rightarrow> string \<Rightarrow> string \<Rightarrow> string \<Rightarrow> 'k Image res option" where
  "openRootfsImage E ctx s repo reference platform =
     (case image_Open E s repo reference of
        Inl er \<Rightarrow> Some (Inl er)
      | Inr im \<Rightarrow>
          if im_Kind (img_Meta im) \<noteq> KindIndex then Some (Inr im)
          else case image_WriteTo E ctx im of
            None \<Rightarrow> None
          | Some (_, Some er) \<Rightarrow> Some (Inl er)
          | Some (body, None) \<Rightarrow>
              (case ParseManifest (ie_unmarshal E) body of
                 Inl _ \<Rightarrow> Some (Inl (ErrOther ''registry: stored index''))
               | Inr idx \<Rightarrow> Some (open_child E s repo idx platform)))"

section \<open>Answers\<close>

definition status_text :: "RootfsStatus \<Rightarrow> string" where
  "status_text s = (case s of RootfsOK \<Rightarrow> ''ok'' | RootfsPartial \<Rightarrow> ''partial''
     | RootfsUnavailable \<Rightarrow> ''unavailable'' | RootfsNotApplicable \<Rightarrow> ''not-applicable'')"

definition rootfsUnavailable ::
  "'k fs_env \<Rightarrow> (json \<Rightarrow> bytes option) \<Rightarrow> writer \<Rightarrow> 'k Image \<Rightarrow> writer" where
  "rootfsUnavailable F J w im =
     (let (status, reason) =
        (case im_Rootfs (img_Meta im) of
           None \<Rightarrow> (''absent'', ''stored before rootfs views existed'')
         | Some rf \<Rightarrow> (status_text (rf_Status rf), case rf_Reason rf of None \<Rightarrow> '''' | Some x \<Rightarrow> fv_reason F x))
      in writeError J w CodeRootfsUnavailable (Fields [(''status'', status), (''reason'', reason)]))"

definition fsError :: "(json \<Rightarrow> bytes option) \<Rightarrow> request \<Rightarrow> writer \<Rightarrow> err \<Rightarrow> writer" where
  "fsError J r w er =
     (if er = ErrFsNotFound \<or> er = ErrFsNotDir then writeError J w CodePathUnknown NoDetail
      else if er = ErrFsLoop then writeError J w CodePathInvalid NoDetail
      else handleError J r w er)"

text \<open>fmt's %04o of a value below 2^12.\<close>

definition oct4 :: "64 word \<Rightarrow> string" where
  "oct4 m = map (\<lambda>i. char_of (48 + (unat m div 8 ^ i) mod 8)) [3, 2, 1, 0]"

definition fsEntryJSON :: "'k fs_env \<Rightarrow> 'k Entry \<Rightarrow> fsEntry" where
  "fsEntryJSON F e =
     (let ty = TypeName e in
      \<lparr>fj_Name = en_Name e, fj_Type = ty, fj_Mode = oct4 (en_Mode e AND 0xFFF), fj_UID = en_UID e,
       fj_GID = en_GID e, fj_Mtime = fv_formatTime F (en_Mtime e),
       fj_Size = (if ty = ''file'' then Some (en_Size e) else None),
       fj_Target = (if ty = ''symlink'' then en_Target e else ''''),
       fj_Major = (if ty = ''char'' \<or> ty = ''block'' then Some (fst (en_Rdev e)) else None),
       fj_Minor = (if ty = ''char'' \<or> ty = ''block'' then Some (snd (en_Rdev e)) else None)\<rparr>)"

text \<open>url.Values.Encode: sorted by key, the values of a key in order.\<close>

definition Encode_query :: "string list gomap \<Rightarrow> string" where
  "Encode_query q =
     Join (concat (map (\<lambda>(k, vs). map (\<lambda>v. QueryEscape k @ ''='' @ QueryEscape v) vs) (sort_key fst q))) ''&''"

definition serveListing ::
  "'k fs_env \<Rightarrow> 'k keyops \<Rightarrow> (json \<Rightarrow> bytes option) \<Rightarrow> request \<Rightarrow> writer \<Rightarrow> string \<Rightarrow> 'k Entry \<Rightarrow> writer" where
  "serveListing F K J r w p dir =
     (case pageSize r of
        None \<Rightarrow> invalidPageSize J w
      | Some n \<Rightarrow>
          if rq_Method r = ''HEAD'' then WriteHeader (Set w ''Content-Type'' ''application/json'') 200
          else case (if n \<noteq> 0 then ListDir K (fv_ListDir F) dir (QueryGet r ''last'') n else Inr ([], False)) of
            Inl er \<Rightarrow> fsError J r w er
          | Inr (entries, hasMore) \<Rightarrow>
              (let w1 = (if hasMore \<and> n > 0 then
                           (let q = AList.update ''last'' [en_Name (last entries)]
                                      (AList.update ''n'' [FormatInt n] (rq_Query r))
                            in Set w ''Link'' (''<'' @ rq_EscapedPath r @ ''?'' @ Encode_query q @ ''>; rel=\"next\"''))
                         else w)
               in writeJSON J w1 200 (JListing p (map (fsEntryJSON F) entries))))"

definition matchesETag :: "string \<Rightarrow> string \<Rightarrow> bool" where
  "matchesETag header etag \<longleftrightarrow>
     list_ex (\<lambda>c. let candidate = TrimSpace c in candidate = ''*'' \<or> candidate = etag \<or> candidate = ''W/'' @ etag)
       (Split header CHR '','')"

definition copyFileRange ::
  "('i, 'd, 'k) objstore \<Rightarrow> 'k \<Rightarrow> int \<Rightarrow> int \<Rightarrow> (bytes \<times> rd_err option) option" where
  "copyFileRange S k start stop =
     (if stop < start then Some ([], None)
      else case (if start > 0 then Reader_Skip (os_K S) (os_get S) (os_dec S) start (NewReader k)
                 else Some (None, NewReader k)) of
        None \<Rightarrow> None
      | Some (Some er, _) \<Rightarrow> Some ([], Some er)
      | Some (None, rd) \<Rightarrow> copyN (os_K S) (os_get S) (os_dec S) (nat (stop - start + 1)) rd [])"

definition serveFile ::
  "'k fs_env \<Rightarrow> ('i, 'd, 'k) objstore \<Rightarrow> (json \<Rightarrow> bytes option) \<Rightarrow> request \<Rightarrow> writer \<Rightarrow> 'k Entry \<Rightarrow> outcome option" where
  "serveFile F S J r w ent =
     (let etag = ''\"'' @ fv_keyString F (en_Content ent) @ ''\"''; w1 = Set w ''ETag'' etag; sz = en_Size ent in
      if matchesETag (HeaderGet r ''If-None-Match'') etag then Some (Answered (WriteHeader w1 304))
      else let w2 = Set (Set (Set w1 ''Content-Type'' ''application/octet-stream'') ''Content-Length'' (FormatInt sz))
                      ''Accept-Ranges'' ''bytes''
           in if rq_Method r = ''HEAD'' then Some (Answered (WriteHeader w2 200))
              else case parseRange (HeaderGet r ''Range'') sz of
                Unsatisfiable \<Rightarrow>
                  (let w3 = Del w2 [''Content-Type'', ''ETag'', ''Accept-Ranges''];
                       w4 = Set (Set w3 ''Content-Length'' ''0'') ''Content-Range'' (content_range_none sz)
                   in Some (Answered (WriteHeader w4 416)))
              | rng \<Rightarrow>
                  (let (status, start, stop, w3) =
                     (case rng of
                        ByteRange a b \<Rightarrow>
                          (206, a, b, Set (Set w2 ''Content-Range'' (content_range a b sz)) ''Content-Length'' (FormatInt (b - a + 1)))
                      | _ \<Rightarrow> (200, 0, sz - 1, w2))
                   in case fs_Content ent of
                        Inl er \<Rightarrow> Some (Answered (fsError J r w3 er))
                      | Inr None \<Rightarrow> Some (Answered (handleError J r w3 (ErrOther ''no content key'')))
                      | Inr (Some k) \<Rightarrow>
                          (case copyFileRange S k start stop of
                             None \<Rightarrow> None
                           | Some (out, er) \<Rightarrow>
                               Some (serve_stream J r w3 status [''Content-Length'', ''Content-Range'', ''ETag'', ''Accept-Ranges'']
                                       (handleError J r) (out, map_option rd_error er)))))"

definition serveTar ::
  "'k fs_env \<Rightarrow> (json \<Rightarrow> bytes option) \<Rightarrow> request \<Rightarrow> writer \<Rightarrow> 'k Entry \<Rightarrow> outcome" where
  "serveTar F J r w dir =
     (let w1 = Set w ''Content-Type'' ''application/x-tar'' in
      if rq_Method r = ''HEAD'' then Answered (WriteHeader w1 200)
      else serve_stream J r w1 200 [''Content-Type''] (fsError J r) (WriteTarDir (fv_tarexport F) dir))"

section \<open>handleFS\<close>

definition serve_entry ::
  "'k fs_env \<Rightarrow> ('i, 'd, 'k) objstore \<Rightarrow> (json \<Rightarrow> bytes option) \<Rightarrow> request \<Rightarrow> writer \<Rightarrow> string \<Rightarrow> 'k Entry
     \<Rightarrow> outcome option" where
  "serve_entry F S J r w p ent =
     (let format = QueryGet r ''format'' in
      if format \<noteq> '''' \<and> format \<noteq> ''json'' \<and> format \<noteq> ''tar''
      then Some (Answered (writeError J w CodePathInvalid NoDetail))
      else if IsDir ent then
        (if format = ''tar'' then Some (serveTar F J r w ent) else Some (Answered (serveListing F (os_K S) J r w p ent)))
      else if format = ''tar'' then Some (Answered (writeError J w CodePathInvalid NoDetail))
      else if IsRegular ent then serveFile F S J r w ent
      else if rq_Method r = ''HEAD''
      then Some (Answered (WriteHeader (Set w ''Content-Type'' ''application/json'') 200))
      else Some (Answered (writeJSON J w 200 (JEntry (fsEntryJSON F ent)))))"

definition handleFS ::
  "('s, 'i, 'd, 'k, 'a) image_env \<Rightarrow> 'k fs_env \<Rightarrow> (json \<Rightarrow> bytes option) \<Rightarrow> (nat \<Rightarrow> err option) \<Rightarrow> 's \<Rightarrow> request \<Rightarrow> writer
     \<Rightarrow> string \<Rightarrow> outcome option" where
  "handleFS E F J ctx s r w rest =
     (case parseFSPath rest of
        None \<Rightarrow> Some (Answered (notFound J w))
      | Some rt \<Rightarrow>
          if rq_Method r \<noteq> ''GET'' \<and> rq_Method r \<noteq> ''HEAD''
          then Some (Answered (methodNotAllowed J w [''GET'', ''HEAD'']))
          else if ValidateRepository (fr_repo rt) \<noteq> None then Some (Answered (writeError J w CodeNameInvalid NoDetail))
          else case openRootfsImage E ctx s (fr_repo rt) (fr_reference rt) (QueryGet r ''platform'') of
            None \<Rightarrow> None
          | Some (Inl er) \<Rightarrow> Some (Answered (handleError J r w er))
          | Some (Inr im) \<Rightarrow>
              (case img_rootfs im of
                 None \<Rightarrow> Some (Answered (rootfsUnavailable F J w im))
               | Some root \<Rightarrow>
                   (let p = Clean (fr_path rt) in
                    case Stat (os_K (ie_S E)) (store_Lookup (os_lookup (ie_S E))) root p of
                      Inl er \<Rightarrow> Some (Answered (fsError J r w er))
                    | Inr ent \<Rightarrow> serve_entry F (ie_S E) J r w p ent)))"

end
