(* ===== verification/Registry_Server.thy ===== *)
theory Registry_Server
  imports Registry_Uploads Registry_FS
begin

text \<open>
  The registry's handler (ServeHTTP and dispatch of src/registry/server.go) over the handlers of the
  other theories. \<open>req_io\<close> is what one request meets in its environment; \<open>st0\<close> is the state a manifest
  push reads before it takes the repository lock. withRecovery, which turns a panic into an answer, is
  represented by \<open>Aborted\<close>: no handler of the model panics otherwise.
\<close>

record req_io =
  ri_ctx :: "err option"
  ri_up :: up_io
  ri_image :: image_io
  ri_body :: stream

definition apiVersionHeader :: string where "apiVersionHeader = ''Docker-Distribution-API-Version''"
definition apiVersionValue :: string where "apiVersionValue = ''registry/2.0''"

definition dispatch ::
  "('s, 'i, 'd, 'k, 'a) image_env \<Rightarrow> (json \<Rightarrow> bytes option) \<Rightarrow> req_io \<Rightarrow> 's blob_store \<Rightarrow> 's server \<Rightarrow> request
     \<Rightarrow> writer \<Rightarrow> route \<Rightarrow> outcome option \<times> 's server" where
  "dispatch E J io st0 sv r w rt =
     (let refs = bs_refs (sv_blobs sv) in
      if rt_kind rt = ''blobs'' then
        (case handleBlob (ie_E E) (ie_opts E) J (ri_ctx io) (sv_blobs sv) r w rt of
           (out, bs') \<Rightarrow> (out, sv\<lparr>sv_blobs := bs'\<rparr>))
      else if rt_kind rt = ''uploads'' then
        (case handleUpload (ie_E E) (ie_opts E) J (ri_up io) sv r w rt of (w', sv') \<Rightarrow> (Some (Answered w'), sv'))
      else if rt_kind rt = ''manifests'' then
        (case handleManifests E J (ri_image io) st0 (sv_blobs sv) r (ri_body io) w rt of
           (out, bs') \<Rightarrow> (out, sv\<lparr>sv_blobs := bs'\<rparr>))
      else if rt_kind rt = ''tags'' then (Some (Answered (handleTags (ie_D E) J refs r w rt)), sv)
      else if rt_kind rt = ''referrers'' then (Some (Answered (handleReferrers E J refs r w rt)), sv)
      else (Some (Answered (notFound J w)), sv))"

definition ServeHTTP ::
  "('s, 'i, 'd, 'k, 'a) image_env \<Rightarrow> 'k fs_env \<Rightarrow> (json \<Rightarrow> bytes option) \<Rightarrow> req_io \<Rightarrow> 's blob_store \<Rightarrow> 's server
     \<Rightarrow> request \<Rightarrow> outcome option \<times> 's server" where
  "ServeHTTP E F J io st0 sv r =
     (let p = rq_Path r; w = new_writer; refs = bs_refs (sv_blobs sv) in
      case CutPrefix p fsPrefix of
        Some rest \<Rightarrow> (handleFS E F J (ii_ctx (ri_image io)) refs r w rest, sv)
      | None \<Rightarrow>
          (let w1 = Set w apiVersionHeader apiVersionValue in
           if p = ''/v2/'' \<or> p = ''/v2'' then (Some (Answered (handleBase J r w1)), sv)
           else if p = ''/v2/_catalog'' then (Some (Answered (handleCatalog (ie_D E) J refs r w1)), sv)
           else case parsePath p of
             None \<Rightarrow> (Some (Answered (notFound J w1)), sv)
           | Some rt \<Rightarrow>
               if ValidateRepository (rt_name rt) \<noteq> None
               then (Some (Answered (writeError J w1 CodeNameInvalid NoDetail)), sv)
               else dispatch E J io st0 sv r w1 rt))"

end
