(* ===== verification/Registry_Parse.thy ===== *)
theory Registry_Parse
  imports Registry_Server
begin

text \<open>
  What the registry's parsers promise: walking a listing by its Link headers visits every item once,
  a Range is served inside the body, and the two path grammars split a path where it was put together.
\<close>

section \<open>Pagination\<close>

lemma first_after_sorted:
  assumes "sorted_wrt (<) items"
  shows "drop (first_after items l) items = filter (\<lambda>x. l < x) items"
  using assms
proof (induction items)
  case (Cons a items)
  show ?case
  proof (cases "l < a")
    case True
    with Cons.prems have "\<forall>x \<in> set items. l < x" by auto
    with True show ?thesis by (simp add: filter_id_conv)
  next
    case False
    then show ?thesis using Cons by simp
  qed
qed simp

lemma first_after_nth: "sorted_wrt (<) xs \<Longrightarrow> n < length xs \<Longrightarrow> first_after xs (xs ! n) = Suc n"
proof (induction xs arbitrary: n)
  case (Cons a xs)
  show ?case
  proof (cases n)
    case 0
    then show ?thesis using Cons.prems by (cases xs) auto
  next
    case (Suc m)
    then have "a < xs ! m" "m < length xs" using Cons.prems by auto
    then show ?thesis using Cons.IH [of m] Cons.prems(1) Suc less_not_sym [of a "xs ! m"] by simp
  qed
qed simp

lemma filter_after_nth:
  assumes s: "sorted_wrt (<) items" and n: "n < length (filter (\<lambda>x. l < x) items)"
  shows "filter (\<lambda>x. filter (\<lambda>x. l < x) items ! n < x) items = drop (Suc n) (filter (\<lambda>x. l < x) (items :: string list))"
proof -
  let ?f = "filter (\<lambda>x. l < x) items"
  have sf: "sorted_wrt (<) ?f" using s sorted_wrt_filter by blast
  have l: "l < ?f ! n" using nth_mem [OF n] by simp
  have "filter (\<lambda>x. ?f ! n < x) items = filter (\<lambda>x. l < x \<and> ?f ! n < x) items"
    by (rule filter_cong) (auto intro: less_trans [OF l])
  then have "filter (\<lambda>x. ?f ! n < x) items = filter (\<lambda>x. ?f ! n < x) ?f" by (simp add: filter_filter conj_commute)
  also have "\<dots> = drop (first_after ?f (?f ! n)) ?f" by (rule first_after_sorted [OF sf, symmetric])
  also have "first_after ?f (?f ! n) = Suc n" by (rule first_after_nth [OF sf n])
  finally show ?thesis .
qed

lemma paginate_sorted:
  assumes "sorted_wrt (<) items"
  shows "paginate items n l =
    (let rest = filter (\<lambda>x. l < x) items in
     if 0 \<le> n \<and> n < int (length rest) then (take (nat n) rest, if n > 0 then rest ! nat (n - 1) else '''') else (rest, ''''))"
  by (auto simp: paginate_def first_after_sorted [OF assms] Let_def)

text \<open>A client that asks for pages of \<open>n\<close> items and follows the Link header until there is none.\<close>

partial_function (option) follow_links :: "string list \<Rightarrow> int \<Rightarrow> string \<Rightarrow> string list option" where
  "follow_links items n l =
     (case paginate items n l of
        (page, next) \<Rightarrow>
          if next = '''' then Some page
          else Option.bind (follow_links items n next) (\<lambda>rest. Some (page @ rest)))"

lemma follow_links_rest:
  assumes s: "sorted_wrt (<) items" and e: "'''' \<notin> set items" and n: "0 < n"
  shows "follow_links items n l = Some (filter (\<lambda>x. l < x) items)"
proof (induction "length (filter (\<lambda>x. l < x) items)" arbitrary: l rule: less_induct)
  case less
  let ?f = "filter (\<lambda>x. l < x) items"
  show ?case
  proof (cases "n < int (length ?f)")
    case False
    then have "paginate items n l = (?f, '''')" by (simp add: paginate_sorted [OF s] Let_def)
    then show ?thesis unfolding follow_links.simps [of items n l] by simp
  next
    case True
    let ?next = "?f ! nat (n - 1)"
    have k: "nat (n - 1) < length ?f" "Suc (nat (n - 1)) = nat n" using True n by auto
    have ne: "?next \<noteq> ''''" using nth_mem [OF k(1)] e by auto
    have p: "paginate items n l = (take (nat n) ?f, ?next)" using True n by (simp add: paginate_sorted [OF s] Let_def)
    have rest: "filter (\<lambda>x. ?next < x) items = drop (nat n) ?f" using filter_after_nth [OF s k(1)] k(2) by simp
    have "length (drop (nat n) ?f) < length ?f" using True n by simp
    then have "follow_links items n ?next = Some (drop (nat n) ?f)" using less [of ?next] rest by simp
    then show ?thesis unfolding follow_links.simps [of items n l] using p ne by simp
  qed
qed

text \<open>
  (C16) Walking a listing by its Link headers ends and is exact: for any page size above zero the pages
  a client collects by following next until it is empty are, in order and without repetition, all the
  items after the name it started from, and no page has more items than were asked for. A page size of
  zero gives an empty page without a link, no page size gives everything at once.
\<close>

theorem pages_are_complete:
  assumes "sorted_wrt (<) items" "'''' \<notin> set items"
  shows "(0 < n \<longrightarrow> follow_links items n l = Some (filter (\<lambda>x. l < x) items))
    \<and> (0 \<le> n \<longrightarrow> int (length (fst (paginate items n l))) \<le> n)
    \<and> paginate items 0 l = ([], '''')
    \<and> paginate items (-1) l = (filter (\<lambda>x. l < x) items, '''')"
  using follow_links_rest [OF assms] by (auto simp: paginate_sorted [OF assms(1)] Let_def)

theorem pages_are_complete_witness:
  "follow_links [''a'', ''b'', ''c''] 2 '''' = Some [''a'', ''b'', ''c'']
   \<and> paginate [''a'', ''b'', ''c''] 2 '''' = ([''a'', ''b''], ''b'')"
proof -
  have s: "sorted_wrt (<) [''a'', ''b'', ''c'']" "'''' \<notin> set [''a'', ''b'', ''c'']"
    "filter (\<lambda>x. '''' < x) [''a'', ''b'', ''c''] = [''a'', ''b'', ''c'']" by simp_all
  have "paginate [''a'', ''b'', ''c''] 2 '''' = ([''a'', ''b''], ''b'')" by code_simp
  with pages_are_complete [OF s(1,2), of 2 "''''"] s(3) show ?thesis by simp
qed

section \<open>Ranges\<close>

definition visible :: "char \<Rightarrow> bool" where
  "visible c \<longleftrightarrow> 32 < (of_char c :: nat) \<and> (of_char c :: nat) < 127"

lemma space_seqs_invisible: "list_all (\<lambda>p. p \<noteq> [] \<and> \<not> visible (hd p) \<and> \<not> visible (last p)) space_seqs"
  by code_simp

lemma trim_seqs_id:
  assumes "\<forall>p \<in> set seqs. p \<noteq> [] \<longrightarrow> \<not> visible (hd p)" "list_all visible s"
  shows "trim_seqs seqs s = s"
proof -
  have "\<not> HasPrefix s p" if "p \<in> set seqs" "p \<noteq> []" for p
    using assms that by (cases p) (auto simp: prefix_def)
  then have "find (\<lambda>p. p \<noteq> [] \<and> HasPrefix s p) seqs = None" by (auto simp: find_None_iff)
  then show ?thesis by (subst trim_seqs.simps) (simp only: option.case)
qed

lemma TrimSpace_visible: "list_all visible s \<Longrightarrow> TrimSpace s = s"
  using space_seqs_invisible
  by (simp add: TrimSpace_def trim_seqs_id list_all_iff hd_rev)

lemma digit_visible: "is_digit c \<Longrightarrow> visible c" "is_digit c \<Longrightarrow> c \<noteq> CHR ''-''" "is_digit c \<Longrightarrow> c \<noteq> CHR '',''"
  by (auto simp: is_digit_def visible_def)

lemma FormatInt_digits: "0 \<le> i \<Longrightarrow> list_all is_digit (FormatInt i)" "0 \<le> i \<Longrightarrow> FormatInt i \<noteq> ''''"
  using format_nat_digits [of "nat i"] by (simp_all add: FormatInt_def)

lemma FormatInt_parts:
  assumes "0 \<le> i"
  shows "list_all visible (FormatInt i)" "CHR ''-'' \<notin> set (FormatInt i)" "CHR '','' \<notin> set (FormatInt i)"
    "TrimSpace (FormatInt i) = FormatInt i"
  using FormatInt_digits(1) [OF assms] digit_visible TrimSpace_visible [of "FormatInt i"]
  by (auto simp: list_all_iff)

lemma TrimSpace_Nil [simp]: "TrimSpace '''' = ''''"
  by (rule TrimSpace_visible) simp

lemma visible_consts: "visible CHR ''-''" "list_all visible ''bytes=''"
  by code_simp+

lemma parseRange_cut:
  assumes "list_all visible a" "list_all visible b" "CHR ''-'' \<notin> set a" "CHR '','' \<notin> set a" "CHR '','' \<notin> set b"
  shows "CutPrefix (TrimSpace (''bytes='' @ a @ ''-'' @ b)) ''bytes='' = Some (a @ ''-'' @ b)"
    "\<not> ContainsByte (a @ ''-'' @ b) CHR '',''" "Cut (TrimSpace (a @ ''-'' @ b)) CHR ''-'' = Some (a, b)"
    "TrimSpace a = a" "TrimSpace b = b"
proof -
  have v: "list_all visible (a @ ''-'' @ b)" using assms visible_consts by simp
  show "CutPrefix (TrimSpace (''bytes='' @ a @ ''-'' @ b)) ''bytes='' = Some (a @ ''-'' @ b)"
    unfolding TrimSpace_visible [OF list_all_append [THEN iffD2, OF conjI, OF visible_consts(2) v]] by (rule CutPrefix_append)
  show "\<not> ContainsByte (a @ ''-'' @ b) CHR '',''" using assms by (simp add: ContainsByte_def)
  show "Cut (TrimSpace (a @ ''-'' @ b)) CHR ''-'' = Some (a, b)"
    unfolding TrimSpace_visible [OF v] using assms(3) by simp
qed (rule TrimSpace_visible [OF assms(1)], rule TrimSpace_visible [OF assms(2)])

text \<open>
  (C17) A Range header is served inside the body: whatever the header, a range parseRange returns lies
  within it. A header of the form bytes=x-y, bytes=x- or bytes=-n in 64-bit numbers gives the bytes it
  names, cut at the end of the body, and is unsatisfiable exactly when none of them exists.
\<close>

theorem parseRange_spec:
  assumes "0 \<le> sz" "0 \<le> x" "x \<le> y" "y \<le> max_int64"
  shows "(\<forall>h a b. parseRange h sz = ByteRange a b \<longrightarrow> 0 \<le> a \<and> a \<le> b \<and> b < sz)
    \<and> parseRange (''bytes='' @ FormatInt x @ ''-'' @ FormatInt y) sz
        = (if x < sz then ByteRange x (min y (sz - 1)) else Unsatisfiable)
    \<and> parseRange (''bytes='' @ FormatInt x @ ''-'') sz = (if x < sz then ByteRange x (sz - 1) else Unsatisfiable)
    \<and> parseRange (''bytes=-'' @ FormatInt x) sz
        = (if 0 < x \<and> 0 < sz then ByteRange (sz - min x sz) (sz - 1) else Unsatisfiable)"
proof (intro conjI allI impI)
  fix h a b
  assume r: "parseRange h sz = ByteRange a b"
  then show "0 \<le> a" "a \<le> b" "b < sz"
    using assms(1) by (auto simp: parseRange_def Let_def split: option.splits if_splits prod.splits)
next
  have y: "0 \<le> y" "x \<le> max_int64" using assms by simp_all
  note fx = FormatInt_parts [OF assms(2)] FormatInt_digits(2) [OF assms(2)] ParseInt_FormatInt [OF assms(2) y(2)]
  note fy = FormatInt_parts [OF y(1)] FormatInt_digits(2) [OF y(1)] ParseInt_FormatInt [OF y(1) assms(4)]
  note c1 = parseRange_cut [OF fx(1) fy(1) fx(2,3) fy(3)]
  show "parseRange (''bytes='' @ FormatInt x @ ''-'' @ FormatInt y) sz
        = (if x < sz then ByteRange x (min y (sz - 1)) else Unsatisfiable)"
    using c1 fx fy assms by (simp add: parseRange_def Let_def del: append.simps append_Cons)
  have c2: "CutPrefix (TrimSpace (''bytes='' @ FormatInt x @ ''-'')) ''bytes='' = Some (FormatInt x @ ''-'')"
      "\<not> ContainsByte (FormatInt x @ ''-'') CHR '',''" "Cut (TrimSpace (FormatInt x @ ''-'')) CHR ''-'' = Some (FormatInt x, '''')"
    using parseRange_cut [OF fx(1) _ fx(2,3), of "''''"] by simp_all
  show "parseRange (''bytes='' @ FormatInt x @ ''-'') sz = (if x < sz then ByteRange x (sz - 1) else Unsatisfiable)"
    using c2 fx assms by (simp add: parseRange_def Let_def del: append.simps append_Cons)
  have c3: "CutPrefix (TrimSpace (''bytes=-'' @ FormatInt x)) ''bytes='' = Some (''-'' @ FormatInt x)"
      "\<not> ContainsByte (''-'' @ FormatInt x) CHR '',''" "Cut (TrimSpace (''-'' @ FormatInt x)) CHR ''-'' = Some ('''', FormatInt x)"
    using parseRange_cut [OF _ fx(1) _ _ fx(3), of "''''"] by simp_all
  show "parseRange (''bytes=-'' @ FormatInt x) sz
        = (if 0 < x \<and> 0 < sz then ByteRange (sz - min x sz) (sz - 1) else Unsatisfiable)"
    using c3 fx assms by (simp add: parseRange_def Let_def del: append.simps append_Cons)
qed

theorem parseRange_spec_witness:
  "parseRange (''bytes='' @ FormatInt 2 @ ''-'' @ FormatInt 900) 10 = ByteRange 2 9
   \<and> parseRange (''bytes=-'' @ FormatInt 2) 10 = ByteRange 8 9"
  using parseRange_spec [of 10 2 900] by (simp add: max_int64_def)

section \<open>Paths\<close>

lemma kind_at_Some: "kind_at s = Some k \<Longrightarrow> k \<in> set route_kinds \<and> prefix (CHR ''/'' # k @ ''/'') s"
  by (auto simp: kind_at_def find_Some_iff)

lemma kind_at_None_iff: "kind_at s = None \<longleftrightarrow> (\<forall>k \<in> set route_kinds. \<not> prefix (CHR ''/'' # k @ ''/'') s)"
  by (auto simp: kind_at_def find_None_iff)

lemma kinds_no_slash: "k \<in> set route_kinds \<Longrightarrow> CHR ''/'' \<notin> set k"
  by (auto simp: route_kinds_def)

lemma kind_at_this:
  assumes "k \<in> set route_kinds"
  shows "kind_at (CHR ''/'' # k @ CHR ''/'' # rest) = Some k"
proof -
  have u: "k' = k" if "k' \<in> set route_kinds" "prefix (CHR ''/'' # k' @ ''/'') (CHR ''/'' # k @ CHR ''/'' # rest)" for k'
  proof -
    from that(2) obtain z where "k' @ CHR ''/'' # z = k @ CHR ''/'' # rest" by (auto simp: prefix_def)
    with kinds_no_slash [OF that(1)] kinds_no_slash [OF assms] show ?thesis
      by (metis Cut_append option.inject prod.inject)
  qed
  obtain k' where "kind_at (CHR ''/'' # k @ CHR ''/'' # rest) = Some k'"
    using assms kind_at_None_iff [of "CHR ''/'' # k @ CHR ''/'' # rest"] by fastforce
  with kind_at_Some u show ?thesis by metis
qed

lemma kind_at_few_slashes:
  assumes "count_list s CHR ''/'' < 2"
  shows "kind_at s = None"
proof (rule ccontr)
  assume "kind_at s \<noteq> None"
  then obtain k z where "s = CHR ''/'' # k @ CHR ''/'' # z" using kind_at_Some by (fastforce simp: prefix_def)
  then have "2 \<le> count_list s CHR ''/''" by simp
  with assms show False by simp
qed

lemma find_rev_upt:
  assumes "a \<le> i" "i < n" "P i" "\<And>j. i < j \<Longrightarrow> j < n \<Longrightarrow> \<not> P j"
  shows "find P (rev [a..<n]) = Some i"
  using assms
proof (induction n)
  case (Suc n)
  then show ?case by (cases "i = n") auto
qed simp

lemma pathRE_match_last:
  assumes "name \<noteq> ''''" "CHR ''\<newline>'' \<notin> set name" "CHR ''\<newline>'' \<notin> set rest" "k \<in> set route_kinds"
    and last: "\<And>j. kind_at (drop j (k @ CHR ''/'' # rest)) = None"
  shows "pathRE_match (''/v2/'' @ name @ CHR ''/'' # k @ CHR ''/'' # rest) = Some (name, k, rest)"
proof -
  let ?t = "name @ CHR ''/'' # k @ CHR ''/'' # rest"
  have k: "kind_at (drop (length name) ?t) = Some k" using kind_at_this [OF assms(4)] by simp
  have nl: "CHR ''\<newline>'' \<notin> set k" using assms(4) by (auto simp: route_kinds_def)
  have "\<not> kind_at (drop j ?t) \<noteq> None" if "length name < j" for j
    using last [of "j - Suc (length name)"] that by (simp add: drop_Cons')
  then have "find (\<lambda>i. kind_at (drop i ?t) \<noteq> None) (rev [1..<length ?t]) = Some (length name)"
    using k assms(1) by (intro find_rev_upt) (auto simp: Suc_le_eq)
  then show ?thesis
    unfolding pathRE_match_def CutPrefix_append using assms(2,3) nl k by simp
qed

lemma drop_count: "count_list (drop j s) c \<le> count_list s c"
  by (metis append_take_drop_id count_list_append le_add2)

lemma count_list_notin: "c \<notin> set s \<Longrightarrow> count_list s c = 0"
  by (simp add: count_notin)

text \<open>The last keyword segment is the one before a rest without a slash.\<close>

lemma last_kind:
  assumes "CHR ''/'' \<notin> set rest" "k \<in> set route_kinds"
  shows "kind_at (drop j (k @ CHR ''/'' # rest)) = None"
  using assms kinds_no_slash [OF assms(2)] drop_count [of j "k @ CHR ''/'' # rest" "CHR ''/''"]
  by (intro kind_at_few_slashes) (simp add: count_list_notin)

lemma last_kind_uploads:
  assumes "CHR ''/'' \<notin> set sid"
  shows "kind_at (drop j (''blobs'' @ CHR ''/'' # ''uploads/'' @ sid)) = None"
proof -
  let ?s = "''blobs'' @ CHR ''/'' # ''uploads/'' @ sid"
  show ?thesis
  proof (cases "j \<le> 5")
    case True
    then have "j \<in> {0, 1, 2, 3, 4, 5}" by auto
    then show ?thesis by (auto simp: kind_at_None_iff route_kinds_def)
  next
    case False
    then have "drop j ?s = drop (j - 6) (drop 6 ?s)" by (simp only: drop_drop) simp
    also have "drop 6 ?s = ''uploads/'' @ sid" by simp
    finally have "count_list (drop j ?s) CHR ''/'' \<le> count_list (''uploads/'' @ sid) CHR ''/''"
      using drop_count by metis
    then show ?thesis using assms by (intro kind_at_few_slashes) (simp add: count_list_notin)
  qed
qed

text \<open>Every match splits the path it came from.\<close>

lemma pathRE_match_sound:
  assumes "pathRE_match p = Some (name, k, rest)"
  shows "p = ''/v2/'' @ name @ CHR ''/'' # k @ CHR ''/'' # rest \<and> name \<noteq> '''' \<and> k \<in> set route_kinds"
proof -
  from assms obtain t i where t: "p = ''/v2/'' @ t" "find (\<lambda>i. kind_at (drop i t) \<noteq> None) (rev [1..<length t]) = Some i"
    "kind_at (drop i t) = Some k" "name = take i t" "rest = drop (i + length k + 2) t"
    by (auto simp: pathRE_match_def CutPrefix_Some_iff simp del: upt.simps split: option.splits if_splits)
  from t(2) obtain j where "j < length (rev [1..<length t])" "i = rev [1..<length t] ! j"
    unfolding find_Some_iff by blast
  then have "i \<in> set (rev [1..<length t])" using nth_mem by blast
  then have i: "1 \<le> i" "i < length t" by auto
  from kind_at_Some [OF t(3)] obtain z where z: "k \<in> set route_kinds" "drop i t = CHR ''/'' # k @ CHR ''/'' # z"
    by (auto simp: prefix_def)
  have "rest = drop (length k + 2) (drop i t)" using t(5) by (simp add: add_ac)
  then have "rest = z" using z(2) by simp
  then have "t = name @ CHR ''/'' # k @ CHR ''/'' # rest" using t(4) z(2) append_take_drop_id [of i t] by simp
  moreover have "name \<noteq> ''''" using t(4) i by auto
  ultimately show ?thesis using t(1) z(1) by simp
qed

lemma repo_no_newline: "ValidateRepository r = None \<Longrightarrow> CHR ''\<newline>'' \<notin> set r"
  using repo_chars [of r "CHR ''\<newline>''"] by (auto simp: cls_defs)

lemma digest_plain:
  assumes "ParseDigest d = Inr d"
  shows "CHR ''/'' \<notin> set d" "CHR ''\<newline>'' \<notin> set d" "\<not> prefix ''uploads/'' d"
  using digest_no_slash [OF assms] digest_chars [OF assms, of "CHR ''\<newline>''"] assms
  by (auto simp: cls_defs prefix_def ParseDigest_Inr_iff)

text \<open>
  The locations the registry hands out lead back to what they name: for a valid repository name,
  also one with segments such as blobs or manifests, the Location of a blob, of a manifest and of an
  upload session is parsed into exactly that repository and that digest or session. A path that is
  parsed at all consists of the name, the kind and the rest that were returned, and nothing else.
\<close>

theorem locations_route_back:
  assumes repo: "ValidateRepository repo = None" and d: "ParseDigest d = Inr d"
    and sid: "CHR ''/'' \<notin> set sid" "CHR ''\<newline>'' \<notin> set sid"
  shows "parsePath (blobLocation repo d) = Some \<lparr>rt_name = repo, rt_kind = ''blobs'', rt_rest = d\<rparr>
    \<and> parsePath (manifestLocation repo d) = Some \<lparr>rt_name = repo, rt_kind = ''manifests'', rt_rest = d\<rparr>
    \<and> parsePath (uploadLocation repo sid) = Some \<lparr>rt_name = repo, rt_kind = ''uploads'', rt_rest = sid\<rparr>
    \<and> (\<forall>p rt. parsePath p = Some rt \<longrightarrow> rt_name rt \<noteq> ''''
         \<and> p = ''/v2/'' @ rt_name rt @ (if rt_kind rt = ''uploads'' then ''/blobs/uploads/'' else ''/'' @ rt_kind rt @ ''/'') @ rt_rest rt)"
proof (intro conjI allI impI)
  note r = repo_no_newline [OF repo] and n = repo_not_Nil [OF repo, THEN conjunct1] and dp = digest_plain [OF d]
  have ks: "''blobs'' \<in> set route_kinds" "''manifests'' \<in> set route_kinds" by (simp_all add: route_kinds_def)
  have b: "pathRE_match (blobLocation repo d) = Some (repo, ''blobs'', d)"
    using pathRE_match_last [OF n r dp(2) ks(1) last_kind [OF dp(1) ks(1)]] by (simp add: blobLocation_def)
  then show "parsePath (blobLocation repo d) = Some \<lparr>rt_name = repo, rt_kind = ''blobs'', rt_rest = d\<rparr>"
    using dp(3) by (simp add: parsePath_def CutPrefix_def)
  have "pathRE_match (manifestLocation repo d) = Some (repo, ''manifests'', d)"
    using pathRE_match_last [OF n r dp(2) ks(2) last_kind [OF dp(1) ks(2)]] by (simp add: manifestLocation_def)
  then show "parsePath (manifestLocation repo d) = Some \<lparr>rt_name = repo, rt_kind = ''manifests'', rt_rest = d\<rparr>"
    by (simp add: parsePath_def)
  have "CHR ''\<newline>'' \<notin> set (''uploads/'' @ sid)" using sid(2) by simp
  from pathRE_match_last [OF n r this ks(1) last_kind_uploads [OF sid(1)]]
  have "pathRE_match (uploadLocation repo sid) = Some (repo, ''blobs'', ''uploads/'' @ sid)"
    by (simp add: uploadLocation_def)
  then show "parsePath (uploadLocation repo sid) = Some \<lparr>rt_name = repo, rt_kind = ''uploads'', rt_rest = sid\<rparr>"
    unfolding parsePath_def by (simp only: option.case prod.case refl if_True CutPrefix_append)
next
  fix p rt
  assume p: "parsePath p = Some rt"
  then obtain name k rest where m: "pathRE_match p = Some (name, k, rest)" by (auto simp: parsePath_def split: option.splits)
  note s = pathRE_match_sound [OF m]
  show "rt_name rt \<noteq> ''''" using p m s by (auto simp: parsePath_def split: option.splits if_splits)
  show "p = ''/v2/'' @ rt_name rt @ (if rt_kind rt = ''uploads'' then ''/blobs/uploads/'' else ''/'' @ rt_kind rt @ ''/'') @ rt_rest rt"
    using p m s by (auto simp: parsePath_def CutPrefix_Some_iff route_kinds_def split: option.splits if_splits)
qed

theorem locations_route_back_witness:
  "parsePath (blobLocation ''a/blobs/b'' demo_digest) = Some \<lparr>rt_name = ''a/blobs/b'', rt_kind = ''blobs'', rt_rest = demo_digest\<rparr>"
proof -
  have "ValidateRepository ''a/blobs/b'' = None" by code_simp
  from locations_route_back [OF this demo_digest_ok, of "''x''"] show ?thesis by simp
qed

lemma seg_sep_None: "CHR ''@'' \<notin> set seg \<Longrightarrow> CHR '':'' \<notin> set seg \<Longrightarrow> seg_sep seg = None"
  using IndexByte_None_iff [of seg "CHR ''@''"] IndexByte_None_iff [of seg "CHR '':''"] by (simp add: seg_sep_def)

lemma IndexByte_append: "c \<notin> set a \<Longrightarrow> IndexByte (a @ c # b) c = Some (length a)"
  by (induction a) auto

lemma seg_sep_at: "CHR ''@'' \<notin> set a \<Longrightarrow> seg_sep (a @ CHR ''@'' # b) = Some (length a)"
  by (simp add: seg_sep_def IndexByte_append)

lemma seg_sep_colon:
  assumes "CHR ''@'' \<notin> set a" "CHR ''@'' \<notin> set b" "CHR '':'' \<notin> set a"
  shows "seg_sep (a @ CHR '':'' # b) = Some (length a)"
  using assms IndexByte_None_iff [of "a @ CHR '':'' # b" "CHR ''@''"]
  by (simp add: seg_sep_def IndexByte_append)

lemma parse_segs_repo:
  assumes "CHR ''@'' \<notin> set repo" "CHR '':'' \<notin> set repo" "CHR ''/'' \<notin> set tail" "tail \<noteq> []"
    and sep: "\<And>a. CHR ''@'' \<notin> set a \<Longrightarrow> CHR '':'' \<notin> set a \<Longrightarrow> seg_sep (a @ tail) = Some (length a)"
  shows "parse_segs before (Split (repo @ tail @ CHR ''/'' # path) CHR ''/'') =
    Some \<lparr>fr_repo = Join before ''/'' @ (if before \<noteq> [] then ''/'' else '''') @ repo,
          fr_reference = tl tail, fr_path = path\<rparr>
    \<and> parse_segs before (Split (repo @ tail) CHR ''/'') =
    Some \<lparr>fr_repo = Join before ''/'' @ (if before \<noteq> [] then ''/'' else '''') @ repo,
          fr_reference = tl tail, fr_path = ''''\<rparr>"
  using assms(1,2)
proof (induction repo arbitrary: before rule: length_induct)
  case (1 repo)
  show ?case
  proof (cases "CHR ''/'' \<in> set repo")
    case False
    then have "CHR ''/'' \<notin> set (repo @ tail)" using assms(3) by simp
    then have "Split ((repo @ tail) @ CHR ''/'' # path) CHR ''/'' = (repo @ tail) # Split path CHR ''/''"
      "Split (repo @ tail) CHR ''/'' = [repo @ tail]" by (rule Split_append, rule Split_no_sep)
    moreover have "drop (Suc (length repo)) (repo @ tail) = tl tail" using assms(4) by (cases tail) auto
    ultimately show ?thesis using sep [OF "1.prems"] by simp
  next
    case True
    then obtain seg rest where r: "repo = seg @ CHR ''/'' # rest" "CHR ''/'' \<notin> set seg" by (meson split_list_first)
    have "seg_sep seg = None" using seg_sep_None "1.prems" r by simp
    moreover note "1.IH" [rule_format, of rest "before @ [seg]"]
    moreover have "Join (before @ [seg]) ''/'' @ CHR ''/'' # rest = Join before ''/'' @ (if before \<noteq> [] then ''/'' else '''') @ repo"
      using r by (cases "before = []") (simp_all add: Join_append)
    ultimately show ?thesis using r "1.prems" by simp
  qed
qed

text \<open>
  The paths of the root filesystem API are unambiguous: a valid repository name followed by a
  colon and a tag, or by an at sign and a digest, is split into exactly these parts, and everything
  after the next slash is the path inside the image, whatever separators it contains itself.
\<close>

theorem fs_paths_unambiguous:
  assumes repo: "ValidateRepository repo = None" and tag: "ValidateTag tag = None" and d: "ParseDigest d = Inr d"
  shows "parseFSPath (repo @ '':'' @ tag @ ''/'' @ path) = Some \<lparr>fr_repo = repo, fr_reference = tag, fr_path = path\<rparr>
    \<and> parseFSPath (repo @ ''@'' @ d @ ''/'' @ path) = Some \<lparr>fr_repo = repo, fr_reference = d, fr_path = path\<rparr>
    \<and> parseFSPath (repo @ '':'' @ tag) = Some \<lparr>fr_repo = repo, fr_reference = tag, fr_path = ''''\<rparr>
    \<and> parseFSPath (repo @ ''@'' @ d) = Some \<lparr>fr_repo = repo, fr_reference = d, fr_path = ''''\<rparr>"
proof -
  note r = repo_no_sep [OF repo] and t = tag_no_sep [OF tag] and ds = digest_plain(1) [OF d]
  have "CHR ''/'' \<notin> set (CHR '':'' # tag)" "CHR ''/'' \<notin> set (CHR ''@'' # d)" using t ds by simp_all
  note pt = parse_segs_repo [OF r(2,1) this(1) list.distinct(2), of "[]" path]
    and pd = parse_segs_repo [OF r(2,1) this(2) list.distinct(2), of "[]" path]
  show ?thesis
    using pt seg_sep_colon t pd seg_sep_at by (simp add: parseFSPath_def)
qed

theorem fs_paths_unambiguous_witness:
  "parseFSPath (''a/b'' @ '':'' @ ''v1'' @ ''/'' @ ''etc/x:y'') = Some \<lparr>fr_repo = ''a/b'', fr_reference = ''v1'', fr_path = ''etc/x:y''\<rparr>"
proof -
  have "ValidateRepository ''a/b'' = None" "ValidateTag ''v1'' = None" by code_simp+
  from fs_paths_unambiguous [OF this demo_digest_ok, of "''etc/x:y''"] show ?thesis by (simp only: conj_assoc)
qed

end
