(* ===== verification/Image_Props.thy ===== *)
theory Image_Props
  imports Image_Store
begin

text \<open>
  What the image store guarantees: a manifest that was pushed opens with its Meta and is served byte
  for byte, what it names exists, a deletion by digest removes every reference to the image, and what
  a failing push may leave behind.
\<close>

definition image_env_ok ::
  "('s, 'i, 'd, 'k, 'a) image_env \<Rightarrow> ('s \<Rightarrow> string \<rightharpoonup> bytes) \<Rightarrow> ('d \<Rightarrow> 'k fentry list) \<Rightarrow> ('i \<Rightarrow> 'k list) \<Rightarrow> bool" where
  "image_env_ok E tbl cont kids \<longleftrightarrow>
     refdb_ok (ie_D E) tbl \<and> objstore_ok (ie_S E) cont kids
     \<and> (\<forall>m data. ie_Marshal E m = Inr data \<longrightarrow> ie_UnmarshalMeta E data = Some m)"

lemma image_env_okD:
  assumes "image_env_ok E tbl cont kids"
  shows "refdb_ok (ie_D E) tbl" "objstore_ok (ie_S E) cont kids"
    "ie_Marshal E m = Inr data \<Longrightarrow> ie_UnmarshalMeta E data = Some m"
  using assms by (simp_all add: image_env_ok_def)

section \<open>Helper lemmas\<close>

lemma copy_all_ok:
  assumes "reader_rest K get dec r bs" "\<And>i. ctx i = None"
  shows "copy_all K get dec ctx i r acc = Some (acc @ bs, None)"
  using assms(1)
proof (induction bs arbitrary: r acc i rule: length_induct)
  case (1 bs)
  have c0: "ctx i = None" by (rule assms(2))
  have "0 < (65536 :: nat)" by simp
  from Reader_Read_ok [OF "1.prems" this] obtain out er r' where
    rd: "Reader_Read K get dec 65536 r = Some (out, er, r')"
    and c: "if bs = [] then out = [] \<and> er = Some REOF \<and> reader_rest K get dec r' []
       else er = None \<and> 0 < length out \<and> length out \<le> 65536
            \<and> (\<exists>rest. bs = out @ rest \<and> reader_rest K get dec r' rest)" by blast
  show ?case
  proof (cases "bs = []")
    case True
    with c have "out = []" "er = Some REOF" by simp_all
    with True show ?thesis
      unfolding copy_all.simps [of K get dec ctx i r acc] unfolding c0 rd by simp
  next
    case False
    note c' = c [unfolded if_not_P [OF False]]
    then obtain rest where o: "er = None" "0 < length out" "bs = out @ rest" "reader_rest K get dec r' rest" by blast
    have "length rest < length bs" using o by simp
    with "1.IH" o(4) have "copy_all K get dec ctx (Suc i) r' (acc @ out) = Some ((acc @ out) @ rest, None)"
      by blast
    with o(1,3) show ?thesis
      unfolding copy_all.simps [of K get dec ctx i r acc] unfolding c0 rd by simp
  qed
qed

lemma resolve_roots_ok:
  assumes "resolve_roots D s name roots ds = Inr rs" "\<forall>(d, k) \<in> set roots. Resolve D s (name d) = Inr k"
  shows "(\<forall>(d, k) \<in> set rs. Resolve D s (name d) = Inr k)
    \<and> (\<forall>d \<in> set ds. \<exists>k. Resolve D s (name (d_Digest d)) = Inr k)"
  using assms
proof (induction ds arbitrary: roots)
  case (Cons d ds)
  show ?case
  proof (cases "map_of roots (d_Digest d)")
    case (Some k)
    then have "Resolve D s (name (d_Digest d)) = Inr k" using Cons.prems(2) map_of_SomeD by fastforce
    then show ?thesis using Cons Some by auto
  next
    case None
    with Cons.prems obtain k where k: "Resolve D s (name (d_Digest d)) = Inr k"
      "resolve_roots D s name (roots @ [(d_Digest d, k)]) ds = Inr rs" by (auto split: sum.splits)
    from Cons.IH [OF k(2)] Cons.prems(2) k(1) show ?thesis by auto
  qed
qed simp

lemma TakeRecent_refs [simp]: "bs_refs (snd (TakeRecent opts now st d)) = bs_refs st"
  by (simp add: TakeRecent_def Let_def split: option.splits prod.splits)

lemma blob_stats_refs: "blob_stats opts now st seen acc ds = (acc', st') \<Longrightarrow> bs_refs st' = bs_refs st"
proof (induction ds arbitrary: st seen acc)
  case (Cons d ds)
  obtain x st1 where t: "TakeRecent opts now st (d_Digest d) = (x, st1)" by fastforce
  have "bs_refs st1 = bs_refs st" using TakeRecent_refs [of opts now st "d_Digest d"] t by simp
  with Cons t show ?case by (auto split: if_splits option.splits)
qed simp

lemma computeStats_refs: "computeStats E io st repo m body objs = (r, st') \<Longrightarrow> bs_refs st' = bs_refs st"
  by (auto simp: computeStats_def dest: blob_stats_refs split: option.splits prod.splits if_splits)

lemma buildRootfs_tree:
  assumes "buildRootfs E s repo d m = Inr (info, k)" "rf_Status info = RootfsOK \<or> rf_Status info = RootfsPartial"
  shows "k \<noteq> None"
  using assms by (auto simp: buildRootfs_def rootfs_status_def split: if_splits sum.splits option.splits)

lemma publish_refs_ok:
  assumes db: "refdb_ok D tbl" and p: "publish_refs D s repo dg tag subj root = (None, s')"
  shows "Resolve D s' n =
    (if n = ManifestRef repo dg \<or> tag \<noteq> '''' \<and> n = TagRef repo tag
        \<or> (\<exists>d. subj = Some d \<and> n = ReferrerRef repo (d_Digest d) dg)
     then Inr root else Resolve D s n)"
proof -
  from p obtain s1 s2 where 1: "Publish D s (ManifestRef repo dg) root = (None, s1)"
    and 2: "(if tag \<noteq> '''' then Publish D s1 (TagRef repo tag) root else (None, s1)) = (None, s2)"
    and 3: "(case subj of None \<Rightarrow> (None, s2) | Some d \<Rightarrow> Publish D s2 (ReferrerRef repo (d_Digest d) dg) root) = (None, s')"
    by (auto simp: publish_refs_def split: prod.splits option.splits)
  note r1 = Publish_Resolve [OF db 1]
  have r2: "Resolve D s2 n = (if tag \<noteq> '''' \<and> n = TagRef repo tag then Inr root else Resolve D s1 n)"
    using 2 Publish_Resolve [OF db, of s1 "TagRef repo tag" root s2] by (auto split: if_splits)
  have "Resolve D s' n = (if \<exists>d. subj = Some d \<and> n = ReferrerRef repo (d_Digest d) dg then Inr root else Resolve D s2 n)"
    using 3 Publish_Resolve [OF db] by (auto split: option.splits)
  with r1 r2 show ?thesis by auto
qed

lemma pass_two_ok:
  assumes ok: "image_env_ok E tbl cont kids"
    and p: "pass_two E io meta blobsKey manifestKey manifestsKey rootfsKey = Inr root"
  shows "image_readMeta E root = Inr meta" "os_LookupKey (ie_S E) root ManifestFile = Inr manifestKey"
    "rootfsKey = Some k \<Longrightarrow> os_LookupKey (ie_S E) root RootfsDir = Inr k"
proof -
  note os = image_env_okD(2) [OF ok]
  from p obtain data mk where m: "ie_Marshal E meta = Inr data" "PutBytes (ie_S E) data = Inr mk"
    and d: "put_dir (ie_S E) (image_entries blobsKey manifestKey manifestsKey mk rootfsKey) = Inr root"
    by (auto simp: pass_two_def split: sum.splits option.splits)
  note l = put_dir_LookupKey(1) [OF os d]
  have "os_LookupKey (ie_S E) root MetaFile = Inr mk" by (rule l [of False]) (simp add: image_entries_def)
  moreover have "os_ReadFile (ie_S E) mk = Inr data"
    using m(2) ReadFile_content [OF os] PutStream_content [OF os] by (simp add: PutBytes_def)
  ultimately show "image_readMeta E root = Inr meta"
    using image_env_okD(3) [OF ok m(1)] by (simp add: image_readMeta_def)
  show "os_LookupKey (ie_S E) root ManifestFile = Inr manifestKey" by (rule l [of False]) (simp add: image_entries_def)
  show "rootfsKey = Some k \<Longrightarrow> os_LookupKey (ie_S E) root RootfsDir = Inr k"
    by (rule l [of True]) (simp add: image_entries_def opt_list_def)
qed

text \<open>A push that succeeds, step by step.\<close>

lemma image_Put_Inr:
  assumes "image_Put E io st0 st repo reference ct body = (Inr meta, st')"
  obtains tag m blobRoots rf rootfsKey manifestKey blobsKey manifestsKey objs stats root s' childRoots where
    "put_check E repo reference body = Inr (tag, m)"
    "put_before E io (bs_refs st0) repo m body = Inr (blobRoots, rf, rootfsKey)"
    "IsIndex m \<longrightarrow> (\<exists>rs. resolveChildren (ie_D E) (bs_refs st) repo m = Inr rs)"
    "pass_one E io body blobRoots childRoots = Inr (manifestKey, blobsKey, manifestsKey, objs)"
    "meta = new_image_meta E io m body ct rf stats"
    "pass_two E io meta blobsKey manifestKey manifestsKey rootfsKey = Inr root"
    "publish_refs (ie_D E) (bs_refs st) repo (im_Digest meta) tag (m_Subject m) root = (None, s')"
    "bs_refs st' = s'"
proof -
  from assms obtain tag m where 1: "put_check E repo reference body = Inr (tag, m)"
    by (auto simp: image_Put_def split: sum.splits)
  with assms obtain blobRoots rf rootfsKey where
    2: "put_before E io (bs_refs st0) repo m body = Inr (blobRoots, rf, rootfsKey)"
    by (auto simp: image_Put_def split: sum.splits)
  with assms 1 obtain childRoots where 3: "(if IsIndex m then (case resolveChildren (ie_D E) (bs_refs st) repo m of
                                 Inl er \<Rightarrow> Inl er | Inr rs \<Rightarrow> Inr (Some rs)) else Inr None) = Inr childRoots"
    by (auto simp: image_Put_def split: sum.splits)
  with assms 1 2 obtain manifestKey blobsKey manifestsKey objs where
    4: "pass_one E io body blobRoots childRoots = Inr (manifestKey, blobsKey, manifestsKey, objs)"
    by (auto simp: image_Put_def simp del: split_paired_Ex split: sum.splits)
  obtain r st1 where 5: "computeStats E io st repo m body objs = (r, st1)" by fastforce
  have fin: "image_Put E io st0 st repo reference ct body =
     (case r of
        Inl er \<Rightarrow> (Inl er, st1)
      | Inr stats \<Rightarrow>
          (let meta = new_image_meta E io m body ct rf stats in
           case pass_two E io meta blobsKey manifestKey manifestsKey rootfsKey of
             Inl er \<Rightarrow> (Inl er, st1)
           | Inr root \<Rightarrow>
               (case publish_refs (ie_D E) (bs_refs st1) repo (im_Digest meta) tag (m_Subject m) root of
                  (Some er, s') \<Rightarrow> (Inl er, st1\<lparr>bs_refs := s'\<rparr>)
                | (None, s') \<Rightarrow> (Inr meta, st1\<lparr>bs_refs := s'\<rparr>))))"
    by (simp add: image_Put_def 1 2 3 4 5 del: if_split split: sum.split)
  from assms fin obtain stats root s' where 6: "r = Inr stats" "meta = new_image_meta E io m body ct rf stats"
    "pass_two E io meta blobsKey manifestKey manifestsKey rootfsKey = Inr root"
    "publish_refs (ie_D E) (bs_refs st1) repo (im_Digest meta) tag (m_Subject m) root = (None, s')"
    "st' = st1\<lparr>bs_refs := s'\<rparr>"
    by (auto simp: Let_def split: sum.splits prod.splits option.splits)
  have ch: "IsIndex m \<longrightarrow> (\<exists>rs. resolveChildren (ie_D E) (bs_refs st) repo m = Inr rs)"
    using 3 by (auto split: sum.splits)
  show ?thesis
    by (rule that [OF 1 2 ch 4 6(2,3), of s']) (use 6 computeStats_refs [OF 5] in simp_all)
qed

lemma put_check_refFor:
  assumes "put_check E repo reference body = Inr (tag, m)"
  shows "refFor repo (DigestOfBytes (be_sha (ie_E E)) body) = Inr (ManifestRef repo (DigestOfBytes (be_sha (ie_E E)) body))"
    "refFor repo reference = Inr (if tag \<noteq> '''' then TagRef repo tag
       else ManifestRef repo (DigestOfBytes (be_sha (ie_E E)) body))"
proof -
  have v: "ValidateRepository repo = None" using assms by (simp add: put_check_def split: if_splits)
  show "refFor repo (DigestOfBytes (be_sha (ie_E E)) body) = Inr (ManifestRef repo (DigestOfBytes (be_sha (ie_E E)) body))"
    using v IsDigest_if_ParseDigest [OF ParseDigest_DigestOfBytes] by (simp add: refFor_def)
  from assms v have "if IsDigest reference then ParseDigest reference = Inr (DigestOfBytes (be_sha (ie_E E)) body) \<and> tag = ''''
      else ValidateTag reference = None \<and> tag = reference"
    by (auto simp: put_check_def split: if_splits sum.splits option.splits)
  with v show "refFor repo reference = Inr (if tag \<noteq> '''' then TagRef repo tag
       else ManifestRef repo (DigestOfBytes (be_sha (ie_E E)) body))"
    using tag_not_Nil by (auto simp: refFor_def split: if_splits)
qed

lemma put_before_tree:
  assumes "put_before E io s0 repo m body = Inr (blobRoots, rf, rootfsKey)"
    and "rf = Some info" "rf_Status info = RootfsOK \<or> rf_Status info = RootfsPartial"
  obtains k where "rootfsKey = Some k"
  using assms buildRootfs_tree [of E s0 repo "DigestOfBytes (be_sha (ie_E E)) body" m info rootfsKey]
  by (auto simp: put_before_def split: option.splits sum.splits if_splits)

lemma put_before_blobs:
  assumes "put_before E io s0 repo m body = Inr (blobRoots, rf, rootfsKey)" "d \<in> set (BlobDescriptors m)"
  shows "\<exists>k. Resolve (ie_D E) s0 (RefName (d_Digest d)) = Inr k"
  using assms resolve_roots_ok [of "ie_D E" s0 RefName "[]" "BlobDescriptors m"]
  by (auto simp: put_before_def resolveBlobs_def split: option.splits sum.splits if_splits)

lemma pass_one_manifest:
  assumes "image_env_ok E tbl cont kids" "pass_one E io body bs cs = Inr (manifestKey, blobsKey, manifestsKey, objs)"
  shows "os_content (ie_S E) manifestKey body"
  using assms(2) PutStream_content [OF image_env_okD(2) [OF assms(1)]]
  by (auto simp: pass_one_def PutBytes_def split: sum.splits option.splits)

lemma image_Open_root:
  assumes "refFor repo r = Inr name" "Resolve (ie_D E) s name = Inr root" "image_readMeta E root = Inr meta"
    and "os_LookupKey (ie_S E) root ManifestFile = Inr mk"
    and "\<And>rf. has_tree meta = Some rf \<Longrightarrow> os_LookupKey (ie_S E) root RootfsDir = Inr fk"
  shows "image_Open E s repo r = Inr \<lparr>img_Meta = meta, img_root = root, img_manifest = mk,
    img_rootfs = (if has_tree meta = None then None else Some fk)\<rparr>"
  using assms by (auto simp: image_Open_def split: option.split)

lemma image_WriteTo_ok:
  assumes "os_content (ie_S E) (img_manifest im) body" "im_Digest (img_Meta im) = DigestOfBytes (be_sha (ie_E E)) body"
    and "\<And>i. ctx i = None"
  shows "image_WriteTo E ctx im = Some (body, None)"
  using copy_all_ok [OF reader_rest_NewReader [OF assms(1)], of ctx 0 "[]"] assms(2,3)
  by (simp add: image_WriteTo_def)

lemma delete_ref_once:
  assumes "refdb_ok D tbl" "drop_ref D s name = (None, s')"
  shows "Resolve D s' n = (if n = name then Inl ErrStoreNotFound else Resolve D s n)"
proof (cases "DeleteRef D s name = (None, s')")
  case True
  then show ?thesis using DeleteRef_Resolve [OF assms(1)] by simp
next
  case False
  with assms(2) have "DeleteRef D s name = (Some ErrStoreNotFound, s')"
    by (auto simp: drop_ref_def split: prod.splits if_splits)
  then have gone: "rd_Delete D s name = Inr None \<or> rd_Delete D s name = Inl ErrStoreNotFound" "s' = s"
    by (auto simp: DeleteRef_def split: sum.splits option.splits)
  show ?thesis using gone refdb_okD(3,9) [OF assms(1)] Resolve_ok [OF assms(1)] by auto
qed

lemma delete_tags_ok:
  assumes "refdb_ok (ie_D E) tbl" "delete_tags E s root meta refs = (None, s')"
  shows "Resolve (ie_D E) s' n =
    (if \<exists>k. (n, k) \<in> set refs \<and> (k = root \<or> (\<exists>tm. image_readMeta E k = Inr tm \<and> im_Digest tm = im_Digest meta))
     then Inl ErrStoreNotFound else Resolve (ie_D E) s n)"
  using assms(2)
proof (induction refs arbitrary: s)
  case (Cons r refs)
  obtain name k where r: "r = (name, k)" by fastforce
  from Cons.prems r obtain same where same:
    "(if k = root then Inr True
      else case image_readMeta E k of Inl er \<Rightarrow> Inl er | Inr tm \<Rightarrow> Inr (im_Digest tm = im_Digest meta)) = (Inr same :: bool res)"
    by (auto split: sum.splits)
  then have sd: "same \<longleftrightarrow> k = root \<or> (\<exists>tm. image_readMeta E k = Inr tm \<and> im_Digest tm = im_Digest meta)"
    by (auto split: if_splits sum.splits)
  show ?case
  proof (cases same)
    case False
    with Cons.prems r same have "delete_tags E s root meta refs = (None, s')" by simp
    from Cons.IH [OF this] show ?thesis using sd False r by auto
  next
    case True
    with Cons.prems r same obtain s1 where s1: "drop_ref (ie_D E) s name = (None, s1)"
      "delete_tags E s1 root meta refs = (None, s')" by (auto split: prod.splits option.splits)
    from Cons.IH [OF s1(2)] show ?thesis
      using sd True r delete_ref_once [OF assms(1) s1(1)] by auto
  qed
qed simp

lemma image_Delete_digest:
  assumes "image_Delete E s repo reference = (None, s')" "IsDigest reference"
  obtains d root meta s1 s2 tags where "ValidateRepository repo = None" "ParseDigest reference = Inr d"
    "Resolve (ie_D E) s (ManifestRef repo d) = Inr root" "image_readMeta E root = Inr meta"
    "DeleteRef (ie_D E) s (ManifestRef repo d) = (None, s1)"
    "ListRefs (ie_D E) s1 (TagRef repo '''') = Inr tags" "delete_tags E s1 root meta tags = (None, s2)"
    "(case im_Subject meta of None \<Rightarrow> (None, s2)
      | Some sd \<Rightarrow> drop_ref (ie_D E) s2 (ReferrerRef repo (d_Digest sd) (im_Digest meta))) = (None, s')"
proof -
  from assms obtain d where d: "ParseDigest reference = Inr d" "ValidateRepository repo = None"
    by (auto simp: image_Delete_def refFor_def split: if_splits sum.splits)
  then have f: "refFor repo reference = Inr (ManifestRef repo d)" using assms(2) by (simp add: refFor_def)
  from assms f obtain root meta s1 tags s2 where
    "Resolve (ie_D E) s (ManifestRef repo d) = Inr root" "image_readMeta E root = Inr meta"
    "DeleteRef (ie_D E) s (ManifestRef repo d) = (None, s1)"
    "ListRefs (ie_D E) s1 (TagPrefix @ repo @ '':'') = Inr tags" "delete_tags E s1 root meta tags = (None, s2)"
    "(case im_Subject meta of None \<Rightarrow> (None, s2)
      | Some sd \<Rightarrow> drop_ref (ie_D E) s2 (ReferrerRef repo (d_Digest sd) (im_Digest meta))) = (None, s')"
    by (auto simp: image_Delete_def split: sum.splits prod.splits option.splits)
  with d that show ?thesis by (simp add: TagRef_def)
qed

section \<open>Properties\<close>

text \<open>
  (C8) A successful push opens: both the reference that was pushed (tag or digest) and the digest of
  the body open as one image whose Meta is the one Put returned, whose digest is the digest of the
  body, and whose WriteTo gives the body back byte for byte unless the context ends.
\<close>

theorem push_then_open:
  assumes ok: "image_env_ok E tbl cont kids"
    and put: "image_Put E io st0 st repo reference ct body = (Inr meta, st')"
  shows "\<exists>im. image_Open E (bs_refs st') repo reference = Inr im
    \<and> image_Open E (bs_refs st') repo (DigestOfBytes (be_sha (ie_E E)) body) = Inr im
    \<and> img_Meta im = meta \<and> im_Digest meta = DigestOfBytes (be_sha (ie_E E)) body
    \<and> im_Size meta = int (length body)
    \<and> (\<forall>ctx. (\<forall>i. ctx i = None) \<longrightarrow> image_WriteTo E ctx im = Some (body, None))"
proof -
  let ?d = "DigestOfBytes (be_sha (ie_E E)) body"
  from image_Put_Inr [OF put] obtain tag m blobRoots rf rootfsKey manifestKey blobsKey manifestsKey objs stats root childRoots s' where
    p: "put_check E repo reference body = Inr (tag, m)"
      "put_before E io (bs_refs st0) repo m body = Inr (blobRoots, rf, rootfsKey)"
      "pass_one E io body blobRoots childRoots = Inr (manifestKey, blobsKey, manifestsKey, objs)"
      "meta = new_image_meta E io m body ct rf stats"
      "pass_two E io meta blobsKey manifestKey manifestsKey rootfsKey = Inr root"
      "publish_refs (ie_D E) (bs_refs st) repo (im_Digest meta) tag (m_Subject m) root = (None, s')" "bs_refs st' = s'"
    by metis
  have md: "im_Digest meta = ?d" "im_Size meta = int (length body)" "im_Rootfs meta = rf"
    using p(4) by (simp_all add: new_image_meta_def)
  note p2 = pass_two_ok [OF ok p(5)] and rr = publish_refs_ok [OF image_env_okD(1) [OF ok] p(6)]
  have tree: "os_LookupKey (ie_S E) root RootfsDir = Inr (the rootfsKey)" if "has_tree meta = Some r" for r
    using that md(3) put_before_tree [OF p(2), of r] p2(3)
    by (fastforce simp: has_tree_def split: option.splits if_splits)
  let ?im = "\<lparr>img_Meta = meta, img_root = root, img_manifest = manifestKey,
    img_rootfs = (if has_tree meta = None then None else Some (the rootfsKey))\<rparr>"
  have "image_Open E (bs_refs st') repo ?d = Inr ?im"
    using p(7) md(1) rr [of "ManifestRef repo ?d"]
    by (intro image_Open_root [OF put_check_refFor(1) [OF p(1)] _ p2(1,2) tree]) simp
  moreover have "image_Open E (bs_refs st') repo reference = Inr ?im"
    using p(7) md(1) rr [of "ManifestRef repo ?d"] rr [of "TagRef repo tag"]
    by (intro image_Open_root [OF put_check_refFor(2) [OF p(1)] _ p2(1,2) tree]) simp
  moreover have "image_WriteTo E ctx ?im = Some (body, None)" if "\<forall>i. ctx i = None" for ctx
    using that md(1) pass_one_manifest [OF ok p(3)] by (intro image_WriteTo_ok) simp_all
  ultimately show ?thesis using md by (intro exI [of _ ?im]) simp
qed

text \<open>
  (C9) A push leaves nothing dangling: when it succeeds, every config and layer the manifest names had
  a blob reference when the push resolved it, every child of an index has a manifest reference in the
  same repository after the push, and no reference changed other than the manifest's own, its tag and
  its entry among the subject's referrers.
\<close>

theorem push_is_closed:
  assumes ok: "image_env_ok E tbl cont kids"
    and put: "image_Put E io st0 st repo reference ct body = (Inr meta, st')"
  shows "\<exists>m tag. ParseManifest (ie_unmarshal E) body = Inr m \<and> tag \<in> {'''', reference}
    \<and> (\<forall>d \<in> set (BlobDescriptors m). \<exists>k. Resolve (ie_D E) (bs_refs st0) (RefName (d_Digest d)) = Inr k)
    \<and> (IsIndex m \<longrightarrow> (\<forall>d \<in> set (ManifestChildren m).
          \<exists>k. Resolve (ie_D E) (bs_refs st') (ManifestRef repo (d_Digest d)) = Inr k))
    \<and> (\<forall>n. n \<notin> {ManifestRef repo (im_Digest meta), TagRef repo tag}
          \<longrightarrow> (\<forall>d. m_Subject m = Some d \<longrightarrow> n \<noteq> ReferrerRef repo (d_Digest d) (im_Digest meta))
          \<longrightarrow> Resolve (ie_D E) (bs_refs st') n = Resolve (ie_D E) (bs_refs st) n)"
proof -
  from image_Put_Inr [OF put] obtain tag m blobRoots rf rootfsKey root s' where
    p: "put_check E repo reference body = Inr (tag, m)"
      "put_before E io (bs_refs st0) repo m body = Inr (blobRoots, rf, rootfsKey)"
      "IsIndex m \<longrightarrow> (\<exists>rs. resolveChildren (ie_D E) (bs_refs st) repo m = Inr rs)"
      "publish_refs (ie_D E) (bs_refs st) repo (im_Digest meta) tag (m_Subject m) root = (None, s')" "bs_refs st' = s'"
    by metis
  have t: "ParseManifest (ie_unmarshal E) body = Inr m" "tag \<in> {'''', reference}"
    using p(1) by (auto simp: put_check_def split: if_splits sum.splits option.splits)
  note rr = publish_refs_ok [OF image_env_okD(1) [OF ok] p(4)]
  have "\<exists>k. Resolve (ie_D E) (bs_refs st') (ManifestRef repo (d_Digest d)) = Inr k"
    if i: "IsIndex m" and d: "d \<in> set (ManifestChildren m)" for d
  proof -
    from p(3) i obtain rs where "resolveChildren (ie_D E) (bs_refs st) repo m = Inr rs" by blast
    then obtain k where "Resolve (ie_D E) (bs_refs st) (ManifestRef repo (d_Digest d)) = Inr k"
      using resolve_roots_ok [of "ie_D E" "bs_refs st" "ManifestRef repo" "[]" "ManifestChildren m" rs] d
      by (auto simp: resolveChildren_def)
    then show ?thesis using rr p(5) by auto
  qed
  then show ?thesis
    using t rr p(5) put_before_blobs [OF p(2)] by (intro exI [of _ m] exI [of _ tag]) auto
qed

text \<open>
  (C10) Deleting by digest removes the image's references and nothing else: a reference is gone exactly
  when it is the manifest reference of the digest, a tag of the repository that names that image (the
  same root, or another root whose Meta has the same digest), or the image's entry among the referrers
  of its subject; every other reference resolves as before.
\<close>

theorem delete_by_digest:
  assumes db: "refdb_ok (ie_D E) tbl" and del: "image_Delete E s repo reference = (None, s')"
    and dig: "ParseDigest reference = Inr d"
  shows "\<exists>root meta. Resolve (ie_D E) s (ManifestRef repo d) = Inr root \<and> image_readMeta E root = Inr meta
    \<and> (\<forall>n. Resolve (ie_D E) s' n =
         (if n = ManifestRef repo d
             \<or> HasPrefix n (TagRef repo '''') \<and> (\<exists>k. Resolve (ie_D E) s n = Inr k
                 \<and> (k = root \<or> (\<exists>tm. image_readMeta E k = Inr tm \<and> im_Digest tm = im_Digest meta)))
             \<or> (\<exists>sd. im_Subject meta = Some sd \<and> n = ReferrerRef repo (d_Digest sd) (im_Digest meta))
          then Inl ErrStoreNotFound else Resolve (ie_D E) s n))"
proof -
  from image_Delete_digest [OF del IsDigest_if_ParseDigest [OF dig]] dig obtain root meta s1 s2 tags where
    p: "Resolve (ie_D E) s (ManifestRef repo d) = Inr root" "image_readMeta E root = Inr meta"
      "DeleteRef (ie_D E) s (ManifestRef repo d) = (None, s1)" "ListRefs (ie_D E) s1 (TagRef repo '''') = Inr tags"
      "delete_tags E s1 root meta tags = (None, s2)"
      "(case im_Subject meta of None \<Rightarrow> (None, s2)
        | Some sd \<Rightarrow> drop_ref (ie_D E) s2 (ReferrerRef repo (d_Digest sd) (im_Digest meta))) = (None, s')"
    by (metis sum.inject(2))
  have r3: "Resolve (ie_D E) s' n =
      (if \<exists>sd. im_Subject meta = Some sd \<and> n = ReferrerRef repo (d_Digest sd) (im_Digest meta)
       then Inl ErrStoreNotFound else Resolve (ie_D E) s2 n)" for n
    using p(6) delete_ref_once [OF db] by (auto split: option.splits)
  have r2: "Resolve (ie_D E) s2 n =
      (if HasPrefix n (TagRef repo '''') \<and> (\<exists>k. Resolve (ie_D E) s1 n = Inr k
            \<and> (k = root \<or> (\<exists>tm. image_readMeta E k = Inr tm \<and> im_Digest tm = im_Digest meta)))
       then Inl ErrStoreNotFound else Resolve (ie_D E) s1 n)" for n
    unfolding delete_tags_ok [OF db p(5)] ListRefs_ok(2) [OF db p(4)] by (intro if_cong) auto
  have "\<not> HasPrefix (ManifestRef repo d) (TagRef repo '''')"
    by (simp add: TagRef_def ManifestRef_def TagPrefix_def ManifestPrefix_def)
  then show ?thesis
    using p(1,2) r3 r2 DeleteRef_Resolve(1) [OF db p(3)] by (intro exI [of _ root] exI [of _ meta]) auto
qed

lemma publish_refs_Some:
  assumes db: "refdb_ok D tbl" and p: "publish_refs D s repo dg tag subj root = (Some er, s')"
  shows "s' = s \<or> (tag \<noteq> '''' \<or> subj \<noteq> None) \<and> Resolve D s' (ManifestRef repo dg) = Inr root"
proof -
  obtain e1 s1 where 1: "Publish D s (ManifestRef repo dg) root = (e1, s1)" by fastforce
  show ?thesis
  proof (cases e1)
    case (Some x)
    then show ?thesis using p 1 Publish_Some [of D s "ManifestRef repo dg" root x] by (simp add: publish_refs_def)
  next
    case None
    note r1 = Publish_Resolve [OF db 1 [unfolded None], of "ManifestRef repo dg"]
    obtain e2 s2 where 2: "(if tag \<noteq> '''' then Publish D s1 (TagRef repo tag) root else (None, s1)) = (e2, s2)" by fastforce
    have r2: "Resolve D s2 (ManifestRef repo dg) = Inr root"
      using 2 r1 Publish_Some [of D s1 "TagRef repo tag" root] Publish_Resolve [OF db, of s1 "TagRef repo tag" root s2]
      by (cases e2) (auto split: if_splits)
    have r3: "Resolve D s3 (ManifestRef repo dg) = Inr root" if "Publish D s2 n root = (Some x, s3)" for n x s3
      using that r2 Publish_Some [of D s2 n root] by auto
    show ?thesis
      using p 1 None 2 r2 r3 by (auto simp: publish_refs_def split: option.splits if_splits)
  qed
qed

lemma image_Put_Inl:
  assumes "image_Put E io st0 st repo reference ct body = (Inl er, st')"
  shows "bs_refs st' = bs_refs st
    \<or> (\<exists>tag m root s'. put_check E repo reference body = Inr (tag, m) \<and> bs_refs st' = s'
        \<and> publish_refs (ie_D E) (bs_refs st) repo (DigestOfBytes (be_sha (ie_E E)) body) tag (m_Subject m) root = (Some er, s'))"
  using assms
  by (auto simp: image_Put_def Let_def new_image_meta_def dest!: computeStats_refs
      split: sum.splits prod.splits option.splits if_splits)


section \<open>An image store in memory\<close>

lemmas media_types = MediaTypeOCIManifest_def MediaTypeOCIIndex_def MediaTypeDockerManifestList_def
  MediaTypeOCIConfig_def MediaTypeDockerConfig_def

text \<open>
  One artifact manifest whose config is the blob of \<open>demo_root\<close>, pushed as a tag. \<open>reject\<close> is the
  reference database's check of a name.
\<close>

definition art_digest :: digest where "art_digest = DigestOfBytes (\<lambda>_. 0) ''B''"

definition art_manifest :: Manifest where
  "art_manifest = \<lparr>m_SchemaVersion = 2, m_MediaType = MediaTypeOCIManifest, m_ArtifactType = '''',
     m_Config = Some \<lparr>d_MediaType = ''app/x'', d_Digest = art_digest, d_Size = 2,
                      d_ArtifactType = '''', d_Annotations = [], d_Platform = None\<rparr>,
     m_Layers = [], m_Manifests = None, m_Subject = None, m_Annotations = []\<rparr>"

definition art_meta :: image_Meta where
  "art_meta = \<lparr>im_Version = 1, im_Kind = KindManifest, im_MediaType = EffectiveMediaType art_manifest '''',
     im_Digest = art_digest, im_Size = 1, im_ArtifactType = EffectiveArtifactType art_manifest, im_Subject = None,
     im_Annotations = [], im_CreatedAt = 5,
     im_Stats = \<lparr>is_TotalBytes = 3, is_LogicalBytes = 4, is_DedupedBytes = 2, is_DiskBytes = 30\<rparr>,
     im_Rootfs = Some (rootfs_status RootfsNotApplicable)\<rparr>"

definition art_blobs :: okey where "art_blobs = ODir [dir_fentry (True, art_digest, demo_root)]"

definition art_root_key :: okey where
  "art_root_key = ODir [dir_fentry (True, ''blobs'', art_blobs), dir_fentry (False, ''manifest'', OBlob ''B''),
     dir_fentry (False, ''meta.json'', OBlob ''N'')]"

definition art_env ::
  "(string \<Rightarrow> err option) \<Rightarrow> ((string \<times> bytes) list, okey list, okey fentry list, okey, nat) image_env" where
  "art_env reject = \<lparr>ie_E = demo_env\<lparr>be_D := (key_refs [demo_root, art_root_key])\<lparr>rd_ValidateName := reject\<rparr>\<rparr>,
     ie_opts = demo_opts, ie_X = \<lparr>xa_Encode = (\<lambda>_. ''''), xa_EncodeSet = (\<lambda>_. Inl (ErrOther ''xattr'')), xa_Emit = (\<lambda>_. None)\<rparr>,
     ie_unmarshal = (\<lambda>b. if b = ''B'' then Some art_manifest else None),
     ie_Marshal = (\<lambda>m. if m = art_meta then Inr ''N'' else Inl (ErrOther ''json'')),
     ie_UnmarshalMeta = (\<lambda>b. if b = ''N'' then Some art_meta else None), ie_parseLayer = (\<lambda>_. Inr [])\<rparr>"

definition art_io :: image_io where
  "art_io = \<lparr>ii_ctx = (\<lambda>_. None), ii_now = 5, ii_close = Inr demo_stats, ii_rootClose = None\<rparr>"

definition art_before :: "(string \<times> bytes) list blob_store" where
  "art_before = \<lparr>bs_refs = [(RefName art_digest, '''')], bs_recent = []\<rparr>"

lemma mem_put_dir:
  assumes "entry_name_ok n"
  shows "put_dir mem_os [(True, n, ODir x)] = Inr (ODir [dir_fentry (True, n, ODir x)])"
    "put_dir mem_os [(True, ''blobs'', ODir x), (False, ''manifest'', OBlob b), (False, ''meta.json'', OBlob c)]
      = Inr (ODir [dir_fentry (True, ''blobs'', ODir x), dir_fentry (False, ''manifest'', OBlob b),
          dir_fentry (False, ''meta.json'', OBlob c)])"
proof -
  have m: "ModeDir AND TypeMask = TypeDir" "ModeFile AND TypeMask = TypeReg" "TypeDir \<noteq> TypeReg" by code_simp+
  have "entry_name_ok ''blobs''" "entry_name_ok ''manifest''" "entry_name_ok ''meta.json''"
    "\<not> ''manifest'' \<le> ''blobs''" "\<not> ''meta.json'' \<le> ''manifest''" by code_simp+
  note d = put_dir_def AddDir_def AddFile_def dir_add_def AddEntry_def Dir_Finish_def validatePayload_def Let_def NewDir_def
    dir_fentry_def
  show "put_dir mem_os [(True, n, ODir x)] = Inr (ODir [dir_fentry (True, n, ODir x)])"
    using assms m by (simp add: d mem_os_def okeys_def)
  show "put_dir mem_os [(True, ''blobs'', ODir x), (False, ''manifest'', OBlob b), (False, ''meta.json'', OBlob c)]
      = Inr (ODir [dir_fentry (True, ''blobs'', ODir x), dir_fentry (False, ''manifest'', OBlob b),
          dir_fentry (False, ''meta.json'', OBlob c)])"
    using m \<open>entry_name_ok ''blobs''\<close> \<open>entry_name_ok ''manifest''\<close> \<open>entry_name_ok ''meta.json''\<close>
      \<open>\<not> ''manifest'' \<le> ''blobs''\<close> \<open>\<not> ''meta.json'' \<le> ''manifest''\<close> by (simp add: d mem_os_def okeys_def)
qed

lemma art_env_ok: "image_env_ok (art_env reject) map_of (\<lambda>d. d) (\<lambda>ib. ib)"
  using mem_os_ok key_refs_ok [of "[demo_root, art_root_key]"]
  by (auto simp: image_env_ok_def art_env_def demo_env_def refdb_ok_def split: if_splits)

lemma art_check: "put_check (art_env reject) ''app'' ''v1'' ''B'' = Inr (''v1'', art_manifest)"
proof -
  have "validateDescriptor d = None" if "d_Digest d = art_digest" "d_Size d = 2" for d
    using that by (simp add: validateDescriptor_def art_digest_def)
  then have "ParseManifest (ie_unmarshal (art_env reject)) ''B'' = Inr art_manifest"
    by (simp add: ParseManifest_def art_env_def art_manifest_def opt_list_def ManifestChildren_def)
  moreover have "ValidateRepository ''app'' = None" "ValidateTag ''v1'' = None" "\<not> IsDigest ''v1''" by code_simp+
  ultimately show ?thesis by (simp add: put_check_def art_manifest_def)
qed

lemma art_pass:
  "put_before (art_env reject) art_io (bs_refs art_before) ''app'' art_manifest ''B''
     = Inr ([(art_digest, demo_root)], Some (rootfs_status RootfsNotApplicable), None)"
  "pass_one (art_env reject) art_io ''B'' [(art_digest, demo_root)] None
     = Inr (OBlob ''B'', art_blobs, None, demo_stats)"
  "pass_two (art_env reject) art_io art_meta art_blobs (OBlob ''B'') None None = Inr art_root_key"
proof -
  have "Resolve (ie_D (art_env reject)) (bs_refs art_before) (RefName art_digest) = Inr demo_root"
    by (simp add: Resolve_def decodeRef_def art_env_def key_refs_def mem_refs_def art_before_def)
  then show "put_before (art_env reject) art_io (bs_refs art_before) ''app'' art_manifest ''B''
     = Inr ([(art_digest, demo_root)], Some (rootfs_status RootfsNotApplicable), None)"
    by (simp add: put_before_def art_io_def resolveBlobs_def buildRootfs_def rootfsApplies_def BlobDescriptors_def
        opt_list_def art_manifest_def IsIndex_def media_types)
  have os: "ie_S (art_env reject) = mem_os" by (simp add: art_env_def demo_env_def)
  have b: "PutBytes mem_os ''B'' = Inr (OBlob ''B'')" "PutBytes mem_os ''N'' = Inr (OBlob ''N'')" by code_simp+
  obtain h where h: "art_digest = ''sha256:'' @ h" "list_all lower_hex h"
    using ParseDigest_DigestOfBytes [of "\<lambda>_. 0" "''B''"] unfolding art_digest_def ParseDigest_Inr_iff by blast
  have nc: "\<not> lower_hex (CHR 0x00)" "\<not> lower_hex CHR ''/''" by code_simp+
  have dg: "entry_name_ok art_digest"
    unfolding h(1) using h(2) nc by (auto simp: entry_name_ok_def ContainsByte_def list_all_iff)
  have "put_dir mem_os [(True, art_digest, demo_root)] = Inr art_blobs"
    using mem_put_dir(1) [OF dg] by (simp add: art_blobs_def demo_root_def)
  with os b show "pass_one (art_env reject) art_io ''B'' [(art_digest, demo_root)] None
     = Inr (OBlob ''B'', art_blobs, None, demo_stats)"
    by (simp add: pass_one_def buildRefDir_def art_io_def)
  have "put_dir mem_os [(True, ''blobs'', art_blobs), (False, ''manifest'', OBlob ''B''), (False, ''meta.json'', OBlob ''N'')]
     = Inr art_root_key"
    by (simp add: mem_put_dir(2) [OF dg] art_root_key_def art_blobs_def)
  moreover have "image_entries art_blobs (OBlob ''B'') None (OBlob ''N'') None =
      [(True, ''blobs'', art_blobs), (False, ''manifest'', OBlob ''B''), (False, ''meta.json'', OBlob ''N'')]"
    by (simp add: image_entries_def file_names BlobsDir_def ManifestFile_def opt_list_def)
  moreover have "ie_Marshal (art_env reject) art_meta = Inr ''N''" "ii_rootClose art_io = None"
    by (simp_all add: art_env_def art_io_def)
  ultimately show "pass_two (art_env reject) art_io art_meta art_blobs (OBlob ''B'') None None = Inr art_root_key"
    using os b by (simp add: pass_two_def)
qed

lemma art_put:
  "image_Put (art_env reject) art_io art_before art_before ''app'' ''v1'' '''' ''B''
     = (case publish_refs (ie_D (art_env reject)) (bs_refs art_before) ''app'' art_digest ''v1'' None art_root_key of
          (Some er, s') \<Rightarrow> (Inl er, art_before\<lparr>bs_refs := s'\<rparr>)
        | (None, s') \<Rightarrow> (Inr art_meta, art_before\<lparr>bs_refs := s'\<rparr>))"
proof -
  have ix: "\<not> IsIndex art_manifest" by (simp add: IsIndex_def art_manifest_def media_types)
  have st: "computeStats (art_env reject) art_io art_before ''app'' art_manifest ''B'' demo_stats
     = (Inr (im_Stats art_meta), art_before)"
    by (simp add: computeStats_def art_io_def BlobDescriptors_def art_manifest_def opt_list_def TakeRecent_def
        art_before_def purgeRecent_def add_stats_def i64_def demo_stats_def art_meta_def IsIndex_def media_types)
  have meta: "new_image_meta (art_env reject) art_io art_manifest ''B'' '''' (Some (rootfs_status RootfsNotApplicable))
      (im_Stats art_meta) = art_meta"
    using ix by (simp add: new_image_meta_def art_meta_def art_io_def metaVersion_def)
      (simp add: art_digest_def art_env_def demo_env_def art_manifest_def)
  show ?thesis
    by (simp add: image_Put_def art_check art_pass ix st meta)
       (simp add: art_meta_def art_manifest_def split: prod.split option.split)
qed

definition art_after :: "(string \<times> bytes) list blob_store" where
  "art_after = \<lparr>bs_refs = [(RefName art_digest, ''''), (ManifestRef ''app'' art_digest, ''x''), (TagRef ''app'' ''v1'', ''x'')],
     bs_recent = []\<rparr>"

lemma art_refs: "RefName art_digest \<noteq> ManifestRef ''app'' art_digest" "RefName art_digest \<noteq> TagRef ''app'' ''v1''"
  "ManifestRef ''app'' art_digest \<noteq> TagRef ''app'' ''v1''"
  by (simp_all add: RefName_def ManifestRef_def ManifestPrefix_def TagRef_def TagPrefix_def)

lemma art_db:
  "rd_Encode (ie_D (art_env reject)) n art_root_key = Inr ''x''" "rd_ValidateName (ie_D (art_env reject)) = reject"
  "rd_PrepareRef (ie_D (art_env reject)) s k = None"
  "rd_Put (ie_D (art_env reject)) s n raw = Inr (AList.update n raw s)"
  "rd_Delete (ie_D (art_env reject)) s n = Inr (if map_of s n = None then None else Some (AList.delete n s))"
proof -
  have "pos_of art_root_key [demo_root, art_root_key] = Some 1"
    by (simp add: demo_root_def art_root_key_def dir_fentry_def)
  then show "rd_Encode (ie_D (art_env reject)) n art_root_key = Inr ''x''"
    by (simp add: art_env_def key_refs_def)
qed (simp_all add: art_env_def key_refs_def mem_refs_def)

lemma art_put_ok:
  "image_Put (art_env (\<lambda>_. None)) art_io art_before art_before ''app'' ''v1'' '''' ''B'' = (Inr art_meta, art_after)"
  unfolding art_put using art_refs
  by (simp add: publish_refs_def Publish_def art_db art_before_def art_after_def)

theorem push_then_open_witness:
  "\<exists>im. image_Open (art_env (\<lambda>_. None)) (bs_refs art_after) ''app'' ''v1'' = Inr im \<and> img_Meta im = art_meta
     \<and> image_WriteTo (art_env (\<lambda>_. None)) (\<lambda>_. None) im = Some (''B'', None)"
proof -
  from push_then_open [OF art_env_ok art_put_ok] obtain im where
    "image_Open (art_env (\<lambda>_. None)) (bs_refs art_after) ''app'' ''v1'' = Inr im" "img_Meta im = art_meta"
    "\<forall>ctx. (\<forall>i. ctx i = None) \<longrightarrow> image_WriteTo (art_env (\<lambda>_. None)) ctx im = Some (''B'', None)" by metis
  then show ?thesis by auto
qed

theorem push_is_closed_witness:
  "\<exists>k. Resolve (ie_D (art_env (\<lambda>_. None))) (bs_refs art_before) (RefName art_digest) = Inr k"
proof -
  from push_is_closed [OF art_env_ok art_put_ok] obtain m where
    "ParseManifest (ie_unmarshal (art_env (\<lambda>_. None))) ''B'' = Inr m"
    and d: "\<forall>d \<in> set (BlobDescriptors m).
      \<exists>k. Resolve (ie_D (art_env (\<lambda>_. None))) (bs_refs art_before) (RefName (d_Digest d)) = Inr k" by blast
  then have "m = art_manifest" by (simp add: ParseManifest_def art_env_def split: if_splits option.splits)
  with d show ?thesis by (simp add: BlobDescriptors_def art_manifest_def opt_list_def IsIndex_def media_types)
qed

text \<open>A database that refuses the name of the tag.\<close>

definition no_tags :: "string \<Rightarrow> err option" where
  "no_tags n = (if n = TagRef ''app'' ''v1'' then Some (ErrOther ''reference name'') else None)"

definition art_half :: "(string \<times> bytes) list blob_store" where
  "art_half = \<lparr>bs_refs = [(RefName art_digest, ''''), (ManifestRef ''app'' art_digest, ''x'')], bs_recent = []\<rparr>"

lemma art_put_half:
  "image_Put (art_env no_tags) art_io art_before art_before ''app'' ''v1'' '''' ''B''
     = (Inl (ErrOther ''reference name''), art_half)"
  unfolding art_put using art_refs
  by (simp add: publish_refs_def Publish_def art_db art_before_def art_half_def no_tags_def)


theorem delete_by_digest_witness:
  "\<exists>s'. image_Delete (art_env (\<lambda>_. None)) (bs_refs art_after) ''app'' art_digest = (None, s')
     \<and> Resolve (ie_D (art_env (\<lambda>_. None))) s' (ManifestRef ''app'' art_digest) = Inl ErrStoreNotFound
     \<and> Resolve (ie_D (art_env (\<lambda>_. None))) s' (TagRef ''app'' ''v1'') = Inl ErrStoreNotFound
     \<and> Resolve (ie_D (art_env (\<lambda>_. None))) s' (RefName art_digest) = Inr demo_root"
proof -
  let ?E = "art_env (\<lambda>_. None)" and ?s = "bs_refs art_after"
  have db: "refdb_ok (ie_D ?E) map_of" by (rule image_env_okD(1) [OF art_env_ok])
  have dg: "ParseDigest art_digest = Inr art_digest" by (simp add: art_digest_def)
  have rs: "Resolve (ie_D ?E) ?s n = (if n = RefName art_digest then Inr demo_root
      else if n = ManifestRef ''app'' art_digest \<or> n = TagRef ''app'' ''v1'' then Inr art_root_key else Inl ErrStoreNotFound)" for n
    using art_refs by (simp add: Resolve_ok [OF db] art_after_def) (simp add: art_env_def key_refs_def)
  have os: "ie_S ?E = mem_os" by (simp add: art_env_def demo_env_def)
  have meta: "image_readMeta ?E art_root_key = Inr art_meta"
    using pass_two_ok(1) [OF art_env_ok art_pass(3)] .
  let ?s1 = "[(RefName art_digest, ''''), (TagRef ''app'' ''v1'', ''x'')]"
  have f: "refFor ''app'' art_digest = Inr (ManifestRef ''app'' art_digest)" "IsDigest art_digest"
    using put_check_refFor(1) [OF art_check] IsDigest_if_ParseDigest [OF dg]
    by (simp_all add: art_env_def demo_env_def art_digest_def)
  have del: "DeleteRef (ie_D ?E) ?s (ManifestRef ''app'' art_digest) = (None, ?s1)"
    using art_refs by (simp add: DeleteRef_def art_db art_after_def)
  have "rd_All (ie_D ?E) ?s1 = Inr ?s1"
    using art_refs by (simp add: art_env_def key_refs_def mem_refs_def RefName_def TagRef_def TagPrefix_def)
  moreover have "\<not> HasPrefix (RefName art_digest) (TagPrefix @ ''app'' @ '':'')" "HasPrefix (TagRef ''app'' ''v1'') (TagPrefix @ ''app'' @ '':'')"
    by (simp_all add: RefName_def TagRef_def TagPrefix_def)
  moreover have "decodeRef (ie_D ?E) ''x'' = Inr art_root_key" by (simp add: decodeRef_def art_env_def key_refs_def)
  ultimately have ls: "ListRefs (ie_D ?E) ?s1 (TagPrefix @ ''app'' @ '':'') = Inr [(TagRef ''app'' ''v1'', art_root_key)]"
    by (simp add: ListRefs_def)
  have "delete_tags ?E ?s1 art_root_key art_meta [(TagRef ''app'' ''v1'', art_root_key)] = (None, [(RefName art_digest, '''')])"
    using art_refs by (simp add: drop_ref_def DeleteRef_def art_db)
  then have "image_Delete ?E ?s ''app'' art_digest = (None, [(RefName art_digest, '''')])"
    using f del ls rs art_refs meta
    by (simp add: image_Delete_def del: decode_all.simps) (simp add: art_meta_def)
  then obtain s' where s': "image_Delete ?E ?s ''app'' art_digest = (None, s')" by blast
  from delete_by_digest [OF db s' dg] obtain root m where
    r: "Resolve (ie_D ?E) ?s (ManifestRef ''app'' art_digest) = Inr root" "image_readMeta ?E root = Inr m"
    and n: "\<And>n. Resolve (ie_D ?E) s' n =
         (if n = ManifestRef ''app'' art_digest
             \<or> HasPrefix n (TagRef ''app'' '''') \<and> (\<exists>k. Resolve (ie_D ?E) ?s n = Inr k
                 \<and> (k = root \<or> (\<exists>tm. image_readMeta ?E k = Inr tm \<and> im_Digest tm = im_Digest m)))
             \<or> (\<exists>sd. im_Subject m = Some sd \<and> n = ReferrerRef ''app'' (d_Digest sd) (im_Digest m))
          then Inl ErrStoreNotFound else Resolve (ie_D ?E) ?s n)" by blast
  have "root = art_root_key" "m = art_meta" using r rs art_refs meta by auto
  moreover have "im_Subject art_meta = None" "\<not> HasPrefix (RefName art_digest) (TagRef ''app'' '''')"
    by (simp_all add: art_meta_def RefName_def TagRef_def TagPrefix_def)
  ultimately show ?thesis using s' n rs art_refs TagRef_prefix [of "''app''" "''v1''"] by auto
qed

end
