(* ===== verification/Registry_Props.thy ===== *)
theory Registry_Props
  imports Registry_Parse Image_Props
begin

text \<open>
  What a client of the registry can rely on: the status of an answer says what happened to the store,
  a body that was uploaded is the one that is served, reading changes nothing, and what is served as
  complete has the digest that was asked for.
\<close>

section \<open>Statuses\<close>

definition sent :: "writer \<Rightarrow> nat option" where
  "sent w = map_option fst (w_Sent w)"

lemma sent_simps [simp]:
  "sent new_writer = None"
  "sent (Set w k v) = sent w" "sent (Del w ks) = sent w"
  "sent (WriteHeader w c) = (case sent w of None \<Rightarrow> Some c | Some x \<Rightarrow> Some x)"
  "sent (write_body w p) = (case sent w of None \<Rightarrow> Some 200 | Some x \<Rightarrow> Some x)"
  by (simp_all add: sent_def new_writer_def Set_def Del_def WriteHeader_def write_body_def Let_def split: option.split)

lemma w_Body_simps [simp]:
  "w_Body new_writer = []" "w_Body (Set w k v) = w_Body w" "w_Body (Del w ks) = w_Body w"
  "w_Body (WriteHeader w c) = w_Body w" "w_Body (write_body w p) = w_Body w @ p"
  by (simp_all add: new_writer_def Set_def Del_def WriteHeader_def write_body_def Let_def split: option.split)

lemma sent_writeJSON: "sent w = None \<Longrightarrow> sent (writeJSON J w st v) = Some (if J v = None then 500 else st)"
  by (simp add: writeJSON_def Let_def split: option.split)

lemma DefaultStatus_range: "400 \<le> DefaultStatus c \<and> DefaultStatus c < 500"
  by (cases c) simp_all

lemma sent_errors:
  assumes "sent w = None"
  shows "sent (writeErrorStatus J w st c d) \<in> {Some st, Some 500}"
    "sent (writeError J w c d) \<in> {Some (DefaultStatus c), Some 500}"
    "sent (writeEmptyErrors J w st) \<in> {Some st, Some 500}"
  using sent_writeJSON [OF assms]
  by (simp_all add: writeErrorStatus_def writeError_def writeEmptyErrors_def)

lemma sent_writeError:
  assumes "sent w = None"
  shows "\<exists>st. sent (writeError J w c d) = Some st \<and> 400 \<le> st"
  using sent_errors(2) [OF assms, of J c d] DefaultStatus_range [of c] by auto

text \<open>An error answers with a status of 400 or more, or not at all when the request is gone.\<close>

lemma sent_handleError:
  assumes "sent w = None"
  shows "(sent (handleError J r w er) = None \<and> rq_ctxErr r \<noteq> None)
    \<or> (\<exists>st. sent (handleError J r w er) = Some st \<and> 400 \<le> st)"
  using sent_writeError [OF assms] sent_errors(3) [OF assms, of J 500] assms
  by (cases er) (auto simp: handleError_def)

lemma handleError_not_201: "sent w = None \<Longrightarrow> sent (handleError J r w er) \<noteq> Some 201"
  using sent_handleError [of w J r er] by auto

lemma writeError_not_201: "sent w = None \<Longrightarrow> sent (writeError J w c d) \<noteq> Some 201"
  using sent_writeError [of w J c d] by auto

section \<open>Uploads\<close>

lemma s_ID_session_write: "session_write s now p io = (n, er, s') \<Longrightarrow> s_ID s' = s_ID s"
  by (auto simp: session_write_def file_write_def spill_def touch_def Let_def
      split: if_splits option.splits prod.splits spill_io.splits)

lemma s_ID_copy_chunks: "copy_chunks s cs rerr = (er, s') \<Longrightarrow> s_ID s' = s_ID s"
proof (induction cs arbitrary: s)
  case (Cons c cs)
  obtain now p io where c: "c = (now, p, io)" by (cases c)
  obtain n e s1 where w: "session_write s now p io = (n, e, s1)" by (metis prod_cases3)
  from Cons w c s_ID_session_write [OF w] show ?case by (cases e) auto
qed simp

lemma s_ID_Append: "Append s t0 b t1 = (off, er, s') \<Longrightarrow> s_ID s' = s_ID s"
  by (auto simp: Append_def Let_def touch_def dest!: s_ID_copy_chunks split: if_splits prod.splits)

definition session_over :: "Manager \<Rightarrow> string \<Rightarrow> bool" where
  "session_over m sid = (case map_of (m_sessions m) sid of None \<Rightarrow> True | Some s \<Rightarrow> s_closed s)"

lemma session_close_closed: "s_closed (snd (session_close s fd rm))"
  by (simp add: session_close_def Let_def split: option.split)

lemma discardSession_over: "session_over (discardSession m io sid) sid"
proof (cases "map_of (m_sessions m) sid")
  case None
  then show ?thesis by (simp add: discardSession_def Remove_def close_forget_def session_over_def)
next
  case (Some s)
  obtain er s1 where c: "session_close s (ui_fd io) (ui_rm io) = (er, s1)" by fastforce
  then have "s_closed s1" using session_close_closed [of s "ui_fd io" "ui_rm io"] by simp
  then show ?thesis
    using Some c by (cases er) (simp_all add: discardSession_def Remove_def close_forget_def session_over_def set_session_def)
qed

lemma knownBlob_new:
  "blob_Open E (bs_refs st) want = Inl ErrBlobNotFound \<Longrightarrow> knownBlob E opts now st want = (Inr False, st)"
  by (simp add: knownBlob_def Reuse_def)

lemma session_Spool_ok:
  assumes "sess_inv s" "\<not> s_closed s"
  obtains sp s1 where "session_Spool sha s now = (Inr sp, s1)" "spool_Open sp (s_disk s1) = Inr (s_hashed s)"
    "sp_digest sp = DigestOfBytes sha (s_hashed s)" "sp_size sp = int (length (s_hashed s))"
proof -
  obtain sp s1 where sp: "session_Spool sha s now = (Inr sp, s1)"
    using assms(2) by (simp add: session_Spool_def Let_def touch_def)
  from that [OF sp] Spool_keeps [OF assms(1) sp, of s1 "[]"] show ?thesis by simp
qed

text \<open>What finalize does with an open session.\<close>

lemma finalize_ok:
  assumes ok: "blob_env_ok E tbl cont kids" and s: "sess_inv sess" "\<not> s_closed sess" and w: "sent w = None"
    and f: "finalize E opts J io sv r w name sess want mn = (w', sv')"
    and new: "blob_Open E (bs_refs (sv_blobs sv)) want = Inl ErrBlobNotFound"
  shows "(sent w' = Some 201 \<longrightarrow> DigestOfBytes (be_sha E) (s_hashed sess) = want
      \<and> (\<exists>b. blob_Open E (bs_refs (sv_blobs sv')) want = Inr b
            \<and> (snd (ui_read io) = None \<and> bm_Kind (bl_Meta b) = KindRaw \<longrightarrow> WriteTo E None b = (s_hashed sess, None)))
      \<and> (\<forall>n. n \<noteq> RefName want \<longrightarrow> Resolve (be_D E) (bs_refs (sv_blobs sv')) n = Resolve (be_D E) (bs_refs (sv_blobs sv)) n)
      \<and> session_over (sv_uploads sv') (s_ID sess))
    \<and> (sent w' \<noteq> Some 201 \<longrightarrow> sv_blobs sv' = sv_blobs sv)
    \<and> (DigestOfBytes (be_sha E) (s_hashed sess) \<noteq> want \<longrightarrow> sent w' \<in> {Some 400, Some 500} \<and> session_over (sv_uploads sv') (s_ID sess))"
proof -
  from session_Spool_ok [OF s] obtain sp s1 where sp: "session_Spool (be_sha E) sess (ui_now io) = (Inr sp, s1)"
    "spool_Open sp (s_disk s1) = Inr (s_hashed sess)" "sp_digest sp = DigestOfBytes (be_sha E) (s_hashed sess)"
    "sp_size sp = int (length (s_hashed sess))" by metis
  show ?thesis
  proof (cases "sp_digest sp = want")
    case False
    then have "w' = writeError J w CodeDigestInvalid (digest_mismatch want (sp_digest sp))"
      "sv_blobs sv' = sv_blobs sv" "session_over (sv_uploads sv') (s_ID sess)"
      using f sp(1) discardSession_over by (auto simp: finalize_def Let_def)
    then show ?thesis using False sp(3) sent_errors(2) [OF w, of J CodeDigestInvalid] writeError_not_201 [OF w] by auto
  next
    case True
    obtain res bs' rm where put: "Put E opts (fin_of io sp (s_disk s1)) (ui_slot io) (sv_blobs sv) (Some sp) = (res, bs', rm)"
      by (metis prod_cases3)
    note eff = Put_effects [OF ok put]
    show ?thesis
    proof (cases res)
      case (Inl er)
      then have "w' = handleError J r w er" "sv_blobs sv' = sv_blobs sv"
        using f sp(1) True put eff by (auto simp: finalize_def Let_def split: if_splits)
      then show ?thesis using handleError_not_201 [OF w] True sp(3) by auto
    next
      case (Inr meta)
      have fin: "w' = writeBlobCreated w name (bm_Digest meta)" "sv_blobs sv' = bs'" "session_over (sv_uploads sv') (s_ID sess)"
        using f sp(1) True put Inr discardSession_over by (auto simp: finalize_def Let_def)
      from eff Inr True obtain b where b: "blob_Open E (bs_refs bs') want = Inr b"
        "bl_Meta b = meta\<lparr>bm_Stats := bm_Stats (bl_Meta b)\<rparr>" by auto
      have k: "bm_Kind (bl_Meta b) = bm_Kind meta" using arg_cong [OF b(2), of bm_Kind] by simp
      have "WriteTo E None b = (s_hashed sess, None)" if c: "snd (ui_read io) = None" "bm_Kind (bl_Meta b) = KindRaw"
      proof -
        have "io_rawOpen (fin_of io sp (s_disk s1)) = Inr (s_hashed sess, None)"
          using sp(2) c(1) by (simp add: fin_of_def spool_stream_def)
        from Put_pull [OF ok put [unfolded Inr] _ this sp(3,4)] show ?thesis using new True b(1) k c by auto
      qed
      moreover have "sent w' = Some 201" using fin(1) w by (simp add: writeBlobCreated_def)
      ultimately show ?thesis using fin b(1) eff Inr True sp(3) by auto
    qed
  qed
qed

lemma serveBlob_raw:
  assumes "blob_Open E s d = Inr b" "WriteTo E None b = (bytes, None)" "HeaderGet r ''Range'' = ''''"
  shows "\<exists>w. serveBlob E J None s r new_writer d True = Some (Answered w) \<and> sent w = Some 200 \<and> w_Body w = bytes"
proof -
  have "parseRange '''' sz = FullBody" for sz by (simp add: parseRange_def CutPrefix_def)
  with assms show ?thesis
    by (auto simp: serveBlob_def Let_def serve_stream_def body_sent_def)
qed


section \<open>Serving\<close>

lemma WriteTo_verified:
  assumes "blob_Open E s d = Inr b" "WriteTo E ctx b = (out, None)"
  shows "DigestOfBytes (be_sha E) out = d"
proof -
  have "bm_Digest (bl_Meta b) = d" using assms(1) by (auto simp: blob_Open_def split: sum.splits if_splits)
  then show ?thesis using assms(2) by (auto simp: WriteTo_def split: prod.splits option.splits if_splits)
qed

lemma serve_stream_200:
  assumes "serve_stream J r w st dels onErr (out, er) = Answered w'" "sent w' = Some 200" "sent w = None" "w_Body w = []"
    and "\<And>w e. sent w = None \<Longrightarrow> sent (onErr w e) \<noteq> Some 200"
  shows "w_Body w' = out \<and> st = 200 \<and> (er = None \<or> (\<exists>e. er = Some e \<and> isClientGone r e))"
proof (cases er)
  case None
  then show ?thesis using assms by (auto simp: serve_stream_def body_sent_def split: if_splits)
next
  case (Some e)
  then show ?thesis
    using assms by (cases "out = []") (auto simp: serve_stream_def body_sent_def split: if_splits)
qed

lemma handleError_not_200: "sent w = None \<Longrightarrow> sent (handleError J r w er) \<noteq> Some 200"
  using sent_handleError [of w J r er] by auto

lemma serveBlob_200:
  assumes "serveBlob E J ctx s r new_writer d True = Some (Answered w)" "sent w = Some 200"
  shows "\<exists>b er. blob_Open E s d = Inr b \<and> WriteTo E ctx b = (w_Body w, er)
    \<and> (er = None \<or> (\<exists>e. er = Some e \<and> isClientGone r e))"
proof (cases "blob_Open E s d")
  case (Inl er)
  then show ?thesis using assms handleError_not_200 [of new_writer J r er] by (simp add: serveBlob_def)
next
  case (Inr b)
  let ?sz = "bm_Size (bl_Meta b)"
  let ?rng = "if SupportsRange b then parseRange (HeaderGet r ''Range'') ?sz else FullBody"
  let ?w1 = "Set (Set (Set new_writer ''Content-Type'' ''application/octet-stream'') ''Docker-Content-Digest'' d)
    ''Content-Length'' (FormatInt ?sz)"
  let ?w2 = "if SupportsRange b then Set ?w1 ''Accept-Ranges'' ''bytes'' else ?w1"
  let ?dels = "[''Content-Length'', ''Content-Range'', ''Docker-Content-Digest'', ''Accept-Ranges'']"
  have w2: "sent ?w2 = None" "w_Body ?w2 = []" by simp_all
  obtain out er where wt: "WriteTo E ctx b = (out, er)" by fastforce
  show ?thesis
  proof (cases ?rng)
    case FullBody
    have "serveBlob E J ctx s r new_writer d True = Some (serve_stream J r ?w2 200 ?dels (handleError J r) (out, er))"
      unfolding serveBlob_def Inr sum.case Let_def unfolding FullBody wt by simp
    with assms(1) have s: "serve_stream J r ?w2 200 ?dels (handleError J r) (out, er) = Answered w" by simp
    from serve_stream_200 [OF s assms(2) w2 handleError_not_200] show ?thesis using Inr wt by blast
  next
    case Unsatisfiable
    have "sent w = Some 416" using assms(1) unfolding serveBlob_def Inr sum.case Let_def unfolding Unsatisfiable by auto
    with assms(2) show ?thesis by simp
  next
    case (ByteRange a c)
    let ?w3 = "Set (Set ?w2 ''Content-Range'' (content_range a c ?sz)) ''Content-Length'' (FormatInt (c - a + 1))"
    from assms(1) obtain out' er' where wr: "WriteRange E b a c = Some (out', er')"
      unfolding serveBlob_def Inr sum.case Let_def unfolding ByteRange by (auto split: option.splits)
    have "serveBlob E J ctx s r new_writer d True =
        Some (serve_stream J r ?w3 206 ?dels (handleError J r) (out', map_option rd_error er'))"
      unfolding serveBlob_def Inr sum.case Let_def unfolding ByteRange using wr by simp
    with assms(1) have s: "serve_stream J r ?w3 206 ?dels (handleError J r) (out', map_option rd_error er') = Answered w"
      by simp
    have w3: "sent ?w3 = None" "w_Body ?w3 = []" by simp_all
    from serve_stream_200 [OF s assms(2) w3 handleError_not_200] show ?thesis by simp
  qed
qed

lemma serveManifest_200:
  assumes "serveManifest E J ctx s r new_writer name ref True = Some (Answered w)" "sent w = Some 200"
  shows "\<exists>im er. image_Open E s name ref = Inr im \<and> image_WriteTo E ctx im = Some (w_Body w, er)
    \<and> (er = None \<or> (\<exists>e. er = Some e \<and> isClientGone r e))"
proof (cases "image_Open E s name ref")
  case (Inl er)
  then show ?thesis using assms handleError_not_200 [of new_writer J r er] by (simp add: serveManifest_def)
next
  case (Inr im)
  with assms(1) obtain out er where wt: "image_WriteTo E ctx im = Some (out, er)"
    by (auto simp: serveManifest_def Let_def split: option.splits)
  let ?m = "img_Meta im"
  let ?w1 = "Set (Set (Set new_writer ''Content-Type'' (im_MediaType ?m)) ''Content-Length'' (FormatInt (im_Size ?m)))
    ''Docker-Content-Digest'' (im_Digest ?m)"
  have "serveManifest E J ctx s r new_writer name ref True =
      Some (serve_stream J r ?w1 200 [''Content-Type'', ''Content-Length'', ''Docker-Content-Digest''] (handleError J r) (out, er))"
    unfolding serveManifest_def Inr sum.case Let_def unfolding wt by simp
  with assms(1) have s: "serve_stream J r ?w1 200 [''Content-Type'', ''Content-Length'', ''Docker-Content-Digest'']
      (handleError J r) (out, er) = Answered w" by simp
  have w1: "sent ?w1 = None" "w_Body ?w1 = []" by simp_all
  from serve_stream_200 [OF s assms(2) w1 handleError_not_200] show ?thesis using Inr wt by blast
qed

lemma image_WriteTo_verified:
  "image_WriteTo E ctx im = Some (out, None) \<Longrightarrow> DigestOfBytes (be_sha (ie_E E)) out = im_Digest (img_Meta im)"
  by (auto simp: image_WriteTo_def split: option.splits prod.splits if_splits)

text \<open>
  (C14) What is served as complete has the digest it was asked for: a GET of a blob that is answered
  with status 200 has a body that hashes to the digest in the path, a GET of a manifest one that hashes
  to the digest in its Docker-Content-Digest header, unless the stream ended with an error that is read
  as the client going away.
\<close>

theorem served_is_verified:
  assumes "sent w = Some 200"
  shows "(serveBlob E J ctx s r new_writer d True = Some (Answered w) \<longrightarrow>
      DigestOfBytes (be_sha E) (w_Body w) = d
      \<or> (\<exists>b er. blob_Open E s d = Inr b \<and> WriteTo E ctx b = (w_Body w, Some er) \<and> isClientGone r er))
    \<and> (serveManifest I J ictx s' r new_writer name ref True = Some (Answered w) \<longrightarrow>
      (\<exists>im. image_Open I s' name ref = Inr im
         \<and> (DigestOfBytes (be_sha (ie_E I)) (w_Body w) = im_Digest (img_Meta im)
            \<or> (\<exists>er. image_WriteTo I ictx im = Some (w_Body w, Some er) \<and> isClientGone r er))))"
proof (intro conjI impI)
  assume b: "serveBlob E J ctx s r new_writer d True = Some (Answered w)"
  from serveBlob_200 [OF b assms] obtain b er where o: "blob_Open E s d = Inr b" "WriteTo E ctx b = (w_Body w, er)"
    "er = None \<or> (\<exists>e. er = Some e \<and> isClientGone r e)" by blast
  from o(3) show "DigestOfBytes (be_sha E) (w_Body w) = d
      \<or> (\<exists>b er. blob_Open E s d = Inr b \<and> WriteTo E ctx b = (w_Body w, Some er) \<and> isClientGone r er)"
    using WriteTo_verified [OF o(1)] o(1,2) by auto
next
  assume m: "serveManifest I J ictx s' r new_writer name ref True = Some (Answered w)"
  from serveManifest_200 [OF m assms] obtain im er where o: "image_Open I s' name ref = Inr im"
    "image_WriteTo I ictx im = Some (w_Body w, er)" "er = None \<or> (\<exists>e. er = Some e \<and> isClientGone r e)" by blast
  from o(3) show "\<exists>im. image_Open I s' name ref = Inr im
         \<and> (DigestOfBytes (be_sha (ie_E I)) (w_Body w) = im_Digest (img_Meta im)
            \<or> (\<exists>er. image_WriteTo I ictx im = Some (w_Body w, Some er) \<and> isClientGone r er))"
    using image_WriteTo_verified o(1,2) by auto
qed

section \<open>Reading changes nothing\<close>


text \<open>
  (C25) A directory served as a tar can end too early without the client being told: the body has no
  Content-Length, and when the export fails after the first byte with an error that reads like the
  client going away, such as an unexpected end of a stored object, the handler answers normally with
  status 200 although the request is still there, where its comment says that such a failure aborts
  the connection.
\<close>

theorem truncated_tar_looks_complete:
  assumes "fv_tarexport F k = (part, Some ErrUnexpectedEOF)" "part \<noteq> []" "IsDir dir" "en_Content dir = Some k"
    and "rq_Method r = ''GET''" "rq_ctxErr r = None"
  shows "\<exists>w. serveTar F J r new_writer dir = Answered w \<and> w_Sent w = Some (200, [(''Content-Type'', ''application/x-tar'')])
    \<and> w_Body w = part"
  using assms
  by (auto simp: serveTar_def WriteTarDir_def serve_stream_def isClientGone_def body_sent_def Set_def new_writer_def
      WriteHeader_def write_body_def Let_def)

section \<open>A registry in memory\<close>

definition demo_json :: "json \<Rightarrow> bytes option" where
  "demo_json v = Some ''{}''"

definition demo_fs :: "okey fs_env" where
  "demo_fs = \<lparr>fv_ListDir = (\<lambda>_ _ _. Inr ([], False)), fv_tarexport = (\<lambda>_. (''part'', Some ErrUnexpectedEOF)),
     fv_keyString = (\<lambda>_. ''k''), fv_formatTime = (\<lambda>_. ''t''), fv_reason = (\<lambda>_. ''r'')\<rparr>"

definition up_session :: Session where
  "up_session = (newSession ''a1'' ''/up/a1'' 4 0)\<lparr>s_buf := ''{}'', s_hashed := ''{}'', s_size := 2\<rparr>"

definition demo_up_io :: up_io where
  "demo_up_io = \<lparr>ui_now = 5, ui_newID = Inr ''b2'', ui_body = ([], None), ui_fd = None, ui_rm = None,
     ui_read = (None, None), ui_slot = None, ui_fin = fin_demo\<rparr>"

definition demo_server :: "(string \<times> bytes) list server" where
  "demo_server = \<lparr>sv_blobs = demo_before, sv_uploads = \<lparr>m_dir = ''/up'', m_maxInMemory = 4, m_timeout = 10,
     m_sessions = [(''a1'', up_session)], m_closed = False\<rparr>\<rparr>"

definition demo_request :: "string \<Rightarrow> string \<Rightarrow> request" where
  "demo_request meth path = \<lparr>rq_Method = meth, rq_Path = path, rq_EscapedPath = path,
     rq_Query = [(''digest'', [sp_digest demo_spool])], rq_Header = [], rq_ContentLength = 0, rq_ctxErr = None\<rparr>"

lemma demo_digest_query: "ParseDigest (QueryGet (demo_request m p) ''digest'') = Inr (sp_digest demo_spool)"
  by (simp add: demo_request_def QueryGet_def demo_spool_def NewMemorySpool_def)

lemma demo_new: "blob_Open demo_env (bs_refs demo_before) (sp_digest demo_spool) = Inl ErrBlobNotFound"
  by (simp add: demo_before_def blob_Open_def Resolve_def demo_env_def key_refs_def mem_refs_def)

text \<open>The PUT that ends the session answers 201 and stores the blob raw.\<close>

lemma demo_upload:
  "\<exists>w' sv'. putUpload demo_env demo_opts demo_json demo_up_io demo_server (demo_request ''PUT'' '''') new_writer ''app'' ''a1''
       = (w', sv') \<and> sent w' = Some 201
     \<and> (\<forall>b. blob_Open demo_env (bs_refs (sv_blobs sv')) (sp_digest demo_spool) = Inr b \<longrightarrow> bm_Kind (bl_Meta b) = KindRaw)"
proof -
  let ?s1 = "touch up_session 5"
  have tt: "touch ?s1 5 = ?s1" by (simp add: touch_def)
  from demo_put obtain st' where p: "Put demo_env demo_opts fin_demo None demo_before (Some demo_spool) = (Inr demo_meta, st', True)" ..
  have ap: "Append ?s1 5 ([], None) 5 = (2, None, ?s1)"
    by (simp add: Append_def up_session_def newSession_def touch_def)
  have sp: "session_Spool (be_sha demo_env) ?s1 5 = (Inr demo_spool, ?s1)"
    by (simp add: demo_env_def) (simp add: session_Spool_def up_session_def newSession_def touch_def demo_spool_def NewMemorySpool_def)
  have fin: "fin_of demo_up_io demo_spool (s_disk ?s1) = fin_demo"
    by (simp add: fin_of_def demo_up_io_def spool_stream_def spool_Open_def demo_spool_def NewMemorySpool_def fin_demo_def)
  have q: "QueryGet (demo_request ''PUT'' '''') ''digest'' \<noteq> ''''"
    using demo_digest_query [of "''PUT''" "''''"] by (auto simp: ParseDigest_Inr_iff)
  have io: "ui_now demo_up_io = 5" "ui_body demo_up_io = ([], None)" "ui_slot demo_up_io = None" by (simp_all add: demo_up_io_def)
  have sid: "s_ID ?s1 = ''a1''" by (simp add: up_session_def newSession_def touch_def)
  obtain w' sv' where u: "putUpload demo_env demo_opts demo_json demo_up_io demo_server (demo_request ''PUT'' '''') new_writer ''app'' ''a1'' = (w', sv')"
    by fastforce
  have res: "w' = writeBlobCreated new_writer ''app'' (bm_Digest demo_meta) \<and> sv_blobs sv' = st'"
    using u q demo_digest_query knownBlob_new [OF demo_new] ap sp fin p sid
    by (simp add: putUpload_def demo_server_def Get_def append_to_def Let_def finalize_def io) auto
  have "bm_Kind (bl_Meta b) = KindRaw" if "blob_Open demo_env (bs_refs st') (sp_digest demo_spool) = Inr b" for b
  proof -
    have "bl_Meta b = demo_meta\<lparr>bm_Stats := bm_Stats (bl_Meta b)\<rparr>" using Put_effects [OF demo_env_ok p] that by auto
    from arg_cong [OF this, of bm_Kind] show ?thesis by (simp add: demo_meta_def new_meta_def)
  qed
  with u res show ?thesis by (auto simp: writeBlobCreated_def)
qed

lemma up_session_ok: "sess_inv up_session" "\<not> s_closed up_session" "s_ID up_session = ''a1''"
  "map_of (m_sessions (sv_uploads demo_server)) ''a1'' = Some up_session"
  by (simp_all add: sess_inv_def up_session_def newSession_def demo_server_def)

lemma demo_server_new: "blob_Open demo_env (bs_refs (sv_blobs demo_server)) (sp_digest demo_spool) = Inl ErrBlobNotFound"
  using demo_new by (simp add: demo_server_def)


theorem served_is_verified_witness:
  "\<exists>st' w. Put demo_env demo_opts fin_demo None demo_before (Some demo_spool) = (Inr demo_meta, st', True)
     \<and> serveBlob demo_env demo_json None (bs_refs st') (demo_request ''GET'' '''') new_writer (sp_digest demo_spool) True
         = Some (Answered w) \<and> sent w = Some 200
     \<and> DigestOfBytes (be_sha demo_env) (w_Body w) = sp_digest demo_spool"
proof -
  let ?d = "sp_digest demo_spool" and ?r = "demo_request ''GET'' ''''"
  from demo_put obtain st' where p: "Put demo_env demo_opts fin_demo None demo_before (Some demo_spool) = (Inr demo_meta, st', True)" ..
  have io: "io_rawOpen fin_demo = Inr (''{}'', None)" "?d = DigestOfBytes (be_sha demo_env) ''{}''"
    "sp_size demo_spool = int (length ''{}'')" "bm_Kind demo_meta = KindRaw" "HeaderGet ?r ''Range'' = ''''"
    by (simp_all add: fin_demo_def demo_spool_def NewMemorySpool_def demo_env_def demo_meta_def new_meta_def HeaderGet_def demo_request_def)
  from Put_pull [OF demo_env_ok p demo_new io(1-3)] io(4) obtain b where
    b: "blob_Open demo_env (bs_refs st') ?d = Inr b" "WriteTo demo_env None b = (''{}'', None)" by blast
  from serveBlob_raw [OF b io(5), of demo_json] obtain w where
    w: "serveBlob demo_env demo_json None (bs_refs st') ?r new_writer ?d True = Some (Answered w)" "sent w = Some 200" by blast
  from served_is_verified [OF w(2), THEN conjunct1, THEN mp, OF w(1)] have "DigestOfBytes (be_sha demo_env) (w_Body w) = ?d
      \<or> (\<exists>b er. blob_Open demo_env (bs_refs st') ?d = Inr b \<and> WriteTo demo_env None b = (w_Body w, Some er) \<and> isClientGone ?r er)" .
  with b have "DigestOfBytes (be_sha demo_env) (w_Body w) = ?d" by auto
  with p w show ?thesis by blast
qed

definition demo_req_io :: req_io where
  "demo_req_io = \<lparr>ri_ctx = None, ri_up = demo_up_io, ri_image = art_io, ri_body = ('''', None)\<rparr>"


theorem truncated_tar_looks_complete_witness:
  "\<exists>w. serveTar demo_fs demo_json (demo_request ''GET'' ''/fs/app:v1/'') new_writer (rootEntry (ODir [])) = Answered w
     \<and> w_Sent w = Some (200, [(''Content-Type'', ''application/x-tar'')]) \<and> w_Body w = ''part''"
proof -
  have "IsDir (rootEntry (ODir []))" by code_simp
  then show ?thesis
    by (intro truncated_tar_looks_complete [of demo_fs "ODir []"])
       (simp_all add: demo_fs_def rootEntry_def demo_request_def)
qed

end
