(* ===== verification/Docker_Archive.thy ===== *)
theory Docker_Archive
  imports Oci
begin

text \<open>
  Docker archives, reading side (src/dockerarchive/names.go and archive.go): the names an image is
  published under, the scan of the archive's headers, and reading and verifying blobs in place.
  \<open>da_json\<close> is encoding/json as the package uses it, \<open>tar_item\<close> is what one Next of archive/tar
  gives: the header, what reading the entry would deliver, and the offset Seek reports then.
\<close>

datatype da_err =
    ErrNameEmpty | ErrNameDigest | ErrNameEmptyTag | ErrNameRepo err | ErrNameTag err
  | ErrNoIndex | ErrBlobMissing digest
  | ErrTar err | ErrTopTooLarge string | ErrTopRead string err | ErrSeek string err
  | ErrIndexParse err | ErrNotIndex | ErrLegacyParse | ErrLayoutParse
  | ErrBlobTooLarge digest | ErrBlobRead digest err | ErrBlobMismatch digest | ErrCtx err
  | ErrEntryMissing nat digest | ErrManifest digest err | ErrMissingBlobs digest "digest list"
  | ErrNoChild digest | ErrPruneBody | ErrPruneManifests | ErrPruneShort | ErrPruneDesc | ErrPruneEncode
  | ErrReparse digest err
  | ErrOverrideCount nat | ErrConfigPath string | ErrConfigUnused digest
  | ErrSharedConfig digest nat | ErrNoRepoTags digest nat | ErrPresent digest err

section \<open>Names\<close>

record Name =
  nm_Repo :: string
  nm_Tag :: string

definition Name_String :: "Name \<Rightarrow> string" where
  "Name_String n = nm_Repo n @ '':'' @ nm_Tag n"

definition splitTag :: "string \<Rightarrow> string \<times> string" where
  "splitTag s =
     (case LastIndexByte s CHR '':'' of
        None \<Rightarrow> (s, '''')
      | Some i \<Rightarrow> if IndexByte (drop i s) CHR ''/'' \<noteq> None then (s, '''') else (take i s, drop (Suc i) s))"

definition ParseName :: "string \<Rightarrow> da_err + Name" where
  "ParseName s =
     (if s = '''' then Inl ErrNameEmpty
      else if ContainsByte s CHR ''@'' then Inl ErrNameDigest
      else let (repo, tag) = splitTag s in
        if tag = '''' \<and> HasSuffix s '':'' then Inl ErrNameEmptyTag
        else let tag = (if tag = '''' then ''latest'' else tag) in
          case ValidateRepository repo of
            Some e \<Rightarrow> Inl (ErrNameRepo e)
          | None \<Rightarrow>
              (case ValidateTag tag of
                 Some e \<Rightarrow> Inl (ErrNameTag e)
               | None \<Rightarrow> Inr \<lparr>nm_Repo = repo, nm_Tag = tag\<rparr>))"

definition isHost :: "string \<Rightarrow> bool" where
  "isHost c \<longleftrightarrow> c = ''localhost'' \<or> ContainsByte c CHR ''.'' \<or> ContainsByte c CHR '':''"

text \<open>\<open>Inr None\<close> is the digest reference, for which ok is false.\<close>

definition nameFromRepoTag :: "string \<Rightarrow> da_err + Name option" where
  "nameFromRepoTag s =
     (if ContainsByte s CHR ''@'' then Inr None
      else let s = (case Cut s CHR ''/'' of
                      Some (first, rest) \<Rightarrow> if isHost first then rest else s
                    | None \<Rightarrow> s);
               (repo, tag) = splitTag s;
               tag = (if tag = '''' then ''latest'' else tag)
           in case ValidateRepository repo of
                Some e \<Rightarrow> Inl (ErrNameRepo e)
              | None \<Rightarrow>
                  (case ValidateTag tag of
                     Some e \<Rightarrow> Inl (ErrNameTag e)
                   | None \<Rightarrow> Inr (Some \<lparr>nm_Repo = repo, nm_Tag = tag\<rparr>)))"

section \<open>The archive file\<close>

definition IndexFile :: string where "IndexFile = ''index.json''"
definition ManifestFile :: string where "ManifestFile = ''manifest.json''"
definition LayoutFile :: string where "LayoutFile = ''oci-layout''"
definition blobPrefix :: string where "blobPrefix = ''blobs/sha256/''"
definition maxTopFile :: nat where "maxTopFile = 16 * 1024 * 1024"
definition maxSmallBlob :: nat where "maxSmallBlob = 64 * 1024 * 1024"

record LegacyEntry =
  le_Config :: string
  le_RepoTags :: "string list"
  le_Layers :: "string list"

record da_json =
  dj_manifest :: "bytes \<Rightarrow> Manifest option"
  dj_legacy :: "bytes \<Rightarrow> LegacyEntry list option"
  dj_layout :: "bytes \<Rightarrow> string option"
  dj_map :: "bytes \<Rightarrow> bytes gomap option"
  dj_list :: "bytes \<Rightarrow> bytes list option"
  dj_digest :: "digest \<Rightarrow> bytes"
  dj_size :: "int \<Rightarrow> bytes"
  dj_enc_map :: "bytes gomap \<Rightarrow> bytes option"
  dj_enc_list :: "bytes list \<Rightarrow> bytes option"

text \<open>
  An open file: its bytes, and where reading it starts to fail. ReadAt of \<open>os.File\<close> fills the whole
  buffer unless the file ends or reading fails; a short read always comes with the reason.
\<close>

record da_file =
  fi_bytes :: bytes
  fi_bad :: "(nat \<times> err) option"

datatype read_end = REOF | RFail err

definition ReadAt :: "da_file \<Rightarrow> nat \<Rightarrow> nat \<Rightarrow> bytes \<times> read_end option" where
  "ReadAt f off n =
     (let avail = take n (drop off (fi_bytes f));
          short = (avail, if length avail < n then Some REOF else None)
      in case fi_bad f of
           Some (b, e) \<Rightarrow>
             if avail \<noteq> [] \<and> b < off + length avail then (take (b - off) avail, Some (RFail e)) else short
         | None \<Rightarrow> short)"

record Archive =
  ar_f :: da_file
  ar_blobs :: "(digest \<times> nat \<times> nat) list"
  ar_Index :: Manifest
  ar_Legacy :: "LegacyEntry list"
  ar_LayoutVersion :: string

record tar_item =
  ti_Typeflag :: char
  ti_Name :: string
  ti_Size :: nat
  ti_content :: "bytes \<times> err option"
  ti_seek :: "nat res"

definition readTop :: "tar_item \<Rightarrow> string \<Rightarrow> da_err + bytes" where
  "readTop h name =
     (if ti_Size h > maxTopFile then Inl (ErrTopTooLarge name)
      else case ti_content h of
        (b, None) \<Rightarrow> Inr b
      | (b, Some e) \<Rightarrow> Inl (ErrTopRead name e))"

text \<open>The variables of scan's loop: the three top-level files, nil until read, and the blob table.\<close>

record scan_state =
  sc_index :: "bytes option"
  sc_legacy :: "bytes option"
  sc_layout :: "bytes option"
  sc_blobs :: "(digest \<times> nat \<times> nat) list"

definition scan_item :: "tar_item \<Rightarrow> scan_state \<Rightarrow> da_err + scan_state" where
  "scan_item h s =
     (if ti_Typeflag h \<noteq> CHR ''0'' then Inr s
      else let name = TrimPrefix (ti_Name h) ''./'' in
        if name = IndexFile then
          (case readTop h name of Inl e \<Rightarrow> Inl e | Inr b \<Rightarrow> Inr (s\<lparr>sc_index := Some b\<rparr>))
        else if name = ManifestFile then
          (case readTop h name of Inl e \<Rightarrow> Inl e | Inr b \<Rightarrow> Inr (s\<lparr>sc_legacy := Some b\<rparr>))
        else if name = LayoutFile then
          (case readTop h name of Inl e \<Rightarrow> Inl e | Inr b \<Rightarrow> Inr (s\<lparr>sc_layout := Some b\<rparr>))
        else if HasPrefix name blobPrefix then
          (case ParseDigest (''sha256:'' @ drop (length blobPrefix) name) of
             Inl _ \<Rightarrow> Inr s
           | Inr d \<Rightarrow>
               (case ti_seek h of
                  Inl e \<Rightarrow> Inl (ErrSeek name e)
                | Inr off \<Rightarrow> Inr (s\<lparr>sc_blobs := AList.update d (off, ti_Size h) (sc_blobs s)\<rparr>)))
        else Inr s)"

text \<open>\<open>fin\<close> is what Next returns after the last header, \<open>None\<close> for EOF.\<close>

fun scan_loop :: "tar_item list \<Rightarrow> err option \<Rightarrow> scan_state \<Rightarrow> da_err + scan_state" where
  "scan_loop [] fin s = (case fin of None \<Rightarrow> Inr s | Some e \<Rightarrow> Inl (ErrTar e))"
| "scan_loop (h # hs) fin s = (case scan_item h s of Inl e \<Rightarrow> Inl e | Inr s' \<Rightarrow> scan_loop hs fin s')"

definition scan_start :: scan_state where
  "scan_start = \<lparr>sc_index = None, sc_legacy = None, sc_layout = None, sc_blobs = []\<rparr>"

definition scan :: "da_json \<Rightarrow> da_file \<Rightarrow> tar_item list \<Rightarrow> err option \<Rightarrow> da_err + Archive" where
  "scan J f items fin =
     (case scan_loop items fin scan_start of
        Inl e \<Rightarrow> Inl e
      | Inr s \<Rightarrow>
          (case sc_index s of
             None \<Rightarrow> Inl ErrNoIndex
           | Some index \<Rightarrow>
               (case ParseManifest (dj_manifest J) index of
                  Inl e \<Rightarrow> Inl (ErrIndexParse e)
                | Inr m \<Rightarrow>
                    if \<not> IsIndex m then Inl ErrNotIndex
                    else case (case sc_legacy s of None \<Rightarrow> Some [] | Some b \<Rightarrow> dj_legacy J b) of
                      None \<Rightarrow> Inl ErrLegacyParse
                    | Some legacy \<Rightarrow>
                        (case (case sc_layout s of None \<Rightarrow> Some '''' | Some b \<Rightarrow> dj_layout J b) of
                           None \<Rightarrow> Inl ErrLayoutParse
                         | Some v \<Rightarrow>
                             Inr \<lparr>ar_f = f, ar_blobs = sc_blobs s, ar_Index = m, ar_Legacy = legacy,
                                  ar_LayoutVersion = v\<rparr>))))"

definition Has :: "Archive \<Rightarrow> digest \<Rightarrow> bool" where
  "Has a d \<longleftrightarrow> map_of (ar_blobs a) d \<noteq> None"

definition Size :: "Archive \<Rightarrow> digest \<Rightarrow> nat \<times> bool" where
  "Size a d = (case map_of (ar_blobs a) d of None \<Rightarrow> (0, False) | Some (off, n) \<Rightarrow> (n, True))"

text \<open>A section reader is its offset and size; reading it whole stops at its limit or at EOF.\<close>

definition Section :: "Archive \<Rightarrow> digest \<Rightarrow> da_err + nat \<times> nat" where
  "Section a d = (case map_of (ar_blobs a) d of None \<Rightarrow> Inl (ErrBlobMissing d) | Some s \<Rightarrow> Inr s)"

definition section_all :: "da_file \<Rightarrow> nat \<times> nat \<Rightarrow> bytes \<times> err option" where
  "section_all f s =
     (case ReadAt f (fst s) (snd s) of
        (b, Some (RFail e)) \<Rightarrow> (b, Some e)
      | (b, _) \<Rightarrow> (b, None))"

definition ReadBlob :: "(bytes \<Rightarrow> 256 word) \<Rightarrow> Archive \<Rightarrow> digest \<Rightarrow> da_err + bytes" where
  "ReadBlob sha a d =
     (case Section a d of
        Inl e \<Rightarrow> Inl e
      | Inr s \<Rightarrow>
          if snd s > maxSmallBlob then Inl (ErrBlobTooLarge d)
          else case section_all (ar_f a) s of
            (b, Some e) \<Rightarrow> Inl (ErrBlobRead d e)
          | (b, None) \<Rightarrow> if DigestOfBytes sha b \<noteq> d then Inl (ErrBlobMismatch d) else Inr b)"

text \<open>
  The loop of Verify: \<open>ctx\<close> is what ctx.Err() returns before the i-th read, \<open>acc\<close> the bytes written
  to the hash; the second result are the calls of progress.
\<close>

definition verify_buf :: nat where "verify_buf = 1024 * 1024"

function verify_loop ::
  "da_file \<Rightarrow> nat \<times> nat \<Rightarrow> digest \<Rightarrow> (nat \<Rightarrow> err option) \<Rightarrow> nat \<Rightarrow> nat \<Rightarrow> bytes \<Rightarrow> (da_err + bytes) \<times> nat list"
where
  "verify_loop f s d ctx i pos acc =
     (case ctx i of
        Some e \<Rightarrow> (Inl (ErrCtx e), [])
      | None \<Rightarrow>
          if snd s \<le> pos then (Inr acc, [])
          else case ReadAt f (fst s + pos) (min verify_buf (snd s - pos)) of
            (b, er) \<Rightarrow>
              (let acc = acc @ b; calls = (if b \<noteq> [] then [length acc] else []) in
               case er of
                 Some REOF \<Rightarrow> (Inr acc, calls)
               | Some (RFail e) \<Rightarrow> (Inl (ErrBlobRead d e), calls)
               | None \<Rightarrow>
                   (case verify_loop f s d ctx (Suc i) (pos + min verify_buf (snd s - pos)) acc of
                      (r, calls') \<Rightarrow> (r, calls @ calls'))))"
  by pat_completeness auto
termination
  by (relation "measure (\<lambda>(f, s, d, ctx, i, pos, acc). snd s - pos)") (auto simp: verify_buf_def)

definition Verify ::
  "(bytes \<Rightarrow> 256 word) \<Rightarrow> Archive \<Rightarrow> (nat \<Rightarrow> err option) \<Rightarrow> digest \<Rightarrow> da_err option \<times> nat list" where
  "Verify sha a ctx d =
     (case Section a d of
        Inl e \<Rightarrow> (Some e, [])
      | Inr s \<Rightarrow>
          (case verify_loop (ar_f a) s d ctx 0 0 [] of
             (Inl e, calls) \<Rightarrow> (Some e, calls)
           | (Inr b, calls) \<Rightarrow> (if DigestOfBytes sha b \<noteq> d then Some (ErrBlobMismatch d) else None, calls)))"

declare verify_loop.simps [simp del]

section \<open>Reading and verifying\<close>

lemma ReadAt_cont:
  assumes "ReadAt f off m = (b, None)" "ReadAt f (off + m) k = (b', er)"
  shows "ReadAt f off (m + k) = (b @ b', er)"
proof -
  have t: "take (m + k) (drop off xs) = take m (drop off xs) @ take k (drop (off + m) xs)" for xs :: bytes
    by (simp add: take_add add.commute [of m off])
  have b: "b = take m (drop off (fi_bytes f))" "length b = m"
    and ok: "\<And>x e. fi_bad f = Some (x, e) \<Longrightarrow> b = [] \<or> off + length b \<le> x"
    using assms(1) by (auto simp: ReadAt_def Let_def split: option.splits if_splits)
  show ?thesis
    using assms(2) ok b(2) unfolding ReadAt_def t b(1) [symmetric]
    by (cases "fi_bad f") (fastforce simp: Let_def split: if_splits)+
qed

lemma ReadAt_stop:
  assumes "ReadAt f off m = (b, Some er)"
  shows "ReadAt f off (m + k) = (b, Some er)"
proof -
  have "length (take m (drop off (fi_bytes f))) \<le> length (take (m + k) (drop off (fi_bytes f)))" by simp
  then show ?thesis
    using assms
    by (cases "fi_bad f") (auto simp: ReadAt_def Let_def min_def split: if_splits)
qed

lemma ReadAt_length: "ReadAt f off n = (b, er) \<Longrightarrow> length b \<le> n \<and> (er = None \<longrightarrow> length b = n)"
  by (auto simp: ReadAt_def Let_def split: option.splits if_splits)

lemma ReadAt_0 [simp]: "ReadAt f off 0 = ([], None)"
  by (simp add: ReadAt_def Let_def split: option.split)

text \<open>Unless it is cancelled, reading in pieces comes to the bytes and the error of reading whole.\<close>

definition read_result :: "da_file \<Rightarrow> nat \<times> nat \<Rightarrow> digest \<Rightarrow> nat \<Rightarrow> bytes \<Rightarrow> da_err + bytes" where
  "read_result f s d pos acc =
     (case ReadAt f (fst s + pos) (snd s - pos) of
        (b, Some (RFail e)) \<Rightarrow> Inl (ErrBlobRead d e)
      | (b, _) \<Rightarrow> Inr (acc @ b))"

lemma verify_loop_reads:
  "fst (verify_loop f s d ctx i pos acc) = read_result f s d pos acc
   \<or> (\<exists>j e. ctx j = Some e \<and> fst (verify_loop f s d ctx i pos acc) = Inl (ErrCtx e))"
proof (induction f s d ctx i pos acc rule: verify_loop.induct)
  case (1 f s d ctx i pos acc)
  let ?n = "min verify_buf (snd s - pos)"
  consider e where "ctx i = Some e" | "ctx i = None" "snd s \<le> pos" | "ctx i = None" "\<not> snd s \<le> pos"
    by (cases "ctx i") auto
  then show ?case
  proof cases
    case (1 e)
    then show ?thesis by (subst (2) verify_loop.simps) auto
  next
    case 2
    then show ?thesis by (subst (1) verify_loop.simps) (simp add: read_result_def)
  next
    case 3
    obtain b er where rd: "ReadAt f (fst s + pos) ?n = (b, er)" by fastforce
    have n: "snd s - pos = ?n + (snd s - pos - ?n)" by simp
    show ?thesis
    proof (cases er)
      case None
      have p: "fst s + pos + ?n = fst s + (pos + ?n)" "snd s - (pos + ?n) = snd s - pos - ?n" by simp_all
      have v: "fst (verify_loop f s d ctx i pos acc) = fst (verify_loop f s d ctx (Suc i) (pos + ?n) (acc @ b))"
        using 3 rd None by (subst verify_loop.simps) (simp add: Let_def split: prod.splits)
      obtain b' er' where rd': "ReadAt f (fst s + (pos + ?n)) (snd s - (pos + ?n)) = (b', er')" by fastforce
      have "ReadAt f (fst s + pos) (snd s - pos) = (b @ b', er')"
        using ReadAt_cont [OF rd [unfolded None]] rd' n p by metis
      then have r: "read_result f s d pos acc = read_result f s d (pos + ?n) (acc @ b)"
        using rd' by (simp add: read_result_def split: option.splits read_end.splits)
      show ?thesis
        unfolding v r using "1.IH" [OF 3 rd [symmetric] refl refl None] .
    next
      case (Some x)
      have "ReadAt f (fst s + pos) (snd s - pos) = (b, Some x)"
        using ReadAt_stop [OF rd [unfolded Some]] n by metis
      then show ?thesis
        using 3 rd Some
        by (subst (1) verify_loop.simps) (simp add: Let_def read_result_def split: read_end.splits)
    qed
  qed
qed

lemma read_result_all:
  "read_result f s d 0 [] = (case section_all f s of (b, None) \<Rightarrow> Inr b | (b, Some e) \<Rightarrow> Inl (ErrBlobRead d e))"
  by (auto simp: read_result_def section_all_def split: prod.splits option.splits read_end.splits)

lemma verify_loop_progress:
  assumes "length acc = pos" "pos \<le> snd s"
  shows "sorted_wrt (<) (snd (verify_loop f s d ctx i pos acc))
    \<and> list_all (\<lambda>n. pos < n \<and> n \<le> snd s) (snd (verify_loop f s d ctx i pos acc))"
  using assms
proof (induction f s d ctx i pos acc rule: verify_loop.induct)
  case (1 f s d ctx i pos acc)
  let ?n = "min verify_buf (snd s - pos)"
  show ?case
  proof (cases "ctx i = None \<and> \<not> snd s \<le> pos")
    case False
    then have "snd (verify_loop f s d ctx i pos acc) = []"
      by (subst verify_loop.simps) (auto split: option.split)
    then show ?thesis by simp
  next
    case True
    then have c: "ctx i = None" and p: "\<not> snd s \<le> pos" by auto
    obtain b er where rd: "ReadAt f (fst s + pos) ?n = (b, er)" by fastforce
    have b: "length b \<le> ?n" "er = None \<longrightarrow> length b = ?n"
      using ReadAt_length [OF rd] by blast+
    show ?thesis
    proof (cases er)
      case None
      obtain r calls where v: "verify_loop f s d ctx (Suc i) (pos + ?n) (acc @ b) = (r, calls)" by fastforce
      have "sorted_wrt (<) calls \<and> list_all (\<lambda>n. pos + ?n < n \<and> n \<le> snd s) calls"
        using "1.IH" [OF c p rd [symmetric] refl refl None] "1.prems" b None v p by simp
      moreover have "snd (verify_loop f s d ctx i pos acc) = (if b \<noteq> [] then [length (acc @ b)] else []) @ calls"
        using c p rd None v by (subst verify_loop.simps) (simp add: Let_def)
      ultimately show ?thesis
        using p b None "1.prems" by (auto simp: list_all_iff verify_buf_def)
    next
      case (Some x)
      have "snd (verify_loop f s d ctx i pos acc) = (if b \<noteq> [] then [length (acc @ b)] else [])"
        using c p rd Some by (subst verify_loop.simps) (simp add: Let_def split: read_end.split)
      then show ?thesis
        using p b "1.prems" by (cases "b = []") auto
    qed
  qed
qed

lemma Verify_verdict:
  assumes "Section a d = Inr s" "\<And>i. ctx i = None"
  shows "fst (Verify sha a ctx d) =
    (case section_all (ar_f a) s of
       (b, Some e) \<Rightarrow> Some (ErrBlobRead d e)
     | (b, None) \<Rightarrow> if DigestOfBytes sha b \<noteq> d then Some (ErrBlobMismatch d) else None)"
  using assms verify_loop_reads [of "ar_f a" s d ctx 0 0 "[]"] read_result_all [of "ar_f a" s d]
  by (auto simp: Verify_def split: prod.splits sum.splits option.splits if_splits)

text \<open>
  (C28) Verify streams what ReadBlob reads whole: not cancelled, it gives the verdict of ReadBlob on
  every blob that ReadBlob is willing to load, errors included. However it is cancelled, it accepts
  only bytes with the digest, and reports strictly growing counts within the blob's size.
\<close>

theorem Verify_is_ReadBlob:
  assumes "Section a d = Inr s"
  shows "(fst (Verify sha a ctx d) = None \<longrightarrow>
            (\<exists>b. section_all (ar_f a) s = (b, None) \<and> DigestOfBytes sha b = d))
    \<and> ((\<forall>i. ctx i = None) \<and> snd s \<le> maxSmallBlob \<longrightarrow>
            fst (Verify sha a ctx d) = (case ReadBlob sha a d of Inl e \<Rightarrow> Some e | Inr b \<Rightarrow> None))
    \<and> sorted_wrt (<) (snd (Verify sha a ctx d)) \<and> list_all (\<lambda>n. n \<le> snd s) (snd (Verify sha a ctx d))"
proof (intro conjI impI)
  let ?r = "verify_loop (ar_f a) s d ctx 0 0 []"
  have v: "Verify sha a ctx d =
      (case ?r of
         (Inl e, calls) \<Rightarrow> (Some e, calls)
       | (Inr b, calls) \<Rightarrow> (if DigestOfBytes sha b \<noteq> d then Some (ErrBlobMismatch d) else None, calls))"
    using assms by (simp add: Verify_def)
  have "snd (Verify sha a ctx d) = snd ?r" by (simp add: v split: prod.split sum.split)
  with verify_loop_progress [of "[]" 0 s "ar_f a" d ctx 0]
  show "sorted_wrt (<) (snd (Verify sha a ctx d))" "list_all (\<lambda>n. n \<le> snd s) (snd (Verify sha a ctx d))"
    by (auto simp: list_all_iff)
  note reads = verify_loop_reads [of "ar_f a" s d ctx 0 0 "[]"] read_result_all [of "ar_f a" s d]
  show "\<exists>b. section_all (ar_f a) s = (b, None) \<and> DigestOfBytes sha b = d"
    if "fst (Verify sha a ctx d) = None"
    using that reads by (auto simp: v split: prod.splits sum.splits option.splits if_splits)
  show "fst (Verify sha a ctx d) = (case ReadBlob sha a d of Inl e \<Rightarrow> Some e | Inr b \<Rightarrow> None)"
    if "(\<forall>i. ctx i = None) \<and> snd s \<le> maxSmallBlob"
    using Verify_verdict [OF assms, of ctx sha] that assms
    by (auto simp: ReadBlob_def split: prod.splits option.splits)
qed

section \<open>The blob table\<close>

text \<open>The digest an entry's header names, if it is a regular file under blobs/sha256.\<close>

definition item_blob :: "tar_item \<Rightarrow> digest option" where
  "item_blob h =
     (let name = TrimPrefix (ti_Name h) ''./'' in
      if ti_Typeflag h = CHR ''0'' \<and> HasPrefix name blobPrefix
      then (case ParseDigest (''sha256:'' @ drop (length blobPrefix) name) of
              Inl _ \<Rightarrow> None | Inr d \<Rightarrow> Some d)
      else None)"

lemma top_not_blob: "\<not> prefix blobPrefix IndexFile" "\<not> prefix blobPrefix ManifestFile"
  "\<not> prefix blobPrefix LayoutFile"
  by (simp_all add: blobPrefix_def IndexFile_def ManifestFile_def LayoutFile_def)

lemma scan_item_blobs:
  assumes "scan_item h s = Inr s'"
  shows "case item_blob h of
      None \<Rightarrow> sc_blobs s' = sc_blobs s
    | Some d \<Rightarrow> \<exists>off. ti_seek h = Inr off \<and> sc_blobs s' = AList.update d (off, ti_Size h) (sc_blobs s)"
  using assms top_not_blob
  by (auto simp: scan_item_def item_blob_def Let_def split: if_splits sum.splits)

lemma scan_loop_located:
  "scan_loop items fin s = Inr s' \<Longrightarrow> h \<in> set items \<Longrightarrow> item_blob h = Some d \<Longrightarrow> \<exists>off. ti_seek h = Inr off"
proof (induction items arbitrary: s)
  case (Cons h' items)
  then show ?case using scan_item_blobs [of h' s] by (auto split: sum.splits)
qed simp

definition item_section :: "tar_item \<Rightarrow> nat \<times> nat" where
  "item_section h = (case ti_seek h of Inr off \<Rightarrow> (off, ti_Size h) | Inl _ \<Rightarrow> (0, 0))"

lemma scan_loop_blobs:
  "scan_loop items fin s = Inr s' \<Longrightarrow>
   map_of (sc_blobs s') d =
     (if filter (\<lambda>h. item_blob h = Some d) items = [] then map_of (sc_blobs s) d
      else Some (item_section (last (filter (\<lambda>h. item_blob h = Some d) items))))"
proof (induction items arbitrary: s)
  case Nil
  then show ?case by (simp split: option.splits)
next
  case (Cons h items)
  then obtain s1 where s1: "scan_item h s = Inr s1" "scan_loop items fin s1 = Inr s'"
    by (auto split: sum.splits)
  show ?case
    using Cons.IH [OF s1(2)] scan_item_blobs [OF s1(1)]
    by (cases "item_blob h") (simp_all, auto simp: item_section_def [of h])
qed

lemma scan_Inr:
  assumes "scan J f items fin = Inr a"
  obtains s where "scan_loop items fin scan_start = Inr s" "ar_blobs a = sc_blobs s" "ar_f a = f"
    "IsIndex (ar_Index a)"
  using assms by (auto simp: scan_def split: sum.splits option.splits if_splits)

text \<open>
  What archive/tar promises of an unbuffered file: after Next the file is positioned at the entry's
  content, which is as long as its header says.
\<close>

definition located :: "da_file \<Rightarrow> tar_item \<Rightarrow> bool" where
  "located f h \<longleftrightarrow>
     (case ti_seek h of
        Inl _ \<Rightarrow> True
      | Inr off \<Rightarrow>
          ti_Size h = length (fst (ti_content h))
          \<and> take (ti_Size h) (drop off (fi_bytes f)) = fst (ti_content h))"

lemma scan_table:
  assumes "scan J f items fin = Inr a"
  shows "map_of (ar_blobs a) d =
    (if filter (\<lambda>h. item_blob h = Some d) items = [] then None
     else Some (item_section (last (filter (\<lambda>h. item_blob h = Some d) items))))" "ar_f a = f"
proof -
  from assms obtain s where s: "scan_loop items fin scan_start = Inr s" "ar_blobs a = sc_blobs s" "ar_f a = f"
    by (rule scan_Inr)
  show "map_of (ar_blobs a) d =
    (if filter (\<lambda>h. item_blob h = Some d) items = [] then None
     else Some (item_section (last (filter (\<lambda>h. item_blob h = Some d) items))))" "ar_f a = f"
    using scan_loop_blobs [OF s(1), of d] s(2,3) by (simp_all add: scan_start_def)
qed

lemma scan_Has: "scan J f items fin = Inr a \<Longrightarrow> Has a d \<longleftrightarrow> d \<in> Option.these (item_blob ` set items)"
  unfolding Has_def scan_table(1) by (force simp: filter_empty_conv in_these_eq)

text \<open>The section of a digest holds the content of the last entry named after it.\<close>

lemma scan_section:
  assumes "scan J f items fin = Inr a" "fi_bad f = None" "list_all (located f) items"
    and hs: "filter (\<lambda>h. item_blob h = Some d) items = hs @ [h]"
  obtains off where "Section a d = Inr (off, ti_Size h)" "section_all (ar_f a) (off, ti_Size h) = (fst (ti_content h), None)"
proof -
  have h: "h \<in> set items" "item_blob h = Some d" using arg_cong [OF hs, of set] by auto
  obtain s where "scan_loop items fin scan_start = Inr s" using scan_Inr [OF assms(1)] by blast
  then obtain off where off: "ti_seek h = Inr off" using scan_loop_located h by blast
  have sec: "Section a d = Inr (off, ti_Size h)"
    using scan_table(1) [OF assms(1), of d] off unfolding hs by (simp add: Section_def item_section_def)
  have "located f h" using assms(3) h(1) by (simp add: list_all_iff)
  then have c: "ti_Size h = length (fst (ti_content h))" "take (ti_Size h) (drop off (fi_bytes f)) = fst (ti_content h)"
    using off unfolding located_def by auto
  have "section_all (ar_f a) (off, ti_Size h) = (fst (ti_content h), None)"
    using assms(2) by (simp add: section_all_def ReadAt_def scan_table(2) [OF assms(1)] c(2), simp add: c(1))
  with sec that show ?thesis by blast
qed

text \<open>
  Reading in place gives what the archive holds: after a scan of a readable file a digest is in
  the archive exactly when some entry is named after it, and if the last such entry's content has the
  digest, ReadBlob returns that content and Verify accepts it.
\<close>

theorem scan_then_ReadBlob:
  assumes "scan J f items fin = Inr a" "fi_bad f = None" "list_all (located f) items"
  shows "(Has a d \<longleftrightarrow> d \<in> Option.these (item_blob ` set items))
    \<and> (filter (\<lambda>h. item_blob h = Some d) items = hs @ [h] \<and> DigestOfBytes sha (fst (ti_content h)) = d \<longrightarrow>
         fst (Verify sha a (\<lambda>_. None) d) = None
         \<and> (ti_Size h \<le> maxSmallBlob \<longrightarrow> ReadBlob sha a d = Inr (fst (ti_content h))))"
proof (intro conjI impI)
  show "Has a d \<longleftrightarrow> d \<in> Option.these (item_blob ` set items)" by (rule scan_Has [OF assms(1)])
next
  assume a: "filter (\<lambda>h. item_blob h = Some d) items = hs @ [h] \<and> DigestOfBytes sha (fst (ti_content h)) = d"
  then obtain off where sec: "Section a d = Inr (off, ti_Size h)"
    "section_all (ar_f a) (off, ti_Size h) = (fst (ti_content h), None)"
    using scan_section [OF assms] by blast
  show "fst (Verify sha a (\<lambda>_. None) d) = None"
    using Verify_verdict [OF sec(1), of "\<lambda>_. None"] sec(2) a by simp
  show "ReadBlob sha a d = Inr (fst (ti_content h))" if "ti_Size h \<le> maxSmallBlob"
    using sec a that by (simp add: ReadBlob_def)
qed

section \<open>Names round trip\<close>

lemma splitTag_tag: "CHR '':'' \<notin> set t \<Longrightarrow> CHR ''/'' \<notin> set t \<Longrightarrow> splitTag (r @ '':'' @ t) = (r, t)"
  by (simp add: splitTag_def IndexByte_None_iff)

lemma splitTag_bare: "CHR '':'' \<notin> set r \<Longrightarrow> splitTag r = (r, '''')"
  using LastIndexByte_None_iff [of r "CHR '':''"] by (simp add: splitTag_def)

lemma splitTag_parts:
  assumes "splitTag s = (r, t)"
  shows "(s = r \<and> t = '''') \<or> (s = r @ '':'' @ t \<and> CHR ''/'' \<notin> set t \<and> CHR '':'' \<notin> set t)"
proof (cases "LastIndexByte s CHR '':''")
  case (Some i)
  have s: "s = take i s @ CHR '':'' # drop (Suc i) s" "CHR '':'' \<notin> set (drop (Suc i) s)"
    using LastIndexByte_Some [OF Some] by auto
  have "drop i s = CHR '':'' # drop (Suc i) s"
    using LastIndexByte_less [OF Some] s(1) by (metis Cons_nth_drop_Suc append_eq_conv_conj length_take min.absorb4)
  then have d: "IndexByte (drop i s) CHR ''/'' = None \<longleftrightarrow> CHR ''/'' \<notin> set (drop (Suc i) s)"
    by (simp add: IndexByte_None_iff)
  have "(r, t) = (s, '''') \<or> CHR ''/'' \<notin> set (drop (Suc i) s) \<and> (r, t) = (take i s, drop (Suc i) s)"
    using assms Some d by (simp add: splitTag_def split: if_splits)
  then show ?thesis using s by auto
qed (use assms in \<open>simp add: splitTag_def\<close>)

lemma HasSuffix_mem: "HasSuffix s [c] \<Longrightarrow> c \<in> set s"
  by (metis HasSuffix_def in_set_dropD list.set_intros(1))

lemma tag_latest: "ValidateTag ''latest'' = None"
  by code_simp

text \<open>
  ParseName is exact: it accepts repo:tag and repo for a valid repository and tag, with latest for
  the missing tag, and what it accepts is one of the two, spelled exactly like that.
\<close>

theorem ParseName_iff:
  "ParseName s = Inr n \<longleftrightarrow>
     ValidateRepository (nm_Repo n) = None \<and> ValidateTag (nm_Tag n) = None
     \<and> (s = Name_String n \<or> s = nm_Repo n \<and> nm_Tag n = ''latest'')"
proof
  assume n: "ParseName s = Inr n"
  obtain r t where st: "splitTag s = (r, t)" by fastforce
  have v: "ValidateRepository r = None" "ValidateTag (if t = '''' then ''latest'' else t) = None"
    "n = \<lparr>nm_Repo = r, nm_Tag = (if t = '''' then ''latest'' else t)\<rparr>" "\<not> (t = '''' \<and> HasSuffix s '':'')"
    using n st by (simp_all add: ParseName_def Let_def split: if_splits option.splits)
  show "ValidateRepository (nm_Repo n) = None \<and> ValidateTag (nm_Tag n) = None
     \<and> (s = Name_String n \<or> s = nm_Repo n \<and> nm_Tag n = ''latest'')"
    using splitTag_parts [OF st] v by (auto simp: Name_String_def HasSuffix_def)
next
  assume a: "ValidateRepository (nm_Repo n) = None \<and> ValidateTag (nm_Tag n) = None
     \<and> (s = Name_String n \<or> s = nm_Repo n \<and> nm_Tag n = ''latest'')"
  let ?r = "nm_Repo n" and ?t = "nm_Tag n"
  note sep = repo_no_sep [of ?r] tag_no_sep [of ?t]
  have ne: "?r \<noteq> []" "?t \<noteq> []" using a repo_not_Nil [of ?r] ValidateTag_iff [of ?t] by auto
  show "ParseName s = Inr n"
  proof (cases "s = Name_String n")
    case True
    have "splitTag s = (?r, ?t)" unfolding True Name_String_def by (rule splitTag_tag) (use a sep in auto)
    then show ?thesis
      using a ne sep by (auto simp: ParseName_def True Name_String_def ContainsByte_def)
  next
    case False
    then have s: "s = ?r" "?t = ''latest''" using a by auto
    have "splitTag s = (?r, '''')" unfolding s by (rule splitTag_bare) (use a sep in auto)
    moreover have "\<not> HasSuffix s '':''" using a sep s(1) HasSuffix_mem [of s "CHR '':''"] by auto
    ultimately show ?thesis
      using a ne sep s by (auto simp: ParseName_def ContainsByte_def)
  qed
qed

section \<open>A small archive\<close>

text \<open>A hash that tells bodies apart by their length, and the digest of the bodies of one length.\<close>

definition len_sha :: "bytes \<Rightarrow> 256 word" where
  "len_sha b = of_nat (length b)"

definition len_digest :: "nat \<Rightarrow> digest" where
  "len_digest n = DigestOfBytes len_sha (replicate n CHR ''x'')"

lemma DigestOfBytes_len: "DigestOfBytes len_sha b = len_digest (length b)"
  by (simp add: len_digest_def DigestOfBytes_def len_sha_def)

lemma ParseDigest_len [simp]: "ParseDigest (len_digest n) = Inr (len_digest n)"
  by (simp add: len_digest_def)

lemma len_digest_split: "''sha256:'' @ drop 7 (len_digest n) = len_digest n"
  by (simp add: len_digest_def DigestOfBytes_def DigestFromSum_def AlgorithmSHA256_def)

definition blob_item :: "nat \<Rightarrow> bytes \<Rightarrow> tar_item" where
  "blob_item off b =
     \<lparr>ti_Typeflag = CHR ''0'', ti_Name = ''./'' @ blobPrefix @ drop 7 (len_digest (length b)),
      ti_Size = length b, ti_content = (b, None), ti_seek = Inr off\<rparr>"

definition index_item :: "nat \<Rightarrow> bytes \<Rightarrow> tar_item" where
  "index_item off b =
     \<lparr>ti_Typeflag = CHR ''0'', ti_Name = IndexFile, ti_Size = length b, ti_content = (b, None), ti_seek = Inr off\<rparr>"

definition tiny_file :: da_file where
  "tiny_file = \<lparr>fi_bytes = ''HHxHHindex'', fi_bad = None\<rparr>"

definition tiny_json :: da_json where
  "tiny_json =
     \<lparr>dj_manifest = (\<lambda>b. if b = ''index'' then
         Some \<lparr>m_SchemaVersion = 2, m_MediaType = MediaTypeOCIIndex, m_ArtifactType = '''', m_Config = None,
               m_Layers = [], m_Manifests = Some [], m_Subject = None, m_Annotations = []\<rparr> else None),
      dj_legacy = (\<lambda>b. None), dj_layout = (\<lambda>b. None), dj_map = (\<lambda>b. None), dj_list = (\<lambda>b. None),
      dj_digest = (\<lambda>d. d), dj_size = FormatInt, dj_enc_map = (\<lambda>m. None), dj_enc_list = (\<lambda>l. None)\<rparr>"

definition tiny_items :: "tar_item list" where
  "tiny_items = [blob_item 2 ''x'', index_item 5 ''index'']"

definition tiny_archive :: Archive where
  "tiny_archive =
     \<lparr>ar_f = tiny_file, ar_blobs = [(len_digest 1, 2, 1)],
      ar_Index = the (dj_manifest tiny_json ''index''), ar_Legacy = [], ar_LayoutVersion = ''''\<rparr>"

lemma blob_item_name: "TrimPrefix (ti_Name (blob_item off b)) ''./'' = blobPrefix @ drop 7 (len_digest (length b))"
  using TrimPrefix_append [of "''./''"] by (simp add: blob_item_def)

lemma item_blob_item [simp]: "item_blob (blob_item off b) = Some (len_digest (length b))"
  unfolding item_blob_def blob_item_name Let_def append_eq_conv_conj
  using ParseDigest_len [of "length b"] len_digest_split [of "length b"] by (simp add: blob_item_def)

lemma scan_blob_item [simp]:
  "scan_item (blob_item off b) s = Inr (s\<lparr>sc_blobs := AList.update (len_digest (length b)) (off, length b) (sc_blobs s)\<rparr>)"
proof -
  have "blobPrefix @ x \<noteq> IndexFile" "blobPrefix @ x \<noteq> ManifestFile" "blobPrefix @ x \<noteq> LayoutFile" for x
    by (simp_all add: blobPrefix_def IndexFile_def ManifestFile_def LayoutFile_def)
  then show ?thesis
    unfolding scan_item_def blob_item_name Let_def
    using len_digest_split [of "length b"] by (simp add: blob_item_def)
qed

lemma scan_index_item [simp]:
  "length b \<le> maxTopFile \<Longrightarrow> scan_item (index_item off b) s = Inr (s\<lparr>sc_index := Some b\<rparr>)"
  by (simp add: scan_item_def index_item_def readTop_def IndexFile_def TrimPrefix_def CutPrefix_def)

lemma tiny_scan: "scan tiny_json tiny_file tiny_items None = Inr tiny_archive"
proof -
  have "ParseManifest (dj_manifest tiny_json) ''index'' = Inr (the (dj_manifest tiny_json ''index''))"
    "IsIndex (the (dj_manifest tiny_json ''index''))"
    by (simp_all add: tiny_json_def ParseManifest_def ManifestChildren_def opt_list_def IsIndex_def)
  then show ?thesis
    by (simp add: scan_def tiny_items_def scan_start_def maxTopFile_def tiny_archive_def)
qed

theorem Verify_is_ReadBlob_witness:
  "Section tiny_archive (len_digest 1) = Inr (2, 1)
   \<and> fst (Verify len_sha tiny_archive (\<lambda>_. None) (len_digest 1)) =
       (case ReadBlob len_sha tiny_archive (len_digest 1) of Inl e \<Rightarrow> Some e | Inr b \<Rightarrow> None)
   \<and> sorted_wrt (<) (snd (Verify len_sha tiny_archive (\<lambda>_. None) (len_digest 1)))"
proof -
  have s: "Section tiny_archive (len_digest 1) = Inr (2, 1)" by (simp add: Section_def tiny_archive_def)
  show ?thesis
    using s Verify_is_ReadBlob [OF s, of len_sha "\<lambda>_. None"] by (simp add: maxSmallBlob_def)
qed

theorem scan_then_ReadBlob_witness:
  "Has tiny_archive (len_digest 1)
   \<and> ReadBlob len_sha tiny_archive (len_digest 1) = Inr ''x''
   \<and> fst (Verify len_sha tiny_archive (\<lambda>_. None) (len_digest 1)) = None"
proof -
  have l: "list_all (located tiny_file) tiny_items"
    by (simp add: tiny_items_def located_def blob_item_def index_item_def tiny_file_def)
  have "item_blob (index_item 5 ''index'') = None"
    by (simp add: item_blob_def index_item_def IndexFile_def blobPrefix_def TrimPrefix_def CutPrefix_def)
  then have f: "filter (\<lambda>h. item_blob h = Some (len_digest 1)) tiny_items = [] @ [blob_item 2 ''x'']"
    by (simp add: tiny_items_def)
  have "Has tiny_archive (len_digest 1)" by (simp add: Has_def tiny_archive_def)
  then show ?thesis
    using scan_then_ReadBlob [OF tiny_scan _ l, of "len_digest 1" "[]" "blob_item 2 ''x''" len_sha] f
    by (simp add: tiny_file_def blob_item_def DigestOfBytes_len maxSmallBlob_def)
qed

end
