(* ===== verification/Docker_Plan.thy ===== *)
theory Docker_Plan
  imports Docker_Archive
begin

text \<open>
  What an import stores (src/dockerarchive/plan.go): resolving the entries of index.json, pruning
  absent children, collecting blobs and manifests in publish order, and assigning names. resolve
  recurses along digests of bodies that name each other; its fuel is the depth it may reach, and
  \<open>Archive_Plan\<close> gives it one more than the archive has blobs. The maps seenBlob and seenManifest hold exactly
  the digests appended so far, so membership in the lists of the plan stands for them.
\<close>

record PlanBlob =
  pb_Digest :: digest
  pb_Size :: nat
  pb_MediaType :: string
  pb_Present :: bool

record PlanManifest =
  pm_Digest :: digest
  pm_MediaType :: string
  pm_Body :: bytes
  pm_IsIndex :: bool
  pm_Synthesized :: bool
  pm_Attestation :: bool

record PlanEntry =
  pe_Digest :: digest
  pe_Names :: "Name list"
  pe_IsIndex :: bool
  pe_Platforms :: nat
  pe_Attestations :: nat
  pe_Manifests :: "digest list"

record Plan =
  p_Blobs :: "PlanBlob list"
  p_Manifests :: "PlanManifest list"
  p_Entries :: "PlanEntry list"

record PlanOptions =
  po_Names :: "string list"
  po_Present :: "(digest \<Rightarrow> bool res) option"

datatype anode = ANode (n_desc: Descriptor) (n_body: bytes) (n_manifest: Manifest) (n_synthesized: bool)
  (n_children: "anode list")

section \<open>Resolving\<close>

text \<open>One kept element of the manifests array: raw, or rewritten for a synthesized child.\<close>

definition keep_raw :: "da_json \<Rightarrow> bytes list \<Rightarrow> nat \<Rightarrow> anode \<Rightarrow> da_err + bytes" where
  "keep_raw J manifests i c =
     (if i \<ge> length manifests then Inl ErrPruneShort
      else if n_synthesized c then
        (case dj_map J (manifests ! i) of
           None \<Rightarrow> Inl ErrPruneDesc
         | Some desc \<Rightarrow>
             (case dj_enc_map J
                     (AList.update ''size'' (dj_size J (d_Size (n_desc c)))
                       (AList.update ''digest'' (dj_digest J (d_Digest (n_desc c))) desc)) of
                None \<Rightarrow> Inl ErrPruneEncode
              | Some rewritten \<Rightarrow> Inr rewritten))
      else Inr (manifests ! i))"

fun keep_loop :: "da_json \<Rightarrow> bytes list \<Rightarrow> (nat \<times> anode) list \<Rightarrow> da_err + bytes list" where
  "keep_loop J manifests [] = Inr []"
| "keep_loop J manifests ((i, c) # kept) =
     (case keep_raw J manifests i c of
        Inl e \<Rightarrow> Inl e
      | Inr raw \<Rightarrow>
          (case keep_loop J manifests kept of Inl e \<Rightarrow> Inl e | Inr raws \<Rightarrow> Inr (raw # raws)))"

definition pruneIndex :: "da_json \<Rightarrow> bytes \<Rightarrow> (nat \<times> anode) list \<Rightarrow> da_err + bytes" where
  "pruneIndex J body kept =
     (case dj_map J body of
        None \<Rightarrow> Inl ErrPruneBody
      | Some obj \<Rightarrow>
          (case dj_list J (case map_of obj ''manifests'' of None \<Rightarrow> [] | Some raw \<Rightarrow> raw) of
             None \<Rightarrow> Inl ErrPruneManifests
           | Some manifests \<Rightarrow>
               (case keep_loop J manifests kept of
                  Inl e \<Rightarrow> Inl e
                | Inr raws \<Rightarrow>
                    (case dj_enc_list J raws of
                       None \<Rightarrow> Inl ErrPruneEncode
                     | Some ms \<Rightarrow>
                         (case dj_enc_map J (AList.update ''manifests'' ms obj) of
                            None \<Rightarrow> Inl ErrPruneEncode
                          | Some b \<Rightarrow> Inr b)))))"

text \<open>
  The loop over an index's children: the positions kept with their nodes. The outer option is the
  fuel, \<open>Inr None\<close> stands for present = false.
\<close>

fun resolve_children ::
  "(Descriptor \<Rightarrow> (da_err + anode option) option) \<Rightarrow> nat \<Rightarrow> Descriptor list \<Rightarrow> (da_err + (nat \<times> anode) list) option"
where
  "resolve_children rec i [] = Some (Inr [])"
| "resolve_children rec i (cd # cds) =
     (case rec cd of
        None \<Rightarrow> None
      | Some (Inl e) \<Rightarrow> Some (Inl e)
      | Some (Inr c) \<Rightarrow>
          (case resolve_children rec (Suc i) cds of
             None \<Rightarrow> None
           | Some (Inl e) \<Rightarrow> Some (Inl e)
           | Some (Inr kept) \<Rightarrow> Some (Inr (case c of None \<Rightarrow> kept | Some n \<Rightarrow> (i, n) # kept))))"

text \<open>An index with its kept children: unchanged when all are present, pruned otherwise.\<close>

definition finish_index ::
  "(bytes \<Rightarrow> 256 word) \<Rightarrow> da_json \<Rightarrow> Descriptor \<Rightarrow> bytes \<Rightarrow> Manifest \<Rightarrow> (nat \<times> anode) list \<Rightarrow> da_err + anode option"
where
  "finish_index sha J d body m kept =
     (if kept = [] then Inl (ErrNoChild (d_Digest d))
      else if length kept < length (ManifestChildren m) then
        (case pruneIndex J body kept of
           Inl e \<Rightarrow> Inl e
         | Inr pruned \<Rightarrow>
             (case ParseManifest (dj_manifest J) pruned of
                Inl e \<Rightarrow> Inl (ErrReparse (d_Digest d) e)
              | Inr m' \<Rightarrow>
                  Inr (Some (ANode (d\<lparr>d_Digest := DigestOfBytes sha pruned, d_Size := int (length pruned)\<rparr>)
                         pruned m' True (map snd kept)))))
      else Inr (Some (ANode d body m False (map snd kept))))"

fun resolve ::
  "(bytes \<Rightarrow> 256 word) \<Rightarrow> da_json \<Rightarrow> Archive \<Rightarrow> nat \<Rightarrow> Descriptor \<Rightarrow> (da_err + anode option) option" where
  "resolve sha J a 0 d = None"
| "resolve sha J a (Suc fuel) d =
     (if \<not> Has a (d_Digest d) then Some (Inr None)
      else case ReadBlob sha a (d_Digest d) of
        Inl e \<Rightarrow> Some (Inl e)
      | Inr body \<Rightarrow>
          (case ParseManifest (dj_manifest J) body of
             Inl e \<Rightarrow> Some (Inl (ErrManifest (d_Digest d) e))
           | Inr m \<Rightarrow>
               (let d = (if d_MediaType d = '''' then d\<lparr>d_MediaType := EffectiveMediaType m ''''\<rparr> else d) in
                if \<not> IsIndex m then
                  (let missing = filter (\<lambda>x. \<not> Has a x) (map d_Digest (BlobDescriptors m)) in
                   if missing \<noteq> [] then Some (Inl (ErrMissingBlobs (d_Digest d) missing))
                   else Some (Inr (Some (ANode d body m False []))))
                else case resolve_children (resolve sha J a fuel) 0 (ManifestChildren m) of
                  None \<Rightarrow> None
                | Some (Inl e) \<Rightarrow> Some (Inl e)
                | Some (Inr kept) \<Rightarrow> Some (finish_index sha J d body m kept))))"

section \<open>Collecting\<close>

definition add_blob :: "Archive \<Rightarrow> Plan \<Rightarrow> Descriptor \<Rightarrow> Plan" where
  "add_blob a p bd =
     (if d_Digest bd \<in> set (map pb_Digest (p_Blobs p)) then p
      else p\<lparr>p_Blobs := p_Blobs p @
               [\<lparr>pb_Digest = d_Digest bd, pb_Size = fst (Size a (d_Digest bd)), pb_MediaType = d_MediaType bd,
                 pb_Present = False\<rparr>]\<rparr>)"

definition add_manifest :: "anode \<Rightarrow> Plan \<Rightarrow> Plan" where
  "add_manifest n p =
     (if d_Digest (n_desc n) \<in> set (map pm_Digest (p_Manifests p)) then p
      else p\<lparr>p_Manifests := p_Manifests p @
               [\<lparr>pm_Digest = d_Digest (n_desc n), pm_MediaType = d_MediaType (n_desc n), pm_Body = n_body n,
                 pm_IsIndex = IsIndex (n_manifest n), pm_Synthesized = n_synthesized n,
                 pm_Attestation = IsAttestation (n_desc n)\<rparr>]\<rparr>)"

text \<open>walk: the children first, then the blobs, then the manifest; \<open>ms\<close> is e.Manifests.\<close>

fun walk :: "Archive \<Rightarrow> anode \<Rightarrow> Plan \<times> digest list \<Rightarrow> Plan \<times> digest list"
and walk_all :: "Archive \<Rightarrow> anode list \<Rightarrow> Plan \<times> digest list \<Rightarrow> Plan \<times> digest list" where
  "walk a (ANode d body m synth cs) pe =
     (case walk_all a cs pe of
        (p, ms) \<Rightarrow>
          (add_manifest (ANode d body m synth cs) (foldl (add_blob a) p (BlobDescriptors m)),
           ms @ [d_Digest d]))"
| "walk_all a [] pe = pe"
| "walk_all a (c # cs) pe = walk_all a cs (walk a c pe)"

definition add_entry :: "Archive \<Rightarrow> Plan \<Rightarrow> anode \<Rightarrow> Plan" where
  "add_entry a p r =
     (case walk a r (p, []) of
        (p, ms) \<Rightarrow>
          (let idx = IsIndex (n_manifest r);
               att = length (filter (\<lambda>c. IsAttestation (n_desc c)) (n_children r))
           in p\<lparr>p_Entries := p_Entries p @
                  [\<lparr>pe_Digest = d_Digest (n_desc r), pe_Names = [], pe_IsIndex = idx,
                    pe_Platforms = (if idx then length (n_children r) - att else 0),
                    pe_Attestations = (if idx then att else 0), pe_Manifests = ms\<rparr>]\<rparr>))"

section \<open>Names of the entries\<close>

definition appendName :: "Name list \<Rightarrow> Name \<Rightarrow> Name list" where
  "appendName names n = (if n \<in> set names then names else names @ [n])"

definition name_entry :: "PlanEntry list \<Rightarrow> nat \<Rightarrow> Name \<Rightarrow> PlanEntry list" where
  "name_entry es i n = es[i := (es ! i)\<lparr>pe_Names := appendName (pe_Names (es ! i)) n\<rparr>]"

fun override_loop :: "PlanEntry list \<Rightarrow> string list \<Rightarrow> da_err + PlanEntry list" where
  "override_loop es [] = Inr es"
| "override_loop es (s # ss) =
     (case ParseName s of
        Inl e \<Rightarrow> Inl e
      | Inr n \<Rightarrow> override_loop (name_entry es 0 n) ss)"

text \<open>The config digests of a tree, a node before its children, once for every occurrence.\<close>

fun node_configs :: "anode \<Rightarrow> digest list"
and nodes_configs :: "anode list \<Rightarrow> digest list" where
  "node_configs (ANode d body m synth cs) = map d_Digest (opt_list (m_Config m)) @ nodes_configs cs"
| "nodes_configs [] = []"
| "nodes_configs (c # cs) = node_configs c @ nodes_configs cs"

text \<open>configRoot d: the positions of the roots, appended once for every occurrence of the config.\<close>

definition configRoot :: "anode list \<Rightarrow> digest \<Rightarrow> nat list" where
  "configRoot roots d =
     concat (map (\<lambda>(i, r). replicate (count_list (node_configs r) d) i) (enumerate 0 roots))"

fun tags_loop :: "nat list \<Rightarrow> PlanEntry list \<Rightarrow> string list \<Rightarrow> da_err + PlanEntry list" where
  "tags_loop is es [] = Inr es"
| "tags_loop is es (tag # tags) =
     (case nameFromRepoTag tag of
        Inl e \<Rightarrow> Inl e
      | Inr None \<Rightarrow> tags_loop is es tags
      | Inr (Some n) \<Rightarrow> tags_loop is (foldl (\<lambda>es i. name_entry es i n) es is) tags)"

fun legacy_loop :: "anode list \<Rightarrow> PlanEntry list \<Rightarrow> LegacyEntry list \<Rightarrow> da_err + PlanEntry list" where
  "legacy_loop roots es [] = Inr es"
| "legacy_loop roots es (le # les) =
     (case ParseDigest (''sha256:'' @ TrimPrefix (le_Config le) blobPrefix) of
        Inl _ \<Rightarrow> Inl (ErrConfigPath (le_Config le))
      | Inr d \<Rightarrow>
          (let is = configRoot roots d in
           if is = [] then Inl (ErrConfigUnused d)
           else if length is > 1 then Inl (ErrSharedConfig d (length is))
           else case tags_loop is es (le_RepoTags le) of
             Inl e \<Rightarrow> Inl e
           | Inr es' \<Rightarrow> legacy_loop roots es' les))"

fun first_unnamed :: "nat \<Rightarrow> PlanEntry list \<Rightarrow> da_err option" where
  "first_unnamed i [] = None"
| "first_unnamed i (e # es) =
     (if pe_Names e = [] then Some (ErrNoRepoTags (pe_Digest e) i) else first_unnamed (Suc i) es)"

definition assignNames ::
  "Archive \<Rightarrow> anode list \<Rightarrow> string list \<Rightarrow> PlanEntry list \<Rightarrow> da_err + PlanEntry list" where
  "assignNames a roots override es =
     (if override \<noteq> [] then
        (if length es \<noteq> 1 then Inl (ErrOverrideCount (length es)) else override_loop es override)
      else case legacy_loop roots es (ar_Legacy a) of
        Inl e \<Rightarrow> Inl e
      | Inr es' \<Rightarrow> (case first_unnamed 0 es' of Some e \<Rightarrow> Inl e | None \<Rightarrow> Inr es'))"

section \<open>The plan\<close>

fun plan_roots ::
  "(Descriptor \<Rightarrow> (da_err + anode option) option) \<Rightarrow> nat \<Rightarrow> Descriptor list \<Rightarrow> anode list
     \<Rightarrow> (da_err + anode list) option" where
  "plan_roots res i [] roots = Some (Inr roots)"
| "plan_roots res i (d # ds) roots =
     (case res d of
        None \<Rightarrow> None
      | Some (Inl e) \<Rightarrow> Some (Inl e)
      | Some (Inr None) \<Rightarrow> Some (Inl (ErrEntryMissing i (d_Digest d)))
      | Some (Inr (Some n)) \<Rightarrow>
          plan_roots res (Suc i) ds
            (if d_Digest (n_desc n) \<in> set (map (\<lambda>r. d_Digest (n_desc r)) roots) then roots else roots @ [n]))"

fun mark_present :: "(digest \<Rightarrow> bool res) \<Rightarrow> PlanBlob list \<Rightarrow> da_err + PlanBlob list" where
  "mark_present f [] = Inr []"
| "mark_present f (b # bs) =
     (case f (pb_Digest b) of
        Inl e \<Rightarrow> Inl (ErrPresent (pb_Digest b) e)
      | Inr ok \<Rightarrow>
          (case mark_present f bs of Inl e \<Rightarrow> Inl e | Inr bs' \<Rightarrow> Inr (b\<lparr>pb_Present := ok\<rparr> # bs')))"

definition plan_rest :: "Archive \<Rightarrow> PlanOptions \<Rightarrow> anode list \<Rightarrow> da_err + Plan" where
  "plan_rest a opts roots =
     (let p = foldl (add_entry a) \<lparr>p_Blobs = [], p_Manifests = [], p_Entries = []\<rparr> roots in
      case assignNames a roots (po_Names opts) (p_Entries p) of
        Inl e \<Rightarrow> Inl e
      | Inr es \<Rightarrow>
          (case (case po_Present opts of None \<Rightarrow> Inr (p_Blobs p) | Some f \<Rightarrow> mark_present f (p_Blobs p)) of
             Inl e \<Rightarrow> Inl e
           | Inr bs \<Rightarrow> Inr (p\<lparr>p_Entries := es, p_Blobs := bs\<rparr>)))"

definition Archive_Plan ::
  "(bytes \<Rightarrow> 256 word) \<Rightarrow> da_json \<Rightarrow> Archive \<Rightarrow> PlanOptions \<Rightarrow> (da_err + Plan) option" where
  "Archive_Plan sha J a opts =
     (case plan_roots (resolve sha J a (Suc (length (ar_blobs a)))) 0 (ManifestChildren (ar_Index a)) [] of
        None \<Rightarrow> None
      | Some (Inl e) \<Rightarrow> Some (Inl e)
      | Some (Inr roots) \<Rightarrow> Some (plan_rest a opts roots))"

section \<open>Resolving returns\<close>

text \<open>\<open>names_child\<close> relates a digest to the indexes of the archive that list it.\<close>

definition names_child :: "(bytes \<Rightarrow> 256 word) \<Rightarrow> da_json \<Rightarrow> Archive \<Rightarrow> (digest \<times> digest) set" where
  "names_child sha J a =
     {(c, d). \<exists>body m. ReadBlob sha a d = Inr body \<and> ParseManifest (dj_manifest J) body = Inr m
        \<and> IsIndex m \<and> c \<in> d_Digest ` set (ManifestChildren m)}"

lemma resolve_children_total:
  "(\<And>cd. cd \<in> set cds \<Longrightarrow> rec cd \<noteq> None) \<Longrightarrow> resolve_children rec i cds \<noteq> None"
proof (induction cds arbitrary: i)
  case (Cons cd cds)
  have "resolve_children rec (Suc i) cds \<noteq> None" by (rule Cons.IH) (use Cons.prems in simp)
  with Cons.prems [of cd] show ?case by (auto split: option.splits sum.splits)
qed simp

lemma Has_iff: "Has a d \<longleftrightarrow> d \<in> fst ` set (ar_blobs a)"
  by (auto simp: Has_def map_of_eq_None_iff)

lemma resolve_fuel:
  assumes "acyclic (names_child sha J a)"
    and "\<And>s. s \<in> S \<Longrightarrow> (d_Digest d, s) \<in> (names_child sha J a)\<^sup>+"
    and "card (fst ` set (ar_blobs a) - S) < fuel"
  shows "resolve sha J a fuel d \<noteq> None"
  using assms(2,3)
proof (induction fuel arbitrary: d S)
  case (Suc fuel)
  let ?keys = "fst ` set (ar_blobs a)" and ?R = "names_child sha J a"
  have child: "resolve sha J a fuel cd \<noteq> None"
    if has: "Has a (d_Digest d)" and rd: "ReadBlob sha a (d_Digest d) = Inr body"
      "ParseManifest (dj_manifest J) body = Inr m" "IsIndex m" and cd: "cd \<in> set (ManifestChildren m)"
    for body m cd
  proof (rule Suc.IH)
    have e: "(d_Digest cd, d_Digest d) \<in> ?R" using rd cd by (auto simp: names_child_def)
    show "(d_Digest cd, s) \<in> ?R\<^sup>+" if "s \<in> insert (d_Digest d) S" for s
      using that e Suc.prems(1) by (auto intro: trancl_into_trancl2)
    have "d_Digest d \<in> ?keys - S" using has Suc.prems(1) assms(1) by (auto simp: Has_iff acyclic_def)
    then have "card (?keys - insert (d_Digest d) S) < card (?keys - S)"
      by (intro psubset_card_mono) auto
    with Suc.prems(2) show "card (?keys - insert (d_Digest d) S) < fuel" by simp
  qed
  show ?case
  proof
    assume none: "resolve sha J a (Suc fuel) d = None"
    then obtain body m where "Has a (d_Digest d)" "ReadBlob sha a (d_Digest d) = Inr body"
      "ParseManifest (dj_manifest J) body = Inr m" "IsIndex m"
      "resolve_children (resolve sha J a fuel) 0 (ManifestChildren m) = None"
      by (auto simp: Let_def split: if_splits sum.splits option.splits)
    with child resolve_children_total show False by metis
  qed
qed simp

lemma plan_roots_total: "(\<And>d. res d \<noteq> None) \<Longrightarrow> plan_roots res i ds roots \<noteq> None"
  by (induction ds arbitrary: i roots) (auto split: option.splits sum.splits)

text \<open>
  (C27) Planning an import ends: resolve follows digests from body to body, and unless some index lists
  itself, directly or through others, the depth of the recursion is bounded by the number of blobs in
  the archive, however often they share children.
\<close>

theorem Archive_Plan_returns:
  assumes "acyclic (names_child sha J a)"
  shows "\<exists>r. Archive_Plan sha J a opts = Some r"
proof -
  have "card (fst ` set (ar_blobs a)) < Suc (length (ar_blobs a))"
    using card_length [of "map fst (ar_blobs a)"] by simp
  then have "resolve sha J a (Suc (length (ar_blobs a))) d \<noteq> None" for d
    using resolve_fuel [OF assms, of "{}" d "Suc (length (ar_blobs a))"] by (simp del: resolve.simps)
  then have "plan_roots (resolve sha J a (Suc (length (ar_blobs a)))) 0 (ManifestChildren (ar_Index a)) [] \<noteq> None"
    by (intro plan_roots_total) simp
  then show ?thesis by (auto simp: Archive_Plan_def split: option.splits sum.splits)
qed

section \<open>What a plan keeps\<close>

definition blob_digests :: "Plan \<Rightarrow> digest set" where
  "blob_digests p = set (map pb_Digest (p_Blobs p))"

definition manifest_digests :: "Plan \<Rightarrow> digest set" where
  "manifest_digests p = set (map pm_Digest (p_Manifests p))"

text \<open>A plan grows: what is planned stays where it is.\<close>

definition plan_le :: "Plan \<Rightarrow> Plan \<Rightarrow> bool" where
  "plan_le p q \<longleftrightarrow>
     prefix (p_Blobs p) (p_Blobs q) \<and> prefix (p_Manifests p) (p_Manifests q) \<and> p_Entries p = p_Entries q"

lemma plan_le_refl [simp]: "plan_le p p" by (simp add: plan_le_def)

lemma plan_le_trans: "plan_le p q \<Longrightarrow> plan_le q r \<Longrightarrow> plan_le p r"
  by (auto simp: plan_le_def)

lemma plan_le_digests:
  assumes "plan_le p q"
  shows "blob_digests p \<subseteq> blob_digests q" "manifest_digests p \<subseteq> manifest_digests q"
  using assms by (auto simp: plan_le_def blob_digests_def manifest_digests_def prefix_def)

lemma add_blob_grows [simp]: "plan_le p (add_blob a p bd)"
  "blob_digests (add_blob a p bd) = insert (d_Digest bd) (blob_digests p)"
  "manifest_digests (add_blob a p bd) = manifest_digests p"
  by (auto simp: plan_le_def add_blob_def blob_digests_def manifest_digests_def)

lemma add_manifest_grows [simp]: "plan_le p (add_manifest n p)"
  "manifest_digests (add_manifest n p) = insert (d_Digest (n_desc n)) (manifest_digests p)"
  "blob_digests (add_manifest n p) = blob_digests p"
  by (auto simp: plan_le_def add_manifest_def blob_digests_def manifest_digests_def)

lemma add_blobs_grows:
  "plan_le p (foldl (add_blob a) p bds)"
  "blob_digests (foldl (add_blob a) p bds) = d_Digest ` set bds \<union> blob_digests p"
  "manifest_digests (foldl (add_blob a) p bds) = manifest_digests p"
  by (induction bds arbitrary: p) (auto intro: plan_le_trans [OF add_blob_grows(1)])

text \<open>A property of every node of a tree.\<close>

fun node_all :: "(anode \<Rightarrow> bool) \<Rightarrow> anode \<Rightarrow> bool" where
  "node_all P (ANode d body m synth cs) = (P (ANode d body m synth cs) \<and> list_all (node_all P) cs)"

text \<open>
  What a walk over \<open>ns\<close> does for an invariant: it keeps it, only adds to the plan, plans every node
  and lists digests that are planned.
\<close>

definition walked ::
  "(Plan \<Rightarrow> bool) \<Rightarrow> anode list \<Rightarrow> Plan \<times> digest list \<Rightarrow> Plan \<times> digest list \<Rightarrow> bool" where
  "walked P ns pe pe' \<longleftrightarrow>
     P (fst pe') \<and> plan_le (fst pe) (fst pe')
     \<and> (\<lambda>c. d_Digest (n_desc c)) ` set ns \<subseteq> manifest_digests (fst pe')
     \<and> (\<exists>xs. snd pe' = snd pe @ xs \<and> set xs \<subseteq> manifest_digests (fst pe'))"

text \<open>Every entry lists planned manifests and ends with its own.\<close>

definition entries_ok :: "Plan \<Rightarrow> bool" where
  "entries_ok p \<longleftrightarrow>
     list_all (\<lambda>e. pe_Manifests e \<noteq> [] \<and> last (pe_Manifests e) = pe_Digest e
                  \<and> set (pe_Manifests e) \<subseteq> manifest_digests p) (p_Entries p)"

text \<open>
  The contract of an invariant of collecting: it survives a new blob, and a new manifest whose
  children and blobs are already in the plan; names and presence play no part in it.
\<close>

locale plan_invariant =
  fixes a :: Archive and good :: "anode \<Rightarrow> bool" and inv :: "Plan \<Rightarrow> bool"
  assumes inv_blob: "inv p \<Longrightarrow> inv (add_blob a p bd)"
    and inv_manifest:
      "inv p \<Longrightarrow> good n \<Longrightarrow> (\<lambda>c. d_Digest (n_desc c)) ` set (n_children n) \<subseteq> manifest_digests p \<Longrightarrow>
       d_Digest ` set (BlobDescriptors (n_manifest n)) \<subseteq> blob_digests p \<Longrightarrow> inv (add_manifest n p)"
    and inv_entries: "inv (p\<lparr>p_Entries := es\<rparr>) = inv p"
    and inv_start: "inv \<lparr>p_Blobs = [], p_Manifests = [], p_Entries = []\<rparr>"
begin

lemma inv_blobs: "inv p \<Longrightarrow> inv (foldl (add_blob a) p bds)"
  by (induction bds arbitrary: p) (auto intro: inv_blob)

lemma walk_all_walked:
  assumes "\<And>n pe. n \<in> set ns \<Longrightarrow> inv (fst pe) \<Longrightarrow> walked inv [n] pe (walk a n pe)" "inv (fst pe)"
  shows "walked inv ns pe (walk_all a ns pe)"
  using assms
proof (induction ns arbitrary: pe)
  case (Cons n ns)
  have w1: "walked inv [n] pe (walk a n pe)" by (rule Cons.prems(1)) (use Cons.prems(2) in simp_all)
  then have w2: "walked inv ns (walk a n pe) (walk_all a ns (walk a n pe))"
    by (intro Cons.IH Cons.prems(1)) (auto simp: walked_def)
  with w1 plan_le_digests(2) [of "fst (walk a n pe)" "fst (walk_all a ns (walk a n pe))"] show ?case
    by (fastforce simp: walked_def intro: plan_le_trans)
qed (simp add: walked_def)

lemma walk_walked: "node_all good n \<Longrightarrow> inv (fst pe) \<Longrightarrow> walked inv [n] pe (walk a n pe)"
proof (induction n arbitrary: pe)
  case (ANode d body m synth cs)
  let ?n = "ANode d body m synth cs"
  obtain p ms where pm: "walk_all a cs pe = (p, ms)" by fastforce
  have w: "walked inv cs pe (p, ms)"
    unfolding pm [symmetric] by (rule walk_all_walked) (use ANode in \<open>auto simp: list_all_iff\<close>)
  define p1 where "p1 = foldl (add_blob a) p (BlobDescriptors m)"
  have p1: "plan_le p p1" "inv p1" "manifest_digests p1 = manifest_digests p"
    "d_Digest ` set (BlobDescriptors m) \<subseteq> blob_digests p1"
    using w by (auto simp: p1_def add_blobs_grows walked_def intro: inv_blobs)
  have "inv (add_manifest ?n p1)"
    by (rule inv_manifest) (use ANode.prems p1 w in \<open>auto simp: walked_def\<close>)
  moreover have "walk a ?n pe = (add_manifest ?n p1, ms @ [d_Digest d])"
    by (simp add: pm p1_def)
  moreover have "plan_le (fst pe) (add_manifest ?n p1)"
    using w p1(1) plan_le_trans add_manifest_grows(1) unfolding walked_def by (metis fst_conv)
  ultimately show ?case
    using w p1(3) by (auto simp: walked_def)
qed

lemma add_entry_inv:
  assumes "node_all good r" "inv p"
  obtains q e where "add_entry a p r = q\<lparr>p_Entries := p_Entries p @ [e]\<rparr>" "inv q" "plan_le p q"
    "pe_Digest e = d_Digest (n_desc r)" "pe_Names e = []" "pe_Manifests e \<noteq> []"
    "last (pe_Manifests e) = pe_Digest e" "set (pe_Manifests e) \<subseteq> manifest_digests q"
proof -
  obtain q ms where w: "walk a r (p, []) = (q, ms)" by fastforce
  have wk: "walked inv [r] (p, []) (q, ms)" using walk_walked [of r "(p, [])"] assms w by simp
  have "ms \<noteq> [] \<and> last ms = d_Digest (n_desc r)"
    using w by (cases r) (auto split: prod.splits)
  moreover have "p_Entries q = p_Entries p" using wk by (simp add: walked_def plan_le_def)
  ultimately obtain e where "add_entry a p r = q\<lparr>p_Entries := p_Entries p @ [e]\<rparr>"
    "pe_Digest e = d_Digest (n_desc r)" "pe_Names e = []" "pe_Manifests e = ms" "ms \<noteq> []"
    "last ms = pe_Digest e"
    using w by (simp add: add_entry_def Let_def)
  then show ?thesis using that wk by (auto simp: walked_def)
qed

text \<open>The invariant and the form of the entries, for the whole plan.\<close>

lemma entries_inv:
  "list_all (node_all good) roots \<Longrightarrow> inv p \<Longrightarrow> entries_ok p \<Longrightarrow>
   inv (foldl (add_entry a) p roots) \<and> entries_ok (foldl (add_entry a) p roots)
   \<and> map pe_Digest (p_Entries (foldl (add_entry a) p roots)) =
       map pe_Digest (p_Entries p) @ map (\<lambda>r. d_Digest (n_desc r)) roots"
proof (induction roots arbitrary: p)
  case (Cons r roots)
  then have "node_all good r" by simp
  from add_entry_inv [OF this Cons.prems(2)] obtain q e where
    q: "add_entry a p r = q\<lparr>p_Entries := p_Entries p @ [e]\<rparr>" "inv q" "plan_le p q"
    "pe_Digest e = d_Digest (n_desc r)" "pe_Manifests e \<noteq> []"
    "last (pe_Manifests e) = pe_Digest e" "set (pe_Manifests e) \<subseteq> manifest_digests q" by metis
  have "entries_ok (add_entry a p r)"
  proof -
    have "manifest_digests (add_entry a p r) = manifest_digests q" by (simp add: q(1) manifest_digests_def)
    then show ?thesis
      using Cons.prems(3) q plan_le_digests(2) [OF q(3)] by (fastforce simp: entries_ok_def list_all_iff)
  qed
  then show ?case
    using Cons.IH [of "add_entry a p r"] Cons.prems q by (simp add: inv_entries)
qed simp

end

section \<open>Nodes of the archive\<close>

text \<open>
  What resolve establishes for a node: its body parses to its manifest and has its digest, and the blobs
  of a manifest that was not rewritten are in the archive.
\<close>

definition node_ok :: "(bytes \<Rightarrow> 256 word) \<Rightarrow> da_json \<Rightarrow> Archive \<Rightarrow> anode \<Rightarrow> bool" where
  "node_ok sha J a n \<longleftrightarrow>
     ParseManifest (dj_manifest J) (n_body n) = Inr (n_manifest n)
     \<and> DigestOfBytes sha (n_body n) = d_Digest (n_desc n)
     \<and> (\<not> n_synthesized n \<longrightarrow>
          ReadBlob sha a (d_Digest (n_desc n)) = Inr (n_body n)
          \<and> (\<forall>bd \<in> set (BlobDescriptors (n_manifest n)). Has a (d_Digest bd)))"

lemma ReadBlob_digest: "ReadBlob sha a d = Inr b \<Longrightarrow> DigestOfBytes sha b = d"
  by (auto simp: ReadBlob_def split: sum.splits prod.splits option.splits if_splits)

lemma BlobDescriptors_index: "IsIndex m \<Longrightarrow> BlobDescriptors m = []"
  by (simp add: BlobDescriptors_def)

text \<open>The kept children are the resolved ones, in order, at increasing positions.\<close>

lemma resolve_children_kept:
  "resolve_children rec i cds = Some (Inr kept) \<Longrightarrow>
   map snd kept = List.map_filter (\<lambda>cd. case rec cd of Some (Inr n) \<Rightarrow> n | _ \<Rightarrow> None) cds
   \<and> (\<forall>cd \<in> set cds. \<exists>n. rec cd = Some (Inr n))"
  by (induction cds arbitrary: i kept)
    (auto simp: List.map_filter_simps split: option.splits sum.splits)

lemma finish_index_Inr:
  assumes "finish_index sha J d body m kept = Inr (Some n)"
  shows "n_children n = map snd kept"
    and "\<not> n_synthesized n \<Longrightarrow> n_desc n = d \<and> n_body n = body \<and> n_manifest n = m
           \<and> length kept \<ge> length (ManifestChildren m)"
    and "n_synthesized n \<Longrightarrow> DigestOfBytes sha (n_body n) = d_Digest (n_desc n)
           \<and> ParseManifest (dj_manifest J) (n_body n) = Inr (n_manifest n)"
  using assms by (auto simp: finish_index_def split: if_splits sum.splits)

lemma finish_index_Some: "finish_index sha J d body m kept \<noteq> Inr None"
  by (auto simp: finish_index_def split: if_splits sum.splits)

lemma resolve_ok: "resolve sha J a fuel d = Some (Inr (Some n)) \<Longrightarrow> node_all (node_ok sha J a) n"
proof (induction fuel arbitrary: d n)
  case (Suc fuel)
  let ?d = "\<lambda>m. if d_MediaType d = '''' then d\<lparr>d_MediaType := EffectiveMediaType m ''''\<rparr> else d"
  from Suc.prems obtain body m where rd: "ReadBlob sha a (d_Digest d) = Inr body"
    "ParseManifest (dj_manifest J) body = Inr m"
    by (auto simp: Let_def split: if_splits sum.splits)
  have dg: "d_Digest (?d m) = d_Digest d" by simp
  show ?case
  proof (cases "IsIndex m")
    case False
    then have "n = ANode (?d m) body m False []" "\<forall>bd \<in> set (BlobDescriptors m). Has a (d_Digest bd)"
      using Suc.prems rd by (auto simp: Let_def filter_empty_conv split: if_splits)
    then show ?thesis using rd dg ReadBlob_digest [OF rd(1)] by (simp add: node_ok_def)
  next
    case True
    then obtain kept where k: "resolve_children (resolve sha J a fuel) 0 (ManifestChildren m) = Some (Inr kept)"
      "finish_index sha J (?d m) body m kept = Inr (Some n)"
      using Suc.prems rd by (auto simp: Let_def split: if_splits option.splits sum.splits)
    note n = finish_index_Inr [OF k(2)]
    have "list_all (node_all (node_ok sha J a)) (n_children n)"
      using resolve_children_kept [OF k(1)] Suc.IH
      by (auto simp: n(1) list_all_iff List.map_filter_def split: option.splits sum.splits)
    moreover have "node_ok sha J a n"
      using n(2,3) rd dg ReadBlob_digest [OF rd(1)] True
      by (cases "n_synthesized n") (auto simp: node_ok_def BlobDescriptors_index)
    ultimately show ?thesis by (cases n) simp
  qed
qed simp

lemma plan_roots_all:
  assumes "\<And>d n. d \<in> set ds \<Longrightarrow> res d = Some (Inr (Some n)) \<Longrightarrow> P n"
  shows "plan_roots res i ds roots = Some (Inr roots') \<Longrightarrow> list_all P roots \<Longrightarrow>
    distinct (map (\<lambda>r. d_Digest (n_desc r)) roots) \<Longrightarrow>
    list_all P roots' \<and> distinct (map (\<lambda>r. d_Digest (n_desc r)) roots')"
  using assms
  by (induction res i ds roots rule: plan_roots.induct)
    (auto split: option.splits sum.splits if_splits)

section \<open>Names of entries\<close>

definition valid_name :: "Name \<Rightarrow> bool" where
  "valid_name n \<longleftrightarrow> ValidateRepository (nm_Repo n) = None \<and> ValidateTag (nm_Tag n) = None"

definition names_ok :: "PlanEntry \<Rightarrow> bool" where
  "names_ok e \<longleftrightarrow> distinct (pe_Names e) \<and> list_all valid_name (pe_Names e)"

definition unnamed :: "PlanEntry list \<Rightarrow> PlanEntry list" where
  "unnamed es = map (\<lambda>e. e\<lparr>pe_Names := []\<rparr>) es"

lemma length_unnamed: "unnamed es = unnamed es' \<Longrightarrow> length es = length es'"
  unfolding unnamed_def by (metis length_map)

lemma ParseName_valid: "ParseName s = Inr n \<Longrightarrow> valid_name n"
  by (auto simp: ParseName_def valid_name_def Let_def split: prod.splits if_splits option.splits)

lemma nameFromRepoTag_valid: "nameFromRepoTag s = Inr (Some n) \<Longrightarrow> valid_name n"
  by (auto simp: nameFromRepoTag_def valid_name_def Let_def split: prod.splits if_splits option.splits)

lemma name_entry_ok:
  assumes "valid_name n" "list_all names_ok es"
  shows "list_all names_ok (name_entry es i n)" "unnamed (name_entry es i n) = unnamed es"
proof -
  show "unnamed (name_entry es i n) = unnamed es"
  proof (cases "i < length es")
    case True
    then have "unnamed es = (unnamed es)[i := (es ! i)\<lparr>pe_Names := []\<rparr>]"
      by (metis (no_types, lifting) list_update_id nth_map unnamed_def)
    then show ?thesis by (simp add: name_entry_def unnamed_def map_update)
  qed (simp add: name_entry_def list_update_beyond)
  show "list_all names_ok (name_entry es i n)"
  proof (cases "i < length es")
    case True
    then have "names_ok (es ! i)" using assms(2) by (simp add: list_all_length)
    then have "names_ok ((es ! i)\<lparr>pe_Names := appendName (pe_Names (es ! i)) n\<rparr>)"
      using assms(1) by (auto simp: names_ok_def appendName_def)
    then show ?thesis using assms(2) True by (simp add: name_entry_def list_all_length nth_list_update)
  qed (use assms in \<open>simp add: name_entry_def list_update_beyond\<close>)
qed

lemma override_loop_ok:
  "override_loop es ss = Inr es' \<Longrightarrow> list_all names_ok es \<Longrightarrow>
   list_all names_ok es' \<and> unnamed es' = unnamed es"
  by (induction es ss rule: override_loop.induct)
    (auto split: sum.splits dest: ParseName_valid simp: name_entry_ok)

lemma override_loop_named:
  "override_loop es ss = Inr es' \<Longrightarrow> es \<noteq> [] \<Longrightarrow> ss \<noteq> [] \<or> pe_Names (es ! 0) \<noteq> [] \<Longrightarrow> pe_Names (es' ! 0) \<noteq> []"
proof (induction es ss rule: override_loop.induct)
  case (2 es s ss)
  then obtain n where n: "ParseName s = Inr n" "override_loop (name_entry es 0 n) ss = Inr es'"
    by (auto split: sum.splits)
  have "pe_Names (name_entry es 0 n ! 0) \<noteq> []" "name_entry es 0 n \<noteq> []"
    using "2.prems"(2) by (auto simp: name_entry_def appendName_def)
  with 2(1) [OF n] show ?case by blast
qed simp

lemma tags_loop_ok:
  "tags_loop is es tags = Inr es' \<Longrightarrow> list_all names_ok es \<Longrightarrow>
   list_all names_ok es' \<and> unnamed es' = unnamed es"
proof (induction "is" es tags rule: tags_loop.induct)
  case (2 "is" es tag tags)
  have f: "list_all names_ok (foldl (\<lambda>es i. name_entry es i n) es is)
      \<and> unnamed (foldl (\<lambda>es i. name_entry es i n) es is) = unnamed es"
    if "valid_name n" "list_all names_ok es" for n es
    using that by (induction "is" arbitrary: es) (auto simp: name_entry_ok)
  from 2 f show ?case by (auto split: sum.splits option.splits dest: nameFromRepoTag_valid)
qed simp

lemma legacy_loop_ok:
  "legacy_loop roots es les = Inr es' \<Longrightarrow> list_all names_ok es \<Longrightarrow>
   list_all names_ok es' \<and> unnamed es' = unnamed es"
proof (induction roots es les rule: legacy_loop.induct)
  case (2 roots es le les)
  let ?dg = "ParseDigest (''sha256:'' @ TrimPrefix (le_Config le) blobPrefix)"
  from 2(2) obtain d es1 where d: "?dg = Inr d" "configRoot roots d \<noteq> []" "\<not> length (configRoot roots d) > 1"
    and t: "tags_loop (configRoot roots d) es (le_RepoTags le) = Inr es1" "legacy_loop roots es1 les = Inr es'"
    by (auto simp: Let_def split: sum.splits if_splits)
  note ok = tags_loop_ok [OF t(1) 2(3)]
  show ?case using 2(1) [OF d(1) refl d(2,3) t] ok by simp
qed simp

lemma first_unnamed_None: "first_unnamed i es = None \<longleftrightarrow> list_all (\<lambda>e. pe_Names e \<noteq> []) es"
  by (induction es arbitrary: i) auto

lemma assignNames_ok:
  assumes "assignNames a roots override es = Inr es'" "list_all names_ok es"
  shows "list_all names_ok es' \<and> unnamed es' = unnamed es \<and> list_all (\<lambda>e. pe_Names e \<noteq> []) es'"
proof (cases "override = []")
  case True
  then show ?thesis
    using assms legacy_loop_ok [of roots es "ar_Legacy a"]
    by (auto simp: assignNames_def first_unnamed_None split: sum.splits option.splits)
next
  case False
  then have o: "length es = 1" "override_loop es override = Inr es'"
    using assms(1) by (auto simp: assignNames_def split: if_splits)
  note ok = override_loop_ok [OF o(2) assms(2)]
  have "length es' = 1" using length_unnamed ok o(1) by metis
  moreover have "pe_Names (es' ! 0) \<noteq> []"
    using override_loop_named [OF o(2)] o(1) False by fastforce
  ultimately have "list_all (\<lambda>e. pe_Names e \<noteq> []) es'" by (cases es') auto
  with ok show ?thesis by blast
qed

section \<open>A plan is sound\<close>

text \<open>What every planned manifest is: its body has its digest, parses, and its blobs are planned.\<close>

definition manifest_sound ::
  "(bytes \<Rightarrow> 256 word) \<Rightarrow> da_json \<Rightarrow> Archive \<Rightarrow> digest set \<Rightarrow> PlanManifest \<Rightarrow> bool" where
  "manifest_sound sha J a blobs pm \<longleftrightarrow>
     DigestOfBytes sha (pm_Body pm) = pm_Digest pm
     \<and> (\<exists>m. ParseManifest (dj_manifest J) (pm_Body pm) = Inr m \<and> pm_IsIndex pm = IsIndex m
          \<and> d_Digest ` set (BlobDescriptors m) \<subseteq> blobs
          \<and> (\<not> pm_Synthesized pm \<longrightarrow> ReadBlob sha a (pm_Digest pm) = Inr (pm_Body pm)
               \<and> (\<forall>bd \<in> set (BlobDescriptors m). Has a (d_Digest bd))))"

definition sound_inv :: "(bytes \<Rightarrow> 256 word) \<Rightarrow> da_json \<Rightarrow> Archive \<Rightarrow> Plan \<Rightarrow> bool" where
  "sound_inv sha J a p \<longleftrightarrow>
     distinct (map pb_Digest (p_Blobs p)) \<and> distinct (map pm_Digest (p_Manifests p))
     \<and> list_all (\<lambda>b. pb_Size b = fst (Size a (pb_Digest b))) (p_Blobs p)
     \<and> list_all (manifest_sound sha J a (blob_digests p)) (p_Manifests p)"

lemma manifest_sound_more: "manifest_sound sha J a B pm \<Longrightarrow> B \<subseteq> B' \<Longrightarrow> manifest_sound sha J a B' pm"
  by (auto simp: manifest_sound_def)

interpretation sound: plan_invariant a "node_ok sha J a" "sound_inv sha J a" for sha J a
proof
  fix p bd
  assume "sound_inv sha J a p"
  moreover have "blob_digests p \<subseteq> blob_digests (add_blob a p bd)" by auto
  ultimately show "sound_inv sha J a (add_blob a p bd)"
    using manifest_sound_more
    by (auto simp: sound_inv_def add_blob_def list_all_iff)
next
  fix p n
  assume i: "sound_inv sha J a p" and n: "node_ok sha J a n"
    and b: "d_Digest ` set (BlobDescriptors (n_manifest n)) \<subseteq> blob_digests p"
  have m: "manifest_sound sha J a (blob_digests p)
      \<lparr>pm_Digest = d_Digest (n_desc n), pm_MediaType = d_MediaType (n_desc n), pm_Body = n_body n,
       pm_IsIndex = IsIndex (n_manifest n), pm_Synthesized = n_synthesized n,
       pm_Attestation = IsAttestation (n_desc n)\<rparr>"
    using n b by (auto simp: manifest_sound_def node_ok_def)
  then show "sound_inv sha J a (add_manifest n p)"
    using i by (simp add: sound_inv_def) (auto simp: add_manifest_def)
qed (auto simp: sound_inv_def blob_digests_def)

lemma mark_present_keeps:
  "mark_present f bs = Inr bs' \<Longrightarrow>
   map (\<lambda>b. (pb_Digest b, pb_Size b, pb_MediaType b)) bs' = map (\<lambda>b. (pb_Digest b, pb_Size b, pb_MediaType b)) bs
   \<and> list_all (\<lambda>b. f (pb_Digest b) = Inr (pb_Present b)) bs'"
  by (induction f bs arbitrary: bs' rule: mark_present.induct) (auto split: sum.splits)

lemma Archive_Plan_Inr:
  assumes "Archive_Plan sha J a opts = Some (Inr p)"
  obtains roots p0 where
    "plan_roots (resolve sha J a (Suc (length (ar_blobs a)))) 0 (ManifestChildren (ar_Index a)) [] = Some (Inr roots)"
    "p0 = foldl (add_entry a) \<lparr>p_Blobs = [], p_Manifests = [], p_Entries = []\<rparr> roots"
    "assignNames a roots (po_Names opts) (p_Entries p0) = Inr (p_Entries p)"
    "p_Manifests p = p_Manifests p0"
    "map (\<lambda>b. (pb_Digest b, pb_Size b, pb_MediaType b)) (p_Blobs p) =
       map (\<lambda>b. (pb_Digest b, pb_Size b, pb_MediaType b)) (p_Blobs p0)"
    "case po_Present opts of None \<Rightarrow> p_Blobs p = p_Blobs p0
     | Some f \<Rightarrow> list_all (\<lambda>b. f (pb_Digest b) = Inr (pb_Present b)) (p_Blobs p)"
proof -
  from assms obtain roots where
    r: "plan_roots (resolve sha J a (Suc (length (ar_blobs a)))) 0 (ManifestChildren (ar_Index a)) [] = Some (Inr roots)"
    and p: "plan_rest a opts roots = Inr p"
    by (auto simp: Archive_Plan_def simp del: resolve.simps split: option.splits sum.splits)
  show ?thesis
    by (rule that [OF r refl])
      (use p mark_present_keeps in \<open>auto simp: plan_rest_def Let_def split: sum.splits option.splits\<close>)
qed

lemma blobs_fields:
  assumes "map (\<lambda>b. (pb_Digest b, pb_Size b, pb_MediaType b)) bs = map (\<lambda>b. (pb_Digest b, pb_Size b, pb_MediaType b)) bs'"
  shows "map pb_Digest bs = map pb_Digest bs'" "map pb_Size bs = map pb_Size bs'"
  using arg_cong [OF assms, of "map fst"] arg_cong [OF assms, of "map (fst \<circ> snd)"] by (simp_all add: comp_def)

lemma sound_inv_cong:
  assumes "map pb_Digest (p_Blobs p) = map pb_Digest (p_Blobs q)" "map pb_Size (p_Blobs p) = map pb_Size (p_Blobs q)"
    "p_Manifests p = p_Manifests q"
  shows "sound_inv sha J a p = sound_inv sha J a q"
proof -
  have l: "length (p_Blobs p) = length (p_Blobs q)" using assms(1) by (metis length_map)
  have "pb_Digest (p_Blobs p ! i) = pb_Digest (p_Blobs q ! i)" "pb_Size (p_Blobs p ! i) = pb_Size (p_Blobs q ! i)"
    if "i < length (p_Blobs q)" for i
    using that assms(1,2) l by (metis nth_map)+
  then show ?thesis
    using assms l by (simp add: sound_inv_def blob_digests_def list_all_length)
qed

text \<open>Without an invariant the contract says that collecting only adds to the plan.\<close>

interpretation grow: plan_invariant a "\<lambda>_. True" "\<lambda>_. True" for a
  by unfold_locales simp_all

lemma add_entry_unnamed:
  assumes "list_all (\<lambda>e. pe_Names e = []) (p_Entries p)"
  shows "list_all (\<lambda>e. pe_Names e = []) (p_Entries (add_entry a p r))"
proof -
  have "node_all (\<lambda>_. True) r" by (induction r) (simp add: list_all_iff)
  from grow.add_entry_inv [OF this] obtain q e where
    "add_entry a p r = q\<lparr>p_Entries := p_Entries p @ [e]\<rparr>" "pe_Names e = []" by blast
  then show ?thesis using assms by simp
qed

lemma entries_unnamed:
  "list_all (\<lambda>e. pe_Names e = []) (p_Entries p) \<Longrightarrow>
   list_all (\<lambda>e. pe_Names e = []) (p_Entries (foldl (add_entry a) p roots))"
  by (induction roots arbitrary: p) (simp_all add: add_entry_unnamed)

lemma Archive_Plan_entries:
  assumes "Archive_Plan sha J a opts = Some (Inr p)"
  shows "sound_inv sha J a p" "entries_ok p" "distinct (map pe_Digest (p_Entries p))"
    "list_all (\<lambda>e. pe_Names e \<noteq> [] \<and> names_ok e) (p_Entries p)"
proof -
  from assms obtain roots p0 where
    r: "plan_roots (resolve sha J a (Suc (length (ar_blobs a)))) 0 (ManifestChildren (ar_Index a)) [] = Some (Inr roots)"
    and p0: "p0 = foldl (add_entry a) \<lparr>p_Blobs = [], p_Manifests = [], p_Entries = []\<rparr> roots"
    and n: "assignNames a roots (po_Names opts) (p_Entries p0) = Inr (p_Entries p)"
    and m: "p_Manifests p = p_Manifests p0"
    and b: "map (\<lambda>b. (pb_Digest b, pb_Size b, pb_MediaType b)) (p_Blobs p) =
       map (\<lambda>b. (pb_Digest b, pb_Size b, pb_MediaType b)) (p_Blobs p0)"
    by (rule Archive_Plan_Inr)
  have roots: "list_all (node_all (node_ok sha J a)) roots \<and> distinct (map (\<lambda>r. d_Digest (n_desc r)) roots)"
    using plan_roots_all [OF _ r, of "node_all (node_ok sha J a)"] resolve_ok by (simp del: resolve.simps)
  have i: "sound_inv sha J a p0 \<and> entries_ok p0
      \<and> map pe_Digest (p_Entries p0) = map (\<lambda>r. d_Digest (n_desc r)) roots"
    using sound.entries_inv [of sha J a roots "\<lparr>p_Blobs = [], p_Manifests = [], p_Entries = []\<rparr>"] roots
      sound.inv_start p0 by (simp add: entries_ok_def)
  then show "sound_inv sha J a p" using sound_inv_cong [OF blobs_fields [OF b] m] by simp
  have names0: "list_all (\<lambda>e. pe_Names e = []) (p_Entries p0)"
    unfolding p0 by (rule entries_unnamed) simp
  then have "list_all names_ok (p_Entries p0)" by (auto simp: list_all_iff names_ok_def)
  note nm = assignNames_ok [OF n this]
  then show "list_all (\<lambda>e. pe_Names e \<noteq> [] \<and> names_ok e) (p_Entries p)" by (simp add: list_all_iff)
  have same: "map pe_Digest (p_Entries p) = map pe_Digest (p_Entries p0)"
    "map pe_Manifests (p_Entries p) = map pe_Manifests (p_Entries p0)"
  proof -
    have u: "unnamed (p_Entries p) = unnamed (p_Entries p0)" using nm by blast
    show "map pe_Digest (p_Entries p) = map pe_Digest (p_Entries p0)"
      using arg_cong [OF u, of "map pe_Digest"] by (simp add: unnamed_def comp_def)
    show "map pe_Manifests (p_Entries p) = map pe_Manifests (p_Entries p0)"
      using arg_cong [OF u, of "map pe_Manifests"] by (simp add: unnamed_def comp_def)
  qed
  then show "distinct (map pe_Digest (p_Entries p))" using i roots by simp
  have e: "entries_ok q \<longleftrightarrow> list_all (\<lambda>(d, ms). ms \<noteq> [] \<and> last ms = d \<and> set ms \<subseteq> manifest_digests q)
      (zip (map pe_Digest (p_Entries q)) (map pe_Manifests (p_Entries q)))" for q
    by (simp add: entries_ok_def list_all_length)
  have "entries_ok p0" using i by blast
  then show "entries_ok p" unfolding e same manifest_digests_def m .
qed

end
