(* ===== verification/Docker_Props.thy ===== *)
theory Docker_Props
  imports Docker_Plan
begin

text \<open>
  What a plan promises to the import: everything it names can be read and has its digest, children are
  published before the indexes that list them, every image has a valid name; and two archives the plan
  does not treat as its comments say.
\<close>

section \<open>Children first\<close>

text \<open>
  A set of digests of the archive with, for every manifest in it, the children it lists; an archive is
  complete when such a set holds the images of its index.
\<close>

definition closed_set :: "(bytes \<Rightarrow> 256 word) \<Rightarrow> da_json \<Rightarrow> Archive \<Rightarrow> digest set \<Rightarrow> bool" where
  "closed_set sha J a S \<longleftrightarrow>
     (\<forall>d \<in> S. Has a d
        \<and> (\<forall>body m. ReadBlob sha a d = Inr body \<longrightarrow> ParseManifest (dj_manifest J) body = Inr m \<longrightarrow>
              d_Digest ` set (ManifestChildren m) \<subseteq> S))"

definition archive_complete :: "(bytes \<Rightarrow> 256 word) \<Rightarrow> da_json \<Rightarrow> Archive \<Rightarrow> bool" where
  "archive_complete sha J a \<longleftrightarrow>
     (\<exists>S. closed_set sha J a S \<and> d_Digest ` set (ManifestChildren (ar_Index a)) \<subseteq> S)"

text \<open>A node whose manifest lists exactly its children.\<close>

definition node_whole :: "da_json \<Rightarrow> anode \<Rightarrow> bool" where
  "node_whole J n \<longleftrightarrow>
     ParseManifest (dj_manifest J) (n_body n) = Inr (n_manifest n) \<and> \<not> n_synthesized n
     \<and> (IsIndex (n_manifest n) \<longrightarrow>
          map d_Digest (ManifestChildren (n_manifest n)) = map (\<lambda>c. d_Digest (n_desc c)) (n_children n))"

lemma resolve_None: "resolve sha J a fuel d = Some (Inr None) \<Longrightarrow> \<not> Has a (d_Digest d)"
  using finish_index_Some
  by (cases fuel) (auto simp: Let_def split: if_splits sum.splits option.splits)

lemma resolve_children_whole:
  "resolve_children rec i cds = Some (Inr kept) \<Longrightarrow>
   (\<And>cd n. cd \<in> set cds \<Longrightarrow> rec cd = Some (Inr n) \<Longrightarrow> \<exists>c. n = Some c \<and> d_Digest (n_desc c) = d_Digest cd) \<Longrightarrow>
   map (\<lambda>c. d_Digest (n_desc c)) (map snd kept) = map d_Digest cds"
proof (induction cds arbitrary: i kept)
  case (Cons cd cds)
  then obtain n kept' where n: "rec cd = Some (Inr n)" "resolve_children rec (Suc i) cds = Some (Inr kept')"
    "kept = (case n of None \<Rightarrow> kept' | Some c \<Rightarrow> (i, c) # kept')"
    by (auto split: option.splits sum.splits)
  have "map (\<lambda>c. d_Digest (n_desc c)) (map snd kept') = map d_Digest cds"
    by (rule Cons.IH [OF n(2)]) (use Cons.prems(2) in auto)
  with n Cons.prems(2) [of cd n] show ?case by auto
qed simp

lemma resolve_whole:
  assumes "closed_set sha J a S"
  shows "resolve sha J a fuel d = Some (Inr (Some n)) \<Longrightarrow> d_Digest d \<in> S \<Longrightarrow>
    node_all (node_whole J) n \<and> d_Digest (n_desc n) = d_Digest d"
proof (induction fuel arbitrary: d n)
  case (Suc fuel)
  let ?d = "\<lambda>m. if d_MediaType d = '''' then d\<lparr>d_MediaType := EffectiveMediaType m ''''\<rparr> else d"
  from Suc.prems obtain body m where rd: "Has a (d_Digest d)" "ReadBlob sha a (d_Digest d) = Inr body"
    "ParseManifest (dj_manifest J) body = Inr m"
    by (auto simp: Let_def split: if_splits sum.splits)
  show ?case
  proof (cases "IsIndex m")
    case False
    then have "n = ANode (?d m) body m False []"
      using Suc.prems rd by (auto simp: Let_def split: if_splits)
    then show ?thesis using rd False by (simp add: node_whole_def)
  next
    case True
    then obtain kept where k: "resolve_children (resolve sha J a fuel) 0 (ManifestChildren m) = Some (Inr kept)"
      "finish_index sha J (?d m) body m kept = Inr (Some n)"
      using Suc.prems rd by (auto simp: Let_def split: if_splits option.splits sum.splits)
    have inS: "d_Digest c \<in> S" if "c \<in> set (ManifestChildren m)" for c
      using assms Suc.prems(2) rd(2,3) that unfolding closed_set_def by blast
    then have here: "Has a (d_Digest c)" if "c \<in> set (ManifestChildren m)" for c
      using assms that unfolding closed_set_def by blast
    have children: "map (\<lambda>c. d_Digest (n_desc c)) (map snd kept) = map d_Digest (ManifestChildren m)"
    proof (rule resolve_children_whole [OF k(1)])
      fix cd r assume "cd \<in> set (ManifestChildren m)" "resolve sha J a fuel cd = Some (Inr r)"
      then show "\<exists>c. r = Some c \<and> d_Digest (n_desc c) = d_Digest cd"
        using here inS resolve_None Suc.IH by (cases r) blast+
    qed
    then have "length kept = length (ManifestChildren m)" by (metis length_map)
    then have n: "n = ANode (?d m) body m False (map snd kept)"
      using k(2) by (auto simp: finish_index_def split: if_splits)
    have "list_all (node_all (node_whole J)) (map snd kept)"
      using resolve_children_kept [OF k(1)] Suc.IH inS
      by (auto simp: list_all_iff List.map_filter_def split: option.splits sum.splits)
    moreover have "node_whole J n" using n rd children by (simp add: node_whole_def)
    ultimately show ?thesis using n by simp
  qed
qed simp

lemma planned_whole:
  assumes "archive_complete sha J a"
    and "plan_roots (resolve sha J a fuel) 0 (ManifestChildren (ar_Index a)) [] = Some (Inr roots)"
  shows "list_all (node_all (node_whole J)) roots"
proof -
  obtain S where S: "closed_set sha J a S" "d_Digest ` set (ManifestChildren (ar_Index a)) \<subseteq> S"
    using assms(1) by (auto simp: archive_complete_def)
  have "node_all (node_whole J) n"
    if "d \<in> set (ManifestChildren (ar_Index a))" "resolve sha J a fuel d = Some (Inr (Some n))" for d n
    using resolve_whole [OF S(1) that(2)] S(2) that(1) by auto
  from plan_roots_all [OF this assms(2)] show ?thesis by simp
qed

definition first_inv :: "da_json \<Rightarrow> Plan \<Rightarrow> bool" where
  "first_inv J p \<longleftrightarrow>
     (\<forall>before pm after m. p_Manifests p = before @ pm # after \<longrightarrow>
        ParseManifest (dj_manifest J) (pm_Body pm) = Inr m \<longrightarrow> IsIndex m \<longrightarrow>
        d_Digest ` set (ManifestChildren m) \<subseteq> set (map pm_Digest before))"

interpretation first: plan_invariant a "node_whole J" "first_inv J" for a J
proof
  fix p n
  assume i: "first_inv J p" and n: "node_whole J n"
    and c: "(\<lambda>c. d_Digest (n_desc c)) ` set (n_children n) \<subseteq> manifest_digests p"
  show "first_inv J (add_manifest n p)"
  proof (cases "d_Digest (n_desc n) \<in> set (map pm_Digest (p_Manifests p))")
    case False
    have l: "d_Digest ` set (ManifestChildren (n_manifest n)) \<subseteq> manifest_digests p"
      if "IsIndex (n_manifest n)"
      using n c that unfolding node_whole_def by (metis (no_types, lifting) list.set_map)
    show ?thesis
      unfolding first_inv_def
    proof (intro allI impI)
      fix before pm after m
      assume e: "p_Manifests (add_manifest n p) = before @ pm # after"
        and m: "ParseManifest (dj_manifest J) (pm_Body pm) = Inr m" "IsIndex m"
      show "d_Digest ` set (ManifestChildren m) \<subseteq> set (map pm_Digest before)"
      proof (cases after rule: rev_cases)
        case Nil
        then have "before = p_Manifests p" "pm_Body pm = n_body n"
          using e False by (auto simp: add_manifest_def)
        then show ?thesis using l m n by (auto simp: node_whole_def manifest_digests_def)
      next
        case (snoc xs x)
        then have "p_Manifests p = before @ pm # xs" using e False by (auto simp: add_manifest_def)
        then show ?thesis using i m unfolding first_inv_def by blast
      qed
    qed
  qed (use i in \<open>simp add: add_manifest_def\<close>)
qed (simp_all add: first_inv_def add_blob_def)

section \<open>The promises\<close>

text \<open>
  (C26) A plan is sound: no blob and no manifest is planned twice; every planned manifest's body has the
  planned digest and parses; the blobs of every planned manifest are planned with the size the archive
  has for them, and are in the archive unless the body was rewritten; the manifests of an entry are
  planned and end with the entry itself; the images are distinct, and each has at least one name, valid
  and listed once.
\<close>

theorem Plan_sound:
  assumes "Archive_Plan sha J a opts = Some (Inr p)"
  shows "distinct (map pb_Digest (p_Blobs p)) \<and> distinct (map pm_Digest (p_Manifests p))
    \<and> list_all (\<lambda>b. pb_Size b = fst (Size a (pb_Digest b))) (p_Blobs p)
    \<and> list_all (manifest_sound sha J a (blob_digests p)) (p_Manifests p)
    \<and> entries_ok p \<and> distinct (map pe_Digest (p_Entries p))
    \<and> list_all (\<lambda>e. pe_Names e \<noteq> [] \<and> names_ok e) (p_Entries p)"
  using Archive_Plan_entries [OF assms] by (simp add: sound_inv_def)

text \<open>
  Children are published first: from an archive that holds every child its indexes list, an index
  is planned only after all of its children, so that publishing in plan order never refers to a
  manifest that is not there yet; and nothing is rewritten.
\<close>

theorem Plan_children_first:
  assumes "Archive_Plan sha J a opts = Some (Inr p)" "archive_complete sha J a"
    and "p_Manifests p = before @ pm # after" "ParseManifest (dj_manifest J) (pm_Body pm) = Inr m" "IsIndex m"
  shows "d_Digest ` set (ManifestChildren m) \<subseteq> set (map pm_Digest before)"
proof -
  from assms(1) obtain roots p0 where
    r: "plan_roots (resolve sha J a (Suc (length (ar_blobs a)))) 0 (ManifestChildren (ar_Index a)) [] = Some (Inr roots)"
    and p0: "p0 = foldl (add_entry a) \<lparr>p_Blobs = [], p_Manifests = [], p_Entries = []\<rparr> roots"
    and m: "p_Manifests p = p_Manifests p0"
    by (rule Archive_Plan_Inr)
  have "list_all (node_all (node_whole J)) roots" by (rule planned_whole [OF assms(2) r])
  then have "first_inv J p0"
    using first.entries_inv [of J roots "\<lparr>p_Blobs = [], p_Manifests = [], p_Entries = []\<rparr>" a]
      first.inv_start p0 by (simp add: entries_ok_def)
  then show ?thesis using assms(3-5) unfolding m first_inv_def by blast
qed

text \<open>
  One image whose index reaches the same config twice, for example with a layer in two
  compressions, is refused as two images that share a config: configRoot counts occurrences, not
  images, although the archive holds a single one.
\<close>

theorem shared_config_refused:
  assumes "ar_Legacy a = le # les"
    and "ParseDigest (''sha256:'' @ TrimPrefix (le_Config le) blobPrefix) = Inr d"
    and "count_list (node_configs r) d \<ge> 2"
  shows "assignNames a [r] [] es = Inl (ErrSharedConfig d (count_list (node_configs r) d))"
proof -
  have "configRoot [r] d = replicate (count_list (node_configs r) d) 0" by (simp add: configRoot_def)
  moreover have "replicate (count_list (node_configs r) d) (0 :: nat) \<noteq> []" using assms(3) by auto
  ultimately show ?thesis
    using assms(1,3) unfolding assignNames_def assms(1) legacy_loop.simps assms(2)
    by (simp del: append.simps)
qed

section \<open>Concrete archives\<close>

definition len_desc :: "nat \<Rightarrow> Descriptor" where
  "len_desc n = \<lparr>d_MediaType = ''m'', d_Digest = len_digest n, d_Size = int n, d_ArtifactType = '''',
     d_Annotations = [], d_Platform = None\<rparr>"

definition image_of :: "nat \<Rightarrow> Manifest" where
  "image_of c = \<lparr>m_SchemaVersion = 2, m_MediaType = '''', m_ArtifactType = '''', m_Config = Some (len_desc c),
     m_Layers = [], m_Manifests = None, m_Subject = None, m_Annotations = []\<rparr>"

definition index_of :: "nat list \<Rightarrow> Manifest" where
  "index_of ns = \<lparr>m_SchemaVersion = 2, m_MediaType = '''', m_ArtifactType = '''', m_Config = None,
     m_Layers = [], m_Manifests = Some (map len_desc ns), m_Subject = None, m_Annotations = []\<rparr>"

text \<open>
  A config, an image, an index of it and an index of that index; \<open>ns\<close> is what the inner index lists.
  The pruned inner index is \<open>prune\<close>.
\<close>

definition shop_json :: "nat list \<Rightarrow> da_json" where
  "shop_json ns =
     \<lparr>dj_manifest = map_of [(''im'', image_of 7), (''idx'', index_of ns), (''oidx'', index_of [3]),
                            (''prune'', index_of [2])],
      dj_legacy = (\<lambda>b. None), dj_layout = (\<lambda>b. None),
      dj_map = (\<lambda>b. Some [(''manifests'', ''l'')]), dj_list = (\<lambda>b. Some [''a'', ''b'']),
      dj_digest = (\<lambda>d. d), dj_size = FormatInt, dj_enc_map = (\<lambda>m. Some ''prune''), dj_enc_list = (\<lambda>l. Some ''l'')\<rparr>"

definition shop_archive :: Archive where
  "shop_archive =
     \<lparr>ar_f = \<lparr>fi_bytes = ''configsimidxoidx'', fi_bad = None\<rparr>,
      ar_blobs = [(len_digest 7, 0, 7), (len_digest 2, 7, 2), (len_digest 3, 9, 3), (len_digest 4, 12, 4)],
      ar_Index = index_of [4], ar_Legacy = [], ar_LayoutVersion = ''''\<rparr>"

definition shop_opts :: PlanOptions where
  "shop_opts = \<lparr>po_Names = [''app:v1''], po_Present = None\<rparr>"

lemma last_len_digest: "n < 16 \<Longrightarrow> last (len_digest n) = hex_digit n"
proof -
  assume n: "n < 16"
  then have u: "unat (of_nat n :: 256 word) = n" by (simp add: unat_of_nat take_bit_nat_eq_self)
  have "sum_bytes w = map (\<lambda>i. char_of (unat (drop_bit (8 * (31 - i)) w) mod 256)) [0..<31] @ [char_of (unat w mod 256)]"
    for w :: "256 word"
    using upt_Suc_append [of 0 31] by (simp add: sum_bytes_def)
  then show ?thesis
    using n by (simp add: len_digest_def DigestOfBytes_def DigestFromSum_def EncodeToString_def len_sha_def u)
qed

lemma len_digests_distinct: "distinct (map len_digest [2, 3, 4, 5, 7, 9])"
proof -
  have "distinct (map hex_digit [2, 3, 4, 5, 7, 9])" by code_simp
  moreover have "map hex_digit [2, 3, 4, 5, 7, 9] = map last (map len_digest [2, 3, 4, 5, 7, 9])"
    by (simp add: last_len_digest)
  ultimately show ?thesis by (metis distinct_map)
qed

lemma ParseName_app: "ParseName ''app:v1'' = Inr \<lparr>nm_Repo = ''app'', nm_Tag = ''v1''\<rparr>"
  by code_simp

lemma len_digest_eq:
  "len_digest 7 \<noteq> len_digest 2" "len_digest 7 \<noteq> len_digest 3" "len_digest 7 \<noteq> len_digest 4"
  "len_digest 2 \<noteq> len_digest 3" "len_digest 2 \<noteq> len_digest 4" "len_digest 3 \<noteq> len_digest 4"
  "len_digest 5 \<noteq> len_digest 7" "len_digest 5 \<noteq> len_digest 2" "len_digest 5 \<noteq> len_digest 3" "len_digest 5 \<noteq> len_digest 4"
  "len_digest 9 \<noteq> len_digest 7" "len_digest 9 \<noteq> len_digest 2" "len_digest 9 \<noteq> len_digest 3" "len_digest 9 \<noteq> len_digest 4"
  "len_digest 9 \<noteq> len_digest 5"
  using len_digests_distinct by auto

lemmas len_digest_eqs = len_digest_eq len_digest_eq [symmetric]

lemma len_digest_Suc [simp]:
  "len_digest (Suc (Suc 0)) = len_digest 2" "len_digest (Suc (Suc (Suc 0))) = len_digest 3"
  "len_digest (Suc (Suc (Suc (Suc 0)))) = len_digest 4" "len_digest (Suc (Suc (Suc (Suc (Suc 0))))) = len_digest 5"
  by (simp_all add: eval_nat_numeral)

lemma shop_has [simp]:
  "Has shop_archive (len_digest 7)" "Has shop_archive (len_digest 2)" "Has shop_archive (len_digest 3)"
  "Has shop_archive (len_digest 4)" "\<not> Has shop_archive (len_digest 9)"
  by (simp_all add: Has_def shop_archive_def len_digest_eqs)

lemma shop_read [simp]:
  "ReadBlob len_sha shop_archive (len_digest 2) = Inr ''im''"
  "ReadBlob len_sha shop_archive (len_digest 3) = Inr ''idx''"
  "ReadBlob len_sha shop_archive (len_digest 4) = Inr ''oidx''"
  by (simp_all add: ReadBlob_def Section_def shop_archive_def len_digest_eqs maxSmallBlob_def section_all_def
      ReadAt_def DigestOfBytes_len)

lemma parse_image: "u b = Some (image_of c) \<Longrightarrow> ParseManifest u b = Inr (image_of c)"
  by (simp add: ParseManifest_def image_of_def validateDescriptor_def len_desc_def opt_list_def ManifestChildren_def)

lemma parse_index: "u b = Some (index_of ns) \<Longrightarrow> ParseManifest u b = Inr (index_of ns)"
proof -
  have "validateAll (map len_desc ns) = None"
    by (simp add: validateAll_None validateDescriptor_def len_desc_def)
  then show "u b = Some (index_of ns) \<Longrightarrow> ParseManifest u b = Inr (index_of ns)"
    by (simp add: ParseManifest_def index_of_def opt_list_def ManifestChildren_def)
qed

lemma shop_parse [simp]:
  "ParseManifest (dj_manifest (shop_json ns)) ''im'' = Inr (image_of 7)"
  "ParseManifest (dj_manifest (shop_json ns)) ''idx'' = Inr (index_of ns)"
  "ParseManifest (dj_manifest (shop_json ns)) ''oidx'' = Inr (index_of [3])"
  "ParseManifest (dj_manifest (shop_json ns)) ''prune'' = Inr (index_of [2])"
  by (auto intro!: parse_image parse_index simp: shop_json_def)

lemma shop_manifests [simp]:
  "IsIndex (index_of ns)" "\<not> IsIndex (image_of c)" "ManifestChildren (index_of ns) = map len_desc ns"
  "BlobDescriptors (image_of c) = [len_desc c]" "BlobDescriptors (index_of ns) = []"
  "d_Digest (len_desc n) = len_digest n" "d_MediaType (len_desc n) = ''m''" "IsAttestation (len_desc n) = False"
  by (simp_all add: IsIndex_def index_of_def image_of_def ManifestChildren_def BlobDescriptors_def opt_list_def
      len_desc_def IsAttestation_def MediaTypeOCIIndex_def MediaTypeDockerManifestList_def)

definition image_node :: anode where
  "image_node = ANode (len_desc 2) ''im'' (image_of 7) False []"

lemma resolve_image: "resolve len_sha (shop_json ns) shop_archive (Suc f) (len_desc 2) = Some (Inr (Some image_node))"
  by (simp add: image_node_def Let_def)

lemma resolve_absent: "resolve len_sha (shop_json ns) shop_archive (Suc f) (len_desc 9) = Some (Inr None)"
  by simp

text \<open>The inner index lists only the image: nothing is pruned.\<close>

definition whole_node :: anode where
  "whole_node = ANode (len_desc 4) ''oidx'' (index_of [3]) False
     [ANode (len_desc 3) ''idx'' (index_of [2]) False [image_node]]"

lemma shop_whole: "resolve len_sha (shop_json [2]) shop_archive (Suc (Suc (Suc f))) (len_desc 4) = Some (Inr (Some whole_node))"
  unfolding resolve.simps(2) [of _ _ _ "Suc (Suc f)"]
  by (simp add: Let_def resolve_image finish_index_def whole_node_def del: resolve.simps)
    (simp add: Let_def finish_index_def resolve_image image_node_def)

text \<open>The inner index also lists a manifest that is not in the archive: it is pruned.\<close>

definition pruned_node :: anode where
  "pruned_node = ANode (len_desc 4) ''oidx'' (index_of [3]) False
     [ANode ((len_desc 3)\<lparr>d_Digest := len_digest 5, d_Size := 5\<rparr>) ''prune'' (index_of [2]) True [image_node]]"

lemma shop_prune_index: "pruneIndex (shop_json [2, 9]) ''idx'' [(0, image_node)] = Inr ''prune''"
  by (simp add: pruneIndex_def keep_raw_def image_node_def shop_json_def)

lemma shop_pruned: "resolve len_sha (shop_json [2, 9]) shop_archive (Suc (Suc (Suc f))) (len_desc 4) = Some (Inr (Some pruned_node))"
proof -
  have "resolve_children (resolve len_sha (shop_json [2, 9]) shop_archive (Suc f)) 0 (map len_desc [2, 9])
      = Some (Inr [(0, image_node)])"
    by (simp add: resolve_image resolve_absent del: resolve.simps)
  moreover have "finish_index len_sha (shop_json [2, 9]) (len_desc 3) ''idx'' (index_of [2, 9]) [(0, image_node)] =
      Inr (Some (ANode ((len_desc 3)\<lparr>d_Digest := len_digest 5, d_Size := 5\<rparr>) ''prune'' (index_of [2]) True [image_node]))"
    by (simp add: finish_index_def shop_prune_index DigestOfBytes_len)
  ultimately have "resolve len_sha (shop_json [2, 9]) shop_archive (Suc (Suc f)) (len_desc 3) =
      Some (Inr (Some (ANode ((len_desc 3)\<lparr>d_Digest := len_digest 5, d_Size := 5\<rparr>) ''prune'' (index_of [2]) True [image_node])))"
    unfolding resolve.simps(2) [of _ _ _ "Suc f"] by (simp add: Let_def del: resolve.simps)
  then show ?thesis
    unfolding resolve.simps(2) [of _ _ _ "Suc (Suc f)"]
    by (simp add: Let_def finish_index_def pruned_node_def del: resolve.simps)
qed

lemma shop_plan:
  assumes "\<And>f. resolve len_sha J shop_archive (Suc (Suc (Suc f))) (len_desc 4) = Some (Inr (Some n))"
    and "add_entry shop_archive \<lparr>p_Blobs = [], p_Manifests = [], p_Entries = []\<rparr> n = p"
    and "p_Entries p = [e]"
  shows "Archive_Plan len_sha J shop_archive shop_opts =
    Some (Inr (p\<lparr>p_Entries := [e\<lparr>pe_Names := appendName (pe_Names e) \<lparr>nm_Repo = ''app'', nm_Tag = ''v1''\<rparr>\<rparr>]\<rparr>))"
proof -
  have i: "ManifestChildren (ar_Index shop_archive) = [len_desc 4]"
    "length (ar_blobs shop_archive) = Suc (Suc (Suc (Suc 0)))"
    by (simp_all add: shop_archive_def)
  show ?thesis
    unfolding Archive_Plan_def i plan_roots.simps assms(1)
    using assms(2,3)
    by (simp add: plan_rest_def shop_opts_def assignNames_def ParseName_app name_entry_def)
qed


definition shop_whole_plan :: Plan where
  "shop_whole_plan = add_entry shop_archive \<lparr>p_Blobs = [], p_Manifests = [], p_Entries = []\<rparr> whole_node"

lemma shop_whole_planned:
  "\<exists>e. Archive_Plan len_sha (shop_json [2]) shop_archive shop_opts = Some (Inr (shop_whole_plan\<lparr>p_Entries := [e]\<rparr>))
     \<and> pe_Names e = [\<lparr>nm_Repo = ''app'', nm_Tag = ''v1''\<rparr>]"
proof -
  obtain e where e: "p_Entries shop_whole_plan = [e]" "pe_Names e = []"
    by (simp add: shop_whole_plan_def add_entry_def whole_node_def image_node_def Let_def add_manifest_def add_blob_def)
  then show ?thesis
    using shop_plan [OF shop_whole shop_whole_plan_def [symmetric] e(1)]
    by (intro exI [of _ "e\<lparr>pe_Names := [\<lparr>nm_Repo = ''app'', nm_Tag = ''v1''\<rparr>]\<rparr>"]) (simp add: appendName_def)
qed

lemma shop_whole_manifests:
  "map (\<lambda>pm. (pm_Digest pm, pm_Body pm)) (p_Manifests shop_whole_plan) =
     [(len_digest 2, ''im''), (len_digest 3, ''idx''), (len_digest 4, ''oidx'')]"
  by (simp add: shop_whole_plan_def add_entry_def whole_node_def image_node_def Let_def add_manifest_def add_blob_def
      len_digest_eqs)

lemma shop_read_config:
  "ReadBlob len_sha shop_archive (len_digest 7) = Inr ''configs''"
  "ParseManifest (dj_manifest (shop_json ns)) ''configs'' = Inl (NewError CodeManifestInvalid)"
proof -
  have "len_digest (Suc (Suc (Suc (Suc (Suc (Suc (Suc 0))))))) = len_digest 7" by (simp add: eval_nat_numeral)
  then show "ReadBlob len_sha shop_archive (len_digest 7) = Inr ''configs''"
    by (simp add: ReadBlob_def Section_def shop_archive_def maxSmallBlob_def section_all_def
        ReadAt_def DigestOfBytes_len)
  show "ParseManifest (dj_manifest (shop_json ns)) ''configs'' = Inl (NewError CodeManifestInvalid)"
    by (simp add: ParseManifest_def shop_json_def)
qed

lemma shop_complete: "archive_complete len_sha (shop_json [2]) shop_archive"
proof -
  have "ManifestChildren (image_of 7) = []" by (simp add: image_of_def ManifestChildren_def)
  then have "closed_set len_sha (shop_json [2]) shop_archive {len_digest 2, len_digest 3, len_digest 4}"
    by (simp add: closed_set_def)
  moreover have "d_Digest ` set (ManifestChildren (ar_Index shop_archive)) = {len_digest 4}"
    by (simp add: shop_archive_def)
  ultimately show ?thesis unfolding archive_complete_def by blast
qed

theorem Plan_sound_witness:
  "\<exists>p. Archive_Plan len_sha (shop_json [2]) shop_archive shop_opts = Some (Inr p)
     \<and> distinct (map pm_Digest (p_Manifests p)) \<and> entries_ok p
     \<and> list_all (manifest_sound len_sha (shop_json [2]) shop_archive (blob_digests p)) (p_Manifests p)
     \<and> length (p_Manifests p) = 3"
proof -
  from shop_whole_planned obtain e where
    p: "Archive_Plan len_sha (shop_json [2]) shop_archive shop_opts = Some (Inr (shop_whole_plan\<lparr>p_Entries := [e]\<rparr>))"
    by blast
  moreover have "length (p_Manifests (shop_whole_plan\<lparr>p_Entries := [e]\<rparr>)) = 3"
    using arg_cong [OF shop_whole_manifests, of length] by simp
  ultimately show ?thesis using Plan_sound [OF p] by blast
qed

theorem Plan_children_first_witness:
  "\<exists>p before pm. Archive_Plan len_sha (shop_json [2]) shop_archive shop_opts = Some (Inr p)
     \<and> p_Manifests p = before @ [pm] \<and> pm_Body pm = ''oidx''
     \<and> {len_digest 3} \<subseteq> set (map pm_Digest before)"
proof -
  from shop_whole_planned obtain e where
    p: "Archive_Plan len_sha (shop_json [2]) shop_archive shop_opts = Some (Inr (shop_whole_plan\<lparr>p_Entries := [e]\<rparr>))"
    by blast
  from shop_whole_manifests obtain a b pm where
    ms: "p_Manifests (shop_whole_plan\<lparr>p_Entries := [e]\<rparr>) = [a, b] @ [pm]" "pm_Body pm = ''oidx''" by auto
  have "d_Digest ` set (ManifestChildren (index_of [3])) \<subseteq> set (map pm_Digest [a, b])"
    by (rule Plan_children_first [OF p shop_complete, of "[a, b]" pm "[]"]) (use ms in simp_all)
  then show ?thesis using p ms by fastforce
qed

lemma shop_acyclic: "acyclic (names_child len_sha (shop_json [2]) shop_archive)"
proof -
  let ?rank = "\<lambda>d. if d = len_digest 4 then 2 else if d = len_digest 3 then 1 else (0 :: nat)"
  have "names_child len_sha (shop_json [2]) shop_archive \<subseteq> measure ?rank"
  proof clarify
    fix c d assume cd: "(c, d) \<in> names_child len_sha (shop_json [2]) shop_archive"
    then obtain body m where b: "ReadBlob len_sha shop_archive d = Inr body"
      "ParseManifest (dj_manifest (shop_json [2])) body = Inr m" "IsIndex m" "c \<in> d_Digest ` set (ManifestChildren m)"
      by (auto simp: names_child_def)
    have "d \<in> {len_digest 7, len_digest 2, len_digest 3, len_digest 4}"
      using b(1) by (auto simp: ReadBlob_def Section_def shop_archive_def split: sum.splits if_splits)
    with b show "(c, d) \<in> measure ?rank" by (auto simp: shop_read_config len_digest_eqs)
  qed
  then show ?thesis using wf_acyclic acyclic_subset by blast
qed

theorem Archive_Plan_returns_witness:
  "\<exists>r. Archive_Plan len_sha (shop_json [2]) shop_archive shop_opts = Some r"
  using Archive_Plan_returns [OF shop_acyclic] .

text \<open>An index whose two manifests share the config of seven bytes.\<close>

definition twin_node :: anode where
  "twin_node = ANode (len_desc 3) ''idx'' (index_of [2, 5]) False
     [image_node, ANode (len_desc 5) ''other'' (image_of 7) False []]"

definition twin_archive :: Archive where
  "twin_archive = shop_archive\<lparr>ar_Legacy :=
     [\<lparr>le_Config = blobPrefix @ drop 7 (len_digest 7), le_RepoTags = [''app:v1''], le_Layers = []\<rparr>]\<rparr>"

theorem shared_config_refused_witness:
  "assignNames twin_archive [twin_node] [] [] = Inl (ErrSharedConfig (len_digest 7) 2)"
proof -
  let ?le = "\<lparr>le_Config = blobPrefix @ drop 7 (len_digest 7), le_RepoTags = [''app:v1''], le_Layers = []\<rparr>"
  have c: "node_configs twin_node = [len_digest 7, len_digest 7]"
    by (simp add: twin_node_def image_node_def image_of_def index_of_def opt_list_def)
  have l: "ar_Legacy twin_archive = ?le # []" by (simp add: twin_archive_def)
  have p: "ParseDigest (''sha256:'' @ TrimPrefix (le_Config ?le) blobPrefix) = Inr (len_digest 7)"
    using len_digest_split [of 7] by (simp del: append.simps)
  show ?thesis using shared_config_refused [OF l p, of twin_node "[]"] by (simp add: c)
qed

end
