(* ===== verification/Import_Tracker.thy ===== *)
theory Import_Tracker
  imports Complex_Main Docker_Plan Image_Store Transition
begin

text \<open>
  The progress state of an import (src/importer/tracker.go). Every method runs under one mutex, so it
  is a function on the state it finds, and a run is a sequence of events. byDigest holds pointers to
  the rows, here their positions. Fractions are exact rationals where the code has float64, so what is
  shown of them holds up to rounding; times are nanoseconds, and a zero time.Time is None.
\<close>

text \<open>The errors of a run, each with what it wraps.\<close>

datatype import_err =
    ICheck digest da_err | ISection da_err | IStoring digest err | IReading digest err
  | IPlanLacks digest | IPublishing string string err | ICtx err

datatype Phase = PhaseIdle | PhaseChecking | PhaseBlobs | PhaseManifests | PhaseDone

datatype BlobState = BlobPending | BlobPresent | BlobInFlight | BlobDone | BlobFailed

datatype ManifestState = ManifestPending | ManifestInFlight | ManifestDone

text \<open>The stages of src/blob/observer.go.\<close>

datatype Stage = StageAnalyze | StageConfirm | StageCommit | StageVerify | StageRaw

text \<open>Phases are compared with \<open>>\<close>: iota order.\<close>

primrec phase_iota :: "Phase \<Rightarrow> nat" where
  "phase_iota PhaseIdle = 0"
| "phase_iota PhaseChecking = 1"
| "phase_iota PhaseBlobs = 2"
| "phase_iota PhaseManifests = 3"
| "phase_iota PhaseDone = 4"

lemma phase_iota_eq [simp]: "phase_iota p = phase_iota q \<longleftrightarrow> p = q"
  by (cases p; cases q) simp_all

instantiation Phase :: linorder
begin

definition less_eq_Phase :: "Phase \<Rightarrow> Phase \<Rightarrow> bool" where
  "less_eq_Phase p q \<longleftrightarrow> phase_iota p \<le> phase_iota q"

definition less_Phase :: "Phase \<Rightarrow> Phase \<Rightarrow> bool" where
  "less_Phase p q \<longleftrightarrow> phase_iota p < phase_iota q"

instance
  by standard (auto simp: less_eq_Phase_def less_Phase_def)

end

record blobRow =
  br_Digest :: digest
  br_Size :: nat
  br_MediaType :: string
  br_State :: BlobState
  br_Stage :: "Stage option"
  br_Progress :: nat
  br_Fraction :: rat
  br_Kind :: "Kind option"
  br_RawReason :: "RawReason option"
  br_stageBase :: rat
  br_stageShare :: rat
  br_sawStage :: bool

record ManifestRow =
  mr_Digest :: digest
  mr_Names :: "Name list"
  mr_IsIndex :: bool
  mr_State :: ManifestState
  mr_Rootfs :: "Rootfs option"

record Counts =
  ct_Pending :: nat
  ct_InFlight :: nat
  ct_Done :: nat
  ct_Present :: nat
  ct_Raw :: nat
  ct_Failed :: nat

record Snapshot =
  sn_Phase :: Phase
  sn_Checked :: rat
  sn_Blobs :: "blobRow list"
  sn_Counts :: Counts
  sn_Fraction :: rat
  sn_Elapsed :: int
  sn_ETA :: int
  sn_ETAKnown :: bool
  sn_Manifests :: "ManifestRow list"
  sn_Err :: "import_err option"

record Tracker =
  tr_Verify :: bool
  tr_phase :: Phase
  tr_started :: "int option"
  tr_blobStart :: "int option"
  tr_toCheck :: nat
  tr_checked :: nat
  tr_blobs :: "blobRow list"
  tr_byDigest :: "digest \<Rightarrow> nat option"
  tr_manifests :: "ManifestRow list"
  tr_err :: "import_err option"

definition etaWarmup :: int where "etaWarmup = 2 * 10 ^ 9"

definition NewTracker :: "bool \<Rightarrow> Tracker" where
  "NewTracker verify =
     \<lparr>tr_Verify = verify, tr_phase = PhaseIdle, tr_started = None, tr_blobStart = None, tr_toCheck = 0,
      tr_checked = 0, tr_blobs = [], tr_byDigest = (\<lambda>_. None), tr_manifests = [], tr_err = None\<rparr>"

section \<open>What the importer records\<close>

definition queue_row :: "PlanBlob \<Rightarrow> blobRow" where
  "queue_row pb =
     \<lparr>br_Digest = pb_Digest pb, br_Size = pb_Size pb, br_MediaType = pb_MediaType pb,
      br_State = (if pb_Present pb then BlobPresent else BlobPending), br_Stage = None, br_Progress = 0,
      br_Fraction = (if pb_Present pb then 1 else 0), br_Kind = None, br_RawReason = None,
      br_stageBase = 0, br_stageShare = 0, br_sawStage = False\<rparr>"

definition queue_blob :: "Tracker \<Rightarrow> PlanBlob \<Rightarrow> Tracker" where
  "queue_blob t pb =
     t\<lparr>tr_toCheck := (if pb_Present pb then tr_toCheck t else tr_toCheck t + pb_Size pb),
       tr_byDigest := (tr_byDigest t)(pb_Digest pb \<mapsto> length (tr_blobs t)),
       tr_blobs := tr_blobs t @ [queue_row pb]\<rparr>"

definition queue_names :: "PlanEntry list \<Rightarrow> digest \<Rightarrow> Name list" where
  "queue_names es = foldl (\<lambda>names e. names(pe_Digest e := pe_Names e)) (\<lambda>_. []) es"

definition Queue :: "int \<Rightarrow> Tracker \<Rightarrow> Plan \<Rightarrow> Tracker" where
  "Queue now t p =
     (let t = foldl queue_blob (t\<lparr>tr_phase := PhaseChecking, tr_started := Some now\<rparr>) (p_Blobs p);
          names = queue_names (p_Entries p)
      in t\<lparr>tr_manifests := tr_manifests t @
             map (\<lambda>pm. \<lparr>mr_Digest = pm_Digest pm, mr_Names = names (pm_Digest pm), mr_IsIndex = pm_IsIndex pm,
                        mr_State = ManifestPending, mr_Rootfs = None\<rparr>) (p_Manifests p)\<rparr>)"

definition Checked :: "Tracker \<Rightarrow> nat \<Rightarrow> Tracker" where
  "Checked t n = t\<lparr>tr_checked := n\<rparr>"

definition StartBlobs :: "int \<Rightarrow> Tracker \<Rightarrow> Tracker" where
  "StartBlobs now t = t\<lparr>tr_phase := PhaseBlobs, tr_blobStart := Some now\<rparr>"

text \<open>An update through the pointer byDigest holds, or nothing when it is nil.\<close>

definition upd_row :: "digest \<Rightarrow> (blobRow \<Rightarrow> blobRow) \<Rightarrow> Tracker \<Rightarrow> Tracker" where
  "upd_row d f t =
     (case tr_byDigest t d of
        None \<Rightarrow> t
      | Some i \<Rightarrow> t\<lparr>tr_blobs := (tr_blobs t)[i := f (tr_blobs t ! i)]\<rparr>)"

definition Start :: "Tracker \<Rightarrow> digest \<Rightarrow> Tracker" where
  "Start t d = upd_row d (\<lambda>r. r\<lparr>br_State := BlobInFlight\<rparr>) t"

definition done_row :: "blob_Meta option \<Rightarrow> blobRow \<Rightarrow> blobRow" where
  "done_row m r =
     (let r = r\<lparr>br_State := (if br_sawStage r then BlobDone else BlobPresent), br_Fraction := 1\<rparr> in
      case m of None \<Rightarrow> r | Some m \<Rightarrow> r\<lparr>br_Kind := Some (bm_Kind m), br_RawReason := bm_RawReason m\<rparr>)"

definition Done :: "Tracker \<Rightarrow> digest \<Rightarrow> blob_Meta option \<Rightarrow> Tracker" where
  "Done t d m = upd_row d (done_row m) t"

definition Fail :: "Tracker \<Rightarrow> digest \<Rightarrow> 'e \<Rightarrow> Tracker" where
  "Fail t d e = upd_row d (\<lambda>r. r\<lparr>br_State := BlobFailed\<rparr>) t"

definition StartManifests :: "Tracker \<Rightarrow> Tracker" where
  "StartManifests t = t\<lparr>tr_phase := PhaseManifests\<rparr>"

definition ManifestStart :: "Tracker \<Rightarrow> digest \<Rightarrow> Tracker" where
  "ManifestStart t d =
     t\<lparr>tr_manifests := map (\<lambda>r. if mr_Digest r = d then r\<lparr>mr_State := ManifestInFlight\<rparr> else r) (tr_manifests t)\<rparr>"

definition Tracker_ManifestDone :: "Tracker \<Rightarrow> digest \<Rightarrow> image_Meta option \<Rightarrow> Tracker" where
  "Tracker_ManifestDone t d m =
     t\<lparr>tr_manifests :=
         map (\<lambda>r. if mr_Digest r = d
                  then (let r = r\<lparr>mr_State := ManifestDone\<rparr> in
                        case m of None \<Rightarrow> r | Some m \<Rightarrow> r\<lparr>mr_Rootfs := im_Rootfs m\<rparr>)
                  else r) (tr_manifests t)\<rparr>"

definition Finish :: "Tracker \<Rightarrow> import_err option \<Rightarrow> Tracker" where
  "Finish t e = t\<lparr>tr_phase := PhaseDone, tr_err := e\<rparr>"

section \<open>What the blob store reports\<close>

definition stage_span :: "bool \<Rightarrow> rat \<Rightarrow> Stage \<Rightarrow> rat \<times> rat" where
  "stage_span verify prevEnd s =
     (case s of
        StageAnalyze \<Rightarrow> if verify then (0, 35 / 100) else (0, 4 / 10)
      | StageConfirm \<Rightarrow> if verify then (35 / 100, 3 / 10) else (4 / 10, 35 / 100)
      | StageCommit \<Rightarrow> if verify then (65 / 100, 2 / 10) else (75 / 100, 25 / 100)
      | StageVerify \<Rightarrow> (85 / 100, 15 / 100)
      | StageRaw \<Rightarrow> (prevEnd, 1 - prevEnd))"

definition stage_row :: "bool \<Rightarrow> Stage \<Rightarrow> blobRow \<Rightarrow> blobRow" where
  "stage_row verify s r =
     (let prevEnd = (if \<not> br_sawStage r then 0 else br_stageBase r + br_stageShare r);
          (base, share) = stage_span verify prevEnd s
      in r\<lparr>br_sawStage := True, br_Stage := Some s, br_Progress := 0, br_stageBase := base,
           br_stageShare := share, br_Fraction := base\<rparr>)"

definition BlobStage :: "Tracker \<Rightarrow> digest \<Rightarrow> Stage \<Rightarrow> Tracker" where
  "BlobStage t d s = upd_row d (stage_row (tr_Verify t) s) t"

definition progress_row :: "nat \<Rightarrow> blobRow \<Rightarrow> blobRow" where
  "progress_row n r =
     (if \<not> br_sawStage r then r
      else let part = (if br_Size r > 0 then min 1 (of_nat n / of_nat (br_Size r)) else 1)
           in r\<lparr>br_Progress := n, br_Fraction := br_stageBase r + br_stageShare r * part\<rparr>)"

definition BlobProgress :: "Tracker \<Rightarrow> digest \<Rightarrow> nat \<Rightarrow> Tracker" where
  "BlobProgress t d n = upd_row d (progress_row n) t"

section \<open>Snapshots\<close>

text \<open>The loop over the rows: the counts, and the sums over the rows that are not present.\<close>

definition count_row :: "Counts \<Rightarrow> blobRow \<Rightarrow> Counts" where
  "count_row c r =
     (case br_State r of
        BlobPending \<Rightarrow> c\<lparr>ct_Pending := ct_Pending c + 1\<rparr>
      | BlobInFlight \<Rightarrow> c\<lparr>ct_InFlight := ct_InFlight c + 1\<rparr>
      | BlobDone \<Rightarrow>
          (let c = c\<lparr>ct_Done := ct_Done c + 1\<rparr> in
           if br_Kind r = Some KindRaw then c\<lparr>ct_Raw := ct_Raw c + 1\<rparr> else c)
      | BlobPresent \<Rightarrow> c\<lparr>ct_Present := ct_Present c + 1\<rparr>
      | BlobFailed \<Rightarrow> c\<lparr>ct_Failed := ct_Failed c + 1\<rparr>)"

definition sum_row :: "rat \<times> rat \<Rightarrow> blobRow \<Rightarrow> rat \<times> rat" where
  "sum_row tp r =
     (case tp of
        (tot, progress) \<Rightarrow>
          if br_State r = BlobPresent then (tot, progress)
          else (tot + of_nat (br_Size r), progress + of_nat (br_Size r) * br_Fraction r))"

definition zero_Counts :: Counts where
  "zero_Counts = \<lparr>ct_Pending = 0, ct_InFlight = 0, ct_Done = 0, ct_Present = 0, ct_Raw = 0, ct_Failed = 0\<rparr>"

text \<open>The conversion of a float64 to a time.Duration drops the fraction.\<close>

definition to_Duration :: "rat \<Rightarrow> int" where
  "to_Duration x = (if x \<ge> 0 then \<lfloor>x\<rfloor> else \<lceil>x\<rceil>)"

definition snapshot_eta :: "Tracker \<Rightarrow> int \<Rightarrow> rat \<Rightarrow> rat \<Rightarrow> int option" where
  "snapshot_eta t now tot progress =
     (if tr_phase t = PhaseBlobs then
        (case tr_blobStart t of
           None \<Rightarrow> None
         | Some start \<Rightarrow>
             (let elapsed = now - start in
              if elapsed \<ge> etaWarmup \<and> progress > 0 then
                (let rate = progress / (of_int elapsed / 10 ^ 9) in
                 Some (to_Duration ((tot - progress) / rate * 10 ^ 9)))
              else None))
      else None)"

definition Tracker_Snapshot :: "Tracker \<Rightarrow> int \<Rightarrow> Snapshot" where
  "Tracker_Snapshot t now =
     (case foldl sum_row (0, 0) (tr_blobs t) of
        (tot, progress) \<Rightarrow>
          \<lparr>sn_Phase = tr_phase t,
           sn_Checked =
             (if tr_toCheck t > 0 then min 1 (of_nat (tr_checked t) / of_nat (tr_toCheck t))
              else if tr_phase t > PhaseChecking then 1 else 0),
           sn_Blobs = tr_blobs t,
           sn_Counts = foldl count_row zero_Counts (tr_blobs t),
           sn_Fraction =
             (if tot > 0 then progress / tot else if tr_phase t > PhaseBlobs then 1 else 0),
           sn_Elapsed = (case tr_started t of None \<Rightarrow> 0 | Some s \<Rightarrow> now - s),
           sn_ETA = (case snapshot_eta t now tot progress of None \<Rightarrow> 0 | Some e \<Rightarrow> e),
           sn_ETAKnown = (snapshot_eta t now tot progress \<noteq> None),
           sn_Manifests = tr_manifests t,
           sn_Err = tr_err t\<rparr>)"

section \<open>Runs of the tracker\<close>

datatype event =
    EQueue int Plan | EChecked nat | EStartBlobs int | EStart digest | EDone digest "blob_Meta option"
  | EFail digest err | EStartManifests | EManifestStart digest | EManifestDone digest "image_Meta option"
  | EFinish "import_err option" | EBlobStage digest Stage | EBlobProgress digest nat

fun apply_event :: "Tracker \<Rightarrow> event \<Rightarrow> Tracker" where
  "apply_event t (EQueue now p) = Queue now t p"
| "apply_event t (EChecked n) = Checked t n"
| "apply_event t (EStartBlobs now) = StartBlobs now t"
| "apply_event t (EStart d) = Start t d"
| "apply_event t (EDone d m) = Done t d m"
| "apply_event t (EFail d e) = Fail t d e"
| "apply_event t EStartManifests = StartManifests t"
| "apply_event t (EManifestStart d) = ManifestStart t d"
| "apply_event t (EManifestDone d m) = Tracker_ManifestDone t d m"
| "apply_event t (EFinish e) = Finish t e"
| "apply_event t (EBlobStage d s) = BlobStage t d s"
| "apply_event t (EBlobProgress d n) = BlobProgress t d n"

text \<open>Every row's span lies in the unit interval, and so does its fraction.\<close>

definition row_ok :: "blobRow \<Rightarrow> bool" where
  "row_ok r \<longleftrightarrow>
     0 \<le> br_stageBase r \<and> 0 \<le> br_stageShare r \<and> br_stageBase r + br_stageShare r \<le> 1
     \<and> 0 \<le> br_Fraction r \<and> br_Fraction r \<le> 1"

definition rows_inv :: "Tracker \<Rightarrow> bool" where
  "rows_inv t \<longleftrightarrow>
     list_all row_ok (tr_blobs t)
     \<and> (\<forall>d i. tr_byDigest t d = Some i \<longrightarrow> i < length (tr_blobs t) \<and> br_Digest (tr_blobs t ! i) = d)"

lemma span_point:
  fixes b s p :: rat
  assumes "0 \<le> b" "0 \<le> s" "b + s \<le> 1" "0 \<le> p" "p \<le> 1"
  shows "0 \<le> b + s * p" "b + s * p \<le> b + s" "b + s * p \<le> 1" "b \<le> b + s * p"
proof -
  have "0 \<le> s * p" "s * p \<le> s * 1" using assms by (simp, intro mult_left_mono) simp_all
  then show "0 \<le> b + s * p" "b + s * p \<le> b + s" "b + s * p \<le> 1" "b \<le> b + s * p" using assms by linarith+
qed

definition part_of :: "nat \<Rightarrow> nat \<Rightarrow> rat" where
  "part_of len n = (if len > 0 then min 1 (of_nat n / of_nat len) else 1)"

lemma part_of_bounds [simp]: "0 \<le> part_of len n" "part_of len n \<le> 1"
  by (auto simp: part_of_def)

lemma progress_row_simp:
  "progress_row n r =
     (if br_sawStage r
      then r\<lparr>br_Progress := n, br_Fraction := br_stageBase r + br_stageShare r * part_of (br_Size r) n\<rparr> else r)"
  by (simp add: progress_row_def part_of_def Let_def)

lemma stage_span_ok:
  assumes "0 \<le> e" "e \<le> 1" "stage_span verify e s = (b, sh)"
  shows "0 \<le> b \<and> 0 \<le> sh \<and> b + sh \<le> 1"
  using assms by (cases s) (auto simp: stage_span_def split: if_splits)

lemma row_ok_events [simp]:
  assumes "row_ok r"
  shows "row_ok (stage_row verify s r)" "row_ok (progress_row n r)" "row_ok (done_row m r)"
    "row_ok (r\<lparr>br_State := st\<rparr>)"
proof -
  let ?e = "if \<not> br_sawStage r then 0 else br_stageBase r + br_stageShare r"
  have "0 \<le> ?e" "?e \<le> 1" using assms by (auto simp: row_ok_def)
  moreover obtain b sh where "stage_span verify ?e s = (b, sh)" by fastforce
  ultimately show "row_ok (stage_row verify s r)"
    using stage_span_ok [of ?e verify s b sh] by (simp add: stage_row_def Let_def row_ok_def)
  show "row_ok (progress_row n r)"
    using assms span_point [of "br_stageBase r" "br_stageShare r" "part_of (br_Size r) n"]
    by (simp add: progress_row_simp row_ok_def)
  show "row_ok (done_row m r)" "row_ok (r\<lparr>br_State := st\<rparr>)"
    using assms by (auto simp: done_row_def row_ok_def Let_def split: option.splits)
qed

lemma row_digest [simp]:
  "br_Digest (stage_row verify s r) = br_Digest r" "br_Digest (progress_row n r) = br_Digest r"
  "br_Digest (done_row m r) = br_Digest r"
  by (auto simp: stage_row_def progress_row_def done_row_def Let_def split: prod.splits option.splits)

lemma upd_row_inv:
  assumes "rows_inv t" "\<And>r. row_ok r \<Longrightarrow> row_ok (f r)" "\<And>r. br_Digest (f r) = br_Digest r"
  shows "rows_inv (upd_row d f t)"
proof (cases "tr_byDigest t d")
  case (Some i)
  then have i: "i < length (tr_blobs t)" using assms(1) by (auto simp: rows_inv_def)
  then show ?thesis
    using assms Some by (auto simp: rows_inv_def upd_row_def list_all_length nth_list_update)
qed (use assms in \<open>simp add: upd_row_def\<close>)

lemma queue_blob_inv: "rows_inv t \<Longrightarrow> rows_inv (queue_blob t pb)"
  by (auto simp: rows_inv_def queue_blob_def queue_row_def row_ok_def nth_append less_Suc_eq)

lemma queue_blobs_inv: "rows_inv t \<Longrightarrow> rows_inv (foldl queue_blob t pbs)"
  by (induction pbs arbitrary: t) (auto intro: queue_blob_inv)

lemma rows_inv_cong: "tr_blobs t = tr_blobs u \<Longrightarrow> tr_byDigest t = tr_byDigest u \<Longrightarrow> rows_inv t = rows_inv u"
  by (simp add: rows_inv_def)

lemma apply_event_inv:
  assumes "rows_inv t"
  shows "rows_inv (apply_event t e)"
proof (cases e)
  case (EQueue now p)
  have "rows_inv (t\<lparr>tr_phase := PhaseChecking, tr_started := Some now\<rparr>)" using assms by (simp add: rows_inv_def)
  then have "rows_inv (foldl queue_blob (t\<lparr>tr_phase := PhaseChecking, tr_started := Some now\<rparr>) (p_Blobs p))"
    by (rule queue_blobs_inv)
  then show ?thesis using EQueue by (simp add: Queue_def Let_def rows_inv_def)
qed (use assms in \<open>auto simp: Start_def Done_def Fail_def BlobStage_def BlobProgress_def Checked_def StartBlobs_def
    StartManifests_def ManifestStart_def Tracker_ManifestDone_def Finish_def intro!: upd_row_inv
    cong: rows_inv_cong\<close>)

interpretation tracker: invariant_system "\<lambda>t. t = NewTracker verify" "\<lambda>t u. \<exists>e. u = apply_event t e" rows_inv
  for verify
  by unfold_locales (auto simp: apply_event_inv, simp add: rows_inv_def NewTracker_def)

section \<open>What a snapshot shows\<close>

definition counted :: "BlobState \<Rightarrow> blobRow list \<Rightarrow> nat" where
  "counted st rows = length (filter (\<lambda>r. br_State r = st) rows)"

lemma count_rows:
  "foldl count_row c rows =
     \<lparr>ct_Pending = ct_Pending c + counted BlobPending rows, ct_InFlight = ct_InFlight c + counted BlobInFlight rows,
      ct_Done = ct_Done c + counted BlobDone rows, ct_Present = ct_Present c + counted BlobPresent rows,
      ct_Raw = ct_Raw c + length (filter (\<lambda>r. br_State r = BlobDone \<and> br_Kind r = Some KindRaw) rows),
      ct_Failed = ct_Failed c + counted BlobFailed rows\<rparr>"
proof (induction rows arbitrary: c)
  case (Cons r rows)
  show ?case
    unfolding foldl_Cons Cons.IH by (cases "br_State r") (simp_all add: count_row_def counted_def Let_def)
qed (simp add: counted_def)

lemma counted_total:
  "counted BlobPending rows + counted BlobInFlight rows + counted BlobDone rows + counted BlobPresent rows
     + counted BlobFailed rows = length rows"
proof (induction rows)
  case (Cons r rows)
  then show ?case by (cases "br_State r") (simp_all add: counted_def)
qed (simp add: counted_def)

lemma sum_row_pair [simp]:
  "sum_row (tot, progress) r =
     (if br_State r = BlobPresent then (tot, progress)
      else (tot + of_nat (br_Size r), progress + of_nat (br_Size r) * br_Fraction r))"
  by (simp add: sum_row_def)

lemma filter_conj_le: "length (filter (\<lambda>x. P x \<and> Q x) xs) \<le> length (filter P xs)"
  by (induction xs) auto

lemma sum_rows:
  fixes tot progress :: rat
  assumes "list_all row_ok rows" "0 \<le> progress" "progress \<le> tot"
  shows "case foldl sum_row (tot, progress) rows of (tot', progress') \<Rightarrow> 0 \<le> progress' \<and> progress' \<le> tot'"
  using assms
proof (induction rows arbitrary: tot progress)
  case (Cons r rows)
  have b: "0 \<le> of_nat (br_Size r) * br_Fraction r" "of_nat (br_Size r) * br_Fraction r \<le> of_nat (br_Size r) * 1"
    using Cons.prems(1) by (simp add: row_ok_def, intro mult_left_mono) (simp_all add: row_ok_def)
  show ?case
  proof (cases "br_State r = BlobPresent")
    case False
    have "case foldl sum_row (tot + of_nat (br_Size r), progress + of_nat (br_Size r) * br_Fraction r) rows of
        (tot', progress') \<Rightarrow> 0 \<le> progress' \<and> progress' \<le> tot'"
      by (rule Cons.IH) (use Cons.prems b in simp_all)
    then show ?thesis using False by simp
  qed (use Cons in simp)
qed simp

lemma snapshot_eta_nonneg:
  assumes "snapshot_eta t now tot progress = Some e" "progress \<le> tot"
  shows "0 \<le> e"
proof -
  obtain start where f: "tr_phase t = PhaseBlobs" "tr_blobStart t = Some start" "now - start \<ge> etaWarmup" "progress > 0"
    using assms(1) by (auto simp: snapshot_eta_def Let_def split: if_splits option.splits)
  let ?left = "(tot - progress) / (progress / (of_int (now - start) / 10 ^ 9)) * 10 ^ 9"
  have e: "e = to_Duration ?left" using assms(1) f unfolding snapshot_eta_def Let_def by (simp only: simp_thms if_True option.case option.inject)
  have "of_int (now - start) \<ge> (0 :: rat)" using f(3) by (simp add: etaWarmup_def)
  then have "0 \<le> ?left" using assms(2) f(4) by simp

  then show ?thesis by (simp only: e to_Duration_def) simp
qed

text \<open>
  Whatever the importer and the blob store report and in whatever order, a snapshot is sane: every
  blob is counted in exactly one of pending, in flight, done, present and failed, the raw ones are among
  the done ones, the shown fractions, of every row too, lie between 0 and 1, and an estimate of the
  time left is never negative.
\<close>

theorem Snapshot_sane:
  assumes "reach (\<lambda>t. t = NewTracker verify) (\<lambda>t u. \<exists>e. u = apply_event t e) t"
    and "s = Tracker_Snapshot t now"
  shows "ct_Pending (sn_Counts s) + ct_InFlight (sn_Counts s) + ct_Done (sn_Counts s) + ct_Present (sn_Counts s)
        + ct_Failed (sn_Counts s) = length (sn_Blobs s)
    \<and> ct_Raw (sn_Counts s) \<le> ct_Done (sn_Counts s)
    \<and> 0 \<le> sn_Checked s \<and> sn_Checked s \<le> 1 \<and> 0 \<le> sn_Fraction s \<and> sn_Fraction s \<le> 1
    \<and> (\<forall>r \<in> set (sn_Blobs s). 0 \<le> br_Fraction r \<and> br_Fraction r \<le> 1)
    \<and> 0 \<le> sn_ETA s"
proof -
  have rows: "list_all row_ok (tr_blobs t)" using tracker.reach_inv [OF assms(1)] by (simp add: rows_inv_def)
  obtain tot progress where tp: "foldl sum_row (0, 0) (tr_blobs t) = (tot, progress)" by fastforce
  then have b: "0 \<le> progress" "progress \<le> tot" using sum_rows [OF rows, of 0 0] by simp_all
  have c: "sn_Counts s = foldl count_row zero_Counts (tr_blobs t)" "sn_Blobs s = tr_blobs t"
    by (simp_all add: assms(2) Tracker_Snapshot_def tp)
  have "ct_Raw (sn_Counts s) \<le> ct_Done (sn_Counts s)"
    unfolding c count_rows by (simp add: counted_def zero_Counts_def filter_conj_le)
  moreover have "ct_Pending (sn_Counts s) + ct_InFlight (sn_Counts s) + ct_Done (sn_Counts s) + ct_Present (sn_Counts s)
        + ct_Failed (sn_Counts s) = length (sn_Blobs s)"
    unfolding c count_rows using counted_total [of "tr_blobs t"] by (simp add: zero_Counts_def)
  moreover have "0 \<le> sn_ETA s"
    using snapshot_eta_nonneg b(2) by (auto simp: assms(2) Tracker_Snapshot_def tp split: option.splits)
  moreover have "0 \<le> sn_Fraction s \<and> sn_Fraction s \<le> 1"
    using b by (auto simp: assms(2) Tracker_Snapshot_def tp)
  moreover have "0 \<le> sn_Checked s \<and> sn_Checked s \<le> 1"
    by (simp add: assms(2) Tracker_Snapshot_def tp)
  ultimately show ?thesis using rows by (simp add: c list_all_iff row_ok_def)
qed


section \<open>A short run\<close>

definition demo_blob_plan :: Plan where
  "demo_blob_plan =
     \<lparr>p_Blobs = [\<lparr>pb_Digest = ''a'', pb_Size = 8, pb_MediaType = ''m'', pb_Present = False\<rparr>,
                 \<lparr>pb_Digest = ''b'', pb_Size = 4, pb_MediaType = ''m'', pb_Present = True\<rparr>],
      p_Manifests = [], p_Entries = []\<rparr>"

definition demo_tracker :: Tracker where
  "demo_tracker =
     foldl apply_event (NewTracker True)
       [EQueue 0 demo_blob_plan, EStartBlobs 0, EStart ''a'', EBlobStage ''a'' StageConfirm, EBlobProgress ''a'' 4]"

lemma events_reach:
  "reach (\<lambda>t. t = NewTracker verify) (\<lambda>t u. \<exists>e. u = apply_event t e) (foldl apply_event (NewTracker verify) es)"
  by (induction es rule: rev_induct) (auto intro: reach_init reach_step)

lemmas demo_tracker_reach = events_reach [of True "[EQueue 0 demo_blob_plan, EStartBlobs 0, EStart ''a'',
  EBlobStage ''a'' StageConfirm, EBlobProgress ''a'' 4]", folded demo_tracker_def]

theorem Snapshot_sane_witness:
  "ct_InFlight (sn_Counts (Tracker_Snapshot demo_tracker (4 * 10 ^ 9))) = 1
   \<and> sn_Fraction (Tracker_Snapshot demo_tracker (4 * 10 ^ 9)) = 1 / 2
   \<and> 0 \<le> sn_ETA (Tracker_Snapshot demo_tracker (4 * 10 ^ 9))"
proof -
  have "ct_InFlight (sn_Counts (Tracker_Snapshot demo_tracker (4 * 10 ^ 9))) = 1"
    "sn_Fraction (Tracker_Snapshot demo_tracker (4 * 10 ^ 9)) = 1 / 2"
    by code_simp+
  then show ?thesis using Snapshot_sane [OF demo_tracker_reach refl] by simp
qed

end
