(* ===== verification/Import_Each.thy ===== *)
theory Import_Each
  imports Oci Transition "HOL-Library.Multiset"
begin

text \<open>
  The worker pool of the importer (each in src/importer/importer.go) as a step relation: a feeder, the
  workers, and the callers' context, which may be cancelled at any time. The channel is not buffered,
  so handing an item over is one step of the feeder and a worker. A call of \<open>fn\<close> returns nil or any
  error, after any number of other steps. \<open>po_log\<close> are the items in the order in which their calls
  started, \<open>po_ok\<close> and \<open>po_bad\<close> those whose call returned nil or an error that was noted.
\<close>

datatype ('a, 'e) worker = WIdle | WRunning 'a | WFailed 'a 'e | WExited

record ('a, 'e) pool =
  po_feed :: "'a list"
  po_closed :: bool
  po_workers :: "('a, 'e) worker list"
  po_firstErr :: "'e option"
  po_cancelled :: bool
  po_outer :: "'e option"
  po_result :: "'e option option"
  po_log :: "'a list"
  po_ok :: "'a list"
  po_bad :: "('a \<times> 'e) list"

definition each_start :: "nat \<Rightarrow> 'a list \<Rightarrow> ('a, 'e) pool" where
  "each_start workers items =
     \<lparr>po_feed = items, po_closed = False, po_workers = replicate workers WIdle, po_firstErr = None,
      po_cancelled = False, po_outer = None, po_result = None, po_log = [], po_ok = [], po_bad = []\<rparr>"

text \<open>The cases of the feeder's select, and the end of its loop.\<close>

definition feed_send :: "('a, 'e) pool \<Rightarrow> nat \<Rightarrow> ('a, 'e) pool option" where
  "feed_send s w =
     (case po_feed s of
        [] \<Rightarrow> None
      | it # rest \<Rightarrow>
          if \<not> po_closed s \<and> w < length (po_workers s) \<and> po_workers s ! w = WIdle
          then Some (s\<lparr>po_feed := rest, po_workers := (po_workers s)[w := WRunning it], po_log := po_log s @ [it]\<rparr>)
          else None)"

definition feed_stop :: "('a, 'e) pool \<Rightarrow> ('a, 'e) pool option" where
  "feed_stop s = (if \<not> po_closed s \<and> po_feed s \<noteq> [] \<and> po_cancelled s then Some (s\<lparr>po_closed := True\<rparr>) else None)"

definition feed_close :: "('a, 'e) pool \<Rightarrow> ('a, 'e) pool option" where
  "feed_close s = (if \<not> po_closed s \<and> po_feed s = [] then Some (s\<lparr>po_closed := True\<rparr>) else None)"

text \<open>A worker: its call returns, it notes the error under the mutex, it sees the channel closed.\<close>

definition call_returns :: "('a, 'e) pool \<Rightarrow> nat \<Rightarrow> 'e option \<Rightarrow> ('a, 'e) pool option" where
  "call_returns s w er =
     (if w < length (po_workers s) then
        (case po_workers s ! w of
           WRunning it \<Rightarrow>
             (case er of
                None \<Rightarrow> Some (s\<lparr>po_workers := (po_workers s)[w := WIdle], po_ok := po_ok s @ [it]\<rparr>)
              | Some e \<Rightarrow> Some (s\<lparr>po_workers := (po_workers s)[w := WFailed it e]\<rparr>))
         | _ \<Rightarrow> None)
      else None)"

definition note_error :: "('a, 'e) pool \<Rightarrow> nat \<Rightarrow> ('a, 'e) pool option" where
  "note_error s w =
     (if w < length (po_workers s) then
        (case po_workers s ! w of
           WFailed it e \<Rightarrow>
             (let s = s\<lparr>po_workers := (po_workers s)[w := WIdle], po_bad := po_bad s @ [(it, e)]\<rparr> in
              Some (if po_firstErr s = None then s\<lparr>po_firstErr := Some e, po_cancelled := True\<rparr> else s))
         | _ \<Rightarrow> None)
      else None)"

definition worker_exits :: "('a, 'e) pool \<Rightarrow> nat \<Rightarrow> ('a, 'e) pool option" where
  "worker_exits s w =
     (if po_closed s \<and> w < length (po_workers s) \<and> po_workers s ! w = WIdle
      then Some (s\<lparr>po_workers := (po_workers s)[w := WExited]\<rparr>) else None)"

definition outer_cancelled :: "('a, 'e) pool \<Rightarrow> 'e \<Rightarrow> ('a, 'e) pool option" where
  "outer_cancelled s e =
     (if po_outer s = None \<and> po_result s = None then Some (s\<lparr>po_outer := Some e, po_cancelled := True\<rparr>) else None)"

text \<open>wg.Wait and the two returns: ctx.Err() is the caller's error when no call failed.\<close>

definition each_return :: "('a, 'e) pool \<Rightarrow> ('a, 'e) pool option" where
  "each_return s =
     (if po_closed s \<and> list_all (\<lambda>w. w = WExited) (po_workers s) \<and> po_result s = None
      then Some (s\<lparr>po_result := Some (case po_firstErr s of Some e \<Rightarrow> Some e | None \<Rightarrow> po_outer s)\<rparr>)
      else None)"

inductive each_step :: "('a, 'e) pool \<Rightarrow> ('a, 'e) pool \<Rightarrow> bool" where
  Send: "feed_send s w = Some s' \<Longrightarrow> each_step s s'"
| Stop: "feed_stop s = Some s' \<Longrightarrow> each_step s s'"
| Close: "feed_close s = Some s' \<Longrightarrow> each_step s s'"
| Returns: "call_returns s w er = Some s' \<Longrightarrow> each_step s s'"
| Note: "note_error s w = Some s' \<Longrightarrow> each_step s s'"
| Exit: "worker_exits s w = Some s' \<Longrightarrow> each_step s s'"
| Cancel: "outer_cancelled s e = Some s' \<Longrightarrow> each_step s s'"
| Return: "each_return s = Some s' \<Longrightarrow> each_step s s'"

section \<open>What the pool keeps\<close>

fun flying :: "('a, 'e) worker \<Rightarrow> 'a list" where
  "flying (WRunning it) = [it]"
| "flying (WFailed it e) = [it]"
| "flying _ = []"

text \<open>Every started call is in flight, has succeeded, or has failed; and what the flags mean.\<close>

definition first_bad :: "('a \<times> 'e) list \<Rightarrow> 'e option" where
  "first_bad bad = (case bad of [] \<Rightarrow> None | (it, e) # _ \<Rightarrow> Some e)"

definition count_inv :: "('a, 'e) pool \<Rightarrow> bool" where
  "count_inv s \<longleftrightarrow>
     mset (po_log s) = mset (po_ok s) + mset (map fst (po_bad s)) + mset (concat (map flying (po_workers s)))"

definition flow_inv :: "nat \<Rightarrow> 'a list \<Rightarrow> ('a, 'e) pool \<Rightarrow> bool" where
  "flow_inv workers items s \<longleftrightarrow>
     length (po_workers s) = workers \<and> po_log s @ po_feed s = items
     \<and> po_firstErr s = first_bad (po_bad s)
     \<and> (po_cancelled s \<longleftrightarrow> po_firstErr s \<noteq> None \<or> po_outer s \<noteq> None)
     \<and> (po_closed s \<longrightarrow> po_feed s = [] \<or> po_cancelled s)
     \<and> (WExited \<in> set (po_workers s) \<longrightarrow> po_closed s)
     \<and> (\<forall>r. po_result s = Some r \<longrightarrow>
          po_closed s \<and> list_all (\<lambda>w. w = WExited) (po_workers s)
          \<and> r = (case po_firstErr s of Some e \<Rightarrow> Some e | None \<Rightarrow> po_outer s))"

definition each_inv :: "nat \<Rightarrow> 'a list \<Rightarrow> ('a, 'e) pool \<Rightarrow> bool" where
  "each_inv workers items s \<longleftrightarrow> count_inv s \<and> flow_inv workers items s"

lemma first_bad_simps [simp]: "first_bad [] = None" "first_bad [(it, e)] = Some e"
  "bad \<noteq> [] \<Longrightarrow> first_bad (bad @ bad') = first_bad bad" "first_bad bad = None \<longleftrightarrow> bad = []"
  by (auto simp: first_bad_def split: list.splits)

lemmas flying_update = concat_map_update [where f = flying]

lemma exited_update: "WExited \<in> set (ws[w := x]) \<Longrightarrow> x \<noteq> WExited \<Longrightarrow> WExited \<in> set ws"
  using set_update_subset_insert by fastforce

lemma all_exited_busy: "list_all (\<lambda>w. w = WExited) ws \<Longrightarrow> w < length ws \<Longrightarrow> ws ! w = WExited"
  by (simp add: list_all_length)

lemma send_inv:
  assumes "feed_send s w = Some s'"
  shows "count_inv s \<Longrightarrow> count_inv s'" "flow_inv n items s \<Longrightarrow> flow_inv n items s'"
proof -
  obtain it rest where f: "po_feed s = it # rest" "\<not> po_closed s" "w < length (po_workers s)" "po_workers s ! w = WIdle"
    "s' = s\<lparr>po_feed := rest, po_workers := (po_workers s)[w := WRunning it], po_log := po_log s @ [it]\<rparr>"
    using assms by (auto simp: feed_send_def split: list.splits if_splits)
  show "count_inv s \<Longrightarrow> count_inv s'"
    using flying_update [OF f(3), of "WRunning it"] f(4,5) by (simp add: count_inv_def)
  show "flow_inv n items s \<Longrightarrow> flow_inv n items s'"
    using f by (auto simp: flow_inv_def dest: exited_update)
qed

lemma feed_end_inv:
  assumes "feed_stop s = Some s' \<or> feed_close s = Some s'"
  shows "count_inv s \<Longrightarrow> count_inv s'" "flow_inv n items s \<Longrightarrow> flow_inv n items s'"
  using assms by (auto simp: count_inv_def flow_inv_def feed_stop_def feed_close_def split: if_splits)

lemma returns_inv:
  assumes "call_returns s w er = Some s'"
  shows "count_inv s \<Longrightarrow> count_inv s'" "flow_inv n items s \<Longrightarrow> flow_inv n items s'"
proof -
  obtain it where f: "w < length (po_workers s)" "po_workers s ! w = WRunning it"
    "s' = (case er of None \<Rightarrow> s\<lparr>po_workers := (po_workers s)[w := WIdle], po_ok := po_ok s @ [it]\<rparr>
       | Some e \<Rightarrow> s\<lparr>po_workers := (po_workers s)[w := WFailed it e]\<rparr>)"
    using assms by (auto simp: call_returns_def split: worker.splits option.splits if_splits)
  show "count_inv s \<Longrightarrow> count_inv s'"
    using flying_update [OF f(1), of WIdle] flying_update [OF f(1), of "WFailed it (the er)"] f(2,3)
    by (cases er) (simp_all add: count_inv_def)
  show "flow_inv n items s \<Longrightarrow> flow_inv n items s'"
    using f all_exited_busy [OF _ f(1)] by (cases er) (auto simp: flow_inv_def dest: exited_update)
qed

lemma note_inv:
  assumes "note_error s w = Some s'"
  shows "count_inv s \<Longrightarrow> count_inv s'" "flow_inv n items s \<Longrightarrow> flow_inv n items s'"
proof -
  let ?t = "\<lambda>it e. s\<lparr>po_workers := (po_workers s)[w := WIdle], po_bad := po_bad s @ [(it, e)]\<rparr>"
  obtain it e where f: "w < length (po_workers s)" "po_workers s ! w = WFailed it e"
    "s' = (if po_firstErr s = None then (?t it e)\<lparr>po_firstErr := Some e, po_cancelled := True\<rparr> else ?t it e)"
    using assms by (auto simp: note_error_def Let_def split: worker.splits if_splits)
  show "count_inv s \<Longrightarrow> count_inv s'"
    using flying_update [OF f(1), of WIdle] f(2,3) by (simp add: count_inv_def)
  show "flow_inv n items s \<Longrightarrow> flow_inv n items s'"
    using f all_exited_busy [OF _ f(1)]
    by (cases "po_bad s = []") (auto simp: flow_inv_def dest: exited_update)
qed

lemma exit_inv:
  assumes "worker_exits s w = Some s'"
  shows "count_inv s \<Longrightarrow> count_inv s'" "flow_inv n items s \<Longrightarrow> flow_inv n items s'"
  using assms flying_update [of w "po_workers s" WExited] all_exited_busy [of "po_workers s" w]
  by (auto simp: worker_exits_def count_inv_def flow_inv_def split: if_splits)

lemma cancel_inv:
  assumes "outer_cancelled s e = Some s'"
  shows "count_inv s \<Longrightarrow> count_inv s'" "flow_inv n items s \<Longrightarrow> flow_inv n items s'"
  using assms by (auto simp: count_inv_def flow_inv_def outer_cancelled_def split: if_splits)

lemma return_inv:
  assumes "each_return s = Some s'"
  shows "count_inv s \<Longrightarrow> count_inv s'" "flow_inv n items s \<Longrightarrow> flow_inv n items s'"
proof -
  have s': "po_closed s" "list_all (\<lambda>w. w = WExited) (po_workers s)"
    "s' = s\<lparr>po_result := Some (case po_firstErr s of Some e \<Rightarrow> Some e | None \<Rightarrow> po_outer s)\<rparr>"
    using assms by (auto simp: each_return_def split: if_splits)
  then show "count_inv s \<Longrightarrow> count_inv s'" by (simp add: count_inv_def)
  show "flow_inv n items s \<Longrightarrow> flow_inv n items s'"
    using s' by (cases "first_bad (po_bad s)") (auto simp: flow_inv_def)
qed

lemmas step_invs = send_inv feed_end_inv [OF disjI1] feed_end_inv [OF disjI2] returns_inv note_inv exit_inv
  cancel_inv return_inv

interpretation each: invariant_system "\<lambda>s. s = each_start n items" each_step "each_inv n items" for n items
proof
  show "each_inv n items s" if "s = each_start n items" for s
    unfolding that
    by (auto simp: each_inv_def count_inv_def flow_inv_def each_start_def in_set_replicate map_replicate_trivial
        concat_replicate_trivial)
  show "each_inv n items s \<Longrightarrow> each_step s t \<Longrightarrow> each_inv n items t" for s t
    unfolding each_inv_def
    by (erule each_step.cases) (auto dest: step_invs)
qed

lemma each_reach_inv: "reach (\<lambda>s. s = each_start n items) each_step s \<Longrightarrow> count_inv s \<and> flow_inv n items s"
  using each.reach_inv [of n items s] by (simp add: each_inv_def)

lemma each_over: "flow_inv n items s \<Longrightarrow> po_result s \<noteq> None \<Longrightarrow> concat (map flying (po_workers s)) = []"
proof -
  assume "flow_inv n items s" "po_result s \<noteq> None"
  then have "list_all (\<lambda>w. w = WExited) (po_workers s)" by (auto simp: flow_inv_def)
  then show ?thesis by (induction "po_workers s") (auto simp: list_all_iff)
qed

lemma each_nil:
  assumes "flow_inv n items s" "po_result s = Some None"
  shows "po_bad s = []" "po_log s = items"
proof -
  have "first_bad (po_bad s) = None" "po_outer s = None" "po_closed s"
    using assms by (auto simp: flow_inv_def split: option.splits)
  then show "po_bad s = []" "po_log s = items" using assms(1) by (auto simp: flow_inv_def)
qed

lemma each_all_ok:
  assumes "each_inv n items s" "po_result s = Some None"
  shows "mset (po_ok s) = mset items"
proof -
  have f: "flow_inv n items s" and c: "count_inv s" using assms(1) by (auto simp: each_inv_def)
  show ?thesis using each_over [OF f] each_nil [OF f assms(2)] c assms(2) by (simp add: count_inv_def)
qed

text \<open>
  (C35) Exactly once: in every interleaving of the feeder, the workers and the caller's context, calls
  start in the order of the items and no item is started twice. When each returns nil, every item's call
  was made exactly once and returned nil; when it returns an error, it is the first noted error of a
  call, or the caller's context's if no call failed; and no call is in flight any more.
\<close>

theorem each_exactly_once:
  assumes "reach (\<lambda>s. s = each_start n items) each_step s"
  shows "prefix (po_log s) items
    \<and> (po_result s \<noteq> None \<longrightarrow> concat (map flying (po_workers s)) = [])
    \<and> (po_result s = Some None \<longrightarrow> mset (po_ok s) = mset items \<and> po_bad s = [])
    \<and> (\<forall>e. po_result s = Some (Some e) \<longrightarrow>
         (\<exists>it rest. po_bad s = (it, e) # rest) \<or> po_bad s = [] \<and> po_outer s = Some e)"
proof -
  have c: "count_inv s" and f: "flow_inv n items s" using each_reach_inv [OF assms] by auto
  have "mset (po_ok s) = mset items \<and> po_bad s = []" if "po_result s = Some None"
    using each_all_ok [of n items s] each_nil(1) [OF f that] that c f by (simp add: each_inv_def)
  moreover have "(\<exists>it rest. po_bad s = (it, e) # rest) \<or> po_bad s = [] \<and> po_outer s = Some e"
    if "po_result s = Some (Some e)" for e
    using f that by (cases "po_bad s") (auto simp: flow_inv_def first_bad_def)
  ultimately show ?thesis using each_over [OF f] f by (auto simp: flow_inv_def)
qed

section \<open>The pool ends\<close>

fun weight :: "('a, 'e) worker \<Rightarrow> nat" where
  "weight (WRunning it) = 3"
| "weight (WFailed it e) = 2"
| "weight WIdle = 1"
| "weight WExited = 0"

definition each_left :: "('a, 'e) pool \<Rightarrow> nat" where
  "each_left s =
     4 * length (po_feed s) + sum_list (map weight (po_workers s)) + (if po_closed s then 0 else 1)
     + (if po_outer s = None then 1 else 0) + (if po_result s = None then 1 else 0)"

lemmas weight_update = sum_map_update [where f = weight]

lemma each_step_left: "each_step s t \<Longrightarrow> each_left t < each_left s"
proof (induction rule: each_step.cases)
  case (Send s w s')
  then show ?case
    using weight_update [of w "po_workers s" "WRunning (hd (po_feed s))"]
    by (auto simp: feed_send_def each_left_def split: list.splits if_splits)
next
  case (Returns s w er s')
  then obtain it where f: "w < length (po_workers s)" "po_workers s ! w = WRunning it"
    "s' = (case er of None \<Rightarrow> s\<lparr>po_workers := (po_workers s)[w := WIdle], po_ok := po_ok s @ [it]\<rparr>
       | Some e \<Rightarrow> s\<lparr>po_workers := (po_workers s)[w := WFailed it e]\<rparr>)"
    by (auto simp: call_returns_def split: worker.splits option.splits if_splits)
  then have "each_left s' < each_left s"
    using weight_update [OF f(1), of WIdle] weight_update [OF f(1), of "WFailed it (the er)"]
    by (cases er) (simp_all add: each_left_def)
  with Returns show ?case by simp
next
  case (Note s w s')
  then show ?case
    using weight_update [of w "po_workers s" WIdle]
    by (auto simp: note_error_def each_left_def Let_def split: worker.splits option.splits if_splits)
next
  case (Exit s w s')
  then show ?case
    using weight_update [of w "po_workers s" WExited]
    by (auto simp: worker_exits_def each_left_def split: if_splits)
qed (auto simp: feed_stop_def feed_close_def outer_cancelled_def each_return_def each_left_def split: if_splits)

lemma each_not_stuck:
  assumes "flow_inv n items s" "n > 0" "po_result s = None"
  shows "\<exists>t. each_step s t"
proof (cases "po_closed s")
  case True
  show ?thesis
  proof (cases "list_all (\<lambda>w. w = WExited) (po_workers s)")
    case False
    then obtain w where w: "w < length (po_workers s)" "po_workers s ! w \<noteq> WExited"
      by (auto simp: list_all_length)
    then show ?thesis
    proof (cases "po_workers s ! w")
      case WIdle
      then show ?thesis using w True Exit [of s w] by (auto simp: worker_exits_def)
    next
      case (WRunning it)
      then show ?thesis using w Returns [of s w None] by (auto simp: call_returns_def)
    next
      case (WFailed it e)
      then show ?thesis using w Note [of s w] by (auto simp: note_error_def Let_def)
    qed simp
  qed (use True assms(3) Return [of s] in \<open>auto simp: each_return_def\<close>)
next
  case False
  then have ne: "WExited \<notin> set (po_workers s)" "0 < length (po_workers s)" using assms by (auto simp: flow_inv_def)
  then have x: "po_workers s ! 0 \<noteq> WExited" by (metis nth_mem)
  show ?thesis
  proof (cases "po_feed s")
    case Nil
    then show ?thesis using False Close [of s] by (auto simp: feed_close_def)
  next
    case (Cons it rest)
    show ?thesis
    proof (cases "po_workers s ! 0")
      case WIdle
      then show ?thesis using ne(2) False Cons Send [of s 0] by (auto simp: feed_send_def)
    next
      case (WRunning it)
      then show ?thesis using ne(2) Returns [of s 0 None] by (auto simp: call_returns_def)
    next
      case (WFailed it e)
      then show ?thesis using ne(2) Note [of s 0] by (auto simp: note_error_def Let_def)
    qed (use x in simp)
  qed
qed

interpretation each_run: ending_system "\<lambda>s. s = each_start (Suc n) items" each_step "each_inv (Suc n) items" each_left
  "\<lambda>s. po_result s \<noteq> None" for n items
proof
  show "\<exists>t. each_step s t" if "each_inv (Suc n) items s" "\<not> po_result s \<noteq> None" for s
    using each_not_stuck [of "Suc n" items s] that by (auto simp: each_inv_def)
qed (rule each_step_left)

text \<open>
  The pool always ends: every run of the pool is finite, and with at least one worker a run can only
  stop in a state where each has returned, so that from every reachable state each does return, whatever
  calls fail and whenever the context is cancelled.
\<close>

theorem each_ends:
  assumes "reach (\<lambda>s. s = each_start n items) each_step s" "n > 0"
  shows "(\<forall>t. each_step s t \<longrightarrow> each_left t < each_left s)
    \<and> (po_result s = None \<longrightarrow> (\<exists>t. each_step s t))
    \<and> (\<exists>t. each_step\<^sup>*\<^sup>* s t \<and> po_result t \<noteq> None)"
proof -
  obtain m where n: "n = Suc m" using assms(2) by (cases n) auto
  show ?thesis using each_run.reach_ends [OF assms(1) [unfolded n]] each_step_left by blast
qed

section \<open>A run with one worker\<close>

definition run1 :: "(nat, err) pool" where "run1 = the (feed_send (each_start 1 [5, 7]) 0)"
definition run2 :: "(nat, err) pool" where "run2 = the (call_returns run1 0 None)"
definition run3 :: "(nat, err) pool" where "run3 = the (feed_send run2 0)"
definition run4 :: "(nat, err) pool" where "run4 = the (call_returns run3 0 None)"
definition run5 :: "(nat, err) pool" where "run5 = the (feed_close run4)"
definition run6 :: "(nat, err) pool" where "run6 = the (worker_exits run5 0)"
definition run7 :: "(nat, err) pool" where "run7 = the (each_return run6)"

lemma run_steps:
  "each_step (each_start 1 [5, 7]) run1" "each_step run1 run2" "each_step run2 run3" "each_step run3 run4"
  "each_step run4 run5" "each_step run5 run6" "each_step run6 run7"
proof -
  have "feed_send (each_start 1 [5, 7]) 0 = Some run1" "call_returns run1 0 None = Some run2"
    "feed_send run2 0 = Some run3" "call_returns run3 0 None = Some run4" "feed_close run4 = Some run5"
    "worker_exits run5 0 = Some run6" "each_return run6 = Some run7"
    by code_simp+
  then show "each_step (each_start 1 [5, 7]) run1" "each_step run1 run2" "each_step run2 run3" "each_step run3 run4"
    "each_step run4 run5" "each_step run5 run6" "each_step run6 run7"
    by (auto intro: each_step.intros)
qed

lemma run_reach: "reach (\<lambda>s. s = each_start 1 [5, 7]) each_step run7"
  by (rule reach_step [OF reach_step [OF reach_step [OF reach_step [OF reach_step [OF reach_step [OF reach_step
        [OF reach_init]]]]]]]) (rule refl run_steps)+

theorem each_exactly_once_witness:
  "po_result run7 = Some None \<and> mset (po_ok run7) = mset [5, 7] \<and> po_bad run7 = []"
proof -
  have "po_result run7 = Some None" by code_simp
  then show ?thesis using each_exactly_once [OF run_reach] by simp
qed

theorem each_ends_witness: "\<exists>t. each_step\<^sup>*\<^sup>* run7 t \<and> po_result t \<noteq> None"
  using each_ends [OF run_reach] by simp

end
