(* ===== verification/Import_Store.thy ===== *)
theory Import_Store
  imports Import_Tracker Import_Each
begin

text \<open>
  Checking and storing the blobs of a plan (src/importer/importer.go: New, check, storeBlobs,
  absentLargestFirst, putBlob). The pool of \<open>Import_Each\<close>, the tracker and the map of metas are one
  state; a step is a step of the pool together with what the closure of storeBlobs does around the
  call of Put, or a report of Put to the tracker. The test hooks are nil. What Put returns is the
  parameter \<open>putf\<close> of putBlob, any value at every call.
\<close>

definition New_workers :: "int \<Rightarrow> nat" where
  "New_workers w = (if w < 1 then 1 else nat w)"

section \<open>Checking\<close>

text \<open>\<open>ctx k\<close> is the context during the k-th Verify.\<close>

fun check_loop ::
  "(bytes \<Rightarrow> 256 word) \<Rightarrow> Archive \<Rightarrow> (nat \<Rightarrow> nat \<Rightarrow> err option) \<Rightarrow> nat \<Rightarrow> nat \<Rightarrow> Tracker \<Rightarrow> PlanBlob list
     \<Rightarrow> import_err option \<times> Tracker" where
  "check_loop sha a ctx k n t [] = (None, t)"
| "check_loop sha a ctx k n t (pb # pbs) =
     (if pb_Present pb then check_loop sha a ctx k n t pbs
      else case Verify sha a (ctx k) (pb_Digest pb) of
        (er, calls) \<Rightarrow>
          (let t = foldl (\<lambda>t c. Checked t (n + c)) t calls in
           case er of
             Some e \<Rightarrow> (Some (ICheck (pb_Digest pb) e), t)
           | None \<Rightarrow> check_loop sha a ctx (Suc k) (n + pb_Size pb) (Checked t (n + pb_Size pb)) pbs))"

definition check ::
  "(bytes \<Rightarrow> 256 word) \<Rightarrow> Archive \<Rightarrow> (nat \<Rightarrow> nat \<Rightarrow> err option) \<Rightarrow> Plan \<Rightarrow> Tracker \<Rightarrow> import_err option \<times> Tracker" where
  "check sha a ctx p t = check_loop sha a ctx 0 0 t (p_Blobs p)"

section \<open>Storing\<close>

text \<open>SortStableFunc by decreasing size.\<close>

definition absentLargestFirst :: "Plan \<Rightarrow> PlanBlob list" where
  "absentLargestFirst p = sort_key (\<lambda>pb. - int (pb_Size pb)) (filter (\<lambda>pb. \<not> pb_Present pb) (p_Blobs p))"

definition section_bytes :: "Archive \<Rightarrow> nat \<times> nat \<Rightarrow> bytes" where
  "section_bytes a s = take (snd s) (drop (fst s) (fi_bytes (ar_f a)))"

definition putBlob :: "Archive \<Rightarrow> (Spool option \<Rightarrow> blob_Meta res) \<Rightarrow> PlanBlob \<Rightarrow> import_err + blob_Meta" where
  "putBlob a putf pb =
     (case Section a (pb_Digest pb) of
        Inl e \<Rightarrow> Inl (ISection e)
      | Inr s \<Rightarrow>
          (case putf (Some (NewSectionSpool (section_bytes a s) 0 (int (pb_Size pb)) (pb_Digest pb))) of
             Inl e \<Rightarrow> Inl (IStoring (pb_Digest pb) e)
           | Inr meta \<Rightarrow> Inr meta))"

record store_run =
  sr_pool :: "(PlanBlob, import_err) pool"
  sr_tr :: Tracker
  sr_metas :: "digest \<Rightarrow> blob_Meta option"

definition store_start :: "int \<Rightarrow> nat \<Rightarrow> Plan \<Rightarrow> Tracker \<Rightarrow> store_run" where
  "store_start now workers p t =
     \<lparr>sr_pool = each_start workers (absentLargestFirst p), sr_tr = StartBlobs now t, sr_metas = (\<lambda>_. None)\<rparr>"

text \<open>
  Put reports its stages in order (src/blob/store.go, src/blob/prism.go): analyze, confirm, commit, and
  verify when the round-trip check is on; raw may follow any of them. Within a stage the counts do not
  decrease.
\<close>

fun stage_rank :: "Stage \<Rightarrow> nat" where
  "stage_rank StageAnalyze = 0"
| "stage_rank StageConfirm = 1"
| "stage_rank StageCommit = 2"
| "stage_rank StageVerify = 3"
| "stage_rank StageRaw = 4"

definition stage_follows :: "bool \<Rightarrow> Stage option \<Rightarrow> Stage \<Rightarrow> bool" where
  "stage_follows verify prev s \<longleftrightarrow>
     (s = StageVerify \<longrightarrow> verify) \<and> (case prev of None \<Rightarrow> True | Some s0 \<Rightarrow> stage_rank s0 < stage_rank s)"

definition row_of :: "Tracker \<Rightarrow> digest \<Rightarrow> blobRow option" where
  "row_of t d = (case tr_byDigest t d of None \<Rightarrow> None | Some i \<Rightarrow> Some (tr_blobs t ! i))"

definition running :: "('a, 'e) pool \<Rightarrow> nat \<Rightarrow> 'a \<Rightarrow> bool" where
  "running p w it \<longleftrightarrow> w < length (po_workers p) \<and> po_workers p ! w = WRunning it"

text \<open>The steps of the pool in which no call starts or returns.\<close>

inductive pool_only :: "(PlanBlob, import_err) pool \<Rightarrow> (PlanBlob, import_err) pool \<Rightarrow> bool" where
  PStop: "feed_stop p = Some q \<Longrightarrow> pool_only p q"
| PClose: "feed_close p = Some q \<Longrightarrow> pool_only p q"
| PNote: "note_error p w = Some q \<Longrightarrow> pool_only p q"
| PExit: "worker_exits p w = Some q \<Longrightarrow> pool_only p q"
| PCancel: "outer_cancelled p (ICtx e) = Some q \<Longrightarrow> pool_only p q"
| PReturn: "each_return p = Some q \<Longrightarrow> pool_only p q"

inductive store_step :: "Archive \<Rightarrow> store_run \<Rightarrow> store_run \<Rightarrow> bool" for a where
  SSend: "feed_send (sr_pool x) w = Some p \<Longrightarrow> po_feed (sr_pool x) = pb # rest \<Longrightarrow>
    store_step a x (x\<lparr>sr_pool := p, sr_tr := Start (sr_tr x) (pb_Digest pb)\<rparr>)"
| SStage: "running (sr_pool x) w pb \<Longrightarrow> row_of (sr_tr x) (pb_Digest pb) = Some r \<Longrightarrow>
    stage_follows (tr_Verify (sr_tr x)) (br_Stage r) s \<Longrightarrow>
    store_step a x (x\<lparr>sr_tr := BlobStage (sr_tr x) (pb_Digest pb) s\<rparr>)"
| SProgress: "running (sr_pool x) w pb \<Longrightarrow> row_of (sr_tr x) (pb_Digest pb) = Some r \<Longrightarrow> br_Progress r \<le> n \<Longrightarrow>
    store_step a x (x\<lparr>sr_tr := BlobProgress (sr_tr x) (pb_Digest pb) n\<rparr>)"
| SDone: "running (sr_pool x) w pb \<Longrightarrow> putBlob a putf pb = Inr meta \<Longrightarrow> call_returns (sr_pool x) w None = Some p \<Longrightarrow>
    store_step a x (x\<lparr>sr_pool := p, sr_tr := Done (sr_tr x) (pb_Digest pb) (Some meta),
                      sr_metas := (sr_metas x)(pb_Digest pb \<mapsto> meta)\<rparr>)"
| SFail: "running (sr_pool x) w pb \<Longrightarrow> putBlob a putf pb = Inl e \<Longrightarrow> call_returns (sr_pool x) w (Some e) = Some p \<Longrightarrow>
    store_step a x (x\<lparr>sr_pool := p, sr_tr := Fail (sr_tr x) (pb_Digest pb) e\<rparr>)"
| SPool: "pool_only (sr_pool x) p \<Longrightarrow> store_step a x (x\<lparr>sr_pool := p\<rparr>)"

text \<open>The rest of storeBlobs once each has returned nil: the metas of the present blobs.\<close>

fun read_present ::
  "(digest \<Rightarrow> blob_Meta res) \<Rightarrow> PlanBlob list \<Rightarrow> (digest \<Rightarrow> blob_Meta option)
     \<Rightarrow> import_err + (digest \<Rightarrow> blob_Meta option)" where
  "read_present opn [] metas = Inr metas"
| "read_present opn (pb # pbs) metas =
     (if \<not> pb_Present pb then read_present opn pbs metas
      else case opn (pb_Digest pb) of
        Inl e \<Rightarrow> Inl (IReading (pb_Digest pb) e)
      | Inr m \<Rightarrow> read_present opn pbs (metas(pb_Digest pb \<mapsto> m)))"

definition storeBlobs_end ::
  "(digest \<Rightarrow> blob_Meta res) \<Rightarrow> Plan \<Rightarrow> store_run \<Rightarrow> (import_err + (digest \<Rightarrow> blob_Meta option)) option" where
  "storeBlobs_end opn p x =
     (case po_result (sr_pool x) of
        None \<Rightarrow> None
      | Some (Some e) \<Rightarrow> Some (Inl e)
      | Some None \<Rightarrow> Some (read_present opn (p_Blobs p) (sr_metas x)))"

section \<open>Where an item is\<close>

lemma distinct_digests_nth:
  "distinct (map pb_Digest bs) \<Longrightarrow> i < length bs \<Longrightarrow> j < length bs \<Longrightarrow> pb_Digest (bs ! i) = pb_Digest (bs ! j) \<Longrightarrow> i = j"
  by (metis (no_types, lifting) length_map nth_eq_iff_index_eq nth_map)

lemma flying_set: "WRunning it \<in> set ws \<Longrightarrow> it \<in> set (concat (map flying ws))"
  by force

lemma set_count: "x \<in># A \<Longrightarrow> x \<in># B \<Longrightarrow> 2 \<le> count (A + B) x"
  unfolding count_greater_zero_iff [symmetric] count_union by linarith

lemma flying_twice:
  assumes "WRunning it \<in> set ws" "WFailed it e \<in> set ws"
  shows "2 \<le> count (mset (concat (map flying ws))) it"
  using assms
proof (induction ws)
  case (Cons w ws)
  have "x \<in> set (concat (map flying ws)) \<Longrightarrow> 1 \<le> count (mset (concat (map flying ws))) x" for x
    using count_greater_zero_iff [of "mset (concat (map flying ws))" x] by simp
  moreover have "it \<in> set (concat (map flying ws))" if "WRunning it \<in> set ws \<or> WFailed it e \<in> set ws"
    using that by force
  ultimately show ?case using Cons by (cases w) auto
qed simp

text \<open>An item is waiting, being called, or called: never two of them.\<close>

lemma each_exclusive:
  assumes "each_inv n items p" "distinct items"
  shows "it \<in> set (po_ok p) \<Longrightarrow> WRunning it \<notin> set (po_workers p)"
    "it \<in> set (po_feed p) \<Longrightarrow> WRunning it \<notin> set (po_workers p)"
    "it \<in> set (po_feed p) \<Longrightarrow> it \<notin> set (po_ok p)"
    "WFailed it e \<in> set (po_workers p) \<Longrightarrow> WRunning it \<notin> set (po_workers p)"
proof -
  let ?fly = "mset (concat (map flying (po_workers p)))"
  have m: "mset (po_log p) = mset (po_ok p) + mset (map fst (po_bad p)) + ?fly"
    and d: "distinct (po_log p)" and f: "set (po_log p) \<inter> set (po_feed p) = {}"
    using assms by (auto simp: each_inv_def count_inv_def flow_inv_def)
  have one: "count (mset (po_log p)) it \<le> 1"
    using d by (simp add: distinct_count_atmost_1)
  show "WFailed it e \<in> set (po_workers p) \<Longrightarrow> WRunning it \<notin> set (po_workers p)"
    using flying_twice [of it "po_workers p" e] one unfolding m by fastforce
  show "it \<in> set (po_ok p) \<Longrightarrow> WRunning it \<notin> set (po_workers p)"
  proof
    assume "it \<in> set (po_ok p)" "WRunning it \<in> set (po_workers p)"
    then have "2 \<le> count (mset (po_ok p) + ?fly) it" using flying_set by (intro set_count) auto
    then show False using one unfolding m by simp
  qed
  have "set_mset (mset (po_ok p)) \<subseteq> set_mset (mset (po_log p))" "set_mset ?fly \<subseteq> set_mset (mset (po_log p))"
    unfolding m by auto
  then have "set (po_ok p) \<subseteq> set (po_log p)" "set (concat (map flying (po_workers p))) \<subseteq> set (po_log p)"
    unfolding set_mset_mset by blast+
  then show "it \<in> set (po_feed p) \<Longrightarrow> WRunning it \<notin> set (po_workers p)"
    "it \<in> set (po_feed p) \<Longrightarrow> it \<notin> set (po_ok p)"
    using f flying_set [of it "po_workers p"] by blast+
qed

section \<open>The tracker follows the pool\<close>

text \<open>A row in flight: the position its last report says, within the span of its stage.\<close>

definition live_row :: "bool \<Rightarrow> blobRow \<Rightarrow> bool" where
  "live_row verify r \<longleftrightarrow>
     br_State r = BlobInFlight
     \<and> (\<not> br_sawStage r \<longrightarrow> br_Fraction r = 0)
     \<and> (br_sawStage r \<longrightarrow>
          (\<exists>s. br_Stage r = Some s \<and> (s = StageVerify \<longrightarrow> verify)
             \<and> (s = StageRaw \<longrightarrow> br_stageBase r + br_stageShare r = 1)
             \<and> (s \<noteq> StageRaw \<longrightarrow> stage_span verify 0 s = (br_stageBase r, br_stageShare r)))
          \<and> (br_Fraction r = br_stageBase r
              \<or> br_Fraction r = br_stageBase r + br_stageShare r * part_of (br_Size r) (br_Progress r)))"

definition finished_row :: "blob_Meta \<Rightarrow> blobRow \<Rightarrow> bool" where
  "finished_row m r \<longleftrightarrow>
     br_State r \<in> {BlobDone, BlobPresent} \<and> br_Kind r = Some (bm_Kind m) \<and> br_RawReason r = bm_RawReason m
     \<and> br_Fraction r = 1"

definition cell ::
  "bool \<Rightarrow> PlanBlob set \<Rightarrow> PlanBlob set \<Rightarrow> PlanBlob set \<Rightarrow> (digest \<Rightarrow> blob_Meta option) \<Rightarrow> PlanBlob \<Rightarrow> blobRow \<Rightarrow> bool" where
  "cell verify feed run oks metas pb r \<longleftrightarrow>
     row_ok r \<and> br_Digest r = pb_Digest pb \<and> br_Size r = pb_Size pb
     \<and> (pb_Present pb \<longrightarrow> br_State r = BlobPresent \<and> br_Fraction r = 1)
     \<and> (pb \<in> feed \<longrightarrow> br_State r = BlobPending \<and> \<not> br_sawStage r \<and> br_Fraction r = 0)
     \<and> (pb \<in> run \<longrightarrow> live_row verify r)
     \<and> (pb \<in> oks \<longrightarrow> (\<exists>m. metas (pb_Digest pb) = Some m \<and> finished_row m r))"

definition runs :: "('a, 'e) pool \<Rightarrow> 'a set" where
  "runs p = {it. WRunning it \<in> set (po_workers p)}"

definition cells :: "PlanBlob list \<Rightarrow> store_run \<Rightarrow> bool" where
  "cells bs x \<longleftrightarrow>
     length (tr_blobs (sr_tr x)) = length bs
     \<and> (\<forall>i < length bs. tr_byDigest (sr_tr x) (pb_Digest (bs ! i)) = Some i
          \<and> cell (tr_Verify (sr_tr x)) (set (po_feed (sr_pool x))) (runs (sr_pool x)) (set (po_ok (sr_pool x)))
              (sr_metas x) (bs ! i) (tr_blobs (sr_tr x) ! i))"

definition store_inv :: "nat \<Rightarrow> Plan \<Rightarrow> store_run \<Rightarrow> bool" where
  "store_inv n p x \<longleftrightarrow> each_inv n (absentLargestFirst p) (sr_pool x) \<and> cells (p_Blobs p) x"

lemma absentLargestFirst_set: "set (absentLargestFirst p) = {pb \<in> set (p_Blobs p). \<not> pb_Present pb}"
  by (simp add: absentLargestFirst_def)

lemma absentLargestFirst_distinct: "distinct (map pb_Digest (p_Blobs p)) \<Longrightarrow> distinct (absentLargestFirst p)"
  by (simp add: absentLargestFirst_def distinct_map)

text \<open>A step touches one row; the others keep theirs if the sets only shrink away from it.\<close>

lemma cells_step:
  assumes c: "cells (p_Blobs p) x" and d: "distinct (map pb_Digest (p_Blobs p))"
    and i: "i < length (p_Blobs p)" "p_Blobs p ! i = pb"
    and t: "sr_tr y = upd_row (pb_Digest pb) f (sr_tr x)"
    and sets: "set (po_feed (sr_pool y)) \<subseteq> set (po_feed (sr_pool x))"
      "runs (sr_pool y) \<subseteq> insert pb (runs (sr_pool x))" "set (po_ok (sr_pool y)) \<subseteq> insert pb (set (po_ok (sr_pool x)))"
    and metas: "\<And>e. e \<noteq> pb_Digest pb \<Longrightarrow> sr_metas y e = sr_metas x e"
    and new: "\<And>r. tr_blobs (sr_tr x) ! i = r \<Longrightarrow>
      cell (tr_Verify (sr_tr x)) (set (po_feed (sr_pool x))) (runs (sr_pool x)) (set (po_ok (sr_pool x))) (sr_metas x) pb r \<Longrightarrow>
      cell (tr_Verify (sr_tr x)) (set (po_feed (sr_pool y))) (runs (sr_pool y)) (set (po_ok (sr_pool y))) (sr_metas y) pb (f r)"
  shows "cells (p_Blobs p) y"
proof -
  let ?bs = "p_Blobs p"
  have b: "tr_byDigest (sr_tr x) (pb_Digest pb) = Some i" "length (tr_blobs (sr_tr x)) = length ?bs"
    using c i by (auto simp: cells_def)
  then have ty: "sr_tr y = (sr_tr x)\<lparr>tr_blobs := (tr_blobs (sr_tr x))[i := f (tr_blobs (sr_tr x) ! i)]\<rparr>"
    by (simp add: t upd_row_def)
  have "cell (tr_Verify (sr_tr y)) (set (po_feed (sr_pool y))) (runs (sr_pool y)) (set (po_ok (sr_pool y)))
      (sr_metas y) (?bs ! j) (tr_blobs (sr_tr y) ! j)" if j: "j < length ?bs" for j
  proof (cases "j = i")
    case True
    have "cell (tr_Verify (sr_tr x)) (set (po_feed (sr_pool x))) (runs (sr_pool x)) (set (po_ok (sr_pool x)))
        (sr_metas x) pb (tr_blobs (sr_tr x) ! i)" using c i by (auto simp: cells_def)
    from new [OF refl this] show ?thesis using True i b(2) by (simp add: ty)
  next
    case False
    then have ne: "pb_Digest (?bs ! j) \<noteq> pb_Digest pb" using distinct_digests_nth [OF d j i(1)] i(2) by auto
    then have "?bs ! j \<noteq> pb" by auto
    then show ?thesis
      using c j sets metas [OF ne] False by (auto simp: ty cells_def cell_def nth_list_update)
  qed
  then show ?thesis using c b by (simp add: cells_def ty)
qed

section \<open>Rows only move forward\<close>

lemma part_of_le: "m \<le> n \<Longrightarrow> part_of len m \<le> part_of len n"
proof -
  assume mn: "m \<le> n"
  then have "(of_nat m :: rat) / of_nat len \<le> of_nat n / of_nat len" by (intro divide_right_mono) simp_all
  with mn show "part_of len m \<le> part_of len n" by (auto simp: part_of_def min_def)
qed

lemma span_ends:
  assumes "stage_rank s0 < stage_rank s" "s \<noteq> StageRaw" "s = StageVerify \<longrightarrow> verify"
    "stage_span verify e0 s0 = (b0, sh0)" "stage_span verify e s = (b, sh)"
  shows "b0 + sh0 \<le> b"
  using assms by (cases s0; cases s) (auto simp: stage_span_def split: if_splits)

lemma live_row_le:
  assumes "live_row verify r" "row_ok r"
  shows "br_Fraction r \<le> (if br_sawStage r then br_stageBase r + br_stageShare r else 0)"
    "br_sawStage r \<Longrightarrow> br_Fraction r \<le> br_stageBase r + br_stageShare r * part_of (br_Size r) (br_Progress r)"
  using assms span_point [of "br_stageBase r" "br_stageShare r" "part_of (br_Size r) (br_Progress r)"]
  by (auto simp: live_row_def row_ok_def)

lemma stage_row_live:
  assumes "live_row verify r" "row_ok r" "stage_follows verify (br_Stage r) s"
  shows "live_row verify (stage_row verify s r) \<and> br_Fraction r \<le> br_Fraction (stage_row verify s r)"
proof -
  let ?e = "if \<not> br_sawStage r then 0 else br_stageBase r + br_stageShare r"
  obtain b sh where sp: "stage_span verify ?e s = (b, sh)" by fastforce
  have z: "stage_span verify 0 s = (b, sh)" if "s \<noteq> StageRaw" using sp that by (cases s) (auto simp: stage_span_def)
  have e: "0 \<le> ?e" "?e \<le> 1" using assms(2) by (auto simp: row_ok_def)
  have "br_Fraction r \<le> b"
  proof (cases "br_sawStage r \<and> s \<noteq> StageRaw")
    case True
    then obtain s0 where s0: "br_Stage r = Some s0" "s0 \<noteq> StageRaw \<Longrightarrow> stage_span verify 0 s0 = (br_stageBase r, br_stageShare r)"
      using assms(1) by (auto simp: live_row_def)
    have rk: "stage_rank s0 < stage_rank s" "s = StageVerify \<longrightarrow> verify" using assms(3) s0(1) by (auto simp: stage_follows_def)
    then have "s0 \<noteq> StageRaw" by (cases s) auto
    then have "br_stageBase r + br_stageShare r \<le> b"
      using span_ends [OF rk(1) _ rk(2) s0(2) sp] True by blast
    then show ?thesis using live_row_le(1) [OF assms(1,2)] True by simp
  next
    case False
    moreover have "?e \<le> b \<or> ?e = 0" using sp False by (auto simp: stage_span_def)
    ultimately show ?thesis using live_row_le(1) [OF assms(1,2)] stage_span_ok [OF e sp] by (auto split: if_splits)
  qed
  moreover have "s = StageRaw \<longrightarrow> b + sh = 1" using sp by (auto simp: stage_span_def)
  ultimately show ?thesis
    using sp z assms(1,3) by (auto simp: stage_row_def Let_def live_row_def stage_follows_def)
qed

lemma progress_row_live:
  assumes "live_row verify r" "row_ok r" "br_Progress r \<le> n"
  shows "live_row verify (progress_row n r) \<and> br_Fraction r \<le> br_Fraction (progress_row n r)"
proof (cases "br_sawStage r")
  case True
  have "br_stageShare r * part_of (br_Size r) (br_Progress r) \<le> br_stageShare r * part_of (br_Size r) n"
    using part_of_le [OF assms(3)] assms(2) by (intro mult_left_mono) (simp_all add: row_ok_def)
  then show ?thesis using live_row_le(2) [OF assms(1,2) True] assms(1) by (simp add: progress_row_simp live_row_def True)
qed (use assms in \<open>simp add: progress_row_simp\<close>)

lemma done_row_finished: "finished_row m (done_row (Some m) r)"
  by (simp add: finished_row_def done_row_def Let_def)

section \<open>The steps keep the invariant\<close>

text \<open>What a step does when it touches the tracker: one row, which moves forward.\<close>

definition row_step :: "PlanBlob list \<Rightarrow> nat \<Rightarrow> (blobRow \<Rightarrow> blobRow) \<Rightarrow> store_run \<Rightarrow> store_run \<Rightarrow> bool" where
  "row_step bs i f x y \<longleftrightarrow>
     i < length bs \<and> \<not> pb_Present (bs ! i) \<and> sr_tr y = upd_row (pb_Digest (bs ! i)) f (sr_tr x)
     \<and> set (po_feed (sr_pool y)) \<subseteq> set (po_feed (sr_pool x))
     \<and> runs (sr_pool y) \<subseteq> insert (bs ! i) (runs (sr_pool x))
     \<and> set (po_ok (sr_pool y)) \<subseteq> insert (bs ! i) (set (po_ok (sr_pool x)))
     \<and> (\<forall>e. e \<noteq> pb_Digest (bs ! i) \<longrightarrow> sr_metas y e = sr_metas x e)
     \<and> (\<forall>r. cell (tr_Verify (sr_tr x)) (set (po_feed (sr_pool x))) (runs (sr_pool x)) (set (po_ok (sr_pool x)))
              (sr_metas x) (bs ! i) r \<longrightarrow> tr_blobs (sr_tr x) ! i = r \<longrightarrow>
            cell (tr_Verify (sr_tr x)) (set (po_feed (sr_pool y))) (runs (sr_pool y)) (set (po_ok (sr_pool y)))
              (sr_metas y) (bs ! i) (f r) \<and> br_Fraction r \<le> br_Fraction (f r))"

lemma runs_send:
  assumes "feed_send p w = Some q" "po_feed p = it # rest"
  shows "runs q \<subseteq> insert it (runs p)" "it \<in> runs q" "po_feed q = rest" "po_ok q = po_ok p"
  using assms set_update_subset_insert [of "po_workers p" w "WRunning it"]
  by (auto simp: feed_send_def runs_def set_update_memI split: if_splits)

lemma runs_returns:
  assumes "call_returns p w er = Some q" "running p w it"
  shows "runs q \<subseteq> runs p" "po_feed q = po_feed p" "po_ok q = (if er = None then po_ok p @ [it] else po_ok p)" "it \<in> runs p"
proof -
  have "x \<in> set ((po_workers p)[w := v]) \<Longrightarrow> x = v \<or> x \<in> set (po_workers p)" for x v
    using set_update_subset_insert [of "po_workers p" w v] by blast
  then show "runs q \<subseteq> runs p"
    using assms by (cases er) (fastforce simp: call_returns_def runs_def running_def split: worker.splits if_splits)+
  show "po_feed q = po_feed p" "po_ok q = (if er = None then po_ok p @ [it] else po_ok p)"
    using assms by (auto simp: call_returns_def running_def split: option.splits)
  show "it \<in> runs p" using assms(2) by (auto simp: running_def runs_def) (metis nth_mem)
qed

lemma pool_only_sets:
  "pool_only p q \<Longrightarrow> runs q \<subseteq> runs p \<and> po_feed q = po_feed p \<and> po_ok q = po_ok p \<and> each_step p q"
proof (induction rule: pool_only.induct)
  case (PNote p w q)
  then show ?case
    using set_update_subset_insert [of "po_workers p" w WIdle] each_step.Note
    by (fastforce simp: note_error_def runs_def Let_def split: worker.splits if_splits)
next
  case (PExit p w q)
  then show ?case
    using set_update_subset_insert [of "po_workers p" w WExited] each_step.Exit
    by (fastforce simp: worker_exits_def runs_def split: if_splits)
qed (auto simp: feed_stop_def feed_close_def outer_cancelled_def each_return_def runs_def split: if_splits
    intro: each_step.intros)

lemma store_step_pool: "store_step a x y \<Longrightarrow> each_step (sr_pool x) (sr_pool y) \<or> sr_pool y = sr_pool x"
  by (induction rule: store_step.induct) (auto intro: each_step.intros dest: pool_only_sets)

lemma store_step_verify: "store_step a x y \<Longrightarrow> tr_Verify (sr_tr y) = tr_Verify (sr_tr x)"
  by (induction rule: store_step.induct)
    (auto simp: Start_def BlobStage_def BlobProgress_def Done_def Fail_def upd_row_def split: option.splits)

lemma item_position:
  assumes "each_inv n (absentLargestFirst p) q" "it \<in> set (po_feed q) \<union> runs q"
  obtains i where "i < length (p_Blobs p)" "p_Blobs p ! i = it" "\<not> pb_Present it"
proof -
  have l: "set (absentLargestFirst p) = set (po_log q) \<union> set (po_feed q)"
    using assms(1) unfolding each_inv_def flow_inv_def by (metis set_append)
  have "set_mset (mset (concat (map flying (po_workers q)))) \<subseteq> set_mset (mset (po_log q))"
    using assms(1) by (auto simp: each_inv_def count_inv_def)
  then have "it \<in> set (absentLargestFirst p)"
    using assms(2) flying_set [of it "po_workers q"] unfolding set_mset_mset l runs_def by blast

  then show ?thesis using that by (auto simp: absentLargestFirst_set in_set_conv_nth)
qed

lemma row_size [simp]:
  "br_Size (stage_row verify s r) = br_Size r" "br_Size (progress_row n r) = br_Size r"
  "br_Size (done_row m r) = br_Size r"
  by (auto simp: stage_row_def progress_row_def done_row_def Let_def split: prod.splits option.splits)

lemma done_row_fraction [simp]: "br_Fraction (done_row m r) = 1"
  by (simp add: done_row_def Let_def split: option.splits)

lemma row_ok_le: "row_ok r \<Longrightarrow> br_Fraction r \<le> 1"
  by (simp add: row_ok_def)

lemma returns_failed:
  "call_returns p w (Some e) = Some q \<Longrightarrow> running p w it \<Longrightarrow> WFailed it e \<in> set (po_workers q)"
  by (auto simp: call_returns_def running_def intro: set_update_memI)

text \<open>A report of Put for a blob in flight.\<close>

lemma report_row_step:
  assumes "store_inv n p x" "distinct (map pb_Digest (p_Blobs p))"
    and "running (sr_pool x) w pb" "row_of (sr_tr x) (pb_Digest pb) = Some r"
    and f: "\<And>v. v = tr_Verify (sr_tr x) \<Longrightarrow> live_row v r \<Longrightarrow> row_ok r \<Longrightarrow> live_row v (f r) \<and> br_Fraction r \<le> br_Fraction (f r)"
      "row_ok r \<Longrightarrow> row_ok (f r)" "br_Digest (f r) = br_Digest r" "br_Size (f r) = br_Size r"
    and y: "y = x\<lparr>sr_tr := upd_row (pb_Digest pb) f (sr_tr x)\<rparr>"
  shows "\<exists>i. row_step (p_Blobs p) i f x y"
proof -
  have pr: "pb \<in> runs (sr_pool x)" using assms(3) by (auto simp: running_def runs_def) (metis nth_mem)
  then obtain i where i: "i < length (p_Blobs p)" "p_Blobs p ! i = pb" "\<not> pb_Present pb"
    using item_position [of n p "sr_pool x" pb] assms(1) by (auto simp: store_inv_def)
  have "tr_blobs (sr_tr x) ! i = r" using assms(1,4) i by (auto simp: store_inv_def cells_def row_of_def)
  moreover have "pb \<notin> set (po_feed (sr_pool x))" "pb \<notin> set (po_ok (sr_pool x))"
    using each_exclusive(1,2) [of n "absentLargestFirst p" "sr_pool x" pb] assms(1) pr absentLargestFirst_distinct [OF assms(2)]
    by (auto simp: store_inv_def runs_def)
  ultimately have "row_step (p_Blobs p) i f x y"
    unfolding row_step_def i y using i pr f by (auto simp: cell_def)
  then show ?thesis ..
qed

lemma store_step_row:
  assumes "store_step a x y" "store_inv n p x" "each_inv n (absentLargestFirst p) (sr_pool y)"
    and d: "distinct (map pb_Digest (p_Blobs p))"
  shows "(\<exists>i f. row_step (p_Blobs p) i f x y) \<or> pool_only (sr_pool x) (sr_pool y) \<and> y = x\<lparr>sr_pool := sr_pool y\<rparr>"
  using assms(1)
proof cases
  case (SSend w q pb rest)
  note s = runs_send [OF SSend(2,3)]
  obtain i where i: "i < length (p_Blobs p)" "p_Blobs p ! i = pb" "\<not> pb_Present pb"
    using item_position [of n p "sr_pool x" pb] assms(2) SSend(3) by (auto simp: store_inv_def)
  have "pb \<notin> set rest" "pb \<notin> set (po_ok (sr_pool x))"
    using each_exclusive(2) [OF assms(3) absentLargestFirst_distinct [OF d], of pb] s(2,3) SSend(1)
      each_exclusive(3) [of n "absentLargestFirst p" "sr_pool x" pb] assms(2) absentLargestFirst_distinct [OF d] SSend(3)
    by (auto simp: runs_def store_inv_def)
  then have "row_step (p_Blobs p) i (\<lambda>r. r\<lparr>br_State := BlobInFlight\<rparr>) x y"
    unfolding row_step_def i SSend(1)
    using i s SSend(3) by (auto simp: Start_def cell_def live_row_def)
  then show ?thesis by blast
next
  case (SStage w pb r s)
  then show ?thesis
    using report_row_step [OF assms(2) d SStage(2,3), of "stage_row (tr_Verify (sr_tr x)) s" y] stage_row_live
    by (auto simp: BlobStage_def)
next
  case (SProgress w pb r k)
  then show ?thesis
    using report_row_step [OF assms(2) d SProgress(2,3), of "progress_row k" y] progress_row_live
    by (auto simp: BlobProgress_def)
next
  case (SDone w pb putf meta q)
  note s = runs_returns [OF SDone(4,2)]
  obtain i where i: "i < length (p_Blobs p)" "p_Blobs p ! i = pb" "\<not> pb_Present pb"
    using item_position [of n p "sr_pool x" pb] assms(2) s(4) by (auto simp: store_inv_def)
  have "pb \<notin> set (po_feed (sr_pool x))" "pb \<notin> runs q"
    using each_exclusive(2) [of n "absentLargestFirst p" "sr_pool x" pb] s(3,4) assms(2)
      each_exclusive(1) [OF assms(3) absentLargestFirst_distinct [OF d], of pb] SDone(1) absentLargestFirst_distinct [OF d]
    by (auto simp: runs_def store_inv_def)
  then have "row_step (p_Blobs p) i (done_row (Some meta)) x y"
    unfolding row_step_def i SDone(1)
    using i s done_row_finished [of meta] row_ok_le by (auto simp: Done_def cell_def)
  then show ?thesis by blast
next
  case (SFail w pb putf e q)
  note s = runs_returns [OF SFail(4,2)]
  obtain i where i: "i < length (p_Blobs p)" "p_Blobs p ! i = pb" "\<not> pb_Present pb"
    using item_position [of n p "sr_pool x" pb] assms(2) s(4) by (auto simp: store_inv_def)
  have "pb \<notin> set (po_feed (sr_pool x))" "pb \<notin> runs q" "pb \<notin> set (po_ok (sr_pool x))"
    using each_exclusive(1,2) [of n "absentLargestFirst p" "sr_pool x" pb] s(4) assms(2)
      each_exclusive(4) [OF assms(3) absentLargestFirst_distinct [OF d], of pb e] returns_failed [OF SFail(4,2)]
      SFail(1) absentLargestFirst_distinct [OF d]
    by (auto simp: runs_def store_inv_def)
  then have "row_step (p_Blobs p) i (\<lambda>r. r\<lparr>br_State := BlobFailed\<rparr>) x y"
    unfolding row_step_def i SFail(1)
    using i s by (auto simp: Fail_def cell_def)
  then show ?thesis by blast
next
  case (SPool q)
  then show ?thesis by simp
qed

lemma store_step_inv:
  assumes "store_inv n p x" "store_step a x y" "distinct (map pb_Digest (p_Blobs p))"
  shows "store_inv n p y"
proof -
  have e: "each_inv n (absentLargestFirst p) (sr_pool y)"
    using store_step_pool [OF assms(2)] assms(1) each.inv_step by (auto simp: store_inv_def)
  have c: "cells (p_Blobs p) x" using assms(1) by (simp add: store_inv_def)
  from store_step_row [OF assms(2,1) e assms(3)] have "cells (p_Blobs p) y"
  proof (elim disjE exE conjE)
    fix i f assume r: "row_step (p_Blobs p) i f x y"
    show ?thesis by (rule cells_step [OF c assms(3), of i]) (use r in \<open>auto simp: row_step_def\<close>)
  next
    assume "pool_only (sr_pool x) (sr_pool y)" and y: "y = x\<lparr>sr_pool := sr_pool y\<rparr>"
    then have s: "runs (sr_pool y) \<subseteq> runs (sr_pool x)" "po_feed (sr_pool y) = po_feed (sr_pool x)"
      "po_ok (sr_pool y) = po_ok (sr_pool x)" using pool_only_sets by auto
    have "sr_tr y = sr_tr x" "sr_metas y = sr_metas x" by (subst y, simp)+
    then show ?thesis using c s by (auto simp: cells_def cell_def)
  qed
  with e show ?thesis by (simp add: store_inv_def)
qed

section \<open>Where storing starts\<close>

lemma queue_blobs_rows:
  assumes "distinct (map pb_Digest pbs)" "tr_blobs t = []"
  shows "tr_blobs (foldl queue_blob t pbs) = map queue_row pbs
    \<and> (\<forall>i < length pbs. tr_byDigest (foldl queue_blob t pbs) (pb_Digest (pbs ! i)) = Some i)
    \<and> tr_Verify (foldl queue_blob t pbs) = tr_Verify t
    \<and> tr_checked (foldl queue_blob t pbs) = tr_checked t
    \<and> tr_toCheck (foldl queue_blob t pbs) = tr_toCheck t + sum_list (map pb_Size (filter (\<lambda>pb. \<not> pb_Present pb) pbs))"
  using assms
proof (induction pbs rule: rev_induct)
  case (snoc pb pbs)
  have "pb_Digest (pbs ! i) \<noteq> pb_Digest pb" if "i < length pbs" for i
    using snoc.prems(1) nth_mem [OF that] by (auto simp: image_iff)
  with snoc show ?case
    by (auto simp: queue_blob_def [of "foldl queue_blob t pbs" pb] nth_append less_Suc_eq)
qed simp

lemma Queue_rows:
  assumes "distinct (map pb_Digest (p_Blobs p))"
  shows "tr_blobs (Queue now (NewTracker v) p) = map queue_row (p_Blobs p)"
    "i < length (p_Blobs p) \<Longrightarrow> tr_byDigest (Queue now (NewTracker v) p) (pb_Digest (p_Blobs p ! i)) = Some i"
    "tr_Verify (Queue now (NewTracker v) p) = v" "tr_checked (Queue now (NewTracker v) p) = 0"
    "tr_toCheck (Queue now (NewTracker v) p) = sum_list (map pb_Size (filter (\<lambda>pb. \<not> pb_Present pb) (p_Blobs p)))"
  using queue_blobs_rows [OF assms, of "(NewTracker v)\<lparr>tr_phase := PhaseChecking, tr_started := Some now\<rparr>"]
  by (simp_all add: Queue_def Let_def NewTracker_def)

text \<open>Checking only moves the counter; \<open>rows_of\<close> is what it keeps.\<close>

lemma Checked_calls: "\<exists>k. foldl (\<lambda>t c. Checked t (n + c)) t calls = t\<lparr>tr_checked := k\<rparr>"
proof (induction calls arbitrary: t)
  case Nil
  show ?case by (rule exI [of _ "tr_checked t"]) simp
next
  case (Cons c calls)
  from Cons [of "Checked t (n + c)"] show ?case by (auto simp: Checked_def)
qed

lemma check_loop_tracker:
  "\<exists>k. snd (check_loop sha a ctx i n t pbs) = t\<lparr>tr_checked := k\<rparr>"
proof (induction pbs arbitrary: i n t)
  case Nil
  show ?case by (rule exI [of _ "tr_checked t"]) simp
next
  case (Cons pb pbs)
  obtain er calls where v: "Verify sha a (ctx i) (pb_Digest pb) = (er, calls)" by fastforce
  obtain k where k: "foldl (\<lambda>t c. Checked t (n + c)) t calls = t\<lparr>tr_checked := k\<rparr>" using Checked_calls by blast
  from Cons [of "Suc i" "n + pb_Size pb" "Checked (t\<lparr>tr_checked := k\<rparr>) (n + pb_Size pb)"] Cons [of i n t]
  show ?case by (auto simp: v k Checked_def [of "t\<lparr>tr_checked := k\<rparr>"] Let_def split: option.splits)
qed

lemma section_all_bytes: "section_all (ar_f a) s = (b, None) \<Longrightarrow> b = section_bytes a s"
  by (auto simp: section_all_def section_bytes_def ReadAt_def Let_def split: option.splits if_splits)

lemma Verify_None:
  assumes "Verify sha a ctx d = (None, calls)"
  obtains s where "Section a d = Inr s" "DigestOfBytes sha (section_bytes a s) = d"
proof (cases "Section a d")
  case (Inr s)
  then show ?thesis
    using assms that verify_loop_reads [of "ar_f a" s d ctx 0 0 "[]"] read_result_all [of "ar_f a" s d]
      section_all_bytes [of a s]
    by (auto simp: Verify_def split: prod.splits sum.splits option.splits if_splits)
qed (use assms in \<open>simp add: Verify_def\<close>)

lemma check_loop_None:
  assumes "check_loop sha a ctx i n t pbs = (None, t')" "tr_checked t = n"
  shows "tr_checked t' = n + sum_list (map pb_Size (filter (\<lambda>pb. \<not> pb_Present pb) pbs))
    \<and> (\<forall>pb \<in> set pbs. \<not> pb_Present pb \<longrightarrow>
          (\<exists>s. Section a (pb_Digest pb) = Inr s \<and> DigestOfBytes sha (section_bytes a s) = pb_Digest pb))"
  using assms
proof (induction pbs arbitrary: i n t)
  case (Cons pb pbs)
  show ?case
  proof (cases "pb_Present pb")
    case False
    then obtain calls where v: "Verify sha a (ctx i) (pb_Digest pb) = (None, calls)"
      "check_loop sha a ctx (Suc i) (n + pb_Size pb) (Checked (foldl (\<lambda>t c. Checked t (n + c)) t calls) (n + pb_Size pb)) pbs
         = (None, t')"
      using Cons.prems by (auto simp: Let_def split: prod.splits option.splits)
    note ih = Cons.IH [OF v(2)]
    obtain s where "Section a (pb_Digest pb) = Inr s" "DigestOfBytes sha (section_bytes a s) = pb_Digest pb"
      by (rule Verify_None [OF v(1)])
    then show ?thesis using ih False by (cases s) (auto simp: Checked_def)
  qed (use Cons in simp)
qed simp

text \<open>The tracker when storeBlobs begins.\<close>

definition checked_tracker ::
  "(bytes \<Rightarrow> 256 word) \<Rightarrow> Archive \<Rightarrow> (nat \<Rightarrow> nat \<Rightarrow> err option) \<Rightarrow> bool \<Rightarrow> int \<Rightarrow> Plan \<Rightarrow> Tracker" where
  "checked_tracker sha a ctx verify now p = snd (check sha a ctx p (Queue now (NewTracker verify) p))"

lemma each_start_inv: "each_inv n items (each_start n items)"
  using each.inv_init [OF refl] .

lemma each_start_sets [simp]:
  "runs (each_start n items) = {}" "po_ok (each_start n items) = []" "po_feed (each_start n items) = items"
  by (auto simp: runs_def each_start_def)

lemma store_start_inv:
  assumes "distinct (map pb_Digest (p_Blobs p))"
  shows "store_inv n p (store_start now' n p (checked_tracker sha a ctx verify now p))"
proof -
  obtain k where k: "checked_tracker sha a ctx verify now p = (Queue now (NewTracker verify) p)\<lparr>tr_checked := k\<rparr>"
    using check_loop_tracker unfolding checked_tracker_def check_def by blast
  show ?thesis

    using Queue_rows [OF assms] each_start_inv [of n "absentLargestFirst p"]
    by (auto simp: store_inv_def store_start_def k StartBlobs_def cells_def cell_def queue_row_def row_ok_def
        absentLargestFirst_set)
qed

interpretation storing: invariant_system
  "\<lambda>x. distinct (map pb_Digest (p_Blobs p)) \<and> x = store_start now' n p (checked_tracker sha a ctx verify now p)"
  "store_step a" "\<lambda>x. distinct (map pb_Digest (p_Blobs p)) \<and> store_inv n p x"
  for now' n p sha a ctx verify now
  by unfold_locales (auto simp: store_start_inv intro: store_step_inv)

section \<open>What checking and storing promise\<close>

lemma Checked_toCheck [simp]: "tr_toCheck (t\<lparr>tr_checked := k\<rparr>) = tr_toCheck t"
  by simp


text \<open>
  The bars never run backwards: while the pool stores the blobs of a plan, with any number of
  workers, any interleaving of their reports, failures and cancellation, no step lowers the fraction of
  any row, as long as Put reports its stages in its order and counts that do not decrease.
\<close>

theorem progress_forward:
  assumes "reach (\<lambda>x. distinct (map pb_Digest (p_Blobs p)) \<and> x = store_start now' n p (checked_tracker sha a ctx verify now p))
      (store_step a) x"
    and "store_step a x y" "i < length (p_Blobs p)"
  shows "br_Fraction (tr_blobs (sr_tr x) ! i) \<le> br_Fraction (tr_blobs (sr_tr y) ! i)"
proof -
  have d: "distinct (map pb_Digest (p_Blobs p))" and inv: "store_inv n p x"
    using storing.reach_inv [OF assms(1)] by auto
  have e: "each_inv n (absentLargestFirst p) (sr_pool y)"
    using store_step_inv [OF inv assms(2) d] by (simp add: store_inv_def)
  from store_step_row [OF assms(2) inv e d] show ?thesis
  proof (elim disjE exE conjE)
    fix j f assume r: "row_step (p_Blobs p) j f x y"
    have "tr_byDigest (sr_tr x) (pb_Digest (p_Blobs p ! j)) = Some j" "length (tr_blobs (sr_tr x)) = length (p_Blobs p)"
      "cell (tr_Verify (sr_tr x)) (set (po_feed (sr_pool x))) (runs (sr_pool x)) (set (po_ok (sr_pool x)))
         (sr_metas x) (p_Blobs p ! j) (tr_blobs (sr_tr x) ! j)"
      using inv r by (auto simp: store_inv_def cells_def row_step_def)
    then show ?thesis using r assms(3) by (auto simp: row_step_def upd_row_def nth_list_update)
  next
    assume "y = x\<lparr>sr_pool := sr_pool y\<rparr>"
    then have "sr_tr y = sr_tr x" by (metis store_run.select_convs(2) store_run.surjective store_run.update_convs(1))
    then show ?thesis by simp
  qed
qed

section \<open>A run of one worker\<close>

definition one_blob :: PlanBlob where
  "one_blob = \<lparr>pb_Digest = len_digest 3, pb_Size = 3, pb_MediaType = ''m'', pb_Present = False\<rparr>"

definition one_plan :: Plan where
  "one_plan = \<lparr>p_Blobs = [one_blob], p_Manifests = [], p_Entries = []\<rparr>"

definition one_archive :: Archive where
  "one_archive =
     \<lparr>ar_f = \<lparr>fi_bytes = ''xxabc'', fi_bad = None\<rparr>, ar_blobs = [(len_digest 3, 2, 3)], ar_Index = ar_Index tiny_archive,
      ar_Legacy = [], ar_LayoutVersion = ''''\<rparr>"

lemma one_checked:
  "check len_sha one_archive (\<lambda>_ _. None) one_plan t = (None, (snd (check len_sha one_archive (\<lambda>_ _. None) one_plan t)))"
proof -
  have "Section one_archive (len_digest 3) = Inr (2, 3)" by (simp add: Section_def one_archive_def)
  moreover have "section_all (ar_f one_archive) (2, 3) = (''abc'', None)"
    by (simp add: one_archive_def section_all_def ReadAt_def)
  ultimately have "fst (Verify len_sha one_archive (\<lambda>_. None) (len_digest 3)) = None"
    using Verify_verdict [of one_archive "len_digest 3" "(2, 3)" "\<lambda>_. None" len_sha] by (simp add: DigestOfBytes_len eval_nat_numeral)
  then show ?thesis
    by (auto simp: check_def one_plan_def one_blob_def prod_eq_iff Let_def split: prod.splits option.splits)
qed


definition one_start :: store_run where
  "one_start = store_start 0 1 one_plan (checked_tracker len_sha one_archive (\<lambda>_ _. None) True 0 one_plan)"

lemma one_step: "\<exists>y. store_step one_archive one_start y"
proof -
  have "absentLargestFirst one_plan = [one_blob]" by (simp add: absentLargestFirst_def one_plan_def one_blob_def)
  then have f: "po_feed (sr_pool one_start) = one_blob # []" "\<exists>q. feed_send (sr_pool one_start) 0 = Some q"
    by (simp_all add: one_start_def store_start_def feed_send_def each_start_def)
  then show ?thesis using SSend by blast
qed

theorem progress_forward_witness:
  "\<exists>y. store_step one_archive one_start y
     \<and> br_Fraction (tr_blobs (sr_tr one_start) ! 0) \<le> br_Fraction (tr_blobs (sr_tr y) ! 0)"
proof -
  have "distinct (map pb_Digest (p_Blobs one_plan))" "0 < length (p_Blobs one_plan)" by (simp_all add: one_plan_def)
  moreover obtain y where "store_step one_archive one_start y" using one_step by blast
  ultimately show ?thesis
    using progress_forward [of one_plan 0 1 len_sha one_archive "\<lambda>_ _. None" True 0 one_start y 0]
      reach_init [of "\<lambda>x. distinct (map pb_Digest (p_Blobs one_plan)) \<and> x = one_start" one_start "store_step one_archive"]
    unfolding one_start_def [symmetric] by blast
qed

end
