(* ===== verification/Importer.thy ===== *)
theory Importer
  imports Docker_Props Import_Store
begin

text \<open>
  Publishing a plan and reporting on it (src/importer/importer.go: Run, run, publish, putManifest,
  reposOf, refsFor, noteRootfs, account; src/importer/report.go). image.Store.Put is the parameter
  \<open>putm\<close> on the state of the stores. The image manifests go through the pool of \<open>Import_Each\<close>: \<open>sched\<close> is
  the order in which its calls return, each taken as one step, and \<open>outer\<close> the error of the caller's
  context, if it ended. The outer option is None where the code would dereference a nil pointer or
  index an empty slice. Byte totals are unbounded. The percentages of the report (float64, for
  display) and the duration are not modelled.
\<close>

record BlobCounts =
  bc_Processed :: nat
  bc_Prism :: nat
  bc_Raw :: nat
  bc_Present :: nat
  bc_RawReasons :: "RawReason option \<Rightarrow> nat"

record EntryReport =
  er_Names :: "Name list"
  er_Digest :: digest
  er_IsIndex :: bool
  er_Platforms :: nat
  er_Attestations :: nat
  er_Rootfs :: "Rootfs list"
  er_Stats :: image_Stats

record Report =
  rp_Entries :: "EntryReport list"
  rp_Blobs :: BlobCounts
  rp_Compressed :: int
  rp_Uncompressed :: int
  rp_Added :: int
  rp_Logical :: int
  rp_Deduped :: int

record publishJob =
  pj_repo :: string
  pj_pm :: PlanManifest
  pj_refs :: "string list"

section \<open>The jobs\<close>

definition reposOf :: "Name list \<Rightarrow> string list" where
  "reposOf names = foldl (\<lambda>repos n. if nm_Repo n \<in> set repos then repos else repos @ [nm_Repo n]) [] names"

definition refsFor :: "PlanEntry \<Rightarrow> digest \<Rightarrow> string \<Rightarrow> string list" where
  "refsFor e d repo =
     (if d \<noteq> pe_Digest e then [d] else map nm_Tag (filter (\<lambda>n. nm_Repo n = repo) (pe_Names e)))"

definition plan_byDigest :: "Plan \<Rightarrow> digest \<Rightarrow> PlanManifest option" where
  "plan_byDigest p = foldl (\<lambda>m pm. m(pm_Digest pm \<mapsto> pm)) (\<lambda>_. None) (p_Manifests p)"

text \<open>The three nested loops, as the list of what their body sees.\<close>

definition publish_order :: "Plan \<Rightarrow> (PlanEntry \<times> string \<times> digest) list" where
  "publish_order p =
     concat (map (\<lambda>e. concat (map (\<lambda>repo. map (\<lambda>d. (e, repo, d)) (pe_Manifests e)) (reposOf (pe_Names e))))
       (p_Entries p))"

fun collect_jobs ::
  "(digest \<Rightarrow> PlanManifest option) \<Rightarrow> (PlanEntry \<times> string \<times> digest) list \<Rightarrow> publishJob list \<times> publishJob list
     \<Rightarrow> import_err + publishJob list \<times> publishJob list" where
  "collect_jobs byd [] js = Inr js"
| "collect_jobs byd ((e, repo, d) # xs) (images, indexes) =
     (case byd d of
        None \<Rightarrow> Inl (IPlanLacks d)
      | Some pm \<Rightarrow>
          (let j = \<lparr>pj_repo = repo, pj_pm = pm, pj_refs = refsFor e d repo\<rparr> in
           collect_jobs byd xs (if pm_IsIndex pm then (images, indexes @ [j]) else (images @ [j], indexes))))"

section \<open>Putting manifests\<close>

record 'w pub =
  pu_w :: 'w
  pu_tr :: Tracker
  pu_first :: "string \<times> digest \<Rightarrow> image_Meta option"
  pu_log :: "(string \<times> PlanManifest \<times> string) list"

type_synonym 'w put_manifest = "'w \<Rightarrow> string \<Rightarrow> string \<Rightarrow> string \<Rightarrow> bytes \<Rightarrow> image_Meta res \<times> 'w"

text \<open>The loop over the references; \<open>pu_log\<close> records the Puts that succeeded.\<close>

fun put_refs ::
  "'w put_manifest \<Rightarrow> string \<Rightarrow> PlanManifest \<Rightarrow> string list \<Rightarrow> image_Meta option \<Rightarrow> 'w pub
     \<Rightarrow> (import_err + image_Meta option) \<times> 'w pub" where
  "put_refs putm repo pm [] fst_meta st = (Inr fst_meta, st)"
| "put_refs putm repo pm (ref # refs) fst_meta st =
     (let st = st\<lparr>pu_tr := ManifestStart (pu_tr st) (pm_Digest pm)\<rparr> in
      case putm (pu_w st) repo ref (pm_MediaType pm) (pm_Body pm) of
        (Inl e, w) \<Rightarrow> (Inl (IPublishing repo ref e), st\<lparr>pu_w := w\<rparr>)
      | (Inr meta, w) \<Rightarrow>
          put_refs putm repo pm refs (case fst_meta of None \<Rightarrow> Some meta | Some m \<Rightarrow> Some m)
            (st\<lparr>pu_w := w, pu_tr := Tracker_ManifestDone (pu_tr st) (pm_Digest pm) (Some meta),
                pu_log := pu_log st @ [(repo, pm, ref)]\<rparr>))"

definition importer_putManifest ::
  "'w put_manifest \<Rightarrow> publishJob \<Rightarrow> 'w pub \<Rightarrow> (import_err + image_Meta option) \<times> 'w pub" where
  "importer_putManifest putm j st = put_refs putm (pj_repo j) (pj_pm j) (pj_refs j) None st"

text \<open>A job of either phase: putManifest and, when it succeeds, first.\<close>

definition run_job :: "'w put_manifest \<Rightarrow> publishJob \<Rightarrow> 'w pub \<Rightarrow> import_err option \<times> 'w pub" where
  "run_job putm j st =
     (case importer_putManifest putm j st of
        (Inl e, st) \<Rightarrow> (Some e, st)
      | (Inr meta, st) \<Rightarrow> (None, st\<lparr>pu_first := (pu_first st)((pj_repo j, pm_Digest (pj_pm j)) := meta)\<rparr>))"

text \<open>The pool: every job of \<open>sched\<close> is run, and the first error is kept.\<close>

fun image_phase :: "'w put_manifest \<Rightarrow> publishJob list \<Rightarrow> 'w pub \<Rightarrow> import_err option \<times> 'w pub" where
  "image_phase putm [] st = (None, st)"
| "image_phase putm (j # js) st =
     (case run_job putm j st of
        (er, st) \<Rightarrow>
          (case image_phase putm js st of
             (er', st) \<Rightarrow> (case er of None \<Rightarrow> (er', st) | Some e \<Rightarrow> (Some e, st))))"

text \<open>The indexes: one after the other, up to the first error.\<close>

fun index_phase :: "'w put_manifest \<Rightarrow> publishJob list \<Rightarrow> 'w pub \<Rightarrow> import_err option \<times> 'w pub" where
  "index_phase putm [] st = (None, st)"
| "index_phase putm (j # js) st =
     (case run_job putm j st of
        (Some e, st) \<Rightarrow> (Some e, st)
      | (None, st) \<Rightarrow> index_phase putm js st)"

section \<open>The report\<close>

definition noteRootfs :: "EntryReport \<Rightarrow> PlanManifest \<Rightarrow> image_Meta option \<Rightarrow> EntryReport option" where
  "noteRootfs er pm meta =
     (if pm_IsIndex pm \<or> pm_Attestation pm then Some er
      else case meta of
        None \<Rightarrow> None
      | Some m \<Rightarrow>
          (case im_Rootfs m of
             None \<Rightarrow> Some er
           | Some rf \<Rightarrow>
               if rf_Status rf = RootfsNotApplicable then Some er
               else Some (er\<lparr>er_Rootfs := er_Rootfs er @ [rf]\<rparr>)))"

definition zero_PlanManifest :: PlanManifest where
  "zero_PlanManifest =
     \<lparr>pm_Digest = '''', pm_MediaType = '''', pm_Body = [], pm_IsIndex = False, pm_Synthesized = False,
      pm_Attestation = False\<rparr>"

definition or_zero :: "PlanManifest option \<Rightarrow> PlanManifest" where
  "or_zero x = (case x of None \<Rightarrow> zero_PlanManifest | Some pm \<Rightarrow> pm)"

fun entry_loop ::
  "(digest \<Rightarrow> PlanManifest option) \<Rightarrow> (string \<times> digest \<Rightarrow> image_Meta option) \<Rightarrow> digest \<Rightarrow> string
     \<Rightarrow> digest list \<Rightarrow> EntryReport \<Rightarrow> EntryReport option" where
  "entry_loop byd fst_meta ed repo [] er = Some er"
| "entry_loop byd fst_meta ed repo (d # ds) er =
     (case (if d = ed
            then (case fst_meta (repo, d) of None \<Rightarrow> None | Some m \<Rightarrow> Some (er\<lparr>er_Stats := im_Stats m\<rparr>))
            else Some er) of
        None \<Rightarrow> None
      | Some er \<Rightarrow>
          (case noteRootfs er (or_zero (byd d)) (fst_meta (repo, d)) of
             None \<Rightarrow> None
           | Some er \<Rightarrow> entry_loop byd fst_meta ed repo ds er))"

definition zero_stats :: image_Stats where
  "zero_stats = \<lparr>is_TotalBytes = 0, is_LogicalBytes = 0, is_DedupedBytes = 0, is_DiskBytes = 0\<rparr>"

definition entry_report ::
  "(digest \<Rightarrow> PlanManifest option) \<Rightarrow> (string \<times> digest \<Rightarrow> image_Meta option) \<Rightarrow> PlanEntry \<Rightarrow> EntryReport option" where
  "entry_report byd fst_meta e =
     (case reposOf (pe_Names e) of
        [] \<Rightarrow> None
      | repo # _ \<Rightarrow>
          entry_loop byd fst_meta (pe_Digest e) repo (pe_Manifests e)
            \<lparr>er_Names = pe_Names e, er_Digest = pe_Digest e, er_IsIndex = pe_IsIndex e, er_Platforms = pe_Platforms e,
             er_Attestations = pe_Attestations e, er_Rootfs = [], er_Stats = zero_stats\<rparr>)"

definition add_entry_report :: "Report \<Rightarrow> EntryReport \<Rightarrow> Report" where
  "add_entry_report rep er =
     rep\<lparr>rp_Entries := rp_Entries rep @ [er], rp_Added := rp_Added rep + is_DiskBytes (er_Stats er),
         rp_Logical := rp_Logical rep + is_LogicalBytes (er_Stats er),
         rp_Deduped := rp_Deduped rep + is_DedupedBytes (er_Stats er)\<rparr>"

fun report_entries ::
  "(digest \<Rightarrow> PlanManifest option) \<Rightarrow> (string \<times> digest \<Rightarrow> image_Meta option) \<Rightarrow> PlanEntry list \<Rightarrow> Report \<Rightarrow> Report option" where
  "report_entries byd fst_meta [] rep = Some rep"
| "report_entries byd fst_meta (e # es) rep =
     (case entry_report byd fst_meta e of
        None \<Rightarrow> None
      | Some er \<Rightarrow> report_entries byd fst_meta es (add_entry_report rep er))"

text \<open>account: the states the tracker shows, then one blob after the other, then the manifests.\<close>

definition shown_states :: "blobRow list \<Rightarrow> digest \<Rightarrow> BlobState" where
  "shown_states rows = foldl (\<lambda>st r. st(br_Digest r := br_State r)) (\<lambda>_. BlobPending) rows"

definition count_blob :: "blob_Meta option \<Rightarrow> bool \<Rightarrow> BlobCounts \<Rightarrow> BlobCounts" where
  "count_blob m present c =
     (if present then c\<lparr>bc_Present := bc_Present c + 1\<rparr>
      else let c = c\<lparr>bc_Processed := bc_Processed c + 1\<rparr> in
        case m of
          None \<Rightarrow> c
        | Some m \<Rightarrow>
            (case bm_Kind m of
               KindPrism \<Rightarrow> c\<lparr>bc_Prism := bc_Prism c + 1\<rparr>
             | KindRaw \<Rightarrow>
                 c\<lparr>bc_Raw := bc_Raw c + 1,
                   bc_RawReasons := (bc_RawReasons c)(bm_RawReason m := bc_RawReasons c (bm_RawReason m) + 1)\<rparr>))"

definition account_blob ::
  "(digest \<Rightarrow> BlobState) \<Rightarrow> (digest \<Rightarrow> blob_Meta option) \<Rightarrow> Report \<Rightarrow> PlanBlob \<Rightarrow> Report" where
  "account_blob state metas rep pb =
     (let m = metas (pb_Digest pb) in
      rep\<lparr>rp_Compressed := rp_Compressed rep + int (pb_Size pb),
          rp_Uncompressed := rp_Uncompressed rep +
            (case m of
               None \<Rightarrow> int (pb_Size pb)
             | Some m \<Rightarrow> if bm_Kind m = KindPrism then bm_UncompressedSize m else int (pb_Size pb)),
          rp_Blobs := count_blob m (pb_Present pb \<or> state (pb_Digest pb) = BlobPresent) (rp_Blobs rep)\<rparr>)"

definition account_manifest :: "Report \<Rightarrow> PlanManifest \<Rightarrow> Report" where
  "account_manifest rep pm =
     rep\<lparr>rp_Compressed := rp_Compressed rep + int (length (pm_Body pm)),
         rp_Uncompressed := rp_Uncompressed rep + int (length (pm_Body pm))\<rparr>"

definition importer_account :: "Plan \<Rightarrow> Tracker \<Rightarrow> int \<Rightarrow> (digest \<Rightarrow> blob_Meta option) \<Rightarrow> Report \<Rightarrow> Report" where
  "importer_account p t now metas rep =
     (let state = shown_states (sn_Blobs (Tracker_Snapshot t now)) in
      foldl account_manifest (foldl (account_blob state metas) rep (p_Blobs p)) (p_Manifests p))"

definition empty_report :: Report where
  "empty_report =
     \<lparr>rp_Entries = [], rp_Blobs = \<lparr>bc_Processed = 0, bc_Prism = 0, bc_Raw = 0, bc_Present = 0, bc_RawReasons = (\<lambda>_. 0)\<rparr>,
      rp_Compressed = 0, rp_Uncompressed = 0, rp_Added = 0, rp_Logical = 0, rp_Deduped = 0\<rparr>"

section \<open>The phases of a run\<close>

definition publish_report ::
  "int \<Rightarrow> Plan \<Rightarrow> (digest \<Rightarrow> blob_Meta option) \<Rightarrow> 'w pub \<Rightarrow> Report option" where
  "publish_report now p metas st =
     (case report_entries (plan_byDigest p) (pu_first st) (p_Entries p) empty_report of
        None \<Rightarrow> None
      | Some rep \<Rightarrow> Some (importer_account p (pu_tr st) now metas rep))"

definition publish ::
  "'w put_manifest \<Rightarrow> (publishJob list \<Rightarrow> publishJob list) \<Rightarrow> err option \<Rightarrow> int \<Rightarrow> Plan
     \<Rightarrow> (digest \<Rightarrow> blob_Meta option) \<Rightarrow> 'w \<Rightarrow> Tracker \<Rightarrow> (import_err + Report) option \<times> 'w pub" where
  "publish putm sched outer now p metas w t =
     (let st = \<lparr>pu_w = w, pu_tr = StartManifests t, pu_first = (\<lambda>_. None), pu_log = []\<rparr> in
      case collect_jobs (plan_byDigest p) (publish_order p) ([], []) of
        Inl e \<Rightarrow> (Some (Inl e), st)
      | Inr (images, indexes) \<Rightarrow>
          (case image_phase putm (sched images) st of
             (Some e, st) \<Rightarrow> (Some (Inl e), st)
           | (None, st) \<Rightarrow>
               (case outer of
                  Some e \<Rightarrow> (Some (Inl (ICtx e)), st)
                | None \<Rightarrow>
                    (case index_phase putm indexes st of
                       (Some e, st) \<Rightarrow> (Some (Inl e), st)
                     | (None, st) \<Rightarrow>
                         (case publish_report now p metas st of
                            None \<Rightarrow> (None, st)
                          | Some rep \<Rightarrow> (Some (Inr rep), st))))))"

text \<open>
  Run after Queue: check, then the pool of storeBlobs, which has reached the state \<open>x\<close> and returned,
  then publish; the last component is the tracker after Finish.
\<close>

definition finish_run :: "(import_err + Report) option \<Rightarrow> Tracker \<Rightarrow> (import_err + Report) option \<times> Tracker" where
  "finish_run r t =
     (case r of
        None \<Rightarrow> (None, t)
      | Some (Inl e) \<Rightarrow> (Some (Inl e), Finish t (Some e))
      | Some (Inr rep) \<Rightarrow> (Some (Inr rep), Finish t None))"

definition Run ::
  "(bytes \<Rightarrow> 256 word) \<Rightarrow> Archive \<Rightarrow> (nat \<Rightarrow> nat \<Rightarrow> err option) \<Rightarrow> bool \<Rightarrow> (digest \<Rightarrow> blob_Meta res) \<Rightarrow> 'w put_manifest
     \<Rightarrow> (publishJob list \<Rightarrow> publishJob list) \<Rightarrow> err option \<Rightarrow> int \<Rightarrow> Plan \<Rightarrow> store_run \<Rightarrow> 'w
     \<Rightarrow> (import_err + Report) option \<times> Tracker" where
  "Run sha a ctx verify opn putm sched outer now p x w =
     (case check sha a ctx p (Queue now (NewTracker verify) p) of
        (Some e, t) \<Rightarrow> finish_run (Some (Inl e)) t
      | (None, t) \<Rightarrow>
          (case storeBlobs_end opn p x of
             None \<Rightarrow> (None, sr_tr x)
           | Some (Inl e) \<Rightarrow> finish_run (Some (Inl e)) (sr_tr x)
           | Some (Inr metas) \<Rightarrow>
               (case publish putm sched outer now p metas w (sr_tr x) of
                  (r, st) \<Rightarrow> finish_run r (pu_tr st))))"

section \<open>The jobs of a plan\<close>

definition job_of :: "(digest \<Rightarrow> PlanManifest option) \<Rightarrow> PlanEntry \<times> string \<times> digest \<Rightarrow> publishJob" where
  "job_of byd x =
     (case x of (e, repo, d) \<Rightarrow> \<lparr>pj_repo = repo, pj_pm = the (byd d), pj_refs = refsFor e d repo\<rparr>)"

definition of_index :: "(digest \<Rightarrow> PlanManifest option) \<Rightarrow> PlanEntry \<times> string \<times> digest \<Rightarrow> bool" where
  "of_index byd x \<longleftrightarrow> pm_IsIndex (the (byd (snd (snd x))))"

lemma collect_jobs_Inr:
  assumes "\<And>e repo d. (e, repo, d) \<in> set xs \<Longrightarrow> byd d \<noteq> None"
  shows "collect_jobs byd xs (images, indexes) =
    Inr (images @ map (job_of byd) (filter (\<lambda>x. \<not> of_index byd x) xs), indexes @ map (job_of byd) (filter (of_index byd) xs))"
  using assms
proof (induction xs arbitrary: images indexes)
  case (Cons x xs)
  obtain e repo d where x: "x = (e, repo, d)" by (cases x)
  with Cons.prems obtain pm where pm: "byd d = Some pm" by fastforce
  have j: "job_of byd x = \<lparr>pj_repo = repo, pj_pm = pm, pj_refs = refsFor e d repo\<rparr>" "of_index byd x \<longleftrightarrow> pm_IsIndex pm"
    by (simp_all add: job_of_def of_index_def x pm)
  have ih: "collect_jobs byd xs (im, ix) =
      Inr (im @ map (job_of byd) (filter (\<lambda>x. \<not> of_index byd x) xs), ix @ map (job_of byd) (filter (of_index byd) xs))" for im ix
    by (rule Cons.IH) (use Cons.prems in auto)
  show ?case by (simp add: j) (simp add: x pm Let_def ih)
qed simp

lemma plan_byDigest_spec:
  assumes "distinct (map pm_Digest (p_Manifests p))"
  shows "plan_byDigest p d = Some pm \<longleftrightarrow> pm \<in> set (p_Manifests p) \<and> pm_Digest pm = d"
proof -
  have "distinct (map pm_Digest ms) \<Longrightarrow>
      foldl (\<lambda>m pm. m(pm_Digest pm \<mapsto> pm)) (\<lambda>_. None) ms d = Some pm \<longleftrightarrow> pm \<in> set ms \<and> pm_Digest pm = d" for ms
    by (induction ms rule: rev_induct) (auto simp: image_iff)
  then show ?thesis using assms by (simp add: plan_byDigest_def)
qed

lemma reposOf_set: "set (reposOf names) = nm_Repo ` set names"
proof -
  have "set (foldl (\<lambda>repos n. if nm_Repo n \<in> set repos then repos else repos @ [nm_Repo n]) rs names) = set rs \<union> nm_Repo ` set names" for rs
    by (induction names arbitrary: rs) auto
  then show ?thesis by (simp add: reposOf_def)
qed

lemma publish_order_iff:
  "(e, repo, d) \<in> set (publish_order p) \<longleftrightarrow>
     e \<in> set (p_Entries p) \<and> repo \<in> nm_Repo ` set (pe_Names e) \<and> d \<in> set (pe_Manifests e)"
  by (auto simp: publish_order_def reposOf_set)

lemma refsFor_nonempty: "repo \<in> nm_Repo ` set (pe_Names e) \<Longrightarrow> refsFor e d repo \<noteq> []"
  by (auto simp: refsFor_def filter_empty_conv)

text \<open>What publishing needs of a plan.\<close>

definition publishable :: "Plan \<Rightarrow> bool" where
  "publishable p \<longleftrightarrow>
     distinct (map pm_Digest (p_Manifests p)) \<and> entries_ok p \<and> list_all (\<lambda>e. pe_Names e \<noteq> []) (p_Entries p)"

lemma publishable_byDigest:
  assumes "publishable p" "(e, repo, d) \<in> set (publish_order p)"
  obtains pm where "plan_byDigest p d = Some pm" "pm_Digest pm = d" "pm \<in> set (p_Manifests p)"
proof -
  have "d \<in> manifest_digests p"
    using assms by (auto simp: publish_order_iff publishable_def entries_ok_def list_all_iff)
  then show ?thesis using that assms(1) plan_byDigest_spec [of p d] by (auto simp: manifest_digests_def publishable_def)
qed

section \<open>What putting leaves behind\<close>

lemma manifest_rows_blobs [simp]:
  "tr_blobs (ManifestStart t d) = tr_blobs t" "tr_blobs (Tracker_ManifestDone t d m) = tr_blobs t"
  by (simp_all add: ManifestStart_def Tracker_ManifestDone_def)

lemma put_refs_spec:
  "put_refs putm repo pm refs fm st = (r, st') \<Longrightarrow>
   (\<exists>k. pu_log st' = pu_log st @ map (\<lambda>ref. (repo, pm, ref)) (take k refs)
      \<and> (\<forall>m. r = Inr m \<longrightarrow> k = length refs \<and> (m = None \<longleftrightarrow> fm = None \<and> refs = [])))
   \<and> pu_first st' = pu_first st \<and> tr_blobs (pu_tr st') = tr_blobs (pu_tr st)"
proof (induction refs arbitrary: fm st)
  case (Cons ref refs)
  let ?st = "st\<lparr>pu_tr := ManifestStart (pu_tr st) (pm_Digest pm)\<rparr>"
  obtain x w where x: "putm (pu_w ?st) repo ref (pm_MediaType pm) (pm_Body pm) = (x, w)" by fastforce
  show ?case
  proof (cases x)
    case (Inl e)
    then have "r = Inl (IPublishing repo ref e)" "st' = ?st\<lparr>pu_w := w\<rparr>" using Cons.prems x by (auto simp: Let_def)
    then show ?thesis by (intro conjI exI [of _ 0]) auto
  next
    case (Inr meta)
    let ?st' = "?st\<lparr>pu_w := w, pu_tr := Tracker_ManifestDone (pu_tr ?st) (pm_Digest pm) (Some meta),
                pu_log := pu_log ?st @ [(repo, pm, ref)]\<rparr>"
    have "put_refs putm repo pm refs (case fm of None \<Rightarrow> Some meta | Some m \<Rightarrow> Some m) ?st' = (r, st')"
      using Cons.prems x Inr by (simp add: Let_def)
    from Cons.IH [OF this] obtain k where
      "pu_log st' = pu_log st @ [(repo, pm, ref)] @ map (\<lambda>ref. (repo, pm, ref)) (take k refs)"
      "\<forall>m. r = Inr m \<longrightarrow> k = length refs \<and> m \<noteq> None"
      "pu_first st' = pu_first st" "tr_blobs (pu_tr st') = tr_blobs (pu_tr st)"
      by (auto split: option.splits)
    then show ?thesis by (intro conjI exI [of _ "Suc k"]) auto
  qed
qed auto

text \<open>The log entries of a job that succeeds.\<close>

definition job_log :: "publishJob \<Rightarrow> (string \<times> PlanManifest \<times> string) list" where
  "job_log j = map (\<lambda>ref. (pj_repo j, pj_pm j, ref)) (pj_refs j)"

lemma run_job_spec:
  assumes "run_job putm j st = (r, st')"
  shows "\<exists>k. pu_log st' = pu_log st @ take k (job_log j) \<and> (r = None \<longrightarrow> take k (job_log j) = job_log j)"
    and "\<exists>m. pu_first st' = (if r = None then (pu_first st)((pj_repo j, pm_Digest (pj_pm j)) := m) else pu_first st)
          \<and> (m = None \<longrightarrow> pj_refs j = [])"
    and "tr_blobs (pu_tr st') = tr_blobs (pu_tr st)"
proof -
  obtain x st1 where x: "put_refs putm (pj_repo j) (pj_pm j) (pj_refs j) None st = (x, st1)" by fastforce
  have r: "r = (case x of Inl e \<Rightarrow> Some e | Inr m \<Rightarrow> None)"
    "st' = (case x of Inl e \<Rightarrow> st1
       | Inr m \<Rightarrow> st1\<lparr>pu_first := (pu_first st1)((pj_repo j, pm_Digest (pj_pm j)) := m)\<rparr>)"
    using assms x by (auto simp: run_job_def importer_putManifest_def split: sum.splits)
  obtain k where k: "pu_log st1 = pu_log st @ map (\<lambda>ref. (pj_repo j, pj_pm j, ref)) (take k (pj_refs j))"
    "\<And>m. x = Inr m \<Longrightarrow> k = length (pj_refs j) \<and> (m = None \<longleftrightarrow> pj_refs j = [])"
    "pu_first st1 = pu_first st" "tr_blobs (pu_tr st1) = tr_blobs (pu_tr st)"
    using put_refs_spec [OF x] by auto
  show "\<exists>k. pu_log st' = pu_log st @ take k (job_log j) \<and> (r = None \<longrightarrow> take k (job_log j) = job_log j)"
    using k by (intro exI [of _ k]) (auto simp: r job_log_def take_map split: sum.splits)
  show "\<exists>m. pu_first st' = (if r = None then (pu_first st)((pj_repo j, pm_Digest (pj_pm j)) := m) else pu_first st)
          \<and> (m = None \<longrightarrow> pj_refs j = [])"
    using k by (cases x) (auto simp: r)
  show "tr_blobs (pu_tr st') = tr_blobs (pu_tr st)" using k by (cases x) (auto simp: r)
qed

end
