(* ===== verification/Import_Props.thy ===== *)
theory Import_Props
  imports Importer
begin

text \<open>
  What an import promises: publishing a plan never reads a meta that is not there, puts every child
  before the indexes that list it, in the same repository; and the counts of the report are the ones
  the display ends with.
\<close>

section \<open>The phases\<close>

definition job_key :: "publishJob \<Rightarrow> string \<times> digest" where
  "job_key j = (pj_repo j, pm_Digest (pj_pm j))"

text \<open>What a sequence of jobs leaves: whole or in part, in the log; and the metas that were found.\<close>

definition jobs_done :: "publishJob list \<Rightarrow> 'w pub \<Rightarrow> 'w pub \<Rightarrow> bool" where
  "jobs_done js st st' \<longleftrightarrow>
     pu_log st' = pu_log st @ concat (map job_log js)
     \<and> (\<forall>j \<in> set js. pu_first st' (job_key j) \<noteq> None)"

definition kept_first :: "'w pub \<Rightarrow> 'w pub \<Rightarrow> bool" where
  "kept_first st st' \<longleftrightarrow>
     (\<forall>k. pu_first st k \<noteq> None \<longrightarrow> pu_first st' k \<noteq> None) \<and> tr_blobs (pu_tr st') = tr_blobs (pu_tr st)"

lemma kept_first_trans: "kept_first st st' \<Longrightarrow> kept_first st' st'' \<Longrightarrow> kept_first st st''"
  by (auto simp: kept_first_def)

lemma run_job_kept:
  assumes "run_job putm j st = (r, st')" "pj_refs j \<noteq> []"
  shows "kept_first st st'" "r = None \<Longrightarrow> pu_first st' (job_key j) \<noteq> None"
proof -
  obtain m where m: "pu_first st' = (if r = None then (pu_first st)((pj_repo j, pm_Digest (pj_pm j)) := m) else pu_first st)"
    "m \<noteq> None"
    using run_job_spec(2) [OF assms(1)] assms(2) by blast
  show "kept_first st st'" using m run_job_spec(3) [OF assms(1)] by (auto simp: kept_first_def)
  show "r = None \<Longrightarrow> pu_first st' (job_key j) \<noteq> None" using m by (simp add: job_key_def)
qed

lemma jobs_done_Cons:
  assumes "pu_log st1 = pu_log st @ job_log j" "pu_first st1 (job_key j) \<noteq> None" "kept_first st1 st'" "jobs_done js st1 st'"
  shows "jobs_done (j # js) st st'"
proof -
  have "pu_first st' (job_key j) \<noteq> None" using assms(2,3) unfolding kept_first_def by blast
  then show ?thesis using assms(1,4) by (simp add: jobs_done_def)
qed

lemma image_phase_spec:
  assumes "list_all (\<lambda>j. pj_refs j \<noteq> []) js" "image_phase putm js st = (r, st')"
  shows "kept_first st st'" "r = None \<Longrightarrow> jobs_done js st st'"
    "\<exists>l. pu_log st' = pu_log st @ l \<and> set l \<subseteq> (\<Union>j \<in> set js. set (job_log j))"
proof -
  have "kept_first st st' \<and> (r = None \<longrightarrow> jobs_done js st st')
      \<and> (\<exists>l. pu_log st' = pu_log st @ l \<and> set l \<subseteq> (\<Union>j \<in> set js. set (job_log j)))"
    using assms
  proof (induction js arbitrary: st r)
    case (Cons j js)
    obtain r1 st1 where 1: "run_job putm j st = (r1, st1)" by fastforce
    obtain r2 where 2: "image_phase putm js st1 = (r2, st')" and r: "r = (case r1 of None \<Rightarrow> r2 | Some e \<Rightarrow> Some e)"
      using Cons.prems(2) 1 by (auto split: prod.splits option.splits)
    have ih: "kept_first st1 st'" "r2 = None \<longrightarrow> jobs_done js st1 st'"
      "\<exists>l. pu_log st' = pu_log st1 @ l \<and> set l \<subseteq> (\<Union>j \<in> set js. set (job_log j))"
      using Cons.IH [OF _ 2] Cons.prems(1) by auto
    obtain k where k: "pu_log st1 = pu_log st @ take k (job_log j)" "r1 = None \<longrightarrow> take k (job_log j) = job_log j"
      using run_job_spec(1) [OF 1] by blast
    have j: "kept_first st st1" "r1 = None \<Longrightarrow> pu_first st1 (job_key j) \<noteq> None"
      using run_job_kept [OF 1] Cons.prems(1) by auto
    have "jobs_done (j # js) st st'" if "r = None"
      using that r ih(1,2) k j(2) by (intro jobs_done_Cons [of st1]) (auto split: option.splits)
    moreover obtain l where "pu_log st' = pu_log st @ (take k (job_log j) @ l)" "set l \<subseteq> (\<Union>j \<in> set js. set (job_log j))"
      using ih(3) k(1) by auto
    moreover have "set (take k (job_log j)) \<subseteq> set (job_log j)" by (rule set_take_subset)
    ultimately show ?case
      using kept_first_trans [OF j(1) ih(1)]
      by (intro conjI impI exI [of _ "take k (job_log j) @ l"]) auto
  qed (auto simp: jobs_done_def kept_first_def)
  then show "kept_first st st'" "r = None \<Longrightarrow> jobs_done js st st'"
    "\<exists>l. pu_log st' = pu_log st @ l \<and> set l \<subseteq> (\<Union>j \<in> set js. set (job_log j))" by blast+
qed

lemma index_phase_spec:
  assumes "list_all (\<lambda>j. pj_refs j \<noteq> []) js" "index_phase putm js st = (r, st')"
  shows "kept_first st st'" "r = None \<Longrightarrow> jobs_done js st st'"
    "\<exists>k. pu_log st' = pu_log st @ take k (concat (map job_log js))"
proof -
  have "kept_first st st' \<and> (r = None \<longrightarrow> jobs_done js st st')
      \<and> (\<exists>k. pu_log st' = pu_log st @ take k (concat (map job_log js)))"
    using assms
  proof (induction js arbitrary: st)
    case (Cons j js)
    obtain r1 st1 where 1: "run_job putm j st = (r1, st1)" by fastforce
    obtain k where k: "pu_log st1 = pu_log st @ take k (job_log j)" "r1 = None \<longrightarrow> take k (job_log j) = job_log j"
      using run_job_spec(1) [OF 1] by blast
    have j: "kept_first st st1" "r1 = None \<Longrightarrow> pu_first st1 (job_key j) \<noteq> None"
      using run_job_kept [OF 1] Cons.prems(1) by auto
    show ?case
    proof (cases r1)
      case None
      then have 2: "index_phase putm js st1 = (r, st')" using Cons.prems(2) 1 by simp
      have ih: "kept_first st1 st'" "r = None \<longrightarrow> jobs_done js st1 st'"
        "\<exists>k. pu_log st' = pu_log st1 @ take k (concat (map job_log js))"
        using Cons.IH [OF _ 2] Cons.prems(1) by auto
      then obtain k' where "pu_log st' = pu_log st @ job_log j @ take k' (concat (map job_log js))"
        using k None by auto
      then have "pu_log st' = pu_log st @ take (length (job_log j) + k') (concat (map job_log (j # js)))" by simp
      moreover have "jobs_done (j # js) st st'" if "r = None"
        using that ih(1,2) k j(2) None by (intro jobs_done_Cons [of st1]) auto
      ultimately show ?thesis using kept_first_trans [OF j(1) ih(1)] by blast
    next
      case (Some e)
      then have s: "r = Some e" "st' = st1" using Cons.prems(2) 1 by auto
      have "pu_log st' = pu_log st @ take (min k (length (job_log j))) (concat (map job_log (j # js)))"
        using k(1) by (simp add: s min_def)
      then show ?thesis using j(1) s by blast
    qed
  qed (auto simp: jobs_done_def kept_first_def)
  then show "kept_first st st'" "r = None \<Longrightarrow> jobs_done js st st'"
    "\<exists>k. pu_log st' = pu_log st @ take k (concat (map job_log js))" by blast+
qed

section \<open>The jobs of a publishable plan\<close>

lemma publishable_jobs:
  assumes "publishable p"
  defines "byd \<equiv> plan_byDigest p" and "xs \<equiv> publish_order p"
  shows "collect_jobs byd xs ([], []) =
      Inr (map (job_of byd) (filter (\<lambda>x. \<not> of_index byd x) xs), map (job_of byd) (filter (of_index byd) xs))"
    and "x \<in> set xs \<Longrightarrow> pj_refs (job_of byd x) \<noteq> []"
    and "(e, repo, d) \<in> set xs \<Longrightarrow> job_key (job_of byd (e, repo, d)) = (repo, d)"
proof -
  have b: "byd d \<noteq> None \<and> pm_Digest (the (byd d)) = d" if "(e, repo, d) \<in> set xs" for e repo d
    using publishable_byDigest [OF assms(1) that [unfolded xs_def]] unfolding byd_def
    by (metis option.distinct(1) option.sel)
  then show "collect_jobs byd xs ([], []) =
      Inr (map (job_of byd) (filter (\<lambda>x. \<not> of_index byd x) xs), map (job_of byd) (filter (of_index byd) xs))"
    by (subst collect_jobs_Inr) auto
  show "x \<in> set xs \<Longrightarrow> pj_refs (job_of byd x) \<noteq> []"
    by (cases x) (simp add: job_of_def xs_def publish_order_iff refsFor_nonempty)
  show "(e, repo, d) \<in> set xs \<Longrightarrow> job_key (job_of byd (e, repo, d)) = (repo, d)"
    using b by (simp add: job_key_def job_of_def)
qed

lemma publish_cases:
  assumes "publishable p" "\<And>js. mset (sched js) = mset js"
    and "publish putm sched outer now p metas w t = (r, st)"
  defines "byd \<equiv> plan_byDigest p" and "xs \<equiv> publish_order p"
    and "st0 \<equiv> \<lparr>pu_w = w, pu_tr = StartManifests t, pu_first = (\<lambda>_. None), pu_log = []\<rparr>"
  obtains er st1 where "image_phase putm (sched (map (job_of byd) (filter (\<lambda>x. \<not> of_index byd x) xs))) st0 = (er, st1)"
    "er \<noteq> None \<or> outer \<noteq> None" "st = st1" "\<exists>e. r = Some (Inl e)"
  | st1 er where "image_phase putm (sched (map (job_of byd) (filter (\<lambda>x. \<not> of_index byd x) xs))) st0 = (None, st1)"
    "index_phase putm (map (job_of byd) (filter (of_index byd) xs)) st1 = (er, st)" "outer = None"
    "r = (case er of Some e \<Rightarrow> Some (Inl e)
          | None \<Rightarrow> (case publish_report now p metas st of None \<Rightarrow> None | Some rep \<Rightarrow> Some (Inr rep)))"
proof -
  note pj = publishable_jobs(1) [OF assms(1), folded byd_def xs_def]
  obtain er st1 where i: "image_phase putm (sched (map (job_of byd) (filter (\<lambda>x. \<not> of_index byd x) xs))) st0 = (er, st1)"
    by fastforce
  show ?thesis
  proof (cases "er \<noteq> None \<or> outer \<noteq> None")
    case True
    then have "st = st1" "\<exists>e. r = Some (Inl e)"
      using assms(3) i pj unfolding publish_def st0_def [symmetric] byd_def [symmetric] xs_def [symmetric]
      by (auto simp: Let_def split: option.splits)
    with True i that(1) show ?thesis by blast
  next
    case False
    then have o: "outer = None" "image_phase putm (sched (map (job_of byd) (filter (\<lambda>x. \<not> of_index byd x) xs))) st0 = (None, st1)"
      using i by auto
    obtain er2 st2 where 2: "index_phase putm (map (job_of byd) (filter (of_index byd) xs)) st1 = (er2, st2)" by fastforce
    have "st = st2" "r = (case er2 of Some e \<Rightarrow> Some (Inl e)
          | None \<Rightarrow> (case publish_report now p metas st2 of None \<Rightarrow> None | Some rep \<Rightarrow> Some (Inr rep)))"
      using assms(3) o 2 pj unfolding publish_def st0_def [symmetric] byd_def [symmetric] xs_def [symmetric]
      by (auto simp: Let_def split: option.splits)
    with that(2) [OF o(2) _ o(1)] 2 show ?thesis by blast
  qed
qed

lemma sched_set: "(\<And>js. mset (sched js) = mset js) \<Longrightarrow> set (sched js) = set js"
  by (metis set_mset_mset)

text \<open>When both phases succeed, every manifest of every entry has a meta in its repositories.\<close>

lemma publish_first:
  assumes "publishable p" "\<And>js. mset (sched js) = mset js"
  defines "byd \<equiv> plan_byDigest p" and "xs \<equiv> publish_order p"
  assumes "image_phase putm (sched (map (job_of byd) (filter (\<lambda>x. \<not> of_index byd x) xs))) st0 = (None, st1)"
    "index_phase putm (map (job_of byd) (filter (of_index byd) xs)) st1 = (None, st)"
    and "(e, repo, d) \<in> set xs"
  shows "pu_first st (repo, d) \<noteq> None"
proof -
  note pj = publishable_jobs [OF assms(1), folded byd_def xs_def]
  have refs: "list_all (\<lambda>j. pj_refs j \<noteq> []) (sched (map (job_of byd) (filter (\<lambda>x. \<not> of_index byd x) xs)))"
    "list_all (\<lambda>j. pj_refs j \<noteq> []) (map (job_of byd) (filter (of_index byd) xs))"
    using pj(2) by (auto simp: list_all_iff sched_set [OF assms(2)])
  note im = image_phase_spec [OF refs(1) assms(5)] and ix = index_phase_spec [OF refs(2) assms(6)]
  have "pu_first st (job_key (job_of byd (e, repo, d))) \<noteq> None"
  proof (cases "of_index byd (e, repo, d)")
    case True
    then show ?thesis using ix(2) assms(7) by (auto simp: jobs_done_def)
  next
    case False
    then have "job_of byd (e, repo, d) \<in> set (sched (map (job_of byd) (filter (\<lambda>x. \<not> of_index byd x) xs)))"
      using assms(7) by (auto simp: sched_set [OF assms(2)])
    then have "pu_first st1 (job_key (job_of byd (e, repo, d))) \<noteq> None"
      using im(2) by (auto simp: jobs_done_def)
    then show ?thesis using ix(1) unfolding kept_first_def by blast
  qed
  then show ?thesis using pj(3) [OF assms(7)] by simp
qed

lemma noteRootfs_defined:
  "\<exists>er1. noteRootfs er pm (Some m) = Some er1 \<and> er_Digest er1 = er_Digest er \<and> er_Names er1 = er_Names er"
  by (cases "im_Rootfs m") (simp_all add: noteRootfs_def)

lemma entry_loop_defined:
  "(\<And>d. d \<in> set ds \<Longrightarrow> fm (repo, d) \<noteq> None) \<Longrightarrow>
   \<exists>er'. entry_loop byd fm ed repo ds er = Some er' \<and> er_Digest er' = er_Digest er \<and> er_Names er' = er_Names er"
proof (induction ds arbitrary: er)
  case (Cons d ds)
  then obtain m where m: "fm (repo, d) = Some m" by fastforce
  let ?er = "if d = ed then er\<lparr>er_Stats := im_Stats m\<rparr> else er"
  obtain er1 where "noteRootfs ?er (or_zero (byd d)) (Some m) = Some er1" "er_Digest er1 = er_Digest er" "er_Names er1 = er_Names er"
    using noteRootfs_defined [of ?er "or_zero (byd d)" m] by auto
  then show ?case using Cons.IH [of er1] Cons.prems m by (auto split: if_splits)
qed simp

lemma report_entries_defined:
  assumes "\<And>e. e \<in> set es \<Longrightarrow> pe_Names e \<noteq> []"
    and "\<And>e repo d. e \<in> set es \<Longrightarrow> repo \<in> nm_Repo ` set (pe_Names e) \<Longrightarrow> d \<in> set (pe_Manifests e) \<Longrightarrow> fm (repo, d) \<noteq> None"
  shows "\<exists>rep'. report_entries byd fm es rep = Some rep'
    \<and> map er_Digest (rp_Entries rep') = map er_Digest (rp_Entries rep) @ map pe_Digest es"
  using assms
proof (induction es arbitrary: rep)
  case (Cons e es)
  have "reposOf (pe_Names e) \<noteq> []" using Cons.prems(1) [of e] reposOf_set [of "pe_Names e"] by auto
  then obtain repo rest where r: "reposOf (pe_Names e) = repo # rest" by (cases "reposOf (pe_Names e)") auto
  then have "repo \<in> nm_Repo ` set (pe_Names e)" using reposOf_set [of "pe_Names e"] by auto
  then have "fm (repo, d) \<noteq> None" if "d \<in> set (pe_Manifests e)" for d using Cons.prems(2) [of e repo d] that by simp
  from entry_loop_defined [of "pe_Manifests e" fm repo byd "pe_Digest e", OF this] obtain er where "entry_report byd fm e = Some er" "er_Digest er = pe_Digest e"
    unfolding entry_report_def r list.case by (metis EntryReport.select_convs(2))
  moreover have "\<exists>rep'. report_entries byd fm es (add_entry_report rep er) = Some rep'
      \<and> map er_Digest (rp_Entries rep') = map er_Digest (rp_Entries (add_entry_report rep er)) @ map pe_Digest es"
    by (rule Cons.IH) (rule Cons.prems(1) [OF list.set_intros(2)] Cons.prems(2) [OF list.set_intros(2)]; assumption)+
  ultimately show ?case by (simp add: add_entry_report_def)
qed simp

lemma account_entries: "rp_Entries (importer_account p t now metas rep) = rp_Entries rep"
proof -
  have "rp_Entries (foldl account_manifest rep ms) = rp_Entries rep" for ms rep
    by (induction ms arbitrary: rep) (simp_all add: account_manifest_def)
  moreover have "rp_Entries (foldl (account_blob st metas) rep bs) = rp_Entries rep" for st bs rep
    by (induction bs arbitrary: rep) (simp_all add: account_blob_def Let_def)
  ultimately show ?thesis by (simp add: importer_account_def Let_def)
qed

text \<open>Puts that succeed.\<close>

definition puts_ok :: "'w put_manifest \<Rightarrow> bool" where
  "puts_ok putm \<longleftrightarrow> (\<forall>w repo ref mt body. \<exists>m w'. putm w repo ref mt body = (Inr m, w'))"

lemma run_job_ok: "puts_ok putm \<Longrightarrow> fst (run_job putm j st) = None"
proof -
  assume ok: "puts_ok putm"
  have "\<exists>m. fst (put_refs putm repo pm refs fm st) = Inr m" for repo pm refs fm st
  proof (induction refs arbitrary: fm st)
    case (Cons ref refs)
    obtain m w' where "putm (pu_w st) repo ref (pm_MediaType pm) (pm_Body pm) = (Inr m, w')"
      using ok unfolding puts_ok_def by blast
    then show ?case using Cons by (simp add: Let_def)
  qed simp
  then show ?thesis by (auto simp: run_job_def importer_putManifest_def split: prod.splits sum.splits) (metis fst_conv sum.distinct(1))
qed

lemma phases_ok:
  assumes "puts_ok putm"
  shows "fst (image_phase putm js st) = None" "fst (index_phase putm js st) = None"
proof -
  show "fst (image_phase putm js st) = None"
  proof (induction js arbitrary: st)
    case (Cons j js)
    then show ?case using run_job_ok [OF assms, of j st] by (auto split: prod.splits) (metis fst_conv)
  qed simp
  show "fst (index_phase putm js st) = None"
  proof (induction js arbitrary: st)
    case (Cons j js)
    then show ?case using run_job_ok [OF assms, of j st] by (auto split: prod.splits option.splits)
  qed simp
qed

lemma planned_publishable: "Archive_Plan sha J a opts = Some (Inr p) \<Longrightarrow> publishable p"
  using Archive_Plan_entries [of sha J a opts p] by (auto simp: publishable_def sound_inv_def list_all_iff)

text \<open>
  (C38) Publishing is well defined: for a plan that planning returned, and however the pool orders the
  image manifests, publish never dereferences a meta that no Put returned nor indexes an empty list of
  repositories, whether Puts fail or not; a report has one entry for every image of the plan, in plan
  order; and when every Put succeeds and the context does not end, there is a report.
\<close>

theorem publish_defined:
  assumes "Archive_Plan sha J a opts = Some (Inr p)" "\<And>js. mset (sched js) = mset js"
  shows "fst (publish putm sched outer now p metas w t) \<noteq> None
    \<and> (\<forall>rep. fst (publish putm sched outer now p metas w t) = Some (Inr rep) \<longrightarrow>
          map er_Digest (rp_Entries rep) = map pe_Digest (p_Entries p))
    \<and> (puts_ok putm \<and> outer = None \<longrightarrow> (\<exists>rep. fst (publish putm sched outer now p metas w t) = Some (Inr rep)))"
proof -
  note pub = planned_publishable [OF assms(1)]
  obtain r st where r: "publish putm sched outer now p metas w t = (r, st)" by fastforce
  show ?thesis
  proof (cases rule: publish_cases [OF pub assms(2) r, case_names stopped finished])
    case (stopped er st1)
    then show ?thesis using r phases_ok(1) [of putm] by (metis fst_conv option.distinct(1) sum.distinct(1) option.inject)
  next
    case (finished st1 er)
    have rep: "\<exists>rep. publish_report now p metas st = Some rep \<and> map er_Digest (rp_Entries rep) = map pe_Digest (p_Entries p)"
      if "er = None"
    proof -
      have "pe_Names e \<noteq> []" if "e \<in> set (p_Entries p)" for e using pub that by (auto simp: publishable_def list_all_iff)
      moreover have "pu_first st (repo, d) \<noteq> None"
        if "e \<in> set (p_Entries p)" "repo \<in> nm_Repo ` set (pe_Names e)" "d \<in> set (pe_Manifests e)" for e repo d
        by (rule publish_first [OF pub assms(2) finished(1) finished(2) [unfolded \<open>er = None\<close>]])
          (use that in \<open>simp add: publish_order_iff\<close>)
      ultimately obtain rp where "report_entries (plan_byDigest p) (pu_first st) (p_Entries p) empty_report = Some rp"
        "map er_Digest (rp_Entries rp) = map er_Digest (rp_Entries empty_report) @ map pe_Digest (p_Entries p)"
        using report_entries_defined [of "p_Entries p" "pu_first st"] by blast
      then show ?thesis by (simp add: publish_report_def account_entries empty_report_def)
    qed
    moreover have "er = None" if "puts_ok putm" using phases_ok(2) [OF that] finished(2) by (metis fst_conv)
    ultimately show ?thesis using finished(4) r by (cases er) auto
  qed
qed

section \<open>Children before their index\<close>

text \<open>A list of digests in which an index of the archive comes after the children it lists.\<close>

definition ordered :: "(bytes \<Rightarrow> 256 word) \<Rightarrow> da_json \<Rightarrow> Archive \<Rightarrow> digest list \<Rightarrow> bool" where
  "ordered sha J a ds \<longleftrightarrow>
     (\<forall>as d bs body m. ds = as @ d # bs \<longrightarrow> ReadBlob sha a d = Inr body \<longrightarrow>
        ParseManifest (dj_manifest J) body = Inr m \<longrightarrow> IsIndex m \<longrightarrow>
        d_Digest ` set (ManifestChildren m) \<subseteq> set as)"

definition node_plain :: "(bytes \<Rightarrow> 256 word) \<Rightarrow> da_json \<Rightarrow> Archive \<Rightarrow> anode \<Rightarrow> bool" where
  "node_plain sha J a n \<longleftrightarrow> node_ok sha J a n \<and> node_whole J n"

lemma ordered_append:
  assumes "ordered sha J a xs" "ordered sha J a ys"
  shows "ordered sha J a (xs @ ys)"
  unfolding ordered_def
proof (intro allI impI)
  fix as d bs body m
  assume s: "xs @ ys = as @ d # bs"
    and m: "ReadBlob sha a d = Inr body" "ParseManifest (dj_manifest J) body = Inr m" "IsIndex m"
  from s obtain us where "xs = as @ us \<and> us @ ys = d # bs \<or> xs @ us = as \<and> ys = us @ d # bs"
    by (auto simp: append_eq_append_conv2)
  then consider us' where "xs = as @ d # us'" | us where "ys = us @ d # bs" "set us \<subseteq> set as"
    by (cases us) auto
  then show "d_Digest ` set (ManifestChildren m) \<subseteq> set as"
  proof cases
    case 1
    with assms(1) m show ?thesis unfolding ordered_def by blast
  next
    case 2
    with assms(2) m show ?thesis unfolding ordered_def by blast
  qed
qed

lemma node_plain_children:
  assumes "node_plain sha J a n" "ReadBlob sha a (d_Digest (n_desc n)) = Inr body"
    "ParseManifest (dj_manifest J) body = Inr m" "IsIndex m"
  shows "d_Digest ` set (ManifestChildren m) = (\<lambda>c. d_Digest (n_desc c)) ` set (n_children n)"
proof -
  have "body = n_body n" "m = n_manifest n" using assms by (auto simp: node_plain_def node_ok_def node_whole_def)
  then have "map d_Digest (ManifestChildren m) = map (\<lambda>c. d_Digest (n_desc c)) (n_children n)"
    using assms(1,4) by (simp add: node_plain_def node_whole_def)
  then show ?thesis by (metis list.set_map)
qed

lemma ordered_snoc:
  assumes "ordered sha J a xs"
    "\<And>body m. ReadBlob sha a d = Inr body \<Longrightarrow> ParseManifest (dj_manifest J) body = Inr m \<Longrightarrow> IsIndex m \<Longrightarrow>
       d_Digest ` set (ManifestChildren m) \<subseteq> set xs"
  shows "ordered sha J a (xs @ [d])"
  unfolding ordered_def
proof (intro allI impI)
  fix as d' bs body m
  assume s: "xs @ [d] = as @ d' # bs"
    and m: "ReadBlob sha a d' = Inr body" "ParseManifest (dj_manifest J) body = Inr m" "IsIndex m"
  show "d_Digest ` set (ManifestChildren m) \<subseteq> set as"
  proof (cases bs rule: rev_cases)
    case Nil
    then show ?thesis using s m assms(2) by auto
  next
    case (snoc bs' b)
    then have "xs = as @ d' # bs'" using s by auto
    then show ?thesis using assms(1) m unfolding ordered_def by blast
  qed
qed

text \<open>A walk lists the digests of a tree in order, each child's among them.\<close>

definition walks_ordered ::
  "(bytes \<Rightarrow> 256 word) \<Rightarrow> da_json \<Rightarrow> Archive \<Rightarrow> anode list \<Rightarrow> Plan \<times> digest list \<Rightarrow> Plan \<times> digest list \<Rightarrow> bool" where
  "walks_ordered sha J a ns pe pe' \<longleftrightarrow>
     (\<exists>xs. snd pe' = snd pe @ xs \<and> ordered sha J a xs \<and> (\<lambda>c. d_Digest (n_desc c)) ` set ns \<subseteq> set xs)"

lemma walk_all_ordered:
  assumes "\<And>n pe. n \<in> set ns \<Longrightarrow> walks_ordered sha J a [n] pe (walk a n pe)"
  shows "walks_ordered sha J a ns pe (walk_all a ns pe)"
  using assms
proof (induction ns arbitrary: pe)
  case (Cons n ns)
  obtain xs where xs: "snd (walk a n pe) = snd pe @ xs" "ordered sha J a xs" "d_Digest (n_desc n) \<in> set xs"
    using Cons.prems [of n pe] by (auto simp: walks_ordered_def)
  have "walks_ordered sha J a ns (walk a n pe) (walk_all a ns (walk a n pe))"
    using Cons by simp
  then obtain ys where ys: "snd (walk_all a ns (walk a n pe)) = snd (walk a n pe) @ ys" "ordered sha J a ys"
    "(\<lambda>c. d_Digest (n_desc c)) ` set ns \<subseteq> set ys"
    unfolding walks_ordered_def by blast
  show ?case
    unfolding walks_ordered_def using xs ys ordered_append [OF xs(2) ys(2)] by (intro exI [of _ "xs @ ys"]) auto
next
  case Nil
  show ?case by (simp add: walks_ordered_def) (simp add: ordered_def)
qed

lemma walk_ordered: "node_all (node_plain sha J a) n \<Longrightarrow> walks_ordered sha J a [n] pe (walk a n pe)"
proof (induction n arbitrary: pe)
  case (ANode d body m synth cs)
  have "walks_ordered sha J a cs pe (walk_all a cs pe)"
    by (rule walk_all_ordered) (use ANode in \<open>auto simp: list_all_iff\<close>)
  then obtain xs where xs: "snd (walk_all a cs pe) = snd pe @ xs" "ordered sha J a xs"
    "(\<lambda>c. d_Digest (n_desc c)) ` set cs \<subseteq> set xs"
    unfolding walks_ordered_def by blast
  have "ordered sha J a (xs @ [d_Digest d])"
    using xs(3) node_plain_children [of sha J a "ANode d body m synth cs"] ANode.prems
    by (intro ordered_snoc [OF xs(2)]) simp
  then show ?case
    using xs(1) by (auto simp: walks_ordered_def split: prod.splits)
qed

text \<open>In a complete archive every planned body is the blob's.\<close>

definition plain_inv :: "(bytes \<Rightarrow> 256 word) \<Rightarrow> Archive \<Rightarrow> Plan \<Rightarrow> bool" where
  "plain_inv sha a p \<longleftrightarrow> list_all (\<lambda>pm. ReadBlob sha a (pm_Digest pm) = Inr (pm_Body pm)) (p_Manifests p)"

interpretation plain: plan_invariant a "node_plain sha J a" "plain_inv sha a" for sha J a
  by unfold_locales (auto simp: plain_inv_def add_blob_def add_manifest_def node_plain_def node_ok_def node_whole_def)

definition fresh_entry :: "(bytes \<Rightarrow> 256 word) \<Rightarrow> da_json \<Rightarrow> Archive \<Rightarrow> PlanEntry \<Rightarrow> bool" where
  "fresh_entry sha J a e \<longleftrightarrow> ordered sha J a (pe_Manifests e) \<and> pe_Names e = []"

lemma add_entry_ordered:
  assumes "node_all (node_plain sha J a) r" "list_all (fresh_entry sha J a) (p_Entries p)"
    and "plain_inv sha a p"
  shows "list_all (fresh_entry sha J a) (p_Entries (add_entry a p r))
    \<and> plain_inv sha a (add_entry a p r)"
proof -
  obtain q ms where w: "walk a r (p, []) = (q, ms)" by fastforce
  have "walked (plain_inv sha a) [r] (p, []) (q, ms)"
    using plain.walk_walked [OF assms(1), of "(p, [])"] assms(3) w by simp
  then have "plain_inv sha a q" "p_Entries q = p_Entries p" by (auto simp: walked_def plan_le_def)
  moreover have "ordered sha J a ms"
    using walk_ordered [OF assms(1), of "(p, [])"] w by (simp add: walks_ordered_def)
  ultimately show ?thesis
    using assms(2) w by (auto simp: add_entry_def Let_def plain_inv_def fresh_entry_def)
qed

lemma planned_ordered:
  assumes "Archive_Plan sha J a opts = Some (Inr p)" "archive_complete sha J a"
  shows "e \<in> set (p_Entries p) \<Longrightarrow> ordered sha J a (pe_Manifests e)"
    and "pm \<in> set (p_Manifests p) \<Longrightarrow> ReadBlob sha a (pm_Digest pm) = Inr (pm_Body pm)"
proof -
  let ?p0 = "\<lparr>p_Blobs = [], p_Manifests = [], p_Entries = []\<rparr>"
  from assms(1) obtain roots p0 where
    r: "plan_roots (resolve sha J a (Suc (length (ar_blobs a)))) 0 (ManifestChildren (ar_Index a)) [] = Some (Inr roots)"
    and p0: "p0 = foldl (add_entry a) ?p0 roots" and m: "p_Manifests p = p_Manifests p0"
    and as: "assignNames a roots (po_Names opts) (p_Entries p0) = Inr (p_Entries p)"
    by (rule Archive_Plan_Inr)
  have "list_all (node_all (node_ok sha J a)) roots"
    using plan_roots_all [OF _ r, of "node_all (node_ok sha J a)"] resolve_ok by (simp del: resolve.simps)
  moreover have "list_all (node_all (node_whole J)) roots" by (rule planned_whole [OF assms(2) r])
  moreover have "node_all (node_ok sha J a) n \<Longrightarrow> node_all (node_whole J) n \<Longrightarrow> node_all (node_plain sha J a) n" for n
    by (induction n) (auto simp: node_plain_def list_all_iff)
  ultimately have "list_all (node_all (node_plain sha J a)) roots" by (simp add: list_all_iff)
  then have "list_all (fresh_entry sha J a) (p_Entries (foldl (add_entry a) q roots))
      \<and> plain_inv sha a (foldl (add_entry a) q roots)"
    if "list_all (fresh_entry sha J a) (p_Entries q)" "plain_inv sha a q" for q
    using that add_entry_ordered by (induction roots arbitrary: q) auto
  from this [of ?p0] have o: "list_all (fresh_entry sha J a) (p_Entries p0)" "plain_inv sha a p0"
    by (auto simp: p0 plain_inv_def)
  have "list_all names_ok (p_Entries p0)" using o(1) by (auto simp: fresh_entry_def names_ok_def list_all_iff)
  then have es: "unnamed (p_Entries p) = unnamed (p_Entries p0)" using assignNames_ok [OF as] by blast
  show "pm \<in> set (p_Manifests p) \<Longrightarrow> ReadBlob sha a (pm_Digest pm) = Inr (pm_Body pm)"
    using o(2) by (simp add: m plain_inv_def list_all_iff)
  have "map pe_Manifests (p_Entries p) = map pe_Manifests (p_Entries p0)"
    using arg_cong [OF es, of "map pe_Manifests"] by (simp add: unnamed_def comp_def)
  then have "pe_Manifests ` set (p_Entries p) = pe_Manifests ` set (p_Entries p0)" by (metis list.set_map)
  moreover have "\<forall>ms \<in> pe_Manifests ` set (p_Entries p0). ordered sha J a ms"
    using o(1) by (auto simp: list_all_iff fresh_entry_def)
  ultimately show "e \<in> set (p_Entries p) \<Longrightarrow> ordered sha J a (pe_Manifests e)" by blast
qed

section \<open>The order of the Puts\<close>

lemma concat_split:
  "concat xss = ys @ x # zs \<Longrightarrow> \<exists>as us vs bs. xss = as @ (us @ x # vs) # bs \<and> ys = concat as @ us"
proof (induction xss arbitrary: ys)
  case (Cons xs xss)
  then obtain us where "xs = ys @ us \<and> us @ concat xss = x # zs \<or> xs @ us = ys \<and> concat xss = us @ x # zs"
    by (auto simp: append_eq_append_conv2)
  then consider us where "xs = ys @ x # us" | us where "ys = xs @ us" "concat xss = us @ x # zs"
    by (cases us) auto
  then show ?case
  proof cases
    case 1
    then show ?thesis by (metis append_Nil concat.simps(1))
  next
    case 2
    from Cons.IH [OF 2(2)] obtain as us' vs bs where "xss = as @ (us' @ x # vs) # bs" "us = concat as @ us'" by blast
    then have "xs # xss = (xs # as) @ (us' @ x # vs) # bs" "ys = concat (xs # as) @ us'" using 2(1) by simp_all
    then show ?thesis by blast
  qed
qed simp

lemma map_filter_split:
  assumes "map f (filter P xs) = pre @ j # post"
  shows "\<exists>ys x zs. xs = ys @ x # zs \<and> P x \<and> f x = j \<and> pre = map f (filter P ys)"
  using assms
proof (induction xs arbitrary: pre)
  case (Cons y xs)
  show ?case
  proof (cases "P y \<and> pre = []")
    case True
    then show ?thesis using Cons.prems by (intro exI [of _ "[]"]) auto
  next
    case False
    then obtain pre' where pre: "pre = (if P y then [f y] else []) @ pre'" "map f (filter P xs) = pre' @ j # post"
      using Cons.prems by (auto simp: Cons_eq_append_conv split: if_splits)
    from Cons.IH [OF pre(2)] obtain ys x zs where "xs = ys @ x # zs" "P x" "f x = j" "pre' = map f (filter P ys)" by blast
    then show ?thesis using pre(1) by (intro exI [of _ "y # ys"] exI [of _ x] exI [of _ zs]) auto
  qed
qed simp

text \<open>The manifests an entry lists before one of its own come before it in each of its repositories.\<close>

lemma publish_order_split:
  assumes "publish_order p = ys @ (e, repo, d) # zs"
  shows "\<exists>as bs. pe_Manifests e = as @ d # bs \<and> (\<forall>c \<in> set as. (e, repo, c) \<in> set ys)"
proof -
  let ?g = "\<lambda>e repo. map (\<lambda>d. (e, repo, d)) (pe_Manifests e)"
  let ?f = "\<lambda>e. concat (map (?g e) (reposOf (pe_Names e)))"
  obtain as us vs bs where 1: "map ?f (p_Entries p) = as @ (us @ (e, repo, d) # vs) # bs" "ys = concat as @ us"
    using concat_split [OF assms [unfolded publish_order_def]] by blast
  have "us @ (e, repo, d) # vs \<in> set (map ?f (p_Entries p))" unfolding 1(1) by simp
  then obtain e' where e': "?f e' = us @ (e, repo, d) # vs" by auto
  obtain as' us' vs' bs' where 2: "map (?g e') (reposOf (pe_Names e')) = as' @ (us' @ (e, repo, d) # vs') # bs'"
    "us = concat as' @ us'"
    using concat_split [OF e'] by blast
  have "us' @ (e, repo, d) # vs' \<in> set (map (?g e') (reposOf (pe_Names e')))" unfolding 2(1) by simp
  then obtain repo' where "us' @ (e, repo, d) # vs' = ?g e' repo'" unfolding set_map by (rule imageE)
  then obtain ds1 ds2 where 3: "pe_Manifests e' = ds1 @ d # ds2" "us' = map (\<lambda>d. (e', repo', d)) ds1" "e' = e" "repo' = repo"
    by (auto simp: append_eq_map_conv Cons_eq_map_conv)
  then show ?thesis using 1(2) 2(2) by auto
qed

lemma job_log_of: "(repo, pm, ref) \<in> set (job_log j) \<longleftrightarrow> repo = pj_repo j \<and> pm = pj_pm j \<and> ref \<in> set (pj_refs j)"
  by (auto simp: job_log_def)

text \<open>A job that ran to its end left a Put of its manifest in its repository.\<close>

lemma job_in_log:
  assumes "publishable p" "(e, repo, c) \<in> set (publish_order p)"
    and "set (job_log (job_of (plan_byDigest p) (e, repo, c))) \<subseteq> L"
  shows "\<exists>pm ref. (repo, pm, ref) \<in> L \<and> pm_Digest pm = c"
proof -
  obtain pm where pm: "plan_byDigest p c = Some pm" "pm_Digest pm = c"
    using publishable_byDigest [OF assms(1,2)] by metis
  obtain ref where "ref \<in> set (pj_refs (job_of (plan_byDigest p) (e, repo, c)))"
    using publishable_jobs(2) [OF assms(1,2)] by (meson list.set_sel(1))
  then have "(repo, pm, ref) \<in> L" using assms(3) pm by (auto simp: job_log_def job_of_def)
  then show ?thesis using pm(2) by blast
qed

text \<open>The Puts of publish: those of image manifests, then a part of those of the indexes, in order.\<close>

lemma publish_log:
  assumes "publishable p" "\<And>js. mset (sched js) = mset js"
    and "publish putm sched outer now p metas w t = (r, st)"
  defines "byd \<equiv> plan_byDigest p" and "xs \<equiv> publish_order p"
  obtains l k where "pu_log st = l @ take k (concat (map job_log (map (job_of byd) (filter (of_index byd) xs))))"
    "set l \<subseteq> (\<Union>x \<in> {x \<in> set xs. \<not> of_index byd x}. set (job_log (job_of byd x)))"
    "k = 0 \<or> set l = (\<Union>x \<in> {x \<in> set xs. \<not> of_index byd x}. set (job_log (job_of byd x)))"
proof -
  let ?ims = "map (job_of byd) (filter (\<lambda>x. \<not> of_index byd x) xs)" and ?ixs = "map (job_of byd) (filter (of_index byd) xs)"
  let ?st0 = "\<lparr>pu_w = w, pu_tr = StartManifests t, pu_first = (\<lambda>_. None), pu_log = []\<rparr>"
  note pj = publishable_jobs [OF assms(1), folded byd_def xs_def]
  have refs: "list_all (\<lambda>j. pj_refs j \<noteq> []) (sched ?ims)" "list_all (\<lambda>j. pj_refs j \<noteq> []) ?ixs"
    using pj(2) by (auto simp: list_all_iff sched_set [OF assms(2)])
  have ims: "(\<Union>j \<in> set (sched ?ims). set (job_log j)) = (\<Union>x \<in> {x \<in> set xs. \<not> of_index byd x}. set (job_log (job_of byd x)))"
    by (auto simp: sched_set [OF assms(2)])
  show ?thesis
  proof (cases rule: publish_cases [OF assms(1,2,3), folded byd_def xs_def, case_names stopped finished])
    case (stopped er st1)
    from image_phase_spec(3) [OF refs(1) stopped(1)] obtain l where "pu_log st = l" "set l \<subseteq> (\<Union>j \<in> set (sched ?ims). set (job_log j))"
      using stopped(3) by auto
    then show ?thesis by (intro that [of l 0]) (simp_all add: ims)
  next
    case (finished st1 er)
    have "jobs_done (sched ?ims) ?st0 st1" using image_phase_spec(2) [OF refs(1) finished(1)] by simp
    then have l: "pu_log st1 = concat (map job_log (sched ?ims))" by (simp add: jobs_done_def)
    obtain k where "pu_log st = pu_log st1 @ take k (concat (map job_log ?ixs))"
      using index_phase_spec(3) [OF refs(2) finished(2)] by blast
    then show ?thesis using l by (intro that [of "pu_log st1" k]) (simp_all add: ims [symmetric])
  qed
qed

lemma logged_job:
  assumes "y \<in> set (l @ take k (concat (map job_log (map f (filter P xs)))))"
    and "set l \<subseteq> (\<Union>x \<in> {x \<in> set xs. \<not> P x}. set (job_log (f x)))"
  shows "\<exists>x \<in> set xs. y \<in> set (job_log (f x))"
  using assms by (auto dest!: in_set_takeD)

text \<open>An index is put after everything that precedes it in the order of the loops.\<close>

lemma index_put:
  assumes "publishable p" "\<And>js. mset (sched js) = mset js"
    and "publish putm sched outer now p metas w t = (r, st)"
    and "pu_log st = before @ (repo, pm, ref) # after" "pm_IsIndex pm"
  defines "byd \<equiv> plan_byDigest p"
  obtains e d ys zs where "publish_order p = ys @ (e, repo, d) # zs" "byd d = Some pm"
    "\<And>x. x \<in> set ys \<Longrightarrow> set (job_log (job_of byd x)) \<subseteq> set before"
proof -
  define xs where "xs = publish_order p"
  let ?ixl = "map (\<lambda>x. job_log (job_of byd x)) (filter (of_index byd) xs)"
  let ?images = "\<Union>x \<in> {x \<in> set xs. \<not> of_index byd x}. set (job_log (job_of byd x))"
  obtain l k where l: "pu_log st = l @ take k (concat ?ixl)" "set l \<subseteq> ?images" "k = 0 \<or> set l = ?images"
    using publish_log [OF assms(1,2,3), folded byd_def xs_def] by (auto simp: comp_def)
  have "(repo, pm, ref) \<notin> ?images" using assms(5) by (auto simp: job_log_of job_of_def of_index_def)
  then have notin: "(repo, pm, ref) \<notin> set l" using l(2) by blast
  have "l @ take k (concat ?ixl) = before @ (repo, pm, ref) # after" using assms(4) l(1) by simp
  from this [unfolded append_eq_append_conv2] obtain us where
    "l = before @ us \<and> us @ take k (concat ?ixl) = (repo, pm, ref) # after
      \<or> l @ us = before \<and> take k (concat ?ixl) = us @ (repo, pm, ref) # after" by blast
  with notin obtain before' where b: "before = l @ before'" "take k (concat ?ixl) = before' @ (repo, pm, ref) # after"
    by (cases us) auto
  then have k: "set l = ?images" using l(3) by (cases k) auto
  have "concat ?ixl = before' @ (repo, pm, ref) # (after @ drop k (concat ?ixl))"
    using b(2) by (metis append.assoc append_Cons append_take_drop_id)
  from concat_split [OF this] obtain as us vs bs where
    s: "?ixl = as @ (us @ (repo, pm, ref) # vs) # bs" "before' = concat as @ us" by blast
  from map_filter_split [OF s(1)] obtain ys x zs where
    x: "xs = ys @ x # zs" "job_log (job_of byd x) = us @ (repo, pm, ref) # vs"
    "as = map (\<lambda>x. job_log (job_of byd x)) (filter (of_index byd) ys)"
    by blast
  obtain e repo' d where xe: "x = (e, repo', d)" by (cases x)
  have "(repo, pm, ref) \<in> set (job_log (job_of byd x))" unfolding x(2) by simp
  then have j: "repo' = repo" "pm = the (byd d)" by (simp_all add: xe job_log_of job_of_def)
  have "(e, repo, d) \<in> set (publish_order p)" using x(1) by (simp add: xe j(1) xs_def)
  then have "byd d = Some pm" using publishable_byDigest [OF assms(1)] j(2) unfolding byd_def by (metis option.sel)
  moreover have "set (job_log (job_of byd y)) \<subseteq> set before" if "y \<in> set ys" for y
  proof (cases "of_index byd y")
    case True
    then show ?thesis using that by (auto simp: b(1) s(2) x(3))
  next
    case False
    then have "set (job_log (job_of byd y)) \<subseteq> ?images" using that x(1) by auto
    then show ?thesis using k b(1) by auto
  qed
  ultimately show ?thesis using that x(1) xe j(1) unfolding xs_def by blast
qed

text \<open>
  (C36) Children are put first: when a planned archive that holds every child its indexes list is
  published, with any order of the image manifests in the pool and whatever Puts fail, an index is put
  in a repository only after a successful Put of each of its children in the same repository.
\<close>

theorem publish_children_first:
  assumes "Archive_Plan sha J a opts = Some (Inr p)" "archive_complete sha J a" "\<And>js. mset (sched js) = mset js"
    and "publish putm sched outer now p metas w t = (r, st)"
    and "pu_log st = before @ (repo, pm, ref) # after"
    and "ParseManifest (dj_manifest J) (pm_Body pm) = Inr m" "IsIndex m" "c \<in> set (ManifestChildren m)"
  shows "\<exists>pm' ref'. (repo, pm', ref') \<in> set before \<and> pm_Digest pm' = d_Digest c"
proof -
  note pub = planned_publishable [OF assms(1)]
  have pmx: "pm_IsIndex pm" if "plan_byDigest p d = Some pm" for d
  proof -
    have "pm \<in> set (p_Manifests p)" using that plan_byDigest_spec [of p d pm] pub by (simp add: publishable_def)
    then show ?thesis
      using Archive_Plan_entries [OF assms(1)] assms(6,7) by (auto simp: sound_inv_def list_all_iff manifest_sound_def)
  qed
  have idx: "pm_IsIndex pm"
  proof -
    obtain l k where l: "pu_log st = l @ take k (concat (map job_log (map (job_of (plan_byDigest p))
        (filter (of_index (plan_byDigest p)) (publish_order p)))))"
      "set l \<subseteq> (\<Union>x \<in> {x \<in> set (publish_order p). \<not> of_index (plan_byDigest p) x}. set (job_log (job_of (plan_byDigest p) x)))"
      by (rule publish_log [OF pub assms(3,4)])
    have "(repo, pm, ref) \<in> set (pu_log st)" by (simp add: assms(5))
    from logged_job [OF this [unfolded l(1)] l(2)] obtain e repo' d where
      x: "(e, repo', d) \<in> set (publish_order p)" "(repo, pm, ref) \<in> set (job_log (job_of (plan_byDigest p) (e, repo', d)))"
      by (metis prod_cases3)
    obtain pm0 where "plan_byDigest p d = Some pm0" by (rule publishable_byDigest [OF pub x(1)])
    then show ?thesis using pmx x(2) by (simp add: job_log_of job_of_def)
  qed
  obtain e d ys zs where
    x: "publish_order p = ys @ (e, repo, d) # zs" "plan_byDigest p d = Some pm"
    "\<And>x. x \<in> set ys \<Longrightarrow> set (job_log (job_of (plan_byDigest p) x)) \<subseteq> set before"
    by (rule index_put [OF pub assms(3,4,5) idx]) (rule that)
  have in_xs: "(e, repo, d) \<in> set (publish_order p)" by (simp add: x(1))
  have "pm \<in> set (p_Manifests p)" "pm_Digest pm = d" using x(2) plan_byDigest_spec [of p d pm] pub by (simp_all add: publishable_def)
  then have body: "ReadBlob sha a d = Inr (pm_Body pm)" using planned_ordered(2) [OF assms(1,2)] by blast
  obtain ds1 ds2 where ds: "pe_Manifests e = ds1 @ d # ds2" "\<forall>c \<in> set ds1. (e, repo, c) \<in> set ys"
    using publish_order_split [OF x(1)] by blast
  have "ordered sha J a (pe_Manifests e)" using planned_ordered(1) [OF assms(1,2)] in_xs by (simp add: publish_order_iff)
  then have "d_Digest c \<in> set ds1" using ds(1) body assms(6-8) unfolding ordered_def by blast
  then have cin: "(e, repo, d_Digest c) \<in> set ys" using ds(2) by blast
  then have "(e, repo, d_Digest c) \<in> set (publish_order p)" by (simp add: x(1))
  then show ?thesis using job_in_log [OF pub _ x(3) [OF cin]] by blast
qed

section \<open>The report and the display\<close>

text \<open>What a row shows of a blob when storing is over.\<close>

definition settled ::
  "(digest \<Rightarrow> BlobState) \<Rightarrow> (digest \<Rightarrow> blob_Meta option) \<Rightarrow> PlanBlob \<Rightarrow> blobRow \<Rightarrow> bool" where
  "settled state metas pb r \<longleftrightarrow>
     (pb_Present pb \<or> state (pb_Digest pb) = BlobPresent \<longleftrightarrow> br_State r = BlobPresent)
     \<and> (br_State r \<noteq> BlobPresent \<longrightarrow>
          br_State r = BlobDone \<and> (\<exists>m. metas (pb_Digest pb) = Some m \<and> br_Kind r = Some (bm_Kind m)))"

lemma account_blobs_counts:
  assumes "list_all2 (settled state metas) bs rows"
  defines "c \<equiv> \<lambda>rep. rp_Blobs (foldl (account_blob state metas) rep bs)"
  shows "bc_Present (c rep) = bc_Present (rp_Blobs rep) + counted BlobPresent rows"
    "bc_Processed (c rep) = bc_Processed (rp_Blobs rep) + counted BlobDone rows"
    "bc_Raw (c rep) = bc_Raw (rp_Blobs rep) + length (filter (\<lambda>r. br_State r = BlobDone \<and> br_Kind r = Some KindRaw) rows)"
    "bc_Prism (c rep) + bc_Raw (c rep) = bc_Prism (rp_Blobs rep) + bc_Raw (rp_Blobs rep) + counted BlobDone rows"
    "counted BlobPresent rows + counted BlobDone rows = length rows"
proof -
  have "bc_Present (c rep) = bc_Present (rp_Blobs rep) + counted BlobPresent rows
    \<and> bc_Processed (c rep) = bc_Processed (rp_Blobs rep) + counted BlobDone rows
    \<and> bc_Raw (c rep) = bc_Raw (rp_Blobs rep) + length (filter (\<lambda>r. br_State r = BlobDone \<and> br_Kind r = Some KindRaw) rows)
    \<and> bc_Prism (c rep) + bc_Raw (c rep) = bc_Prism (rp_Blobs rep) + bc_Raw (rp_Blobs rep) + counted BlobDone rows
    \<and> counted BlobPresent rows + counted BlobDone rows = length rows"
    unfolding c_def using assms(1)
  proof (induction arbitrary: rep rule: list_all2_induct)
    case (Cons pb bs r rows)
    show ?case
    proof (cases "br_State r = BlobPresent")
      case True
      then have "rp_Blobs (account_blob state metas rep pb) = (rp_Blobs rep)\<lparr>bc_Present := bc_Present (rp_Blobs rep) + 1\<rparr>"
        using Cons.hyps(1) by (auto simp: settled_def account_blob_def count_blob_def Let_def)
      then show ?thesis using Cons.IH [of "account_blob state metas rep pb"] True by (simp add: counted_def)
    next
      case False
      then obtain m where m: "br_State r = BlobDone" "metas (pb_Digest pb) = Some m" "br_Kind r = Some (bm_Kind m)"
        "\<not> (pb_Present pb \<or> state (pb_Digest pb) = BlobPresent)"
        using Cons.hyps(1) by (auto simp: settled_def)
      then show ?thesis
        using Cons.IH [of "account_blob state metas rep pb"]
        by (cases "bm_Kind m") (auto simp: counted_def account_blob_def count_blob_def Let_def)
    qed
  qed (simp add: counted_def)
  then show "bc_Present (c rep) = bc_Present (rp_Blobs rep) + counted BlobPresent rows"
    "bc_Processed (c rep) = bc_Processed (rp_Blobs rep) + counted BlobDone rows"
    "bc_Raw (c rep) = bc_Raw (rp_Blobs rep) + length (filter (\<lambda>r. br_State r = BlobDone \<and> br_Kind r = Some KindRaw) rows)"
    "bc_Prism (c rep) + bc_Raw (c rep) = bc_Prism (rp_Blobs rep) + bc_Raw (rp_Blobs rep) + counted BlobDone rows"
    "counted BlobPresent rows + counted BlobDone rows = length rows"
    by blast+
qed

lemma account_manifests:
  "rp_Blobs (foldl account_manifest rep ms) = rp_Blobs rep"
  "rp_Compressed (foldl account_manifest rep ms) = rp_Compressed rep + int (sum_list (map (length \<circ> pm_Body) ms))"
  by (induction ms arbitrary: rep) (simp_all add: account_manifest_def)

lemma account_blobs_compressed:
  "rp_Compressed (foldl (account_blob state metas) rep bs) = rp_Compressed rep + int (sum_list (map pb_Size bs))"
  by (induction bs arbitrary: rep) (simp_all add: account_blob_def Let_def)

lemma shown_states_nth:
  assumes "distinct (map br_Digest rows)" "i < length rows"
  shows "shown_states rows (br_Digest (rows ! i)) = br_State (rows ! i)"
  using assms unfolding shown_states_def
proof (induction rows rule: rev_induct)
  case (snoc r rows)
  have "br_Digest (rows ! i) \<noteq> br_Digest r" if "i < length rows"
    using snoc.prems(1) nth_mem [OF that] by (auto simp: image_iff)
  then show ?case using snoc by (auto simp: nth_append less_Suc_eq)
qed simp

lemma read_present_absent:
  "read_present opn pbs metas = Inr metas' \<Longrightarrow> (\<And>pb. pb \<in> set pbs \<Longrightarrow> pb_Present pb \<Longrightarrow> pb_Digest pb \<noteq> d) \<Longrightarrow>
   metas' d = metas d"
  by (induction pbs arbitrary: metas) (auto split: if_splits sum.splits)

text \<open>When the pool has returned nil, every row is settled.\<close>

lemma stored_settled:
  assumes "store_inv n p x" "distinct (map pb_Digest (p_Blobs p))"
    and "storeBlobs_end opn p x = Some (Inr metas)" "tr_blobs t = tr_blobs (sr_tr x)"
  shows "list_all2 (settled (shown_states (tr_blobs t)) metas) (p_Blobs p) (tr_blobs t)"
proof (rule list_all2_all_nthI)
  let ?bs = "p_Blobs p" and ?rows = "tr_blobs t"
  have r: "po_result (sr_pool x) = Some None" "read_present opn ?bs (sr_metas x) = Inr metas"
    using assms(3) by (auto simp: storeBlobs_end_def split: option.splits)
  have cs: "cells ?bs x" and ei: "each_inv n (absentLargestFirst p) (sr_pool x)"
    using assms(1) by (auto simp: store_inv_def)
  show len: "length ?bs = length ?rows" using cs assms(4) by (simp add: cells_def)
  fix i assume i: "i < length ?bs"
  let ?pb = "?bs ! i" and ?r = "?rows ! i"
  have c: "cell (tr_Verify (sr_tr x)) (set (po_feed (sr_pool x))) (runs (sr_pool x)) (set (po_ok (sr_pool x))) (sr_metas x) ?pb ?r"
    using cs i assms(4) by (simp add: cells_def)
  have "map br_Digest ?rows = map pb_Digest ?bs"
    using cs assms(4) by (intro nth_equalityI) (auto simp: cells_def cell_def)
  then have st: "shown_states ?rows (pb_Digest ?pb) = br_State ?r"
    using shown_states_nth [of ?rows i] assms(2) i len c by (simp add: cell_def)
  show "settled (shown_states ?rows) metas ?pb ?r"
  proof (cases "pb_Present ?pb")
    case True
    then show ?thesis using c by (simp add: settled_def cell_def)
  next
    case False
    have "mset (po_ok (sr_pool x)) = mset (absentLargestFirst p)"
      using each_all_ok [OF ei r(1)] .
    then have "?pb \<in> set (po_ok (sr_pool x))"
      using False i by (metis (mono_tags, lifting) absentLargestFirst_set mem_Collect_eq mset_eq_setD nth_mem)
    then obtain m where "sr_metas x (pb_Digest ?pb) = Some m" "finished_row m ?r" using c by (auto simp: cell_def)
    moreover have "metas (pb_Digest ?pb) = sr_metas x (pb_Digest ?pb)"
      by (rule read_present_absent [OF r(2)])
        (metis False assms(2) distinct_digests_nth i in_set_conv_nth)
    ultimately show ?thesis using False st by (auto simp: settled_def finished_row_def)
  qed
qed

text \<open>Publishing leaves the rows of the blobs alone, and ends with account.\<close>

lemma publish_rows:
  assumes "publishable p" "\<And>js. mset (sched js) = mset js"
    and "publish putm sched outer now p metas w t = (r, st)"
  shows "tr_blobs (pu_tr st) = tr_blobs t"
proof -
  note pj = publishable_jobs(2) [OF assms(1)]
  have refs: "list_all (\<lambda>j. pj_refs j \<noteq> []) (sched (map (job_of (plan_byDigest p)) (filter (\<lambda>x. \<not> of_index (plan_byDigest p) x) (publish_order p))))"
    "list_all (\<lambda>j. pj_refs j \<noteq> []) (map (job_of (plan_byDigest p)) (filter (of_index (plan_byDigest p)) (publish_order p)))"
    using pj by (auto simp: list_all_iff sched_set [OF assms(2)])
  show ?thesis
  proof (cases rule: publish_cases [OF assms, case_names stopped finished])
    case (stopped er st1)
    then show ?thesis using image_phase_spec(1) [OF refs(1) stopped(1)] by (simp add: kept_first_def StartManifests_def)
  next
    case (finished st1 er)
    then show ?thesis
      using image_phase_spec(1) [OF refs(1) finished(1)] index_phase_spec(1) [OF refs(2) finished(2)]
      by (simp add: kept_first_def StartManifests_def)
  qed
qed

lemma report_entries_blobs:
  "report_entries byd fm es rep = Some rep' \<Longrightarrow> rp_Blobs rep' = rp_Blobs rep \<and> rp_Compressed rep' = rp_Compressed rep"
  by (induction es arbitrary: rep) (fastforce simp: add_entry_report_def split: option.splits)+

lemma publish_account:
  assumes "publishable p" "\<And>js. mset (sched js) = mset js"
    and "publish putm sched outer now p metas w t = (Some (Inr rep), st)"
  obtains rep0 where "rep = importer_account p (pu_tr st) now metas rep0" "rp_Blobs rep0 = rp_Blobs empty_report" "rp_Compressed rep0 = 0"
proof (cases rule: publish_cases [OF assms, case_names stopped finished])
  case (finished st1 er)
  then obtain rep0 where "report_entries (plan_byDigest p) (pu_first st) (p_Entries p) empty_report = Some rep0"
    "rep = importer_account p (pu_tr st) now metas rep0"
    by (auto simp: publish_report_def split: option.splits)
  then show ?thesis using that report_entries_blobs [of _ _ _ empty_report rep0] by (simp add: empty_report_def)
qed auto

text \<open>
  (C37) The report agrees with the display and with the plan: when the pool has stored the blobs of a
  plan and publishing returned a report, no blob is left pending, in flight or failed; the report counts
  as present, processed and raw exactly the blobs the display shows as present, done and raw, its prisms
  are the processed blobs that are not raw, and its compressed total is every planned byte.
\<close>

theorem report_agrees:
  assumes "reach (\<lambda>x. distinct (map pb_Digest (p_Blobs p)) \<and> x = store_start now' n p (checked_tracker sha a ctx verify now0 p))
      (store_step a) x"
    and "storeBlobs_end opn p x = Some (Inr metas)" "publishable p" "\<And>js. mset (sched js) = mset js"
    and "publish putm sched outer now p metas w (sr_tr x) = (Some (Inr rep), st)"
    and "cs = sn_Counts (Tracker_Snapshot (pu_tr st) now)"
  shows "bc_Present (rp_Blobs rep) = ct_Present cs \<and> bc_Processed (rp_Blobs rep) = ct_Done cs
    \<and> bc_Raw (rp_Blobs rep) = ct_Raw cs \<and> bc_Prism (rp_Blobs rep) + bc_Raw (rp_Blobs rep) = bc_Processed (rp_Blobs rep)
    \<and> ct_Pending cs + ct_InFlight cs + ct_Failed cs = 0
    \<and> rp_Compressed rep = int (sum_list (map pb_Size (p_Blobs p)) + sum_list (map (length \<circ> pm_Body) (p_Manifests p)))"
proof -
  have d: "distinct (map pb_Digest (p_Blobs p))" and inv: "store_inv n p x"
    using storing.reach_inv [OF assms(1)] by auto
  have rows: "tr_blobs (pu_tr st) = tr_blobs (sr_tr x)" by (rule publish_rows [OF assms(3-5)])
  obtain rep0 where rep0: "rep = importer_account p (pu_tr st) now metas rep0" "rp_Blobs rep0 = rp_Blobs empty_report" "rp_Compressed rep0 = 0"
    by (rule publish_account [OF assms(3-5)])
  let ?rows = "tr_blobs (pu_tr st)"
  have sn: "sn_Blobs (Tracker_Snapshot (pu_tr st) now) = ?rows" "cs = foldl count_row zero_Counts ?rows"
    by (simp_all add: assms(6) Tracker_Snapshot_def split: prod.splits)
  note settled = stored_settled [OF inv d assms(2) rows]
  note k = account_blobs_counts(1-4) [OF settled, where rep = rep0]
  have rb: "rp_Blobs rep = rp_Blobs (foldl (account_blob (shown_states ?rows) metas) rep0 (p_Blobs p))"
    "rp_Compressed rep = int (sum_list (map pb_Size (p_Blobs p)) + sum_list (map (length \<circ> pm_Body) (p_Manifests p)))"
    by (simp_all add: rep0(1,3) importer_account_def Let_def account_manifests account_blobs_compressed sn(1))
  have "counted BlobPending ?rows + counted BlobInFlight ?rows + counted BlobFailed ?rows = 0"
    using counted_total [of ?rows] account_blobs_counts(5) [OF settled] by simp
  then show ?thesis
    using k(1-4) rep0(2) rb(2) unfolding sn(2) count_rows rb(1) by (simp add: zero_Counts_def empty_report_def)
qed

section \<open>Publishing a small archive\<close>

definition ok_meta :: image_Meta where
  "ok_meta =
     \<lparr>im_Version = 1, im_Kind = KindManifest, im_MediaType = '''', im_Digest = '''', im_Size = 0, im_ArtifactType = '''',
      im_Subject = None, im_Annotations = [], im_CreatedAt = 0, im_Stats = zero_stats, im_Rootfs = None\<rparr>"

definition ok_put :: "unit put_manifest" where
  "ok_put w repo ref mt body = (Inr ok_meta, w)"

definition shop_pm :: "nat \<Rightarrow> bytes \<Rightarrow> bool \<Rightarrow> PlanManifest" where
  "shop_pm n body idx =
     \<lparr>pm_Digest = len_digest n, pm_MediaType = ''m'', pm_Body = body, pm_IsIndex = idx, pm_Synthesized = False,
      pm_Attestation = False\<rparr>"

definition shop_ready :: Plan where
  "shop_ready =
     \<lparr>p_Blobs = p_Blobs shop_whole_plan,
      p_Manifests = [shop_pm 2 ''im'' False, shop_pm 3 ''idx'' True, shop_pm 4 ''oidx'' True],
      p_Entries = [\<lparr>pe_Digest = len_digest 4, pe_Names = [\<lparr>nm_Repo = ''app'', nm_Tag = ''v1''\<rparr>], pe_IsIndex = True,
                    pe_Platforms = 1, pe_Attestations = 0,
                    pe_Manifests = [len_digest 2, len_digest 3, len_digest 4]\<rparr>]\<rparr>"

lemma shop_ready_planned: "Archive_Plan len_sha (shop_json [2]) shop_archive shop_opts = Some (Inr shop_ready)"
proof -
  have "\<exists>e. p_Entries shop_whole_plan = [e] \<and>
      shop_whole_plan\<lparr>p_Entries := [e\<lparr>pe_Names := appendName (pe_Names e) \<lparr>nm_Repo = ''app'', nm_Tag = ''v1''\<rparr>\<rparr>]\<rparr> = shop_ready"
    by (simp add: shop_ready_def shop_whole_plan_def add_entry_def whole_node_def image_node_def Let_def
        add_manifest_def add_blob_def len_digest_eqs shop_pm_def appendName_def)
  then show ?thesis using shop_plan [OF shop_whole shop_whole_plan_def [symmetric]] by metis
qed

abbreviation shop_publish :: "(import_err + Report) option \<times> unit pub" where
  "shop_publish \<equiv> publish ok_put (\<lambda>js. js) None 0 shop_ready (\<lambda>_. None) () (NewTracker True)"

lemma shop_log:
  "pu_log (snd shop_publish) =
     [(''app'', shop_pm 2 ''im'' False, len_digest 2), (''app'', shop_pm 3 ''idx'' True, len_digest 3)]
       @ (''app'', shop_pm 4 ''oidx'' True, ''v1'') # []"
  by (simp add: publish_def shop_ready_def publish_order_def reposOf_def plan_byDigest_def shop_pm_def len_digest_eqs
      refsFor_def run_job_def importer_putManifest_def ok_put_def Let_def publish_report_def entry_report_def noteRootfs_def
      or_zero_def ok_meta_def)

theorem publish_defined_witness: "\<exists>rep. fst shop_publish = Some (Inr rep) \<and> map er_Digest (rp_Entries rep) = [len_digest 4]"
proof -
  have "puts_ok ok_put" by (simp add: puts_ok_def ok_put_def)
  then show ?thesis
    using publish_defined [OF shop_ready_planned, of "\<lambda>js. js" ok_put None 0 "\<lambda>_. None" "()" "NewTracker True"]
    by (auto simp: shop_ready_def)
qed

theorem publish_children_first_witness:
  "\<exists>pm ref. (''app'', pm, ref) \<in> set [(''app'', shop_pm 2 ''im'' False, len_digest 2), (''app'', shop_pm 3 ''idx'' True, len_digest 3)]
     \<and> pm_Digest pm = len_digest 3"
proof -
  have "ParseManifest (dj_manifest (shop_json [2])) (pm_Body (shop_pm 4 ''oidx'' True)) = Inr (index_of [3])"
    by (simp add: shop_pm_def)
  moreover have "len_desc 3 \<in> set (ManifestChildren (index_of [3]))" by simp
  ultimately show ?thesis
    using publish_children_first [OF shop_ready_planned shop_complete refl surjective_pairing shop_log, of "index_of [3]" "len_desc 3"]
    by simp
qed

section \<open>A run with one blob\<close>

definition raw_meta :: blob_Meta where
  "raw_meta = demo_meta\<lparr>bm_Kind := KindRaw\<rparr>"

definition pool1 :: "(PlanBlob, import_err) pool" where "pool1 = the (feed_send (each_start 1 [one_blob]) 0)"
definition pool2 :: "(PlanBlob, import_err) pool" where "pool2 = the (call_returns pool1 0 None)"
definition pool3 :: "(PlanBlob, import_err) pool" where "pool3 = the (feed_close pool2)"
definition pool4 :: "(PlanBlob, import_err) pool" where "pool4 = the (worker_exits pool3 0)"
definition pool5 :: "(PlanBlob, import_err) pool" where "pool5 = the (each_return pool4)"

lemmas pool_defs = pool1_def pool2_def pool3_def pool4_def pool5_def each_start_def feed_send_def call_returns_def
  feed_close_def worker_exits_def each_return_def

lemma pool_steps:
  "feed_send (each_start 1 [one_blob]) 0 = Some pool1" "running pool1 0 one_blob" "call_returns pool1 0 None = Some pool2"
  "feed_close pool2 = Some pool3" "worker_exits pool3 0 = Some pool4" "each_return pool4 = Some pool5"
  "po_result pool5 = Some None"
  by (simp_all add: pool_defs running_def)

definition one_end :: store_run where
  "one_end =
     \<lparr>sr_pool = pool5, sr_tr = Done (Start (sr_tr one_start) (len_digest 3)) (len_digest 3) (Some raw_meta),
      sr_metas = (\<lambda>_. None)(len_digest 3 \<mapsto> raw_meta)\<rparr>"

lemma one_end_reach:
  "reach (\<lambda>x. distinct (map pb_Digest (p_Blobs one_plan)) \<and>
      x = store_start 0 1 one_plan (checked_tracker len_sha one_archive (\<lambda>_ _. None) True 0 one_plan)) (store_step one_archive) one_end"
proof -
  let ?I = "\<lambda>x. distinct (map pb_Digest (p_Blobs one_plan)) \<and> x = one_start"
  define x1 where "x1 = one_start\<lparr>sr_pool := pool1, sr_tr := Start (sr_tr one_start) (len_digest 3)\<rparr>"
  define x2 where "x2 = x1\<lparr>sr_pool := pool2, sr_tr := Done (sr_tr x1) (len_digest 3) (Some raw_meta),
    sr_metas := (sr_metas x1)(len_digest 3 \<mapsto> raw_meta)\<rparr>"
  have d: "pb_Digest one_blob = len_digest 3" by (simp add: one_blob_def)
  have p0: "sr_pool one_start = each_start 1 [one_blob]"
    by (simp add: one_start_def store_start_def absentLargestFirst_def one_plan_def one_blob_def)
  have s1: "store_step one_archive one_start x1"
    using SSend [of one_start 0 pool1 one_blob "[]" one_archive] pool_steps(1) by (simp add: p0 x1_def d)
  have "putBlob one_archive (\<lambda>_. Inr raw_meta) one_blob = Inr raw_meta"
    by (simp add: putBlob_def Section_def one_archive_def one_blob_def)
  then have s2: "store_step one_archive x1 x2"
    using SDone [of x1 0 one_blob one_archive "\<lambda>_. Inr raw_meta" raw_meta pool2] pool_steps(2,3) by (simp add: x1_def x2_def d)
  have s3: "store_step one_archive x2 (x2\<lparr>sr_pool := pool3\<rparr>)"
    by (rule SPool) (use PClose [OF pool_steps(4)] in \<open>simp add: x2_def\<close>)
  have s4: "store_step one_archive (x2\<lparr>sr_pool := pool3\<rparr>) (x2\<lparr>sr_pool := pool4\<rparr>)"
    using SPool [of "x2\<lparr>sr_pool := pool3\<rparr>" pool4 one_archive] PExit [OF pool_steps(5)] by simp
  have s5: "store_step one_archive (x2\<lparr>sr_pool := pool4\<rparr>) one_end"
    using SPool [of "x2\<lparr>sr_pool := pool4\<rparr>" pool5 one_archive] PReturn [OF pool_steps(6)]
    by (simp add: one_end_def x2_def x1_def one_start_def store_start_def)
  have "?I one_start" by (simp add: one_plan_def)
  then have "reach ?I (store_step one_archive) one_start" by (rule reach_init)
  from reach_step [of ?I "store_step one_archive", OF reach_step [of ?I "store_step one_archive", OF
      reach_step [of ?I "store_step one_archive", OF reach_step [of ?I "store_step one_archive", OF
      reach_step [of ?I "store_step one_archive", OF this s1] s2] s3] s4] s5]
  show ?thesis unfolding one_start_def .
qed

definition one_metas :: "digest \<Rightarrow> blob_Meta option" where
  "one_metas = (\<lambda>_. None)(len_digest 3 \<mapsto> raw_meta)"

lemma one_published:
  "\<exists>rep. publish ok_put (\<lambda>js. js) None 0 one_plan one_metas () (sr_tr one_end) =
     (Some (Inr rep), \<lparr>pu_w = (), pu_tr = StartManifests (sr_tr one_end), pu_first = (\<lambda>_. None), pu_log = []\<rparr>)"
  by (simp add: publish_def one_plan_def publish_order_def plan_byDigest_def publish_report_def Let_def)

theorem report_agrees_witness:
  "\<exists>rep. fst (publish ok_put (\<lambda>js. js) None 0 one_plan one_metas () (sr_tr one_end)) = Some (Inr rep)
     \<and> rp_Compressed rep = 3 \<and> bc_Prism (rp_Blobs rep) + bc_Raw (rp_Blobs rep) = bc_Processed (rp_Blobs rep)"
proof -
  obtain rep st where r: "publish ok_put (\<lambda>js. js) None 0 one_plan one_metas () (sr_tr one_end) = (Some (Inr rep), st)"
    using one_published by blast
  have s: "storeBlobs_end (\<lambda>_. Inl ErrBlobNotFound) one_plan one_end = Some (Inr one_metas)"
    by (simp add: storeBlobs_end_def one_end_def pool_steps(7) one_plan_def one_blob_def one_metas_def)
  have p: "publishable one_plan" by (simp add: publishable_def one_plan_def entries_ok_def)
  have "sum_list (map pb_Size (p_Blobs one_plan)) + sum_list (map (length \<circ> pm_Body) (p_Manifests one_plan)) = 3"
    by (simp add: one_plan_def one_blob_def)
  then show ?thesis using report_agrees [OF one_end_reach s p refl r refl] r by auto
qed

end
