(* ===== verification/Docker_Write.thy ===== *)
theory Docker_Write
  imports Docker_Props "HOL-Library.List_Lexorder" "HOL-Library.Char_ord"
begin

text \<open>
  Writing the archives of docker image save (src/dockerarchive/write.go): resolving everything under
  the exported images, and the entries of the archive in order. The source is a record of functions;
  what the stager hands to the writer is the parameter \<open>staged\<close>, see \<open>Docker_Stage\<close>. The encoders of
  encoding/json and the outcomes of the tar writer are parameters. The maps items and legacy (with
  legacyOrder) are association lists. Progress counting is in \<open>Docker_Stage\<close>.
\<close>

definition AnnotationRefName :: string where "AnnotationRefName = ''org.opencontainers.image.ref.name''"
definition AnnotationImageName :: string where "AnnotationImageName = ''io.containerd.image.name''"
definition layoutVersion :: string where "layoutVersion = ''1.0.0''"

record Export =
  ex_Repo :: string
  ex_Digest :: digest
  ex_MediaType :: string
  ex_Tag :: string

record Source =
  so_Manifest :: "string \<Rightarrow> digest \<Rightarrow> bytes res"

datatype save_err =
    SaveNothing | SaveRead digest string err | SaveManifest digest string err | SaveArchive err
  | SaveStage err | SaveSize digest int int | SaveEncode string | SaveWrite string err

record saveItem =
  si_size :: int
  si_body :: "bytes option"
  si_manifest :: "Manifest option"

record savePlan =
  sp_items :: "(digest \<times> saveItem) list"
  sp_index :: "Descriptor list"
  sp_legacy :: "(digest \<times> LegacyEntry) list"

definition blobPath :: "digest \<Rightarrow> string" where
  "blobPath d = blobPrefix @ Hex d"

definition dockerReference :: "Name \<Rightarrow> string" where
  "dockerReference n =
     (case Cut (nm_Repo n) CHR ''/'' of
        Some (host, _) \<Rightarrow> if isHost host then Name_String n else ''docker.io/'' @ Name_String n
      | None \<Rightarrow> ''docker.io/library/'' @ Name_String n)"

section \<open>Resolving\<close>

definition add_blob_item :: "savePlan \<Rightarrow> Descriptor \<Rightarrow> savePlan" where
  "add_blob_item p bd =
     (if map_of (sp_items p) (d_Digest bd) \<noteq> None then p
      else p\<lparr>sp_items := AList.update (d_Digest bd)
               \<lparr>si_size = d_Size bd, si_body = None, si_manifest = None\<rparr> (sp_items p)\<rparr>)"

fun save_children ::
  "(digest \<Rightarrow> savePlan \<Rightarrow> ((save_err + Manifest \<times> bytes) \<times> savePlan) option) \<Rightarrow> Descriptor list \<Rightarrow> savePlan
     \<Rightarrow> (save_err option \<times> savePlan) option" where
  "save_children rec [] p = Some (None, p)"
| "save_children rec (c # cs) p =
     (case rec (d_Digest c) p of
        None \<Rightarrow> None
      | Some (Inl e, p') \<Rightarrow> Some (Some e, p')
      | Some (Inr _, p') \<Rightarrow> save_children rec cs p')"

text \<open>The fuel bounds the depth of the recursion; \<open>Write_returns\<close> shows how much is enough.\<close>

fun save_resolve ::
  "da_json \<Rightarrow> Source \<Rightarrow> nat \<Rightarrow> string \<Rightarrow> digest \<Rightarrow> savePlan \<Rightarrow> ((save_err + Manifest \<times> bytes) \<times> savePlan) option" where
  "save_resolve J src 0 repo d p = None"
| "save_resolve J src (Suc fuel) repo d p =
     (case (case map_of (sp_items p) d of
              None \<Rightarrow> None
            | Some it \<Rightarrow> (case si_manifest it of
                            None \<Rightarrow> None
                          | Some m \<Rightarrow> Some (m, case si_body it of None \<Rightarrow> [] | Some b \<Rightarrow> b))) of
        Some mb \<Rightarrow> Some (Inr mb, p)
      | None \<Rightarrow>
          (case so_Manifest src repo d of
             Inl e \<Rightarrow> Some (Inl (SaveRead d repo e), p)
           | Inr body \<Rightarrow>
               (case ParseManifest (dj_manifest J) body of
                  Inl e \<Rightarrow> Some (Inl (SaveManifest d repo e), p)
                | Inr m \<Rightarrow>
                    (let p = p\<lparr>sp_items := AList.update d
                               \<lparr>si_size = int (length body), si_body = Some body, si_manifest = Some m\<rparr> (sp_items p)\<rparr>;
                         p = foldl add_blob_item p (BlobDescriptors m)
                     in case save_children (save_resolve J src fuel repo) (ManifestChildren m) p of
                          None \<Rightarrow> None
                        | Some (Some e, p) \<Rightarrow> Some (Inl e, p)
                        | Some (None, p) \<Rightarrow> Some (Inr (m, body), p)))))"

definition legacyCandidates :: "Manifest \<Rightarrow> Platform option \<Rightarrow> Descriptor list" where
  "legacyCandidates m platform =
     (let cs = filter (\<lambda>c. \<not> IsAttestation c) (ManifestChildren m);
          match = (\<lambda>c. case (platform, d_Platform c) of (Some p, Some q) \<Rightarrow> Platform_Matches p q | _ \<Rightarrow> False)
      in filter match cs @ filter (\<lambda>c. \<not> match c) cs)"

text \<open>The loop over the candidates: the first that is an image manifest with a config.\<close>

fun legacy_child ::
  "(digest \<Rightarrow> savePlan \<Rightarrow> ((save_err + Manifest \<times> bytes) \<times> savePlan) option) \<Rightarrow> Descriptor list \<Rightarrow> savePlan
     \<Rightarrow> ((save_err + (digest \<times> Manifest) option) \<times> savePlan) option" where
  "legacy_child rec [] p = Some (Inr None, p)"
| "legacy_child rec (c # cs) p =
     (case rec (d_Digest c) p of
        None \<Rightarrow> None
      | Some (Inl e, p') \<Rightarrow> Some (Inl e, p')
      | Some (Inr (cm, _), p') \<Rightarrow>
          if \<not> IsIndex cm \<and> m_Config cm \<noteq> None then Some (Inr (Some (d_Digest c, cm)), p')
          else legacy_child rec cs p')"

definition export_desc :: "Export \<Rightarrow> bytes \<Rightarrow> Descriptor" where
  "export_desc img body =
     \<lparr>d_MediaType = ex_MediaType img, d_Digest = ex_Digest img, d_Size = int (length body), d_ArtifactType = '''',
      d_Annotations =
        (if ex_Tag img \<noteq> '''' then
           [(AnnotationRefName, ex_Tag img),
            (AnnotationImageName, dockerReference \<lparr>nm_Repo = ex_Repo img, nm_Tag = ex_Tag img\<rparr>)]
         else []),
      d_Platform = None\<rparr>"

definition add_legacy :: "Export \<Rightarrow> (digest \<times> Manifest) option \<Rightarrow> savePlan \<Rightarrow> savePlan" where
  "add_legacy img found p =
     (case found of
        None \<Rightarrow> p
      | Some (ld, lm) \<Rightarrow>
          (case m_Config lm of
             None \<Rightarrow> p
           | Some cfg \<Rightarrow>
               (let le = (case map_of (sp_legacy p) ld of
                            Some le \<Rightarrow> le
                          | None \<Rightarrow> \<lparr>le_Config = blobPath (d_Digest cfg), le_RepoTags = [],
                                     le_Layers = map (\<lambda>l. blobPath (d_Digest l)) (m_Layers lm)\<rparr>);
                    name = Name_String \<lparr>nm_Repo = ex_Repo img, nm_Tag = ex_Tag img\<rparr>;
                    le = (if ex_Tag img \<noteq> '''' \<and> name \<notin> set (le_RepoTags le)
                          then le\<lparr>le_RepoTags := le_RepoTags le @ [name]\<rparr> else le)
                in p\<lparr>sp_legacy := AList.update ld le (sp_legacy p)\<rparr>)))"

definition save_add ::
  "da_json \<Rightarrow> Source \<Rightarrow> nat \<Rightarrow> Platform option \<Rightarrow> savePlan \<Rightarrow> Export \<Rightarrow> (save_err option \<times> savePlan) option" where
  "save_add J src fuel platform p img =
     (case save_resolve J src fuel (ex_Repo img) (ex_Digest img) p of
        None \<Rightarrow> None
      | Some (Inl e, p) \<Rightarrow> Some (Some e, p)
      | Some (Inr (m, body), p) \<Rightarrow>
          (let p = p\<lparr>sp_index := sp_index p @ [export_desc img body]\<rparr> in
           if \<not> IsIndex m then Some (None, add_legacy img (Some (ex_Digest img, m)) p)
           else case legacy_child (save_resolve J src fuel (ex_Repo img)) (legacyCandidates m platform) p of
             None \<Rightarrow> None
           | Some (Inl e, p) \<Rightarrow> Some (Some e, p)
           | Some (Inr found, p) \<Rightarrow> Some (None, add_legacy img found p)))"

fun save_adds ::
  "da_json \<Rightarrow> Source \<Rightarrow> nat \<Rightarrow> Platform option \<Rightarrow> savePlan \<Rightarrow> Export list \<Rightarrow> (save_err option \<times> savePlan) option" where
  "save_adds J src fuel platform p [] = Some (None, p)"
| "save_adds J src fuel platform p (img # imgs) =
     (case save_add J src fuel platform p img of
        None \<Rightarrow> None
      | Some (Some e, p) \<Rightarrow> Some (Some e, p)
      | Some (None, p) \<Rightarrow> save_adds J src fuel platform p imgs)"

section \<open>Writing\<close>

record out_entry =
  oe_Name :: string
  oe_Typeflag :: char
  oe_Mode :: nat
  oe_Data :: bytes

record save_enc =
  en_index :: "Manifest \<Rightarrow> bytes option"
  en_legacy :: "LegacyEntry list \<Rightarrow> bytes option"
  en_layout :: "string \<Rightarrow> bytes"

definition dir_entry :: "string \<Rightarrow> out_entry" where
  "dir_entry name = \<lparr>oe_Name = name, oe_Typeflag = CHR ''5'', oe_Mode = 493, oe_Data = []\<rparr>"

definition file_entry :: "string \<Rightarrow> nat \<Rightarrow> bytes \<Rightarrow> out_entry" where
  "file_entry name mode data = \<lparr>oe_Name = name, oe_Typeflag = CHR ''0'', oe_Mode = mode, oe_Data = data\<rparr>"

text \<open>
  An entry through the tar writer: \<open>tw i\<close> is the outcome of its i-th call, two for every entry before
  this one, and the second outcome of a blob also stands for reading its staged file back. What was
  written is the list of the entries.
\<close>

definition put_entry :: "(nat \<Rightarrow> err option) \<Rightarrow> out_entry \<Rightarrow> out_entry list \<Rightarrow> err + out_entry list" where
  "put_entry tw e out =
     (case tw (2 * length out) of
        Some er \<Rightarrow> Inl er
      | None \<Rightarrow>
          if oe_Typeflag e = CHR ''5'' then Inr (out @ [e])
          else case tw (2 * length out + 1) of Some er \<Rightarrow> Inl er | None \<Rightarrow> Inr (out @ [e]))"

text \<open>The loop over the digests; \<open>staged\<close> is what the stager yields for a blob, or the failure it reports.\<close>

fun write_items ::
  "(nat \<Rightarrow> err option) \<Rightarrow> (digest \<Rightarrow> err + bytes) \<Rightarrow> (digest \<times> saveItem) list \<Rightarrow> out_entry list
     \<Rightarrow> save_err option \<times> out_entry list" where
  "write_items tw staged [] out = (None, out)"
| "write_items tw staged ((d, it) # rest) out =
     (case (case si_body it of
              Some body \<Rightarrow> Inr body
            | None \<Rightarrow>
                (case staged d of
                   Inl e \<Rightarrow> Inl (SaveStage e)
                 | Inr b \<Rightarrow> if int (length b) \<noteq> si_size it then Inl (SaveSize d (int (length b)) (si_size it)) else Inr b)) of
        Inl e \<Rightarrow> (Some e, out)
      | Inr data \<Rightarrow>
          (case put_entry tw (file_entry (blobPath d) 292 data) out of
             Inl er \<Rightarrow> (Some (SaveWrite d er), out)
           | Inr out \<Rightarrow> write_items tw staged rest out))"

text \<open>slices.Sorted over the keys of items.\<close>

definition sorted_items :: "savePlan \<Rightarrow> (digest \<times> saveItem) list" where
  "sorted_items p = map (\<lambda>d. (d, the (map_of (sp_items p) d))) (sort (map fst (sp_items p)))"

text \<open>A file of the top level: its name, mode and encoded content, or the failure to encode it.\<close>

fun write_tops ::
  "(nat \<Rightarrow> err option) \<Rightarrow> (string \<times> nat \<times> bytes option) list \<Rightarrow> out_entry list \<Rightarrow> save_err option \<times> out_entry list" where
  "write_tops tw [] out = (case tw (2 * length out) of Some er \<Rightarrow> (Some (SaveArchive er), out) | None \<Rightarrow> (None, out))"
| "write_tops tw ((name, mode, data) # rest) out =
     (case data of
        None \<Rightarrow> (Some (SaveEncode name), out)
      | Some b \<Rightarrow>
          (case put_entry tw (file_entry name mode b) out of
             Inl er \<Rightarrow> (Some (SaveWrite name er), out)
           | Inr out \<Rightarrow> write_tops tw rest out))"

definition index_manifest :: "savePlan \<Rightarrow> Manifest" where
  "index_manifest p =
     \<lparr>m_SchemaVersion = 2, m_MediaType = MediaTypeOCIIndex, m_ArtifactType = '''', m_Config = None, m_Layers = [],
      m_Manifests = Some (sp_index p), m_Subject = None, m_Annotations = []\<rparr>"

definition top_files :: "save_enc \<Rightarrow> savePlan \<Rightarrow> (string \<times> nat \<times> bytes option) list" where
  "top_files enc p =
     (IndexFile, 420, en_index enc (index_manifest p))
     # (if sp_legacy p = [] then [] else [(ManifestFile, 420, en_legacy enc (map snd (sp_legacy p)))])
     @ [(LayoutFile, 292, Some (en_layout enc layoutVersion))]"

text \<open>\<open>mk\<close> is the outcome of creating the stager's directory.\<close>

definition writeTo ::
  "save_enc \<Rightarrow> (nat \<Rightarrow> err option) \<Rightarrow> err option \<Rightarrow> (digest \<Rightarrow> err + bytes) \<Rightarrow> savePlan
     \<Rightarrow> save_err option \<times> out_entry list" where
  "writeTo enc tw mk staged p =
     (case put_entry tw (dir_entry ''blobs/'') [] of
        Inl er \<Rightarrow> (Some (SaveArchive er), [])
      | Inr out \<Rightarrow>
          (case put_entry tw (dir_entry ''blobs/sha256/'') out of
             Inl er \<Rightarrow> (Some (SaveArchive er), out)
           | Inr out \<Rightarrow>
               (case mk of
                  Some er \<Rightarrow> (Some (SaveStage er), out)
                | None \<Rightarrow>
                    (case write_items tw staged (sorted_items p) out of
                       (Some e, out) \<Rightarrow> (Some e, out)
                     | (None, out) \<Rightarrow> write_tops tw (top_files enc p) out))))"

definition save_start :: savePlan where
  "save_start = \<lparr>sp_items = [], sp_index = [], sp_legacy = []\<rparr>"

definition Write_archive ::
  "da_json \<Rightarrow> Source \<Rightarrow> nat \<Rightarrow> Platform option \<Rightarrow> save_enc \<Rightarrow> (nat \<Rightarrow> err option) \<Rightarrow> err option
     \<Rightarrow> (digest \<Rightarrow> err + bytes) \<Rightarrow> Export list \<Rightarrow> (save_err option \<times> out_entry list) option" where
  "Write_archive J src fuel platform enc tw mk staged images =
     (if images = [] then Some (Some SaveNothing, [])
      else case save_adds J src fuel platform save_start images of
        None \<Rightarrow> None
      | Some (Some e, p) \<Rightarrow> Some (Some e, [])
      | Some (None, p) \<Rightarrow> Some (writeTo enc tw mk staged p))"

section \<open>What resolving collects\<close>

abbreviation item_of :: "savePlan \<Rightarrow> digest \<Rightarrow> saveItem option" where
  "item_of p \<equiv> map_of (sp_items p)"

definition manifested :: "savePlan \<Rightarrow> digest set" where
  "manifested p = {d. \<exists>it. item_of p d = Some it \<and> si_manifest it \<noteq> None}"

text \<open>The plan only grows, and a manifest once read stays.\<close>

definition save_le :: "savePlan \<Rightarrow> savePlan \<Rightarrow> bool" where
  "save_le p q \<longleftrightarrow>
     (\<forall>d it. item_of p d = Some it \<longrightarrow>
        (\<exists>it'. item_of q d = Some it' \<and> (si_manifest it \<noteq> None \<longrightarrow> it' = it)))"

lemma save_le_refl [simp]: "save_le p p" by (simp add: save_le_def)

lemma save_le_trans: "save_le p q \<Longrightarrow> save_le q r \<Longrightarrow> save_le p r"
  unfolding save_le_def by metis

lemma save_le_manifested: "save_le p q \<Longrightarrow> manifested p \<subseteq> manifested q"
  unfolding save_le_def manifested_def by fastforce

lemma save_le_items: "save_le p q \<Longrightarrow> item_of p d \<noteq> None \<Longrightarrow> item_of q d \<noteq> None"
  unfolding save_le_def by fastforce

lemma save_leD: "save_le p q \<Longrightarrow> item_of p d = Some it \<Longrightarrow> si_manifest it = Some m \<Longrightarrow> item_of q d = Some it"
  unfolding save_le_def by fastforce

lemma save_le_cong: "sp_items p = sp_items p' \<Longrightarrow> sp_items q = sp_items q' \<Longrightarrow> save_le p q = save_le p' q'"
  by (simp add: save_le_def)

definition put_manifest_item :: "digest \<Rightarrow> bytes \<Rightarrow> Manifest \<Rightarrow> savePlan \<Rightarrow> savePlan" where
  "put_manifest_item d body m p =
     p\<lparr>sp_items := AList.update d
          \<lparr>si_size = int (length body), si_body = Some body, si_manifest = Some m\<rparr> (sp_items p)\<rparr>"

lemma item_of_put [simp]:
  "item_of (put_manifest_item d body m p) =
     (item_of p)(d \<mapsto> \<lparr>si_size = int (length body), si_body = Some body, si_manifest = Some m\<rparr>)"
  by (simp add: put_manifest_item_def update_conv')

lemma item_of_blob:
  "item_of (add_blob_item p bd) =
     (if item_of p (d_Digest bd) \<noteq> None then item_of p
      else (item_of p)(d_Digest bd \<mapsto> \<lparr>si_size = d_Size bd, si_body = None, si_manifest = None\<rparr>))"
  by (simp add: add_blob_item_def update_conv')

lemma put_manifest_item_le: "d \<notin> manifested p \<Longrightarrow> save_le p (put_manifest_item d body m p)"
  by (auto simp: save_le_def manifested_def)

lemma add_blob_item_le: "save_le p (add_blob_item p bd)"
  by (auto simp: save_le_def item_of_blob)

lemma add_blob_items_le: "save_le p (foldl add_blob_item p bds)"
  by (induction bds arbitrary: p) (auto intro: save_le_trans [OF add_blob_item_le])

text \<open>The cases of save_resolve.\<close>

definition known_manifest :: "savePlan \<Rightarrow> digest \<Rightarrow> (Manifest \<times> bytes) option" where
  "known_manifest p d =
     (case item_of p d of
        None \<Rightarrow> None
      | Some it \<Rightarrow> (case si_manifest it of
                      None \<Rightarrow> None
                    | Some m \<Rightarrow> Some (m, case si_body it of None \<Rightarrow> [] | Some b \<Rightarrow> b)))"

lemma known_manifest_iff: "known_manifest p d = None \<longleftrightarrow> d \<notin> manifested p"
  by (auto simp: known_manifest_def manifested_def split: option.splits)

lemma save_resolve_Suc:
  "save_resolve J src (Suc fuel) repo d p =
     (case known_manifest p d of
        Some mb \<Rightarrow> Some (Inr mb, p)
      | None \<Rightarrow>
          (case so_Manifest src repo d of
             Inl e \<Rightarrow> Some (Inl (SaveRead d repo e), p)
           | Inr body \<Rightarrow>
               (case ParseManifest (dj_manifest J) body of
                  Inl e \<Rightarrow> Some (Inl (SaveManifest d repo e), p)
                | Inr m \<Rightarrow>
                    (case save_children (save_resolve J src fuel repo) (ManifestChildren m)
                            (foldl add_blob_item (put_manifest_item d body m p) (BlobDescriptors m)) of
                       None \<Rightarrow> None
                     | Some (Some e, p) \<Rightarrow> Some (Inl e, p)
                     | Some (None, p) \<Rightarrow> Some (Inr (m, body), p)))))"
  unfolding save_resolve.simps(2) known_manifest_def put_manifest_item_def Let_def ..

declare save_resolve.simps(2) [simp del]

lemma save_resolve_le:
  "save_resolve J src fuel repo d p = Some (r, q) \<Longrightarrow> save_le p q"
proof (induction fuel arbitrary: d p r q)
  case (Suc fuel)
  have ch: "save_children (save_resolve J src fuel repo) cs p1 = Some (e, q1) \<Longrightarrow> save_le p1 q1" for cs p1 e q1
  proof (induction cs arbitrary: p1)
    case (Cons c cs)
    then show ?case using Suc.IH by (auto split: option.splits prod.splits sum.splits) (blast intro: save_le_trans)+
  qed simp
  show ?case
  proof (cases "known_manifest p d")
    case None
    then have "save_le p (foldl add_blob_item (put_manifest_item d body m p) bds)" for body m bds
      using put_manifest_item_le add_blob_items_le save_le_trans by (metis known_manifest_iff)
    then show ?thesis
      using Suc.prems None ch unfolding save_resolve_Suc
      by (auto split: sum.splits option.splits prod.splits) (blast intro: save_le_trans)+
  qed (use Suc.prems in \<open>simp add: save_resolve_Suc\<close>)
qed simp

section \<open>Resolving ends\<close>

text \<open>A set of digests closed under the children that the manifests of a repository list.\<close>

definition source_closed :: "da_json \<Rightarrow> Source \<Rightarrow> string \<Rightarrow> digest set \<Rightarrow> bool" where
  "source_closed J src repo S \<longleftrightarrow>
     (\<forall>d \<in> S. \<forall>body m. so_Manifest src repo d = Inr body \<longrightarrow> ParseManifest (dj_manifest J) body = Inr m \<longrightarrow>
        d_Digest ` set (ManifestChildren m) \<subseteq> S)"

lemma save_children_total:
  assumes "\<And>d p. d \<in> S \<Longrightarrow> card (S - manifested p) < fuel \<Longrightarrow> save_resolve J src fuel repo d p \<noteq> None"
    and "finite S"
  shows "d_Digest ` set cs \<subseteq> S \<Longrightarrow> card (S - manifested p) < fuel \<Longrightarrow>
    save_children (save_resolve J src fuel repo) cs p \<noteq> None"
proof (induction cs arbitrary: p)
  case (Cons c cs)
  obtain r q where q: "save_resolve J src fuel repo (d_Digest c) p = Some (r, q)"
    using assms(1) [of "d_Digest c" p] Cons.prems by fastforce
  have "card (S - manifested q) \<le> card (S - manifested p)"
    using save_le_manifested [OF save_resolve_le [OF q]] assms(2) by (intro card_mono) auto
  then have "save_children (save_resolve J src fuel repo) cs q \<noteq> None" using Cons by simp
  with q show ?case by (cases r) auto
qed simp

lemma save_resolve_total:
  assumes "source_closed J src repo S" "finite S"
  shows "d \<in> S \<Longrightarrow> card (S - manifested p) < fuel \<Longrightarrow> save_resolve J src fuel repo d p \<noteq> None"
proof (induction fuel arbitrary: d p)
  case (Suc fuel)
  have "save_children (save_resolve J src fuel repo) (ManifestChildren m)
      (foldl add_blob_item (put_manifest_item d body m p) (BlobDescriptors m)) \<noteq> None"
    if k: "known_manifest p d = None" and b: "so_Manifest src repo d = Inr body" "ParseManifest (dj_manifest J) body = Inr m" for body m
  proof (rule save_children_total [OF Suc.IH assms(2)])
    let ?q = "foldl add_blob_item (put_manifest_item d body m p) (BlobDescriptors m)"
    show "d_Digest ` set (ManifestChildren m) \<subseteq> S" using assms(1) Suc.prems(1) b unfolding source_closed_def by blast
    have "d \<in> manifested (put_manifest_item d body m p)" by (simp add: manifested_def)
    then have "d \<in> manifested ?q" using save_le_manifested [OF add_blob_items_le] by blast
    moreover have dn: "d \<notin> manifested p" using k by (simp add: known_manifest_iff)
    moreover have "manifested p \<subseteq> manifested ?q"
      using save_le_manifested [OF save_le_trans [OF put_manifest_item_le [OF dn] add_blob_items_le]] .
    ultimately have "S - manifested ?q \<subset> S - manifested p" using Suc.prems(1) by blast
    then have "card (S - manifested ?q) < card (S - manifested p)" using assms(2) by (intro psubset_card_mono) auto
    then show "card (S - manifested ?q) < fuel" using Suc.prems(2) by simp
  qed
  then show ?case
    unfolding save_resolve_Suc
    by (cases "known_manifest p d") (fastforce split: option.splits sum.splits)+
qed simp

section \<open>What is collected is closed\<close>

definition item_ok :: "da_json \<Rightarrow> Source \<Rightarrow> digest \<Rightarrow> saveItem \<Rightarrow> bool" where
  "item_ok J src d it \<longleftrightarrow>
     ParseDigest d = Inr d
     \<and> (case si_manifest it of
          None \<Rightarrow> si_body it = None
        | Some m \<Rightarrow> \<exists>repo body. si_body it = Some body \<and> so_Manifest src repo d = Inr body
                     \<and> ParseManifest (dj_manifest J) body = Inr m)"

definition item_closed :: "savePlan \<Rightarrow> Manifest \<Rightarrow> bool" where
  "item_closed p m \<longleftrightarrow>
     d_Digest ` set (ManifestChildren m) \<subseteq> manifested p \<and> (\<forall>bd \<in> set (BlobDescriptors m). item_of p (d_Digest bd) \<noteq> None)"

definition save_inv :: "da_json \<Rightarrow> Source \<Rightarrow> digest set \<Rightarrow> savePlan \<Rightarrow> bool" where
  "save_inv J src X p \<longleftrightarrow>
     distinct (map fst (sp_items p))
     \<and> (\<forall>d it. item_of p d = Some it \<longrightarrow>
          item_ok J src d it \<and> (\<forall>m. si_manifest it = Some m \<longrightarrow> d \<notin> X \<longrightarrow> item_closed p m))"

lemma item_closed_le: "save_le p q \<Longrightarrow> item_closed p m \<Longrightarrow> item_closed q m"
  using save_le_manifested [of p q] save_le_items [of p q] unfolding item_closed_def by (meson order_trans)

lemma ParseManifest_children:
  "ParseManifest u b = Inr m \<Longrightarrow> c \<in> set (ManifestChildren m) \<Longrightarrow> ParseDigest (d_Digest c) = Inr (d_Digest c)"
  using ParseManifest_Inr [of u b m] by (auto simp: validateDescriptor_None)

lemma add_blob_item_inv:
  assumes "save_inv J src X p" "ParseDigest (d_Digest bd) = Inr (d_Digest bd)"
  shows "save_inv J src X (add_blob_item p bd)" "item_of (add_blob_item p bd) (d_Digest bd) \<noteq> None"
proof -
  have "distinct (map fst (sp_items (add_blob_item p bd)))"
    using assms(1) by (simp add: save_inv_def add_blob_item_def distinct_update)
  moreover have "item_closed p m \<Longrightarrow> item_closed (add_blob_item p bd) m" for m
    by (rule item_closed_le [OF add_blob_item_le])
  ultimately show "save_inv J src X (add_blob_item p bd)"
    using assms unfolding save_inv_def item_of_blob by (auto simp: item_ok_def split: if_splits)
  show "item_of (add_blob_item p bd) (d_Digest bd) \<noteq> None" by (auto simp: item_of_blob)
qed

lemma add_blob_items_inv:
  assumes "save_inv J src X p" "\<And>bd. bd \<in> set bds \<Longrightarrow> ParseDigest (d_Digest bd) = Inr (d_Digest bd)"
  shows "save_inv J src X (foldl add_blob_item p bds)
    \<and> (\<forall>bd \<in> set bds. item_of (foldl add_blob_item p bds) (d_Digest bd) \<noteq> None)"
  using assms
proof (induction bds arbitrary: p)
  case (Cons bd bds)
  note a = add_blob_item_inv [OF Cons.prems(1), of bd]
  have "item_of (foldl add_blob_item (add_blob_item p bd) bds) (d_Digest bd) \<noteq> None"
    by (rule save_le_items [OF add_blob_items_le]) (use a Cons.prems(2) in simp)
  then show ?case using Cons.IH [of "add_blob_item p bd"] Cons.prems(2) a by simp
qed simp

lemma put_manifest_item_inv:
  assumes "save_inv J src X p" "d \<notin> manifested p" "ParseDigest d = Inr d"
    and "so_Manifest src repo d = Inr body" "ParseManifest (dj_manifest J) body = Inr m"
  shows "save_inv J src (insert d X) (put_manifest_item d body m p)"
proof -
  have "item_closed p m' \<Longrightarrow> item_closed (put_manifest_item d body m p) m'" for m'
    by (rule item_closed_le [OF put_manifest_item_le [OF assms(2)]])
  moreover have "distinct (map fst (sp_items (put_manifest_item d body m p)))"
    using assms(1) by (simp add: save_inv_def put_manifest_item_def distinct_update)
  moreover have "item_ok J src d \<lparr>si_size = int (length body), si_body = Some body, si_manifest = Some m\<rparr>"
    using assms(3-5) by (auto simp: item_ok_def)
  ultimately show ?thesis using assms(1) unfolding save_inv_def by auto
qed

text \<open>A child loop keeps what each call keeps, and leaves every child read.\<close>

lemma save_children_inv:
  assumes "\<And>d p r q. save_resolve J src fuel repo d p = Some (Inr r, q) \<Longrightarrow> save_inv J src X p \<Longrightarrow> ParseDigest d = Inr d \<Longrightarrow>
      save_inv J src X q \<and> d \<in> manifested q"
    and "save_children (save_resolve J src fuel repo) cs p = Some (None, q)" "save_inv J src X p"
    and "\<And>c. c \<in> set cs \<Longrightarrow> ParseDigest (d_Digest c) = Inr (d_Digest c)"
  shows "save_inv J src X q \<and> d_Digest ` set cs \<subseteq> manifested q \<and> save_le p q"
  using assms(2-4)
proof (induction cs arbitrary: p)
  case (Cons c cs)
  then obtain r p1 where r: "save_resolve J src fuel repo (d_Digest c) p = Some (Inr r, p1)"
    "save_children (save_resolve J src fuel repo) cs p1 = Some (None, q)"
    by (auto split: option.splits prod.splits sum.splits)
  have p1: "save_inv J src X p1" "d_Digest c \<in> manifested p1" using assms(1) [OF r(1)] Cons.prems by auto
  have "save_inv J src X q \<and> d_Digest ` set cs \<subseteq> manifested q \<and> save_le p1 q"
    by (rule Cons.IH [OF r(2) p1(1)]) (use Cons.prems(3) in simp)
  then show ?case using p1(2) save_le_manifested [of p1 q] save_le_trans [OF save_resolve_le [OF r(1)]] by auto
qed simp

lemma save_resolve_inv:
  "save_resolve J src fuel repo d p = Some (Inr r, q) \<Longrightarrow> save_inv J src X p \<Longrightarrow> ParseDigest d = Inr d \<Longrightarrow>
   save_inv J src X q \<and> d \<in> manifested q"
proof (induction fuel arbitrary: d p r q X)
  case (Suc fuel)
  show ?case
  proof (cases "known_manifest p d")
    case (Some mb)
    then have "q = p" "d \<in> manifested p"
      using Suc.prems(1) known_manifest_iff [of p d] by (auto simp: save_resolve_Suc)
    with Suc.prems show ?thesis by simp
  next
    case None
    then have dn: "d \<notin> manifested p" by (simp add: known_manifest_iff)
    obtain body m where b: "so_Manifest src repo d = Inr body" "ParseManifest (dj_manifest J) body = Inr m"
      and ch: "save_children (save_resolve J src fuel repo) (ManifestChildren m)
        (foldl add_blob_item (put_manifest_item d body m p) (BlobDescriptors m)) = Some (None, q)"
      using Suc.prems(1) None unfolding save_resolve_Suc by (auto split: sum.splits option.splits prod.splits)
    let ?p1 = "put_manifest_item d body m p"
    let ?p2 = "foldl add_blob_item ?p1 (BlobDescriptors m)"
    have p2: "save_inv J src (insert d X) ?p2" "\<forall>bd \<in> set (BlobDescriptors m). item_of ?p2 (d_Digest bd) \<noteq> None"
      using add_blob_items_inv [OF put_manifest_item_inv [OF Suc.prems(2) dn Suc.prems(3) b], of "BlobDescriptors m"]
        ParseManifest_blobs [OF b(2)] by auto
    have q: "save_inv J src (insert d X) q" "d_Digest ` set (ManifestChildren m) \<subseteq> manifested q" "save_le ?p2 q"
      using save_children_inv [OF Suc.IH ch p2(1) ParseManifest_children [OF b(2)]] by auto
    have "item_closed q m" using q(2) p2(2) save_le_items [OF q(3)] by (simp add: item_closed_def)
    moreover have it: "item_of q d = Some \<lparr>si_size = int (length body), si_body = Some body, si_manifest = Some m\<rparr>"
      by (rule save_leD [OF save_le_trans [OF add_blob_items_le q(3)]]) simp_all
    ultimately have "save_inv J src X q" using q(1) unfolding save_inv_def by fastforce
    then show ?thesis using it by (auto simp: manifested_def)
  qed
qed simp

text \<open>Resolving leaves the index and the legacy entries alone.\<close>

lemma add_blob_items_index:
  "sp_index (foldl add_blob_item p bds) = sp_index p \<and> sp_legacy (foldl add_blob_item p bds) = sp_legacy p"
  by (induction bds arbitrary: p) (simp_all add: add_blob_item_def)

lemma save_resolve_index:
  "save_resolve J src fuel repo d p = Some (r, q) \<Longrightarrow> sp_index q = sp_index p \<and> sp_legacy q = sp_legacy p"
proof (induction fuel arbitrary: d p r q)
  case (Suc fuel)
  have ch: "save_children (save_resolve J src fuel repo) cs p1 = Some (e, q1) \<Longrightarrow>
      sp_index q1 = sp_index p1 \<and> sp_legacy q1 = sp_legacy p1" for cs p1 e q1
  proof (induction cs arbitrary: p1)
    case (Cons c cs)
    then show ?case using Suc.IH by (fastforce split: option.splits prod.splits sum.splits)
  qed simp
  have "sp_index (foldl add_blob_item (put_manifest_item d body m p) bds) = sp_index p
      \<and> sp_legacy (foldl add_blob_item (put_manifest_item d body m p) bds) = sp_legacy p" for body m bds
    by (simp add: add_blob_items_index put_manifest_item_def)
  then show ?case
    using Suc.prems ch unfolding save_resolve_Suc
    by (auto split: sum.splits option.splits prod.splits)
qed simp

end
