(* ===== verification/Docker_Save.thy ===== *)
theory Docker_Save
  imports Docker_Write
begin

text \<open>
  A saved archive reads back: what Write writes, laid out by archive/tar and scanned again, holds every
  manifest, config and layer under the exported images and is complete, so that importing it publishes
  what was saved.
\<close>

section \<open>The plan of a save\<close>

lemma save_inv_cong: "sp_items p = sp_items q \<Longrightarrow> save_inv J src X p = save_inv J src X q"
  by (simp add: save_inv_def item_closed_def manifested_def)

lemma legacy_child_inv:
  assumes "legacy_child (save_resolve J src fuel repo) cs p = Some (Inr found, q)" "save_inv J src X p"
    and "\<And>c. c \<in> set cs \<Longrightarrow> ParseDigest (d_Digest c) = Inr (d_Digest c)"
  shows "save_inv J src X q \<and> save_le p q \<and> sp_index q = sp_index p"
  using assms
proof (induction cs arbitrary: p)
  case (Cons c cs)
  then obtain cm b p1 where r: "save_resolve J src fuel repo (d_Digest c) p = Some (Inr (cm, b), p1)"
    "q = p1 \<or> legacy_child (save_resolve J src fuel repo) cs p1 = Some (Inr found, q)"
    by (auto split: option.splits prod.splits sum.splits if_splits)
  have p1: "save_inv J src X p1" using save_resolve_inv [OF r(1) Cons.prems(2)] Cons.prems(3) by simp
  have "q = p1 \<or> save_inv J src X q \<and> save_le p1 q \<and> sp_index q = sp_index p1"
    using r(2) Cons.IH [OF _ p1] Cons.prems(3) by auto
  then show ?case using p1 save_resolve_le [OF r(1)] save_resolve_index [OF r(1)] save_le_trans by auto
qed simp

lemma legacy_child_index:
  "legacy_child (save_resolve J src fuel repo) cs p = Some (r, q) \<Longrightarrow> sp_index q = sp_index p"
proof (induction cs arbitrary: p)
  case (Cons c cs)
  then show ?case using save_resolve_index by (fastforce split: option.splits prod.splits sum.splits if_splits)
qed simp

lemma legacyCandidates_set: "set (legacyCandidates m platform) \<subseteq> set (ManifestChildren m)"
  by (auto simp: legacyCandidates_def Let_def)

lemma add_legacy_items: "sp_items (add_legacy img found p) = sp_items p" "sp_index (add_legacy img found p) = sp_index p"
  by (auto simp: add_legacy_def Let_def split: option.splits prod.splits)

lemma known_parse:
  assumes "save_resolve J src fuel repo d p = Some (Inr (m, body), q)" "save_inv J src X p"
  shows "\<exists>b. ParseManifest (dj_manifest J) b = Inr m"
proof (cases fuel)
  case (Suc n)
  show ?thesis
  proof (cases "known_manifest p d")
    case (Some mb)
    then obtain it where "item_of p d = Some it" "si_manifest it = Some m"
      using assms(1) Suc by (auto simp: save_resolve_Suc known_manifest_def split: option.splits)
    then show ?thesis using assms(2) by (fastforce simp: save_inv_def item_ok_def)
  next
    case None
    then show ?thesis
      using assms(1) Suc by (auto simp: save_resolve_Suc split: sum.splits option.splits prod.splits)
  qed
qed (use assms in simp)

lemma save_add_inv:
  assumes "save_add J src fuel platform p img = Some (None, q)" "save_inv J src {} p"
    and "ParseDigest (ex_Digest img) = Inr (ex_Digest img)"
  shows "save_inv J src {} q \<and> save_le p q \<and> map d_Digest (sp_index q) = map d_Digest (sp_index p) @ [ex_Digest img]
    \<and> ex_Digest img \<in> manifested q"
proof -
  obtain m body p1 where r: "save_resolve J src fuel (ex_Repo img) (ex_Digest img) p = Some (Inr (m, body), p1)"
    using assms(1) by (auto simp: save_add_def split: option.splits prod.splits sum.splits)
  let ?p2 = "p1\<lparr>sp_index := sp_index p1 @ [export_desc img body]\<rparr>"
  have p1: "save_inv J src {} p1" "ex_Digest img \<in> manifested p1" "save_le p p1" "sp_index p1 = sp_index p"
    using save_resolve_inv [OF r assms(2,3)] save_resolve_le [OF r] save_resolve_index [OF r] by auto
  have p2: "save_inv J src {} ?p2" "save_le p ?p2" "ex_Digest img \<in> manifested ?p2"
    "map d_Digest (sp_index ?p2) = map d_Digest (sp_index p) @ [ex_Digest img]"
  proof -
    have i: "sp_items ?p2 = sp_items p1" by simp
    show "save_inv J src {} ?p2" "save_le p ?p2" "ex_Digest img \<in> manifested ?p2"
      using p1 save_inv_cong [OF i] save_le_cong [OF refl i] by (simp_all add: manifested_def)
    show "map d_Digest (sp_index ?p2) = map d_Digest (sp_index p) @ [ex_Digest img]"
      using p1(4) by (simp add: export_desc_def)
  qed
  obtain found p3 where f: "q = add_legacy img found p3" "save_inv J src {} p3 \<and> save_le ?p2 p3 \<and> sp_index p3 = sp_index ?p2"
  proof (cases "IsIndex m")
    case False
    then show ?thesis using assms(1) r p2(1) by (intro that [of "Some (ex_Digest img, m)" ?p2]) (simp_all add: save_add_def)
  next
    case True
    then obtain found p3 where c: "legacy_child (save_resolve J src fuel (ex_Repo img)) (legacyCandidates m platform) ?p2 = Some (Inr found, p3)"
      "q = add_legacy img found p3"
      using assms(1) r by (auto simp: save_add_def Let_def split: option.splits prod.splits sum.splits)
    obtain b where "ParseManifest (dj_manifest J) b = Inr m" using known_parse [OF r assms(2)] by blast
    then have "ParseDigest (d_Digest c) = Inr (d_Digest c)" if "c \<in> set (legacyCandidates m platform)" for c
      using ParseManifest_children that legacyCandidates_set by blast
    from legacy_child_inv [OF c(1) p2(1) this] c(2) that show ?thesis by blast
  qed
  have i: "sp_items q = sp_items p3" by (simp add: f(1) add_legacy_items)
  then have "save_inv J src {} q" "save_le ?p2 q"
    using f(2) save_inv_cong [OF i] save_le_cong [OF refl i] by blast+
  then show ?thesis
    using p2 f save_le_trans [of p ?p2 q] save_le_manifested [of ?p2 q] by (auto simp: add_legacy_items)
qed

lemma save_adds_inv:
  assumes "save_adds J src fuel platform p imgs = Some (None, q)" "save_inv J src {} p"
    and "\<And>img. img \<in> set imgs \<Longrightarrow> ParseDigest (ex_Digest img) = Inr (ex_Digest img)"
  shows "save_inv J src {} q \<and> save_le p q \<and> map d_Digest (sp_index q) = map d_Digest (sp_index p) @ map ex_Digest imgs
    \<and> ex_Digest ` set imgs \<subseteq> manifested q"
  using assms
proof (induction imgs arbitrary: p)
  case (Cons img imgs)
  then obtain p1 where p1: "save_add J src fuel platform p img = Some (None, p1)" "save_adds J src fuel platform p1 imgs = Some (None, q)"
    by (auto split: option.splits prod.splits)
  note a = save_add_inv [OF p1(1) Cons.prems(2)]
  have "save_inv J src {} q \<and> save_le p1 q \<and> map d_Digest (sp_index q) = map d_Digest (sp_index p1) @ map ex_Digest imgs
    \<and> ex_Digest ` set imgs \<subseteq> manifested q"
    by (rule Cons.IH [OF p1(2)]) (use a Cons.prems(3) in auto)
  then show ?case using a Cons.prems(3) save_le_trans save_le_manifested [of p1 q] by auto
qed simp

lemma save_start_inv: "save_inv J src X save_start"
  by (simp add: save_inv_def save_start_def)

section \<open>The entries of the archive\<close>

definition item_data :: "(digest \<Rightarrow> err + bytes) \<Rightarrow> digest \<times> saveItem \<Rightarrow> bytes" where
  "item_data staged x =
     (case si_body (snd x) of Some b \<Rightarrow> b | None \<Rightarrow> (case staged (fst x) of Inr b \<Rightarrow> b | Inl _ \<Rightarrow> []))"

lemma put_entry_Inr: "put_entry tw e out = Inr out' \<Longrightarrow> out' = out @ [e]"
  by (auto simp: put_entry_def split: option.splits if_splits)

lemma write_items_None:
  "write_items tw staged its out = (None, out') \<Longrightarrow>
   out' = out @ map (\<lambda>x. file_entry (blobPath (fst x)) 292 (item_data staged x)) its
   \<and> (\<forall>x \<in> set its. si_body (snd x) = None \<longrightarrow> (\<exists>b. staged (fst x) = Inr b \<and> int (length b) = si_size (snd x)))"
proof (induction its arbitrary: out)
  case (Cons x its)
  obtain d it where x: "x = (d, it)" by (cases x)
  have ok: "\<exists>o1. put_entry tw (file_entry (blobPath d) 292 (item_data staged x)) out = Inr o1 \<and> write_items tw staged its o1 = (None, out')"
    "si_body it = None \<longrightarrow> (\<exists>b. staged d = Inr b \<and> int (length b) = si_size it)"
    using Cons.prems by (auto simp: x item_data_def split: option.splits sum.splits if_splits)
  then obtain o1 where o1: "o1 = out @ [file_entry (blobPath d) 292 (item_data staged x)]" "write_items tw staged its o1 = (None, out')"
    using put_entry_Inr by blast
  show ?case using Cons.IH [OF o1(2)] o1(1) ok(2) by (simp add: x)
qed simp

lemma write_tops_None:
  "write_tops tw tops out = (None, out') \<Longrightarrow>
   out' = out @ map (\<lambda>(name, mode, data). file_entry name mode (the data)) tops \<and> (\<forall>(name, mode, data) \<in> set tops. data \<noteq> None)"
proof (induction tops arbitrary: out)
  case (Cons x tops)
  then show ?case using put_entry_Inr by (cases x) (fastforce split: option.splits sum.splits)
qed (auto split: option.splits)

lemma writeTo_None:
  assumes "writeTo enc tw mk staged p = (None, out)"
  shows "out = [dir_entry ''blobs/'', dir_entry ''blobs/sha256/'']
      @ map (\<lambda>x. file_entry (blobPath (fst x)) 292 (item_data staged x)) (sorted_items p)
      @ map (\<lambda>(name, mode, data). file_entry name mode (the data)) (top_files enc p)"
    "\<forall>(name, mode, data) \<in> set (top_files enc p). data \<noteq> None"
    "\<forall>x \<in> set (sorted_items p). si_body (snd x) = None \<longrightarrow> (\<exists>b. staged (fst x) = Inr b \<and> int (length b) = si_size (snd x))"
proof -
  obtain o1 o2 o3 where o: "put_entry tw (dir_entry ''blobs/'') [] = Inr o1" "put_entry tw (dir_entry ''blobs/sha256/'') o1 = Inr o2"
    "write_items tw staged (sorted_items p) o2 = (None, o3)" "write_tops tw (top_files enc p) o3 = (None, out)"
    using assms by (auto simp: writeTo_def split: sum.splits option.splits prod.splits)
  note d = put_entry_Inr [OF o(1)] put_entry_Inr [OF o(2)] and i = write_items_None [OF o(3)] and t = write_tops_None [OF o(4)]
  show "out = [dir_entry ''blobs/'', dir_entry ''blobs/sha256/'']
      @ map (\<lambda>x. file_entry (blobPath (fst x)) 292 (item_data staged x)) (sorted_items p)
      @ map (\<lambda>(name, mode, data). file_entry name mode (the data)) (top_files enc p)"
    using d i t by simp
  show "\<forall>(name, mode, data) \<in> set (top_files enc p). data \<noteq> None" using t by blast
  show "\<forall>x \<in> set (sorted_items p). si_body (snd x) = None \<longrightarrow> (\<exists>b. staged (fst x) = Inr b \<and> int (length b) = si_size (snd x))"
    using i by blast
qed

section \<open>The file archive/tar makes of them\<close>

text \<open>
  A tar archive: every entry is a header of one block, its content, and zeros up to the next block; two
  zero blocks end it. \<open>hdr\<close> is the encoding of a header. Reading it again, Next gives the headers in
  order and leaves the file at the content.
\<close>

definition tar_pad :: "nat \<Rightarrow> bytes" where
  "tar_pad n = replicate ((512 - n mod 512) mod 512) (char_of (0::nat))"

definition tar_entry :: "(out_entry \<Rightarrow> bytes) \<Rightarrow> out_entry \<Rightarrow> bytes" where
  "tar_entry hdr e = hdr e @ oe_Data e @ tar_pad (length (oe_Data e))"

definition tar_file :: "(out_entry \<Rightarrow> bytes) \<Rightarrow> out_entry list \<Rightarrow> da_file" where
  "tar_file hdr es = \<lparr>fi_bytes = concat (map (tar_entry hdr) es) @ replicate 1024 (char_of (0::nat)), fi_bad = None\<rparr>"

definition tar_next :: "nat \<Rightarrow> out_entry \<Rightarrow> tar_item" where
  "tar_next off e =
     \<lparr>ti_Typeflag = oe_Typeflag e, ti_Name = oe_Name e, ti_Size = length (oe_Data e), ti_content = (oe_Data e, None),
      ti_seek = Inr (off + 512)\<rparr>"

fun tar_items :: "nat \<Rightarrow> out_entry list \<Rightarrow> tar_item list" where
  "tar_items off [] = []"
| "tar_items off (e # es) =
     tar_next off e # tar_items (off + 512 + length (oe_Data e) + length (tar_pad (length (oe_Data e)))) es"

lemma tar_items_located:
  assumes "\<And>e. length (hdr e) = 512"
  shows "fi_bytes f = pre @ concat (map (tar_entry hdr) es) @ post \<Longrightarrow> length pre = off \<Longrightarrow>
    list_all (located f) (tar_items off es)"
proof (induction es arbitrary: pre off)
  case (Cons e es)
  have "located f (tar_next off e)"
    using Cons.prems assms by (simp add: located_def tar_next_def tar_entry_def)
  moreover have "list_all (located f) (tar_items (off + 512 + length (oe_Data e) + length (tar_pad (length (oe_Data e)))) es)"
    by (rule Cons.IH [of "pre @ tar_entry hdr e"]) (use Cons.prems assms in \<open>simp_all add: tar_entry_def\<close>)
  ultimately show ?case by simp
qed simp

lemma tar_file_located: "(\<And>e. length (hdr e) = 512) \<Longrightarrow> list_all (located (tar_file hdr es)) (tar_items 0 es)"
  by (rule tar_items_located [of hdr _ "[]"]) (simp_all add: tar_file_def)

lemma tar_items_mem: "h \<in> set (tar_items off es) \<Longrightarrow> \<exists>e \<in> set es. \<exists>o'. h = tar_next o' e"
  by (induction es arbitrary: off) auto

lemma tar_items_has: "e \<in> set es \<Longrightarrow> \<exists>o'. tar_next o' e \<in> set (tar_items off es)"
proof (induction es arbitrary: off)
  case (Cons x es)
  show ?case
  proof (cases "e = x")
    case False
    then obtain o' where "tar_next o' e \<in> set (tar_items (off + 512 + length (oe_Data x) + length (tar_pad (length (oe_Data x)))) es)"
      using Cons by fastforce
    then show ?thesis by auto
  qed auto
qed simp

section \<open>Scanning it again\<close>

lemma blobPath_digest:
  assumes "ParseDigest d = Inr d"
  shows "TrimPrefix (blobPath d) ''./'' = blobPath d" "''sha256:'' @ drop (length blobPrefix) (blobPath d) = d"
proof -
  show "TrimPrefix (blobPath d) ''./'' = blobPath d"
    by (simp add: blobPath_def blobPrefix_def TrimPrefix_def CutPrefix_def)
  obtain h where "d = ''sha256:'' @ h" using assms by (auto simp: ParseDigest_Inr_iff)
  then show "''sha256:'' @ drop (length blobPrefix) (blobPath d) = d"
    by (simp add: blobPath_def Hex_def)
qed

lemma blob_entry_digest:
  "ParseDigest d = Inr d \<Longrightarrow> item_blob (tar_next off (file_entry (blobPath d) mode data)) = Some d"
  using blobPath_digest [of d] by (simp add: item_blob_def tar_next_def file_entry_def) (simp add: blobPath_def)

lemma scan_blob_entry:
  assumes "ParseDigest d = Inr d"
  shows "\<exists>bl. scan_item (tar_next off (file_entry (blobPath d) mode data)) s = Inr (s\<lparr>sc_blobs := bl\<rparr>)"
proof -
  have "blobPath d \<noteq> IndexFile" "blobPath d \<noteq> ManifestFile" "blobPath d \<noteq> LayoutFile" "prefix blobPrefix (blobPath d)"
    by (simp_all add: blobPath_def blobPrefix_def IndexFile_def ManifestFile_def LayoutFile_def)
  then show ?thesis
    using blobPath_digest [OF assms] assms by (auto simp: scan_item_def tar_next_def file_entry_def)
qed

lemma scan_blob_entries:
  "list_all (\<lambda>x. ParseDigest (fst x) = Inr (fst x)) its \<Longrightarrow>
   \<exists>off' bl. scan_loop (tar_items off (map (\<lambda>x. file_entry (blobPath (fst x)) mode (data x)) its @ es)) fin s =
     scan_loop (tar_items off' es) fin (s\<lparr>sc_blobs := bl\<rparr>)"
proof (induction its arbitrary: off s)
  case Nil
  show ?case by (rule exI [of _ off], rule exI [of _ "sc_blobs s"]) simp
next
  case (Cons x its)
  let ?e = "file_entry (blobPath (fst x)) mode (data x)"
  obtain bl where bl: "scan_item (tar_next off ?e) s = Inr (s\<lparr>sc_blobs := bl\<rparr>)"
    using scan_blob_entry Cons.prems by fastforce
  obtain off' bl' where "scan_loop (tar_items (off + 512 + length (oe_Data ?e) + length (tar_pad (length (oe_Data ?e))))
      (map (\<lambda>x. file_entry (blobPath (fst x)) mode (data x)) its @ es)) fin (s\<lparr>sc_blobs := bl\<rparr>) =
      scan_loop (tar_items off' es) fin (s\<lparr>sc_blobs := bl\<rparr>\<lparr>sc_blobs := bl'\<rparr>)"
    using Cons.IH [of "off + 512 + length (oe_Data ?e) + length (tar_pad (length (oe_Data ?e)))" "s\<lparr>sc_blobs := bl\<rparr>"] Cons.prems by auto
  then show ?case using bl by auto
qed

lemma scan_dir_entry: "scan_item (tar_next off (dir_entry name)) s = Inr s"
  by (simp add: scan_item_def tar_next_def dir_entry_def)

lemma scan_top_entry:
  assumes "length b \<le> maxTopFile"
  shows "scan_item (tar_next off (file_entry IndexFile mode b)) s = Inr (s\<lparr>sc_index := Some b\<rparr>)"
    "scan_item (tar_next off (file_entry ManifestFile mode b)) s = Inr (s\<lparr>sc_legacy := Some b\<rparr>)"
    "scan_item (tar_next off (file_entry LayoutFile mode b)) s = Inr (s\<lparr>sc_layout := Some b\<rparr>)"
  using assms
  by (simp_all add: scan_item_def tar_next_def file_entry_def readTop_def IndexFile_def ManifestFile_def LayoutFile_def
      TrimPrefix_def CutPrefix_def)

lemma top_entry_no_blob:
  "name \<in> {IndexFile, ManifestFile, LayoutFile} \<Longrightarrow> item_blob (tar_next off (file_entry name mode b)) = None"
  "item_blob (tar_next off (dir_entry name')) = None"
  by (auto simp: item_blob_def tar_next_def file_entry_def dir_entry_def IndexFile_def ManifestFile_def LayoutFile_def
      TrimPrefix_def CutPrefix_def blobPrefix_def)

text \<open>
  What encoding/json promises of the three documents of a plan: they decode to what was encoded; and
  that they stay within what a scan is willing to load.
\<close>

definition enc_ok :: "da_json \<Rightarrow> save_enc \<Rightarrow> savePlan \<Rightarrow> bool" where
  "enc_ok J enc p \<longleftrightarrow>
     (\<forall>b. en_index enc (index_manifest p) = Some b \<longrightarrow> dj_manifest J b = Some (index_manifest p) \<and> length b \<le> maxTopFile)
     \<and> (\<forall>b. en_legacy enc (map snd (sp_legacy p)) = Some b \<longrightarrow>
          dj_legacy J b = Some (map snd (sp_legacy p)) \<and> length b \<le> maxTopFile)
     \<and> dj_layout J (en_layout enc layoutVersion) = Some layoutVersion \<and> length (en_layout enc layoutVersion) \<le> maxTopFile"

lemma index_manifest_parses:
  assumes "dj_manifest J b = Some (index_manifest p)" "\<And>c. c \<in> set (sp_index p) \<Longrightarrow> validateDescriptor c = None"
  shows "ParseManifest (dj_manifest J) b = Inr (index_manifest p)" "IsIndex (index_manifest p)"
    "ManifestChildren (index_manifest p) = sp_index p"
proof -
  have c: "ManifestChildren (index_manifest p) = sp_index p" by (simp add: index_manifest_def ManifestChildren_def)
  then show "ManifestChildren (index_manifest p) = sp_index p" .
  have "m_SchemaVersion (index_manifest p) = 2" "m_Config (index_manifest p) = None" "m_Layers (index_manifest p) = []"
    "m_Subject (index_manifest p) = None"
    by (simp_all add: index_manifest_def)
  moreover have "validateAll (sp_index p) = None" using assms(2) by (simp add: validateAll_None)
  ultimately show "ParseManifest (dj_manifest J) b = Inr (index_manifest p)"
    using assms(1) by (simp add: ParseManifest_def c opt_list_def)
  show "IsIndex (index_manifest p)" by (simp add: index_manifest_def IsIndex_def)
qed

lemma scan_tops:
  assumes "\<forall>(name, mode, data) \<in> set (top_files enc p). data \<noteq> None" "enc_ok J enc p"
  obtains ib s' where "en_index enc (index_manifest p) = Some ib"
    "scan_loop (tar_items off (map (\<lambda>(name, mode, data). file_entry name mode (the data)) (top_files enc p))) None s = Inr s'"
    "sc_index s' = Some ib" "sc_layout s' = Some (en_layout enc layoutVersion)"
    "sp_legacy p = [] \<Longrightarrow> sc_legacy s' = sc_legacy s"
    "sp_legacy p \<noteq> [] \<Longrightarrow> \<exists>lb. sc_legacy s' = Some lb \<and> en_legacy enc (map snd (sp_legacy p)) = Some lb"
proof -
  obtain ib where ib: "en_index enc (index_manifest p) = Some ib" using assms(1) by (auto simp: top_files_def)
  have len: "length ib \<le> maxTopFile" "length (en_layout enc layoutVersion) \<le> maxTopFile"
    using assms(2) ib by (simp_all add: enc_ok_def)
  show thesis
  proof (cases "sp_legacy p = []")
    case True
    then show ?thesis
      using ib len
      by (intro that [OF ib, of "s\<lparr>sc_index := Some ib, sc_layout := Some (en_layout enc layoutVersion)\<rparr>"])
         (simp_all add: top_files_def scan_top_entry)
  next
    case False
    then obtain lb where lb: "en_legacy enc (map snd (sp_legacy p)) = Some lb" using assms(1) by (auto simp: top_files_def)
    then have "length lb \<le> maxTopFile" using assms(2) by (simp add: enc_ok_def)
    then show ?thesis
      using ib len False lb
      by (intro that [OF ib, of "s\<lparr>sc_index := Some ib, sc_legacy := Some lb, sc_layout := Some (en_layout enc layoutVersion)\<rparr>"])
         (simp_all add: top_files_def scan_top_entry)
  qed
qed

definition digests_ok :: "savePlan \<Rightarrow> bool" where
  "digests_ok p \<longleftrightarrow> (\<forall>d it. item_of p d = Some it \<longrightarrow> ParseDigest d = Inr d)"

lemma sorted_items_mem: "x \<in> set (sorted_items p) \<longleftrightarrow> item_of p (fst x) = Some (snd x)"
proof -
  have keys: "fst x \<in> set (map fst (sp_items p)) \<longleftrightarrow> (\<exists>it. item_of p (fst x) = Some it)"
    unfolding set_map by (metis map_of_eq_None_iff not_None_eq)
  have mem: "x \<in> set (map (\<lambda>d. (d, f d)) (sort ks)) \<longleftrightarrow> fst x \<in> set ks \<and> snd x = f (fst x)"
    for ks :: "digest list" and f :: "digest \<Rightarrow> saveItem"
    by (cases x) auto
  show ?thesis unfolding sorted_items_def mem keys by auto
qed

lemma saved_scan:
  assumes "writeTo enc tw mk staged p = (None, out)" "enc_ok J enc p"
    and "\<And>c. c \<in> set (sp_index p) \<Longrightarrow> validateDescriptor c = None"
    and "digests_ok p"
  obtains a where "scan J (tar_file hdr out) (tar_items 0 out) None = Inr a" "ar_Index a = index_manifest p"
    "ar_Legacy a = map snd (sp_legacy p)" "ar_LayoutVersion a = layoutVersion"
proof -
  let ?tops = "map (\<lambda>(name, mode, data). file_entry name mode (the data)) (top_files enc p)"
  note w = writeTo_None [OF assms(1)]
  have "list_all (\<lambda>x. ParseDigest (fst x) = Inr (fst x)) (sorted_items p)"
    using assms(4) by (auto simp: list_all_iff sorted_items_mem digests_ok_def)
  note blobs = scan_blob_entries [OF this, of _ 292 "item_data staged" ?tops None scan_start]
  have "\<exists>off. scan_loop (tar_items 0 out) None scan_start =
      scan_loop (tar_items off (map (\<lambda>x. file_entry (blobPath (fst x)) 292 (item_data staged x)) (sorted_items p) @ ?tops)) None scan_start"
    unfolding w(1) by (simp add: scan_dir_entry) (rule exI, rule refl)
  then obtain off0 where o: "scan_loop (tar_items 0 out) None scan_start =
      scan_loop (tar_items off0 (map (\<lambda>x. file_entry (blobPath (fst x)) 292 (item_data staged x)) (sorted_items p) @ ?tops)) None scan_start"
    by (rule exE)
  from blobs [of off0] obtain off bl where s: "scan_loop (tar_items 0 out) None scan_start =
      scan_loop (tar_items off ?tops) None (scan_start\<lparr>sc_blobs := bl\<rparr>)"
    unfolding o by (elim exE)
  obtain ib s' where t: "en_index enc (index_manifest p) = Some ib" "scan_loop (tar_items 0 out) None scan_start = Inr s'"
    "sc_index s' = Some ib" "sc_layout s' = Some (en_layout enc layoutVersion)"
    "sp_legacy p = [] \<Longrightarrow> sc_legacy s' = None"
    "sp_legacy p \<noteq> [] \<Longrightarrow> \<exists>lb. sc_legacy s' = Some lb \<and> en_legacy enc (map snd (sp_legacy p)) = Some lb"
    unfolding s by (rule scan_tops [OF w(2) assms(2), of off "scan_start\<lparr>sc_blobs := bl\<rparr>"]) (auto simp: scan_start_def)
  have j: "dj_manifest J ib = Some (index_manifest p)" "dj_layout J (en_layout enc layoutVersion) = Some layoutVersion"
    using assms(2) t(1) by (simp_all add: enc_ok_def)
  have "(case sc_legacy s' of None \<Rightarrow> Some [] | Some b \<Rightarrow> dj_legacy J b) = Some (map snd (sp_legacy p))"
    using t(5,6) assms(2) by (cases "sp_legacy p = []") (auto simp: enc_ok_def)
  then show thesis
    using t(2-4) index_manifest_parses(1,2) [OF j(1) assms(3)] j(2)
    by (intro that [of "\<lparr>ar_f = tar_file hdr out, ar_blobs = sc_blobs s', ar_Index = index_manifest p,
          ar_Legacy = map snd (sp_legacy p), ar_LayoutVersion = layoutVersion\<rparr>"]) (simp_all add: scan_def)
qed

text \<open>The blobs of the archive are the items of the plan.\<close>

lemma saved_items:
  assumes "writeTo enc tw mk staged p = (None, out)" "digests_ok p"
  shows "h \<in> set (tar_items 0 out) \<Longrightarrow> item_blob h = Some d \<Longrightarrow>
      \<exists>it. item_of p d = Some it \<and> ti_content h = (item_data staged (d, it), None) \<and> ti_Size h = length (item_data staged (d, it))"
    and "item_of p d = Some it \<Longrightarrow> \<exists>h \<in> set (tar_items 0 out). item_blob h = Some d"
proof -
  note w = writeTo_None [OF assms(1)]
  show "\<exists>it. item_of p d = Some it \<and> ti_content h = (item_data staged (d, it), None) \<and> ti_Size h = length (item_data staged (d, it))"
    if h: "h \<in> set (tar_items 0 out)" "item_blob h = Some d"
  proof -
    obtain e off where e: "e \<in> set out" "h = tar_next off e" using tar_items_mem [OF h(1)] by blast
    have tops: "name \<in> {IndexFile, ManifestFile, LayoutFile}" if "(name, mode, data) \<in> set (top_files enc p)" for name mode data
      using that by (auto simp: top_files_def split: if_splits)
    consider "e = dir_entry ''blobs/'' \<or> e = dir_entry ''blobs/sha256/''"
      | x where "x \<in> set (sorted_items p)" "e = file_entry (blobPath (fst x)) 292 (item_data staged x)"
      | name mode data where "(name, mode, data) \<in> set (top_files enc p)" "e = file_entry name mode (the data)"
      using e(1) unfolding w(1) by auto
    then obtain x where x: "x \<in> set (sorted_items p)" "e = file_entry (blobPath (fst x)) 292 (item_data staged x)"
    proof cases
      case 1
      then show ?thesis using h(2) top_entry_no_blob(2) by (auto simp: e(2))
    next
      case (3 name mode data)
      then show ?thesis using h(2) top_entry_no_blob(1) [OF tops] by (auto simp: e(2))
    qed
    have "item_of p (fst x) = Some (snd x)" using x(1) by (simp add: sorted_items_mem)
    moreover from this have "d = fst x" using h(2) blob_entry_digest assms(2) by (simp add: e(2) x(2) digests_ok_def)
    ultimately show ?thesis by (auto simp: e(2) x(2) tar_next_def file_entry_def)
  qed
  show "\<exists>h \<in> set (tar_items 0 out). item_blob h = Some d" if it: "item_of p d = Some it"
  proof -
    have "file_entry (blobPath d) 292 (item_data staged (d, it)) \<in> set out"
      using it sorted_items_mem [of "(d, it)" p] unfolding w(1) by force
    from tar_items_has [OF this] obtain off
      where "tar_next off (file_entry (blobPath d) 292 (item_data staged (d, it))) \<in> set (tar_items 0 out)" by blast
    moreover have "ParseDigest d = Inr d" using assms(2) it by (auto simp: digests_ok_def)
    ultimately show ?thesis using blob_entry_digest by blast
  qed
qed

lemma saved_sections:
  assumes "writeTo enc tw mk staged p = (None, out)" "digests_ok p"
    and "scan J (tar_file hdr out) (tar_items 0 out) None = Inr a" "\<And>e. length (hdr e) = 512"
  shows "Has a d \<longleftrightarrow> item_of p d \<noteq> None"
    and "item_of p d = Some it \<Longrightarrow>
      \<exists>off. Section a d = Inr (off, length (item_data staged (d, it)))
        \<and> section_all (ar_f a) (off, length (item_data staged (d, it))) = (item_data staged (d, it), None)"
proof -
  note i = saved_items [OF assms(1,2)]
  show "Has a d \<longleftrightarrow> item_of p d \<noteq> None"
  proof
    assume "Has a d"
    then obtain h where "h \<in> set (tar_items 0 out)" "item_blob h = Some d"
      unfolding scan_Has [OF assms(3)] in_these_eq by (auto dest: sym)
    from i(1) [OF this] show "item_of p d \<noteq> None" by auto
  next
    assume "item_of p d \<noteq> None"
    then obtain h where "h \<in> set (tar_items 0 out)" "item_blob h = Some d" using i(2) by blast
    then show "Has a d" unfolding scan_Has [OF assms(3)] in_these_eq by (metis image_eqI)
  qed
  show "\<exists>off. Section a d = Inr (off, length (item_data staged (d, it)))
        \<and> section_all (ar_f a) (off, length (item_data staged (d, it))) = (item_data staged (d, it), None)"
    if it: "item_of p d = Some it"
  proof -
    have "filter (\<lambda>h. item_blob h = Some d) (tar_items 0 out) \<noteq> []" using i(2) [OF it] by (simp add: filter_empty_conv)
    then obtain hs h where hs: "filter (\<lambda>h. item_blob h = Some d) (tar_items 0 out) = hs @ [h]"
      by (metis append_butlast_last_id)
    have "h \<in> set (tar_items 0 out)" "item_blob h = Some d" using arg_cong [OF hs, of set] by auto
    then have h: "ti_content h = (item_data staged (d, it), None)" "ti_Size h = length (item_data staged (d, it))"
      using i(1) it by fastforce+
    show ?thesis
      by (rule scan_section [OF assms(3) _ tar_file_located [OF assms(4)] hs]) (auto simp: tar_file_def h)
  qed
qed

section \<open>The round trip\<close>

text \<open>A source of content: what it hands out under a digest has that digest, and can be read back whole.\<close>

definition source_ok :: "(bytes \<Rightarrow> 256 word) \<Rightarrow> Source \<Rightarrow> bool" where
  "source_ok sha src \<longleftrightarrow>
     (\<forall>repo d body. so_Manifest src repo d = Inr body \<longrightarrow> DigestOfBytes sha body = d \<and> length body \<le> maxSmallBlob)"

lemma saved_plan:
  assumes "save_adds J src fuel platform save_start images = Some (None, p)"
    and "list_all (\<lambda>img. ParseDigest (ex_Digest img) = Inr (ex_Digest img)) images"
  shows "save_inv J src {} p" "digests_ok p" "map d_Digest (sp_index p) = map ex_Digest images"
    "ex_Digest ` set images \<subseteq> manifested p"
proof -
  have a: "save_inv J src {} p \<and> save_le save_start p
      \<and> map d_Digest (sp_index p) = map d_Digest (sp_index save_start) @ map ex_Digest images \<and> ex_Digest ` set images \<subseteq> manifested p"
    by (rule save_adds_inv [OF assms(1) save_start_inv]) (use assms(2) in \<open>auto simp: list_all_iff\<close>)
  then show "save_inv J src {} p" "map d_Digest (sp_index p) = map ex_Digest images" "ex_Digest ` set images \<subseteq> manifested p"
    by (auto simp: save_start_def)
  then show "digests_ok p" by (auto simp: save_inv_def digests_ok_def item_ok_def)
qed

lemma saved_index_valid:
  "save_adds J src fuel platform p images = Some (None, q) \<Longrightarrow>
   list_all (\<lambda>img. ParseDigest (ex_Digest img) = Inr (ex_Digest img)) images \<Longrightarrow>
   list_all (\<lambda>c. validateDescriptor c = None) (sp_index p) \<Longrightarrow> list_all (\<lambda>c. validateDescriptor c = None) (sp_index q)"
proof (induction images arbitrary: p)
  case (Cons img images)
  then obtain p1 where p1: "save_add J src fuel platform p img = Some (None, p1)" "save_adds J src fuel platform p1 images = Some (None, q)"
    by (auto split: option.splits prod.splits)
  have "\<exists>body. sp_index p1 = sp_index p @ [export_desc img body]"
    using p1(1) save_resolve_index legacy_child_index
    by (auto simp: save_add_def Let_def add_legacy_items split: option.splits prod.splits sum.splits if_splits)
  moreover have "validateDescriptor (export_desc img body) = None" for body
    using Cons.prems(2) by (simp add: validateDescriptor_None export_desc_def)
  ultimately show ?case using Cons.IH [OF p1(2)] Cons.prems by auto
qed simp

lemma saved_manifest:
  assumes "save_inv J src {} p" "source_ok sha src" "item_of p d = Some it" "si_body it = Some body"
  obtains m where "si_manifest it = Some m" "ParseManifest (dj_manifest J) body = Inr m" "item_closed p m"
    "DigestOfBytes sha body = d" "length body \<le> maxSmallBlob"
  using assms unfolding save_inv_def item_ok_def source_ok_def
  by (cases "si_manifest it") fastforce+

text \<open>
  (C30) A saved image reads back: when Write succeeds, opening the archive it wrote gives an index of the
  exported digests in their order, the legacy entries and the layout version; it holds exactly the
  digests the save resolved, every manifest among them reads back to the bytes of the source and every
  config and layer section holds what was staged for it; and the archive is complete, as importing needs it.
\<close>

theorem saved_reads_back:
  assumes "Write_archive J src fuel platform enc tw mk staged images = Some (None, out)"
    and "save_adds J src fuel platform save_start images = Some (None, p)" "enc_ok J enc p"
    and "source_ok sha src" "list_all (\<lambda>img. ParseDigest (ex_Digest img) = Inr (ex_Digest img)) images"
    and "\<And>e. length (hdr e) = 512"
  shows "\<exists>a. scan J (tar_file hdr out) (tar_items 0 out) None = Inr a
    \<and> map d_Digest (ManifestChildren (ar_Index a)) = map ex_Digest images
    \<and> ar_Legacy a = map snd (sp_legacy p) \<and> ar_LayoutVersion a = layoutVersion
    \<and> (\<forall>d. Has a d \<longleftrightarrow> d \<in> fst ` set (sp_items p))
    \<and> (\<forall>d it body. item_of p d = Some it \<and> si_body it = Some body \<longrightarrow> ReadBlob sha a d = Inr body)
    \<and> (\<forall>d it. item_of p d = Some it \<and> si_body it = None \<longrightarrow>
         (\<exists>b off. staged d = Inr b \<and> int (length b) = si_size it \<and> Section a d = Inr (off, length b)
            \<and> section_all (ar_f a) (off, length b) = (b, None)))
    \<and> archive_complete sha J a"
proof -
  have w: "writeTo enc tw mk staged p = (None, out)" using assms(1,2) by (auto simp: Write_archive_def split: if_splits)
  note p = saved_plan [OF assms(2,5)]
  have idx: "c \<in> set (sp_index p) \<Longrightarrow> validateDescriptor c = None" for c
    using saved_index_valid [OF assms(2,5)] by (simp add: save_start_def list_all_iff)
  obtain a where a: "scan J (tar_file hdr out) (tar_items 0 out) None = Inr a" "ar_Index a = index_manifest p"
    "ar_Legacy a = map snd (sp_legacy p)" "ar_LayoutVersion a = layoutVersion"
    by (rule saved_scan [OF w assms(3) idx p(2)])
  note s = saved_sections [OF w p(2) a(1) assms(6)]
  have children: "ManifestChildren (ar_Index a) = sp_index p" by (simp add: a(2) index_manifest_def ManifestChildren_def)
  have has: "Has a d \<longleftrightarrow> d \<in> fst ` set (sp_items p)" for d unfolding s(1) map_of_eq_None_iff by simp
  have body: "ReadBlob sha a d = Inr body" if it: "item_of p d = Some it" "si_body it = Some body" for d it body
  proof -
    have "DigestOfBytes sha body = d" "length body \<le> maxSmallBlob" using saved_manifest [OF p(1) assms(4) it] by blast+
    then show ?thesis using s(2) [OF it(1)] it(2) by (auto simp: ReadBlob_def item_data_def)
  qed
  have blob: "\<exists>b off. staged d = Inr b \<and> int (length b) = si_size it \<and> Section a d = Inr (off, length b)
      \<and> section_all (ar_f a) (off, length b) = (b, None)" if it: "item_of p d = Some it" "si_body it = None" for d it
  proof -
    obtain b where "staged d = Inr b" "int (length b) = si_size it"
      using writeTo_None(3) [OF w] sorted_items_mem [of "(d, it)" p] it by fastforce
    then show ?thesis using s(2) [OF it(1)] it(2) by (auto simp: item_data_def)
  qed
  have "closed_set sha J a (manifested p)"
    unfolding closed_set_def
  proof (intro ballI conjI allI impI)
    fix d assume "d \<in> manifested p"
    then obtain it m where it: "item_of p d = Some it" "si_manifest it = Some m" by (auto simp: manifested_def)
    then show "Has a d" unfolding s(1) by simp
    obtain body where b: "si_body it = Some body"
      using p(1) it by (fastforce simp: save_inv_def item_ok_def)
    fix body' m' assume r: "ReadBlob sha a d = Inr body'" "ParseManifest (dj_manifest J) body' = Inr m'"
    have "item_closed p m'" using saved_manifest [OF p(1) assms(4) it(1) b] r body [OF it(1) b] by force
    then show "d_Digest ` set (ManifestChildren m') \<subseteq> manifested p" by (simp add: item_closed_def)
  qed
  moreover have "d_Digest ` set (sp_index p) \<subseteq> manifested p" using p(3,4) by (metis set_map)
  ultimately have "archive_complete sha J a" unfolding archive_complete_def children by blast
  with a(1,3,4) p(3) has body blob show ?thesis unfolding children [symmetric] by blast
qed

section \<open>A save ends\<close>

lemma save_children_le:
  "save_children (save_resolve J src fuel repo) cs p = Some (e, q) \<Longrightarrow> save_le p q"
proof (induction cs arbitrary: p)
  case (Cons c cs)
  then show ?case
    using save_resolve_le by (auto split: option.splits prod.splits sum.splits) (blast intro: save_le_trans)+
qed simp

lemma resolved_item:
  assumes "save_resolve J src fuel repo d p = Some (Inr (m, body), q)"
  shows "\<exists>it. item_of q d = Some it \<and> si_manifest it = Some m"
proof (cases fuel)
  case (Suc n)
  show ?thesis
  proof (cases "known_manifest p d")
    case (Some mb)
    then show ?thesis using assms Suc by (auto simp: save_resolve_Suc known_manifest_def split: option.splits)
  next
    case None
    then have "save_children (save_resolve J src n repo) (ManifestChildren m)
        (foldl add_blob_item (put_manifest_item d body m p) (BlobDescriptors m)) = Some (None, q)"
      using assms Suc by (auto simp: save_resolve_Suc split: sum.splits option.splits prod.splits)
    from save_leD [OF save_le_trans [OF add_blob_items_le save_children_le [OF this]], of d] show ?thesis by simp
  qed
qed (use assms in simp)

lemma resolved_children:
  assumes "save_resolve J src fuel repo d p = Some (Inr (m, body), q)" "save_inv J src {} p" "ParseDigest d = Inr d"
  shows "d_Digest ` set (ManifestChildren m) \<subseteq> manifested q"
  using save_resolve_inv [OF assms] resolved_item [OF assms(1)] unfolding save_inv_def item_closed_def by fastforce

lemma legacy_child_total:
  "d_Digest ` set cs \<subseteq> manifested p \<Longrightarrow> legacy_child (save_resolve J src (Suc fuel) repo) cs p \<noteq> None"
proof (induction cs)
  case (Cons c cs)
  then obtain mb where "known_manifest p (d_Digest c) = Some mb"
    using known_manifest_iff [of p "d_Digest c"] by auto
  then show ?case using Cons by (cases mb) (simp add: save_resolve_Suc)
qed simp

text \<open>The digests a save of the images can meet, one set for all their repositories.\<close>

definition save_scope :: "da_json \<Rightarrow> Source \<Rightarrow> Export list \<Rightarrow> digest set \<Rightarrow> bool" where
  "save_scope J src images S \<longleftrightarrow>
     finite S \<and> list_all (\<lambda>img. source_closed J src (ex_Repo img) S \<and> ex_Digest img \<in> S
       \<and> ParseDigest (ex_Digest img) = Inr (ex_Digest img)) images"

lemma save_add_total:
  assumes "save_inv J src {} p" "save_scope J src [img] S" "card S \<le> fuel"
  shows "save_add J src (Suc fuel) platform p img \<noteq> None"
proof -
  have sc: "source_closed J src (ex_Repo img) S" "finite S" "ex_Digest img \<in> S" "ParseDigest (ex_Digest img) = Inr (ex_Digest img)"
    using assms(2) by (auto simp: save_scope_def)
  have "card (S - manifested p) < Suc fuel" using card_mono [OF sc(2), of "S - manifested p"] assms(3) by auto
  then obtain r p1 where r: "save_resolve J src (Suc fuel) (ex_Repo img) (ex_Digest img) p = Some (r, p1)"
    using save_resolve_total [OF sc(1-3)] by fastforce
  show ?thesis
  proof (cases r)
    case (Inr mb)
    then obtain m body where mb: "r = Inr (m, body)" by (cases mb) auto
    have "manifested (p1\<lparr>sp_index := sp_index p1 @ [export_desc img body]\<rparr>) = manifested p1" by (simp add: manifested_def)
    then have "d_Digest ` set (legacyCandidates m platform) \<subseteq> manifested (p1\<lparr>sp_index := sp_index p1 @ [export_desc img body]\<rparr>)"
      using resolved_children [OF r [unfolded mb] assms(1) sc(4)] legacyCandidates_set [of m platform] by blast
    then have "legacy_child (save_resolve J src (Suc fuel) (ex_Repo img)) (legacyCandidates m platform)
        (p1\<lparr>sp_index := sp_index p1 @ [export_desc img body]\<rparr>) \<noteq> None"
      by (rule legacy_child_total)
    then show ?thesis using r mb by (auto simp: save_add_def Let_def split: option.splits prod.splits sum.splits)
  qed (use r in \<open>simp add: save_add_def\<close>)
qed

lemma save_adds_total:
  "save_inv J src {} p \<Longrightarrow> save_scope J src images S \<Longrightarrow> card S \<le> fuel \<Longrightarrow>
   save_adds J src (Suc fuel) platform p images \<noteq> None"
proof (induction images arbitrary: p)
  case (Cons img images)
  have "save_scope J src [img] S" "save_scope J src images S" using Cons.prems(2) by (simp_all add: save_scope_def)
  then obtain r q where q: "save_add J src (Suc fuel) platform p img = Some (r, q)"
    using save_add_total [OF Cons.prems(1) _ Cons.prems(3)] by fastforce
  show ?case
  proof (cases r)
    case None
    have "save_inv J src {} q"
      using save_add_inv [OF q [unfolded None] Cons.prems(1)] Cons.prems(2) by (simp add: save_scope_def)
    then show ?thesis using Cons.IH [OF _ \<open>save_scope J src images S\<close> Cons.prems(3)] q None by simp
  qed (use q in simp)
qed simp

text \<open>
  (C31) A save ends: whatever the manifests say, cycles included, and however reading, staging or writing
  fails, Write returns a result, once the manifests under the images are drawn from finitely many
  digests. The depth of its recursion is at most their number.
\<close>

theorem Write_returns:
  assumes "save_scope J src images S"
  shows "\<exists>e out. Write_archive J src (Suc (card S)) platform enc tw mk staged images = Some (e, out)"
proof -
  obtain r q where "save_adds J src (Suc (card S)) platform save_start images = Some (r, q)"
    using save_adds_total [OF save_start_inv assms, of "card S" platform] by fastforce
  moreover obtain e out where "writeTo enc tw mk staged q = (e, out)" by fastforce
  ultimately show ?thesis by (cases r) (simp_all add: Write_archive_def)
qed

section \<open>A small save\<close>

lemma put_entry_ok: "put_entry (\<lambda>_. None) e out = Inr (out @ [e])"
  by (simp add: put_entry_def)

lemma write_items_ok:
  "list_all (\<lambda>x. si_body (snd x) = None \<longrightarrow> (\<exists>b. staged (fst x) = Inr b \<and> int (length b) = si_size (snd x))) its \<Longrightarrow>
   \<exists>out'. write_items (\<lambda>_. None) staged its out = (None, out')"
proof (induction its arbitrary: out)
  case (Cons x its)
  then show ?case by (cases x) (auto simp: put_entry_ok split: option.splits)
qed simp

lemma write_tops_ok: "list_all (\<lambda>(name, mode, data). data \<noteq> None) tops \<Longrightarrow> \<exists>out'. write_tops (\<lambda>_. None) tops out = (None, out')"
proof (induction tops arbitrary: out)
  case (Cons x tops)
  then show ?case by (cases x) (auto simp: put_entry_ok)
qed simp

lemma writeTo_ok:
  assumes "list_all (\<lambda>x. si_body (snd x) = None \<longrightarrow> (\<exists>b. staged (fst x) = Inr b \<and> int (length b) = si_size (snd x))) (sorted_items p)"
    and "list_all (\<lambda>(name, mode, data). data \<noteq> None) (top_files enc p)"
  shows "\<exists>out. writeTo enc (\<lambda>_. None) None staged p = (None, out)"
proof -
  obtain o1 where "write_items (\<lambda>_. None) staged (sorted_items p) ([] @ [dir_entry ''blobs/''] @ [dir_entry ''blobs/sha256/'']) = (None, o1)"
    using write_items_ok [OF assms(1)] by blast
  then show ?thesis using write_tops_ok [OF assms(2), of o1] by (simp add: writeTo_def put_entry_ok)
qed

definition pic_source :: Source where
  "pic_source = \<lparr>so_Manifest = (\<lambda>repo d. if d = len_digest 2 then Inr ''im'' else if d = len_digest 3 then Inr ''idx''
     else Inl (NewError CodeManifestUnknown))\<rparr>"

definition pic_export :: Export where
  "pic_export = \<lparr>ex_Repo = ''app'', ex_Digest = len_digest 3, ex_MediaType = MediaTypeOCIIndex, ex_Tag = ''v1''\<rparr>"

definition pic_plan :: savePlan where
  "pic_plan =
     \<lparr>sp_items = [(len_digest 3, \<lparr>si_size = 3, si_body = Some ''idx'', si_manifest = Some (index_of [2])\<rparr>),
        (len_digest 2, \<lparr>si_size = 2, si_body = Some ''im'', si_manifest = Some (image_of 7)\<rparr>),
        (len_digest 7, \<lparr>si_size = 7, si_body = None, si_manifest = None\<rparr>)],
      sp_index = [export_desc pic_export ''idx''],
      sp_legacy = [(len_digest 2, \<lparr>le_Config = blobPath (len_digest 7), le_RepoTags = [''app:v1''], le_Layers = []\<rparr>)]\<rparr>"

definition pic_json :: da_json where
  "pic_json = (shop_json [2])
     \<lparr>dj_manifest := (\<lambda>b. if b = ''index'' then Some (index_manifest pic_plan) else dj_manifest (shop_json [2]) b),
      dj_legacy := (\<lambda>b. Some (map snd (sp_legacy pic_plan))), dj_layout := (\<lambda>b. Some layoutVersion)\<rparr>"

definition pic_enc :: save_enc where
  "pic_enc = \<lparr>en_index = (\<lambda>m. Some ''index''), en_legacy = (\<lambda>l. Some ''legacy''), en_layout = (\<lambda>v. ''layout'')\<rparr>"

definition pic_staged :: "digest \<Rightarrow> err + bytes" where
  "pic_staged d = Inr ''config.''"

definition pic_hdr :: "out_entry \<Rightarrow> bytes" where
  "pic_hdr e = replicate 512 (CHR ''h'')"

lemma pic_parse:
  "ParseManifest (dj_manifest pic_json) ''im'' = Inr (image_of 7)"
  "ParseManifest (dj_manifest pic_json) ''idx'' = Inr (index_of [2])"
  by (auto intro!: parse_image parse_index simp: pic_json_def shop_json_def)

lemma pic_reads:
  "so_Manifest pic_source repo (len_digest 2) = Inr ''im''" "so_Manifest pic_source repo (len_digest 3) = Inr ''idx''"
  by (simp_all add: pic_source_def len_digest_eqs)

definition pic_items :: savePlan where
  "pic_items = pic_plan\<lparr>sp_index := [], sp_legacy := []\<rparr>"

lemma pic_resolves:
  "save_resolve pic_json pic_source (Suc (Suc (Suc f))) repo (len_digest 3) save_start = Some (Inr (index_of [2], ''idx''), pic_items)"
proof -
  let ?idx = "put_manifest_item (len_digest 3) ''idx'' (index_of [2]) save_start"
  have k: "known_manifest ?idx (len_digest 2) = None" "known_manifest save_start (len_digest 3) = None"
    by (simp_all add: known_manifest_def save_start_def put_manifest_item_def len_digest_eqs)
  have c: "foldl add_blob_item (put_manifest_item (len_digest 2) ''im'' (image_of 7) ?idx) [len_desc 7] = pic_items"
    by (simp add: add_blob_item_def put_manifest_item_def save_start_def len_digest_eqs pic_items_def pic_plan_def len_desc_def)
  have "ManifestChildren (image_of 7) = []" by (simp add: image_of_def ManifestChildren_def)
  then have "save_resolve pic_json pic_source (Suc (Suc f)) repo (len_digest 2) ?idx = Some (Inr (image_of 7, ''im''), pic_items)"
    using c by (simp add: save_resolve_Suc [of _ _ "Suc f"] k pic_reads pic_parse)
  then show ?thesis by (simp add: save_resolve_Suc [of _ _ "Suc (Suc f)"] k pic_reads pic_parse)
qed

lemma pic_known:
  "save_resolve pic_json pic_source (Suc f) repo (len_digest 2) (pic_items\<lparr>sp_index := x\<rparr>) =
     Some (Inr (image_of 7, ''im''), pic_items\<lparr>sp_index := x\<rparr>)"
  by (simp add: save_resolve_Suc known_manifest_def pic_items_def pic_plan_def len_digest_eqs)

lemma pic_adds: "save_adds pic_json pic_source (Suc (Suc (Suc f))) platform save_start [pic_export] = Some (None, pic_plan)"
proof -
  have c: "legacyCandidates (index_of [2]) platform = [len_desc 2]"
    by (simp add: legacyCandidates_def)
  have i: "m_Config (image_of 7) = Some (len_desc 7)" "m_Layers (image_of 7) = []" by (simp_all add: image_of_def)
  have "add_legacy pic_export (Some (len_digest 2, image_of 7)) (pic_items\<lparr>sp_index := [export_desc pic_export ''idx'']\<rparr>) = pic_plan"
    by (simp add: add_legacy_def i pic_items_def) (simp add: pic_plan_def pic_export_def Name_String_def)
  moreover have "sp_index pic_items = []" "ex_Digest pic_export = len_digest 3" by (simp_all add: pic_items_def pic_export_def)
  ultimately show ?thesis
    by (simp add: save_add_def pic_resolves pic_known c i)
qed

lemma pic_saved: "\<exists>out. Write_archive pic_json pic_source (Suc (Suc (Suc f))) None pic_enc (\<lambda>_. None) None pic_staged [pic_export] = Some (None, out)"
proof -
  have "list_all (\<lambda>x. si_body (snd x) = None \<longrightarrow> (\<exists>b. pic_staged (fst x) = Inr b \<and> int (length b) = si_size (snd x))) (sorted_items pic_plan)"
    unfolding list_all_iff Ball_def sorted_items_mem by (auto simp: pic_plan_def pic_staged_def split: if_splits)
  moreover have "list_all (\<lambda>(name, mode, data). data \<noteq> None) (top_files pic_enc pic_plan)"
    by (simp add: top_files_def pic_enc_def)
  ultimately obtain out where "writeTo pic_enc (\<lambda>_. None) None pic_staged pic_plan = (None, out)"
    using writeTo_ok by blast
  then show ?thesis by (simp add: Write_archive_def pic_adds del: save_adds.simps)
qed

lemma pic_ok: "enc_ok pic_json pic_enc pic_plan" "source_ok len_sha pic_source"
  by (simp_all add: enc_ok_def pic_json_def pic_enc_def maxTopFile_def source_ok_def pic_source_def maxSmallBlob_def DigestOfBytes_len)

theorem saved_reads_back_witness:
  "\<exists>out a. Write_archive pic_json pic_source 3 None pic_enc (\<lambda>_. None) None pic_staged [pic_export] = Some (None, out)
     \<and> scan pic_json (tar_file pic_hdr out) (tar_items 0 out) None = Inr a
     \<and> map d_Digest (ManifestChildren (ar_Index a)) = [len_digest 3]
     \<and> ReadBlob len_sha a (len_digest 2) = Inr ''im'' \<and> archive_complete len_sha pic_json a"
proof -
  obtain out where out: "Write_archive pic_json pic_source 3 None pic_enc (\<lambda>_. None) None pic_staged [pic_export] = Some (None, out)"
    using pic_saved [of 0] by (auto simp: numeral_3_eq_3)
  have adds: "save_adds pic_json pic_source 3 None save_start [pic_export] = Some (None, pic_plan)"
    using pic_adds [of 0] by (simp add: numeral_3_eq_3 del: save_adds.simps)
  have e: "ex_Digest pic_export = len_digest 3" by (simp add: pic_export_def)
  have it: "item_of pic_plan (len_digest 2) = Some \<lparr>si_size = 2, si_body = Some ''im'', si_manifest = Some (image_of 7)\<rparr>"
    by (simp add: pic_plan_def len_digest_eqs)
  obtain a where a: "scan pic_json (tar_file pic_hdr out) (tar_items 0 out) None = Inr a"
    "map d_Digest (ManifestChildren (ar_Index a)) = map ex_Digest [pic_export]"
    "\<forall>d it body. item_of pic_plan d = Some it \<and> si_body it = Some body \<longrightarrow> ReadBlob len_sha a d = Inr body"
    "archive_complete len_sha pic_json a"
    using saved_reads_back [OF out adds pic_ok, of pic_hdr] by (auto simp: e pic_hdr_def)
  have "ReadBlob len_sha a (len_digest 2) = Inr ''im''" using a(3) it by fastforce
  then show ?thesis using out a(1,2,4) e by auto
qed

theorem Write_returns_witness:
  "save_scope pic_json pic_source [pic_export] {len_digest 2, len_digest 3}
   \<and> (\<exists>e out. Write_archive pic_json pic_source (Suc (card {len_digest 2, len_digest 3})) None pic_enc (\<lambda>_. None) None
        (\<lambda>d. Inl (NewError CodeBlobUnknown)) [pic_export] = Some (e, out))"
proof -
  have "ManifestChildren (image_of 7) = []" by (simp add: image_of_def ManifestChildren_def)
  then have s: "save_scope pic_json pic_source [pic_export] {len_digest 2, len_digest 3}"
    by (auto simp: save_scope_def source_closed_def pic_reads pic_parse pic_export_def)
  show ?thesis using s Write_returns [OF s] by blast
qed

end
