(* ===== verification/Docker_Stage.thy ===== *)
theory Docker_Stage
  imports Docker_Write Transition
begin

text \<open>
  The stager of docker image save (src/dockerarchive/stage.go) and the part of writeTo that takes blobs
  from it, as a step relation: the feeder, the workers, the archive writer and the caller's context, in any
  interleaving. The jobs channel is not buffered, so handing a job over is one step of the feeder and a
  worker. Rebuilding a blob delivers any bytes or any error after any number of other steps. Removing a
  staged file succeeds. \<open>st_taken\<close>, \<open>st_started\<close> and \<open>st_got\<close> record what left the queue, what was handed
  to a worker and what next returned. The progress of a save is at the end.
\<close>

datatype feeder = FNext | FQueued digest | FEnd

datatype stage_worker = SIdle | SRun digest | SCopy digest | SFail digest err | SClosing digest "err + bytes" | SExited

datatype stage_result = AllWritten | Stopped err | OwnError

datatype stage_writer =
  WrAsk | WrWait digest | WrCopy digest bytes | WrReturn stage_result | WrWaiting stage_result | WrOver stage_result

record stager =
  st_workers :: "stage_worker list"
  st_feed :: "digest list"
  st_feeder :: feeder
  st_queue :: "digest list"
  st_done :: "(digest \<times> (err + bytes)) list"
  st_files :: "digest set"
  st_err :: "err option"
  st_ctx :: "err option"
  st_outer :: "err option"
  st_writer :: stage_writer
  st_taken :: "digest list"
  st_started :: "digest list"
  st_got :: "(digest \<times> (err + bytes)) list"

definition stage_start :: "nat \<Rightarrow> digest list \<Rightarrow> stager" where
  "stage_start workers blobs =
     \<lparr>st_workers = replicate workers SIdle, st_feed = blobs, st_feeder = FNext, st_queue = [], st_done = [], st_files = {},
      st_err = None, st_ctx = None, st_outer = None, st_writer = WrAsk, st_taken = [], st_started = [], st_got = []\<rparr>"

section \<open>The feeder\<close>

definition feeder_queue :: "stager \<Rightarrow> stager option" where
  "feeder_queue s =
     (case st_feed s of
        d # rest \<Rightarrow>
          if st_feeder s = FNext \<and> length (st_queue s) < 2 * length (st_workers s)
          then Some (s\<lparr>st_feed := rest, st_queue := st_queue s @ [d], st_feeder := FQueued d\<rparr>) else None
      | [] \<Rightarrow> None)"

definition feeder_hand :: "stager \<Rightarrow> nat \<Rightarrow> stager option" where
  "feeder_hand s w =
     (case st_feeder s of
        FQueued d \<Rightarrow>
          if w < length (st_workers s) \<and> st_workers s ! w = SIdle
          then Some (s\<lparr>st_workers := (st_workers s)[w := SRun d], st_feeder := FNext, st_started := st_started s @ [d]\<rparr>)
          else None
      | _ \<Rightarrow> None)"

text \<open>The two cases of ctx.Done, and the end of the loop; the feeder closes jobs when it returns.\<close>

definition feeder_stop :: "stager \<Rightarrow> stager option" where
  "feeder_stop s =
     (if st_ctx s \<noteq> None \<and> (case st_feeder s of FNext \<Rightarrow> st_feed s \<noteq> [] | FQueued d \<Rightarrow> True | FEnd \<Rightarrow> False)
      then Some (s\<lparr>st_feeder := FEnd\<rparr>) else None)"

definition feeder_end :: "stager \<Rightarrow> stager option" where
  "feeder_end s = (if st_feeder s = FNext \<and> st_feed s = [] then Some (s\<lparr>st_feeder := FEnd\<rparr>) else None)"

section \<open>A worker\<close>

abbreviation worker_at :: "stager \<Rightarrow> nat \<Rightarrow> stage_worker \<Rightarrow> bool" where
  "worker_at s w x \<equiv> w < length (st_workers s) \<and> st_workers s ! w = x"

abbreviation set_worker :: "nat \<Rightarrow> stage_worker \<Rightarrow> stager \<Rightarrow> stager" where
  "set_worker w x s \<equiv> s\<lparr>st_workers := (st_workers s)[w := x]\<rparr>"

text \<open>The start of run: the context's error, or the file created, or the failure to create it.\<close>

definition worker_run :: "stager \<Rightarrow> nat \<Rightarrow> digest \<Rightarrow> err option \<Rightarrow> stager option" where
  "worker_run s w d create =
     (if worker_at s w (SRun d) then
        Some (case st_ctx s of
                Some e \<Rightarrow> set_worker w (SClosing d (Inl e)) s
              | None \<Rightarrow>
                  (case create of
                     Some e \<Rightarrow> set_worker w (SFail d e) s
                   | None \<Rightarrow> (set_worker w (SCopy d) s)\<lparr>st_files := insert d (st_files s)\<rparr>))
      else None)"

text \<open>The source's Blob returned: the bytes the file holds, or a failure, upon which the file is removed.\<close>

definition worker_rebuilt :: "stager \<Rightarrow> nat \<Rightarrow> digest \<Rightarrow> err + bytes \<Rightarrow> stager option" where
  "worker_rebuilt s w d r =
     (if worker_at s w (SCopy d) then
        Some (case r of
                Inr b \<Rightarrow> set_worker w (SClosing d (Inr b)) s
              | Inl e \<Rightarrow> (set_worker w (SFail d e) s)\<lparr>st_files := st_files s - {d}\<rparr>)
      else None)"

definition cancel_ctx :: "err \<Rightarrow> stager \<Rightarrow> stager" where
  "cancel_ctx e s = s\<lparr>st_ctx := (case st_ctx s of None \<Rightarrow> Some e | Some c \<Rightarrow> Some c)\<rparr>"

definition stage_fail :: "err \<Rightarrow> stager \<Rightarrow> stager" where
  "stage_fail e s = (if st_err s = None then cancel_ctx ErrCanceled (s\<lparr>st_err := Some e\<rparr>) else s)"

definition worker_fail :: "stager \<Rightarrow> nat \<Rightarrow> digest \<Rightarrow> err \<Rightarrow> stager option" where
  "worker_fail s w d e =
     (if worker_at s w (SFail d e) then Some (stage_fail e (set_worker w (SClosing d (Inl e)) s)) else None)"

definition worker_close :: "stager \<Rightarrow> nat \<Rightarrow> digest \<Rightarrow> err + bytes \<Rightarrow> stager option" where
  "worker_close s w d r =
     (if worker_at s w (SClosing d r) then Some ((set_worker w SIdle s)\<lparr>st_done := st_done s @ [(d, r)]\<rparr>) else None)"

definition worker_leave :: "stager \<Rightarrow> nat \<Rightarrow> stager option" where
  "worker_leave s w = (if st_feeder s = FEnd \<and> worker_at s w SIdle then Some (set_worker w SExited s) else None)"

section \<open>The archive writer\<close>

definition failure :: "stager \<Rightarrow> err \<Rightarrow> err" where
  "failure s e = (case st_outer s of Some c \<Rightarrow> c | None \<Rightarrow> (case st_err s of Some e' \<Rightarrow> e' | None \<Rightarrow> e))"

text \<open>The two selects of next, each with its ctx.Done, and what writeTo does with what next returned.\<close>

definition next_take :: "nat \<Rightarrow> stager \<Rightarrow> stager option" where
  "next_take n s =
     (case st_queue s of
        d # q \<Rightarrow>
          if st_writer s = WrAsk \<and> length (st_got s) < n
          then Some (s\<lparr>st_queue := q, st_writer := WrWait d, st_taken := st_taken s @ [d]\<rparr>) else None
      | [] \<Rightarrow> None)"

definition next_done :: "stager \<Rightarrow> stager option" where
  "next_done s =
     (case st_writer s of
        WrWait d \<Rightarrow>
          (case map_of (st_done s) d of
             None \<Rightarrow> None
           | Some r \<Rightarrow>
               (let s = s\<lparr>st_got := st_got s @ [(d, r)]\<rparr> in
                Some (case r of
                        Inr b \<Rightarrow> s\<lparr>st_writer := WrCopy d b\<rparr>
                      | Inl e \<Rightarrow> s\<lparr>st_writer := WrReturn (Stopped (failure s e))\<rparr>)))
      | _ \<Rightarrow> None)"

definition next_stop :: "nat \<Rightarrow> stager \<Rightarrow> stager option" where
  "next_stop n s =
     (case st_ctx s of
        None \<Rightarrow> None
      | Some e \<Rightarrow>
          if (case st_writer s of WrAsk \<Rightarrow> length (st_got s) < n | WrWait d \<Rightarrow> True | _ \<Rightarrow> False)
          then Some (s\<lparr>st_writer := WrReturn (Stopped (failure s e))\<rparr>) else None)"

text \<open>The staged file copied into the archive and removed; or its size is not the descriptor's, or writing failed.\<close>

definition writer_copied :: "stager \<Rightarrow> bool \<Rightarrow> stager option" where
  "writer_copied s ok =
     (case st_writer s of
        WrCopy d b \<Rightarrow>
          Some (if ok then s\<lparr>st_files := st_files s - {d}, st_writer := WrAsk\<rparr> else s\<lparr>st_writer := WrReturn OwnError\<rparr>)
      | _ \<Rightarrow> None)"

text \<open>Between two blobs: an entry from memory could not be written; or every blob is in the archive.\<close>

definition writer_fails :: "stager \<Rightarrow> stager option" where
  "writer_fails s = (if st_writer s = WrAsk then Some (s\<lparr>st_writer := WrReturn OwnError\<rparr>) else None)"

definition writer_end :: "nat \<Rightarrow> stager \<Rightarrow> stager option" where
  "writer_end n s =
     (if st_writer s = WrAsk \<and> length (st_got s) = n then Some (s\<lparr>st_writer := WrReturn AllWritten\<rparr>) else None)"

text \<open>The deferred close: cancel, wait for the goroutines, remove the directory.\<close>

definition close_cancel :: "stager \<Rightarrow> stager option" where
  "close_cancel s =
     (case st_writer s of WrReturn r \<Rightarrow> Some (cancel_ctx ErrCanceled (s\<lparr>st_writer := WrWaiting r\<rparr>)) | _ \<Rightarrow> None)"

definition close_wait :: "stager \<Rightarrow> stager option" where
  "close_wait s =
     (case st_writer s of
        WrWaiting r \<Rightarrow>
          if st_feeder s = FEnd \<and> list_all (\<lambda>w. w = SExited) (st_workers s)
          then Some (s\<lparr>st_writer := WrOver r, st_files := {}\<rparr>) else None
      | _ \<Rightarrow> None)"

definition caller_cancels :: "stager \<Rightarrow> err \<Rightarrow> stager option" where
  "caller_cancels s e =
     (if st_outer s = None then Some (cancel_ctx e (s\<lparr>st_outer := Some e\<rparr>)) else None)"

inductive stage_step :: "nat \<Rightarrow> stager \<Rightarrow> stager \<Rightarrow> bool" for n where
  Queue: "feeder_queue s = Some t \<Longrightarrow> stage_step n s t"
| Hand: "feeder_hand s w = Some t \<Longrightarrow> stage_step n s t"
| FeedStop: "feeder_stop s = Some t \<Longrightarrow> stage_step n s t"
| FeedEnd: "feeder_end s = Some t \<Longrightarrow> stage_step n s t"
| Run: "worker_run s w d create = Some t \<Longrightarrow> stage_step n s t"
| Rebuilt: "worker_rebuilt s w d r = Some t \<Longrightarrow> stage_step n s t"
| Fail: "worker_fail s w d e = Some t \<Longrightarrow> stage_step n s t"
| CloseDone: "worker_close s w d r = Some t \<Longrightarrow> stage_step n s t"
| Leave: "worker_leave s w = Some t \<Longrightarrow> stage_step n s t"
| Take: "next_take n s = Some t \<Longrightarrow> stage_step n s t"
| Done: "next_done s = Some t \<Longrightarrow> stage_step n s t"
| NextStop: "next_stop n s = Some t \<Longrightarrow> stage_step n s t"
| Copied: "writer_copied s ok = Some t \<Longrightarrow> stage_step n s t"
| Fails: "writer_fails s = Some t \<Longrightarrow> stage_step n s t"
| WriterEnd: "writer_end n s = Some t \<Longrightarrow> stage_step n s t"
| CloseCancel: "close_cancel s = Some t \<Longrightarrow> stage_step n s t"
| CloseWait: "close_wait s = Some t \<Longrightarrow> stage_step n s t"
| Cancel: "caller_cancels s e = Some t \<Longrightarrow> stage_step n s t"

text \<open>The cases of a step, each with the state it leads to.\<close>

lemma stage_step_cases [consumes 1, case_names Queue Hand FeedStop FeedEnd RunStopped RunFails RunCreates RebuiltOk RebuiltBad
    FailFirst FailLater CloseDone Leave Take GotOk GotBad NextStop CopiedOk CopiedBad Fails WriterEnd CloseCancel CloseWait Cancel]:
  assumes "stage_step n s t"
  obtains
    d rest where "st_feed s = d # rest" "st_feeder s = FNext" "length (st_queue s) < 2 * length (st_workers s)"
      "t = s\<lparr>st_feed := rest, st_queue := st_queue s @ [d], st_feeder := FQueued d\<rparr>"
  | w d where "st_feeder s = FQueued d" "worker_at s w SIdle"
      "t = s\<lparr>st_workers := (st_workers s)[w := SRun d], st_feeder := FNext, st_started := st_started s @ [d]\<rparr>"
  | "st_ctx s \<noteq> None" "st_feeder s = FNext \<or> (\<exists>d. st_feeder s = FQueued d)" "t = s\<lparr>st_feeder := FEnd\<rparr>"
  | "st_feeder s = FNext" "st_feed s = []" "t = s\<lparr>st_feeder := FEnd\<rparr>"
  | w d e where "worker_at s w (SRun d)" "st_ctx s = Some e" "t = set_worker w (SClosing d (Inl e)) s"
  | w d e where "worker_at s w (SRun d)" "t = set_worker w (SFail d e) s"
  | w d where "worker_at s w (SRun d)" "st_ctx s = None"
      "t = s\<lparr>st_workers := (st_workers s)[w := SCopy d], st_files := insert d (st_files s)\<rparr>"
  | w d b where "worker_at s w (SCopy d)" "t = set_worker w (SClosing d (Inr b)) s"
  | w d e where "worker_at s w (SCopy d)" "t = s\<lparr>st_workers := (st_workers s)[w := SFail d e], st_files := st_files s - {d}\<rparr>"
  | w d e c where "worker_at s w (SFail d e)" "st_err s = None"
      "t = s\<lparr>st_workers := (st_workers s)[w := SClosing d (Inl e)], st_err := Some e, st_ctx := Some c\<rparr>"
  | w d e where "worker_at s w (SFail d e)" "st_err s \<noteq> None" "t = set_worker w (SClosing d (Inl e)) s"
  | w d r where "worker_at s w (SClosing d r)" "t = s\<lparr>st_workers := (st_workers s)[w := SIdle], st_done := st_done s @ [(d, r)]\<rparr>"
  | w where "st_feeder s = FEnd" "worker_at s w SIdle" "t = set_worker w SExited s"
  | d q where "st_queue s = d # q" "st_writer s = WrAsk" "length (st_got s) < n"
      "t = s\<lparr>st_queue := q, st_writer := WrWait d, st_taken := st_taken s @ [d]\<rparr>"
  | d b where "st_writer s = WrWait d" "map_of (st_done s) d = Some (Inr b)"
      "t = s\<lparr>st_got := st_got s @ [(d, Inr b)], st_writer := WrCopy d b\<rparr>"
  | d e where "st_writer s = WrWait d" "map_of (st_done s) d = Some (Inl e)"
      "t = s\<lparr>st_got := st_got s @ [(d, Inl e)], st_writer := WrReturn (Stopped (failure s e))\<rparr>"
  | e where "st_ctx s = Some e" "st_writer s = WrAsk \<or> (\<exists>d. st_writer s = WrWait d)"
      "t = s\<lparr>st_writer := WrReturn (Stopped (failure s e))\<rparr>"
  | d b where "st_writer s = WrCopy d b" "t = s\<lparr>st_files := st_files s - {d}, st_writer := WrAsk\<rparr>"
  | d b where "st_writer s = WrCopy d b" "t = s\<lparr>st_writer := WrReturn OwnError\<rparr>"
  | "st_writer s = WrAsk" "t = s\<lparr>st_writer := WrReturn OwnError\<rparr>"
  | "st_writer s = WrAsk" "length (st_got s) = n" "t = s\<lparr>st_writer := WrReturn AllWritten\<rparr>"
  | r c where "st_writer s = WrReturn r" "t = s\<lparr>st_writer := WrWaiting r, st_ctx := Some c\<rparr>"
  | r where "st_writer s = WrWaiting r" "st_feeder s = FEnd" "list_all (\<lambda>w. w = SExited) (st_workers s)"
      "t = s\<lparr>st_writer := WrOver r, st_files := {}\<rparr>"
  | e c where "st_outer s = None" "t = s\<lparr>st_outer := Some e, st_ctx := Some c\<rparr>"
proof -
  have cancel: "\<exists>c. cancel_ctx e u = u\<lparr>st_ctx := Some c\<rparr>" for e u
    by (cases "st_ctx u") (auto simp: cancel_ctx_def)
  have fail: "failure (s\<lparr>st_got := x\<rparr>) e = failure s e" for x e by (simp add: failure_def split: option.split)
  from assms show thesis
  proof cases
    case Queue then show ?thesis using that(1) by (auto simp: feeder_queue_def split: list.splits if_splits)
  next
    case (Hand w) then show ?thesis using that(2) by (auto simp: feeder_hand_def split: feeder.splits if_splits)
  next
    case FeedStop then show ?thesis using that(3) by (auto simp: feeder_stop_def split: feeder.splits if_splits)
  next
    case FeedEnd then show ?thesis using that(4) by (auto simp: feeder_end_def split: if_splits)
  next
    case (Run w d create)
    then show ?thesis using that(5,6,7) by (auto simp: worker_run_def split: option.splits if_splits)
  next
    case (Rebuilt w d r) then show ?thesis using that(8,9) by (auto simp: worker_rebuilt_def split: sum.splits if_splits)
  next
    case (Fail w d e)
    then show ?thesis
      using that(10,11) cancel [of ErrCanceled "s\<lparr>st_workers := (st_workers s)[w := SClosing d (Inl e)], st_err := Some e\<rparr>"]
      by (auto simp: worker_fail_def stage_fail_def split: if_splits)
  next
    case (CloseDone w d r) then show ?thesis using that(12) by (auto simp: worker_close_def split: if_splits)
  next
    case (Leave w) then show ?thesis using that(13) by (auto simp: worker_leave_def split: if_splits)
  next
    case Take then show ?thesis using that(14) by (auto simp: next_take_def split: list.splits if_splits)
  next
    case Done then show ?thesis using that(15,16) by (auto simp: next_done_def Let_def fail split: stage_writer.splits option.splits sum.splits)
  next
    case NextStop then show ?thesis using that(17) by (auto simp: next_stop_def split: stage_writer.splits option.splits if_splits)
  next
    case (Copied ok) then show ?thesis using that(18,19) by (auto simp: writer_copied_def split: stage_writer.splits if_splits)
  next
    case Fails then show ?thesis using that(20) by (auto simp: writer_fails_def split: if_splits)
  next
    case WriterEnd then show ?thesis using that(21) by (auto simp: writer_end_def split: if_splits)
  next
    case CloseCancel
    then obtain r where "st_writer s = WrReturn r" "t = cancel_ctx ErrCanceled (s\<lparr>st_writer := WrWaiting r\<rparr>)"
      by (auto simp: close_cancel_def split: stage_writer.splits)
    then show ?thesis using that(22) cancel [of ErrCanceled "s\<lparr>st_writer := WrWaiting r\<rparr>"] by auto
  next
    case CloseWait then show ?thesis using that(23) by (auto simp: close_wait_def split: stage_writer.splits if_splits)
  next
    case (Cancel e)
    obtain c where "cancel_ctx e (s\<lparr>st_outer := Some e\<rparr>) = s\<lparr>st_outer := Some e, st_ctx := Some c\<rparr>"
      using cancel [of e "s\<lparr>st_outer := Some e\<rparr>"] by blast
    then show ?thesis using Cancel that(24) [where e = e and c = c] by (simp add: caller_cancels_def split: if_splits)
  qed
qed

section \<open>What the stager keeps\<close>

fun job :: "stage_worker \<Rightarrow> digest list" where
  "job (SRun d) = [d]"
| "job (SCopy d) = [d]"
| "job (SFail d e) = [d]"
| "job (SClosing d r) = [d]"
| "job _ = []"

text \<open>The queue is bounded and in write order, and every blob handed over is with a worker or done.\<close>

definition order_inv :: "nat \<Rightarrow> digest list \<Rightarrow> stager \<Rightarrow> bool" where
  "order_inv n blobs s \<longleftrightarrow>
     length (st_workers s) = n \<and> length (st_queue s) \<le> 2 * n \<and> st_taken s @ st_queue s @ st_feed s = blobs
     \<and> (case st_feeder s of
          FNext \<Rightarrow> st_started s @ st_feed s = blobs
        | FQueued d \<Rightarrow> st_started s @ [d] @ st_feed s = blobs
        | FEnd \<Rightarrow> \<exists>x. st_started s @ x @ st_feed s = blobs \<and> (x = [] \<and> st_feed s = [] \<or> st_ctx s \<noteq> None))
     \<and> (SExited \<in> set (st_workers s) \<longrightarrow> st_feeder s = FEnd)"

definition job_inv :: "stager \<Rightarrow> bool" where
  "job_inv s \<longleftrightarrow> mset (st_started s) = mset (map fst (st_done s)) + mset (concat (map job (st_workers s)))"

text \<open>The writer has got what it took, in order and all of it rebuilt, but for the last.\<close>

definition all_ok :: "(digest \<times> (err + bytes)) list \<Rightarrow> bool" where
  "all_ok got \<longleftrightarrow> list_all (\<lambda>(d, r). \<exists>b. r = Inr b) got"

fun ended :: "stage_writer \<Rightarrow> stage_result option" where
  "ended (WrReturn r) = Some r"
| "ended (WrWaiting r) = Some r"
| "ended (WrOver r) = Some r"
| "ended _ = None"

fun writer_ok :: "stage_writer \<Rightarrow> (digest \<times> (err + bytes)) list \<Rightarrow> digest list \<Rightarrow> bool" where
  "writer_ok WrAsk got taken \<longleftrightarrow> map fst got = taken \<and> all_ok got"
| "writer_ok (WrWait d) got taken \<longleftrightarrow> map fst got @ [d] = taken \<and> all_ok got"
| "writer_ok (WrCopy d b) got taken \<longleftrightarrow> map fst got = taken \<and> all_ok got \<and> taken \<noteq> [] \<and> last taken = d"
| "writer_ok _ got taken \<longleftrightarrow> prefix (map fst got) taken \<and> all_ok (butlast got)"

definition writer_inv :: "digest list \<Rightarrow> stager \<Rightarrow> bool" where
  "writer_inv blobs s \<longleftrightarrow>
     set (st_got s) \<subseteq> set (st_done s) \<and> set (butlast (st_taken s)) \<subseteq> fst ` set (st_got s)
     \<and> writer_ok (st_writer s) (st_got s) (st_taken s)
     \<and> (ended (st_writer s) = Some AllWritten \<longrightarrow> map fst (st_got s) = blobs \<and> all_ok (st_got s))"

text \<open>A staged file belongs to a queued blob or to the last one taken.\<close>

definition file_inv :: "stager \<Rightarrow> bool" where
  "file_inv s \<longleftrightarrow>
     st_files s \<subseteq> set (st_queue s) \<union> (if st_writer s = WrAsk \<or> st_taken s = [] then {} else {last (st_taken s)})"

text \<open>Whoever stops has a cause.\<close>

definition caused :: "stager \<Rightarrow> bool" where
  "caused s \<longleftrightarrow> st_outer s \<noteq> None \<or> st_err s \<noteq> None \<or> (\<exists>r. st_writer s = WrWaiting r \<or> st_writer s = WrOver r)"

definition cause_inv :: "stager \<Rightarrow> bool" where
  "cause_inv s \<longleftrightarrow>
     (st_ctx s \<noteq> None \<or> (\<exists>d e. (d, Inl e) \<in> set (st_done s) \<or> SClosing d (Inl e) \<in> set (st_workers s)) \<longrightarrow> caused s)
     \<and> (st_outer s \<noteq> None \<or> st_err s \<noteq> None \<or> (\<exists>r. st_writer s = WrWaiting r) \<longrightarrow> st_ctx s \<noteq> None)
     \<and> (\<forall>e. ended (st_writer s) = Some (Stopped e) \<longrightarrow> st_outer s = Some e \<or> st_err s = Some e)"

lemmas job_update = concat_map_update [where f = job]

lemma exited_old: "SExited \<in> set (ws[w := x]) \<Longrightarrow> x \<noteq> SExited \<Longrightarrow> SExited \<in> set ws"
  using set_update_subset_insert by fastforce

lemma order_step:
  assumes "stage_step (length blobs) s t" "order_inv n blobs s"
  shows "order_inv n blobs t"
  using assms
  by (cases rule: stage_step_cases) (auto simp: order_inv_def split: feeder.splits dest!: exited_old)

lemma job_step:
  assumes "stage_step n s t" "job_inv s"
  shows "job_inv t"
  using assms
proof (cases rule: stage_step_cases)
  case (Hand w d) with assms show ?thesis using job_update [of w "st_workers s" "SRun d"] by (simp add: job_inv_def)
next
  case (RunStopped w d e) with assms show ?thesis using job_update [of w "st_workers s" "SClosing d (Inl e)"] by (simp add: job_inv_def)
next
  case (RunFails w d e) with assms show ?thesis using job_update [of w "st_workers s" "SFail d e"] by (simp add: job_inv_def)
next
  case (RunCreates w d) with assms show ?thesis using job_update [of w "st_workers s" "SCopy d"] by (simp add: job_inv_def)
next
  case (RebuiltOk w d b) with assms show ?thesis using job_update [of w "st_workers s" "SClosing d (Inr b)"] by (simp add: job_inv_def)
next
  case (RebuiltBad w d e) with assms show ?thesis using job_update [of w "st_workers s" "SFail d e"] by (simp add: job_inv_def)
next
  case (FailFirst w d e c) with assms show ?thesis using job_update [of w "st_workers s" "SClosing d (Inl e)"] by (simp add: job_inv_def)
next
  case (FailLater w d e) with assms show ?thesis using job_update [of w "st_workers s" "SClosing d (Inl e)"] by (simp add: job_inv_def)
next
  case (CloseDone w d r) with assms show ?thesis using job_update [of w "st_workers s" SIdle] by (simp add: job_inv_def)
next
  case (Leave w) with assms show ?thesis using job_update [of w "st_workers s" SExited] by (simp add: job_inv_def)
qed (use assms in \<open>simp_all add: job_inv_def\<close>)

lemma all_ok_append: "all_ok (xs @ ys) \<longleftrightarrow> all_ok xs \<and> all_ok ys"
  by (simp add: all_ok_def)

lemma all_ok_butlast [intro]: "all_ok xs \<Longrightarrow> all_ok (butlast xs)"
  by (auto simp: all_ok_def list_all_iff dest: in_set_butlastD)

lemma writer_step:
  assumes "stage_step (length blobs) s t" "writer_inv blobs s" "order_inv n blobs s"
  shows "writer_inv blobs t"
  using assms
proof (cases rule: stage_step_cases)
  case (GotOk d b)
  then have "map fst (st_got s) @ [d] = st_taken s" using assms(2) by (simp add: writer_inv_def)
  then have "last (st_taken s) = d" by (metis last_snoc)
  then show ?thesis
    using GotOk assms(2) map_of_SomeD [OF GotOk(2)] by (auto simp: writer_inv_def all_ok_append) (auto simp: all_ok_def)
next
  case (GotBad d e)
  then show ?thesis using assms(2) map_of_SomeD [OF GotBad(2)] by (auto simp: writer_inv_def)
next
  case (Take d q)
  then have "map fst (st_got s) = st_taken s" using assms(2) by (simp add: writer_inv_def)
  then have "set (st_taken s) = fst ` set (st_got s)" by (metis set_map)
  then show ?thesis using Take assms(2) by (auto simp: writer_inv_def)
next
  case (NextStop e)
  then have "(map fst (st_got s) = st_taken s \<or> (\<exists>d. map fst (st_got s) @ [d] = st_taken s)) \<and> all_ok (st_got s)"
    using assms(2) by (auto simp: writer_inv_def)
  then have "prefix (map fst (st_got s)) (st_taken s)" "all_ok (st_got s)" by (metis prefix_order.refl prefixI)+
  then show ?thesis using NextStop assms(2) by (auto simp: writer_inv_def)
next
  case WriterEnd
  then have w: "map fst (st_got s) = st_taken s" "all_ok (st_got s)" using assms(2) by (simp_all add: writer_inv_def)
  have "st_taken s @ st_queue s @ st_feed s = blobs" using assms(3) by (simp add: order_inv_def)
  moreover have "length (st_taken s) = length blobs" using WriterEnd(2) w(1) by (metis length_map)
  ultimately have "st_taken s = blobs" by (metis append_eq_append_conv append.right_neutral)
  then show ?thesis using WriterEnd w assms(2) by (auto simp: writer_inv_def)
qed (use assms in \<open>auto simp: writer_inv_def\<close>)

text \<open>A blob a worker still has is queued, or is the last one taken and the writer waits or has stopped.\<close>

lemma started_prefix: "order_inv n blobs s \<Longrightarrow> \<exists>x. st_started s @ x @ st_feed s = blobs"
  by (auto simp: order_inv_def split: feeder.splits)

lemma started_taken: "order_inv n blobs s \<Longrightarrow> set (st_started s) \<subseteq> set (st_taken s) \<union> set (st_queue s)"
proof -
  assume o: "order_inv n blobs s"
  from started_prefix [OF o] obtain x where "st_started s @ x @ st_feed s = blobs" by blast
  moreover have "st_taken s @ st_queue s @ st_feed s = blobs" using o by (simp add: order_inv_def)
  ultimately have "st_started s @ x = st_taken s @ st_queue s" by (metis append.assoc append_same_eq)
  then show ?thesis by (metis Un_upper1 set_append)
qed

lemma working_new:
  assumes "order_inv n blobs s" "job_inv s" "distinct blobs" "worker_at s w x" "d \<in> set (job x)"
  shows "d \<in> set (st_started s)" "d \<notin> fst ` set (st_done s)"
proof -
  have "st_workers s ! w \<in> set (st_workers s)" using assms(4) by auto
  then have d: "d \<in># mset (concat (map job (st_workers s)))" using assms(4,5) by auto
  then have "d \<in># mset (st_started s)" using assms(2) by (auto simp: job_inv_def)
  then show st: "d \<in> set (st_started s)" by simp
  have "distinct (st_started s)" using started_prefix [OF assms(1)] assms(3) by auto
  then have "count (mset (st_started s)) d = 1" using st by (simp add: distinct_count_atmost_1)
  moreover have "count (mset (concat (map job (st_workers s)))) d \<ge> 1" using d by (simp add: Suc_le_eq)
  moreover have "count (mset (st_started s)) d =
      count (mset (map fst (st_done s))) d + count (mset (concat (map job (st_workers s)))) d"
    using assms(2) unfolding job_inv_def by (metis count_union)
  ultimately have "count (mset (map fst (st_done s))) d = 0" by linarith
  then show "d \<notin> fst ` set (st_done s)" by (metis count_mset_0_iff image_set)
qed

lemma working_held:
  assumes "order_inv n blobs s" "job_inv s" "writer_inv blobs s" "distinct blobs" "worker_at s w x" "d \<in> set (job x)"
  shows "d \<in> set (st_queue s) \<or> st_writer s \<noteq> WrAsk \<and> st_taken s \<noteq> [] \<and> d = last (st_taken s)"
proof (cases "d \<in> set (st_queue s)")
  case q: False
  note nw = working_new [OF assms(1,2,4-6)]
  then have t: "d \<in> set (st_taken s)" using started_taken [OF assms(1)] q by blast
  have g: "d \<notin> fst ` set (st_got s)" using nw(2) assms(3) by (auto simp: writer_inv_def)
  then have "d \<notin> set (butlast (st_taken s))" using assms(3) by (auto simp: writer_inv_def)
  moreover have "st_writer s \<noteq> WrAsk" using t g assms(3) by (auto simp: writer_inv_def image_set simp del: set_map dest: sym)
  ultimately show ?thesis
    using t by (metis append_butlast_last_id empty_iff list.set(1) set_ConsD Un_iff set_append)
qed simp

lemma file_step:
  assumes "stage_step (length blobs) s t" "file_inv s" "order_inv n blobs s" "job_inv s" "writer_inv blobs s" "distinct blobs"
  shows "file_inv t"
  using assms(1)
proof (cases rule: stage_step_cases)
  case (RunCreates w d)
  then show ?thesis using working_held [OF assms(3,4,5,6), of w "SRun d" d] assms(2) by (auto simp: file_inv_def)
next
  case (CopiedOk d b)
  then show ?thesis using assms(2,5) by (auto simp: file_inv_def writer_inv_def)
qed (use assms(2) in \<open>auto simp: file_inv_def split: if_splits\<close>)

text \<open>After close nobody works any more.\<close>

definition over_inv :: "stager \<Rightarrow> bool" where
  "over_inv s \<longleftrightarrow>
     (\<forall>r. st_writer s = WrOver r \<longrightarrow> st_feeder s = FEnd \<and> list_all (\<lambda>w. w = SExited) (st_workers s) \<and> st_files s = {})"

lemma over_step:
  assumes "stage_step n s t" "over_inv s"
  shows "over_inv t"
  using assms by (cases rule: stage_step_cases) (auto simp: over_inv_def list_all_length)

lemma caused_failure: "caused s \<Longrightarrow> ended (st_writer s) = None \<Longrightarrow> st_outer s = Some (failure s e) \<or> st_err s = Some (failure s e)"
  by (cases "st_outer s"; cases "st_err s") (auto simp: caused_def failure_def)

lemma closing_old: "SClosing d r \<in> set (ws[w := x]) \<Longrightarrow> SClosing d r = x \<or> SClosing d r \<in> set ws"
  using set_update_subset_insert by fastforce

lemma cause_step:
  assumes "stage_step n s t" "cause_inv s"
  shows "cause_inv t"
  using assms(1)
proof (cases rule: stage_step_cases)
  case (GotBad d e)
  then have "caused s" using assms(2) map_of_SomeD [OF GotBad(2)] by (auto simp: cause_inv_def)
  then show ?thesis using GotBad assms(2) caused_failure [of s e] by (auto simp: cause_inv_def caused_def)
next
  case (NextStop e)
  then have "caused s" using assms(2) by (auto simp: cause_inv_def)
  then show ?thesis using NextStop assms(2) caused_failure [of s e] by (auto simp: cause_inv_def caused_def)
next
  case (CloseDone w d r)
  then have "SClosing d r \<in> set (st_workers s)" by (metis nth_mem)
  then show ?thesis using CloseDone assms(2) by (auto simp: cause_inv_def caused_def dest!: closing_old)
qed (use assms(2) in \<open>auto simp: cause_inv_def caused_def dest!: closing_old\<close>)

definition stage_inv :: "nat \<Rightarrow> digest list \<Rightarrow> stager \<Rightarrow> bool" where
  "stage_inv n blobs s \<longleftrightarrow> order_inv n blobs s \<and> job_inv s \<and> writer_inv blobs s \<and> cause_inv s \<and> over_inv s
     \<and> (distinct blobs \<longrightarrow> file_inv s)"

section \<open>The stager ends\<close>

fun worker_left :: "stage_worker \<Rightarrow> nat" where
  "worker_left (SRun d) = 5"
| "worker_left (SCopy d) = 4"
| "worker_left (SFail d e) = 3"
| "worker_left (SClosing d r) = 2"
| "worker_left SIdle = 1"
| "worker_left SExited = 0"

fun feeder_left :: "feeder \<Rightarrow> nat" where
  "feeder_left FNext = 1"
| "feeder_left (FQueued d) = 6"
| "feeder_left FEnd = 0"

fun writer_left :: "stage_writer \<Rightarrow> nat" where
  "writer_left (WrWait d) = 6"
| "writer_left (WrCopy d b) = 5"
| "writer_left WrAsk = 3"
| "writer_left (WrReturn r) = 2"
| "writer_left (WrWaiting r) = 1"
| "writer_left (WrOver r) = 0"

definition stage_left :: "stager \<Rightarrow> nat" where
  "stage_left s =
     10 * length (st_feed s) + feeder_left (st_feeder s) + sum_list (map worker_left (st_workers s)) + 4 * length (st_queue s)
     + writer_left (st_writer s) + (if st_outer s = None then 1 else 0)"

lemmas worker_left_update = sum_map_update [where f = worker_left]

lemma worker_moves_left:
  "worker_at s w x \<Longrightarrow> worker_left y < worker_left x \<Longrightarrow>
   sum_list (map worker_left ((st_workers s)[w := y])) < sum_list (map worker_left (st_workers s))"
  using worker_left_update [of w "st_workers s" y] by simp

lemma stage_step_left:
  assumes "stage_step n s t"
  shows "stage_left t < stage_left s"
  using assms
proof (cases rule: stage_step_cases)
  case (Hand w d)
  then show ?thesis using worker_left_update [of w "st_workers s" "SRun d"] by (simp add: stage_left_def)
next
  case (RunStopped w d e)
  then show ?thesis using worker_moves_left [of w s "SRun d" "SClosing d (Inl e)"] by (simp add: stage_left_def)
next
  case (RunFails w d e)
  then show ?thesis using worker_moves_left [of w s "SRun d" "SFail d e"] by (simp add: stage_left_def)
next
  case (RunCreates w d)
  then show ?thesis using worker_moves_left [of w s "SRun d" "SCopy d"] by (simp add: stage_left_def)
next
  case (RebuiltOk w d b)
  then show ?thesis using worker_moves_left [of w s "SCopy d" "SClosing d (Inr b)"] by (simp add: stage_left_def)
next
  case (RebuiltBad w d e)
  then show ?thesis using worker_moves_left [of w s "SCopy d" "SFail d e"] by (simp add: stage_left_def)
next
  case (FailFirst w d e c)
  then show ?thesis using worker_moves_left [of w s "SFail d e" "SClosing d (Inl e)"] by (simp add: stage_left_def)
next
  case (FailLater w d e)
  then show ?thesis using worker_moves_left [of w s "SFail d e" "SClosing d (Inl e)"] by (simp add: stage_left_def)
next
  case (CloseDone w d r)
  then show ?thesis using worker_moves_left [of w s "SClosing d r" SIdle] by (simp add: stage_left_def)
next
  case (Leave w)
  then show ?thesis using worker_moves_left [of w s SIdle SExited] by (simp add: stage_left_def)
qed (auto simp: stage_left_def)

text \<open>A worker that is neither idle nor gone has a step.\<close>

lemma busy_moves:
  assumes "worker_at s w x" "job x \<noteq> []"
  shows "\<exists>t. stage_step n s t"
proof (cases x)
  case (SRun d)
  then show ?thesis using assms(1) Run [of s w d None] by (auto simp: worker_run_def)
next
  case (SCopy d)
  then show ?thesis using assms(1) Rebuilt [of s w d "Inr []"] by (auto simp: worker_rebuilt_def)
next
  case (SFail d e)
  then show ?thesis using assms(1) Fail [of s w d e] by (auto simp: worker_fail_def)
next
  case (SClosing d r)
  then show ?thesis using assms(1) CloseDone [of s w d r] by (auto simp: worker_close_def)
qed (use assms in simp_all)

lemma idle_cases: "job x = [] \<longleftrightarrow> x = SIdle \<or> x = SExited"
  by (cases x) auto

lemma feeder_moves:
  assumes "st_ctx s \<noteq> None" "st_feeder s \<noteq> FEnd"
  shows "\<exists>t. stage_step n s t"
  using assms FeedStop [of s] FeedEnd [of s]
  by (cases "st_feeder s"; cases "st_feed s") (auto simp: feeder_stop_def feeder_end_def)

lemma closing_moves:
  assumes "st_ctx s \<noteq> None" "st_writer s = WrWaiting r"
  shows "\<exists>t. stage_step n s t"
proof (cases "st_feeder s = FEnd \<and> list_all (\<lambda>w. w = SExited) (st_workers s)")
  case True
  then show ?thesis using assms CloseWait [of s] by (auto simp: close_wait_def)
next
  case False
  show ?thesis
  proof (cases "st_feeder s = FEnd")
    case True
    then obtain w where w: "w < length (st_workers s)" "st_workers s ! w \<noteq> SExited" using False by (auto simp: list_all_length)
    show ?thesis
    proof (cases "job (st_workers s ! w) = []")
      case True
      then have "worker_at s w SIdle" using w by (auto simp: idle_cases)
      then show ?thesis using \<open>st_feeder s = FEnd\<close> Leave [of s w] by (auto simp: worker_leave_def)
    qed (use w busy_moves in blast)
  qed (use assms(1) feeder_moves in blast)
qed

text \<open>While nothing is cancelled the feeder or a worker moves until every blob that was queued is done.\<close>

lemma staging_moves:
  assumes "order_inv n blobs s" "job_inv s" "0 < n" "st_ctx s = None"
    and "d \<in> set (st_taken s)" "d \<notin> fst ` set (st_done s)"
  shows "\<exists>t. stage_step m s t"
proof (cases "\<exists>w < n. job (st_workers s ! w) \<noteq> []")
  case True
  then show ?thesis using busy_moves assms(1) by (auto simp: order_inv_def)
next
  case False
  have "concat (map job (st_workers s)) = []"
    using False assms(1) by (auto simp: order_inv_def in_set_conv_nth)
  then have "set (st_started s) \<subseteq> fst ` set (st_done s)"
    using assms(2) unfolding job_inv_def by (metis add.right_neutral mset.simps(1) set_map set_mset_mset subset_refl)
  then have d: "d \<notin> set (st_started s)" using assms(6) by blast
  have tk: "st_taken s @ st_queue s @ st_feed s = blobs" using assms(1) by (simp add: order_inv_def)
  obtain d' where f: "st_feeder s = FQueued d'"
  proof (cases "st_feeder s")
    case FEnd
    then have "st_started s @ st_feed s = blobs" using assms(1,4) by (auto simp: order_inv_def)
    then have "st_started s = st_taken s @ st_queue s" using tk by (metis append.assoc append_same_eq)
    then show ?thesis using d assms(5) by simp
  next
    case FNext
    then have "st_started s @ st_feed s = blobs" using assms(1) by (auto simp: order_inv_def)
    then have "st_started s = st_taken s @ st_queue s" using tk by (metis append.assoc append_same_eq)
    then show ?thesis using d assms(5) by simp
  qed (use that in blast)
  have "st_workers s ! 0 \<noteq> SExited" using assms(1,3) f by (auto simp: order_inv_def dest!: nth_mem) 
  then have "worker_at s 0 SIdle" using False assms(1,3) by (auto simp: order_inv_def idle_cases)
  then show ?thesis using f Hand [of s 0] by (auto simp: feeder_hand_def)
qed

lemma asking_moves:
  assumes "order_inv n blobs s" "job_inv s" "writer_inv blobs s" "0 < n" "st_ctx s = None" "st_writer s = WrAsk"
    and "st_queue s = []" "length (st_got s) < length blobs"
  shows "\<exists>t. stage_step m s t"
proof (cases "st_feeder s")
  have tk: "st_taken s @ st_feed s = blobs" using assms(1,7) by (simp add: order_inv_def)
  have g: "map fst (st_got s) = st_taken s" "set (st_got s) \<subseteq> set (st_done s)" using assms(3,6) by (simp_all add: writer_inv_def)
  have "length (st_got s) = length (st_taken s)" using g(1) by (metis length_map)
  then have feed: "st_feed s \<noteq> []" using tk assms(8) by auto
  {
    case FNext
    then show ?thesis using feed assms(1,4,7) Queue [of s] by (cases "st_feed s") (auto simp: feeder_queue_def order_inv_def)
  next
    case (FQueued d)
    then have "st_started s @ [d] @ st_feed s = blobs" using assms(1) by (simp add: order_inv_def)
    then have "st_started s @ [d] = st_taken s" using tk by (metis append.assoc append_same_eq)
    then have "d \<in> set (st_taken s)" by (metis in_set_conv_decomp)
    show ?thesis
    proof (cases "\<exists>w < n. job (st_workers s ! w) \<noteq> []")
      case True
      then show ?thesis using busy_moves assms(1) by (auto simp: order_inv_def)
    next
      case False
      have "st_workers s ! 0 \<noteq> SExited" using assms(1,4) FQueued by (auto simp: order_inv_def dest!: nth_mem)
      then have "worker_at s 0 SIdle" using False assms(1,4) by (auto simp: order_inv_def idle_cases)
      then show ?thesis using FQueued Hand [of s 0] by (auto simp: feeder_hand_def)
    qed
  next
    case FEnd
    then show ?thesis using feed assms(1,5) by (auto simp: order_inv_def)
  }
qed

lemma stage_not_stuck:
  assumes "stage_inv n blobs s" "0 < n" "\<forall>r. st_writer s \<noteq> WrOver r"
  shows "\<exists>t. stage_step (length blobs) s t"
proof -
  have i: "order_inv n blobs s" "job_inv s" "writer_inv blobs s" "cause_inv s" using assms(1) by (simp_all add: stage_inv_def)
  show ?thesis
  proof (cases "st_writer s")
    case WrAsk
    have "map fst (st_got s) = st_taken s" "st_taken s @ st_queue s @ st_feed s = blobs"
      using i(1,3) WrAsk by (simp_all add: writer_inv_def order_inv_def)
    then have l: "length (st_got s) \<le> length blobs" by (metis length_append length_map le_add1)
    consider "length (st_got s) = length blobs" | e where "length (st_got s) < length blobs" "st_ctx s = Some e"
      | d q where "length (st_got s) < length blobs" "st_queue s = d # q"
      | "length (st_got s) < length blobs" "st_ctx s = None" "st_queue s = []"
      using l by (cases "st_ctx s"; cases "st_queue s") fastforce+
    then show ?thesis
    proof cases
      case 1 then show ?thesis using WrAsk WriterEnd [of "length blobs" s] by (auto simp: writer_end_def)
    next
      case 2 then show ?thesis using WrAsk NextStop [of "length blobs" s] by (auto simp: next_stop_def)
    next
      case 3 then show ?thesis using WrAsk Take [of "length blobs" s] by (auto simp: next_take_def)
    next
      case 4 then show ?thesis using asking_moves [OF i(1-3) assms(2) _ WrAsk] by blast
    qed
  next
    case (WrWait d)
    have tk: "d \<in> set (st_taken s)" using i(3) WrWait by (auto simp: writer_inv_def) (metis in_set_conv_decomp)
    consider r where "map_of (st_done s) d = Some r" | e where "st_ctx s = Some e"
      | "st_ctx s = None" "d \<notin> fst ` set (st_done s)"
      by (cases "map_of (st_done s) d"; cases "st_ctx s") (auto simp: map_of_eq_None_iff)
    then show ?thesis
    proof cases
      case (1 r) then show ?thesis using WrWait Done [of s] by (auto simp: next_done_def Let_def)
    next
      case 2 then show ?thesis using WrWait NextStop [of "length blobs" s] by (auto simp: next_stop_def)
    next
      case 3 then show ?thesis using staging_moves [OF i(1,2) assms(2) _ tk] by blast
    qed
  next
    case (WrCopy d b) then show ?thesis using Copied [of s True] by (auto simp: writer_copied_def)
  next
    case (WrReturn r) then show ?thesis using CloseCancel [of s] by (auto simp: close_cancel_def)
  next
    case (WrWaiting r) then show ?thesis using closing_moves i(4) by (auto simp: cause_inv_def)
  qed (use assms(3) in blast)
qed

lemma stage_start_inv: "stage_inv n blobs (stage_start n blobs)"
proof -
  have "concat (map job (replicate n SIdle)) = []" by (simp add: map_replicate_trivial)
  then show ?thesis
    by (auto simp: stage_inv_def order_inv_def job_inv_def writer_inv_def cause_inv_def caused_def file_inv_def over_inv_def stage_start_def
        all_ok_def in_set_replicate)
qed

interpretation stage: ending_system "\<lambda>s. s = stage_start (Suc n) blobs" "stage_step (length blobs)"
  "stage_inv (Suc n) blobs" stage_left "\<lambda>s. \<exists>r. st_writer s = WrOver r" for n blobs
proof
  show "stage_inv (Suc n) blobs t" if "stage_inv (Suc n) blobs s" "stage_step (length blobs) s t" for s t
    using that(1) order_step [OF that(2)] job_step [OF that(2)] writer_step [OF that(2)] cause_step [OF that(2)]
      over_step [OF that(2)] file_step [OF that(2), of "Suc n"] by (auto simp: stage_inv_def)
  show "\<exists>t. stage_step (length blobs) s t" if "stage_inv (Suc n) blobs s" "\<nexists>r. st_writer s = WrOver r" for s
    using stage_not_stuck [OF that(1)] that(2) by blast
qed (use stage_start_inv stage_step_left in blast)+

text \<open>
  (C32) Staged blobs take bounded room: in every interleaving of the feeder, the workers, the writer and the
  caller's context, at most 2 * workers + 1 staged files exist at once (the queue and the one the writer
  holds), and none is left when Write returns.
\<close>

theorem stage_room:
  assumes "reach (\<lambda>s. s = stage_start (Suc n) blobs) (stage_step (length blobs)) s" "distinct blobs"
  shows "finite (st_files s) \<and> card (st_files s) \<le> 2 * Suc n + 1 \<and> (\<forall>r. st_writer s = WrOver r \<longrightarrow> st_files s = {})"
proof -
  have i: "order_inv (Suc n) blobs s" "file_inv s" "over_inv s"
    using stage.reach_inv [OF assms(1)] assms(2) by (simp_all add: stage_inv_def)
  obtain X where X: "st_files s \<subseteq> set (st_queue s) \<union> X" "finite X" "card X \<le> 1"
    using i(2) by (auto simp: file_inv_def split: if_splits)
  have "card (set (st_queue s) \<union> X) \<le> length (st_queue s) + 1"
    using card_Un_le [of "set (st_queue s)" X] card_length [of "st_queue s"] X(3) by linarith
  moreover have "card (st_files s) \<le> card (set (st_queue s) \<union> X)" using X by (intro card_mono) auto
  moreover have "length (st_queue s) \<le> 2 * Suc n" using i(1) by (simp add: order_inv_def)
  ultimately have "card (st_files s) \<le> 2 * Suc n + 1" by linarith
  moreover have "finite (st_files s)" using X(1,2) by (meson List.finite_set finite_UnI finite_subset)
  ultimately show ?thesis using i(3) by (simp add: over_inv_def)
qed

text \<open>
  (C33) The writer gets the blobs in write order: however the rebuilding is interleaved, what next returned
  is a beginning of the list of blobs, each with the result of its own rebuild; the writer finishes only
  with all of them rebuilt; and when next stops it, the error it reports is the caller's cancellation or
  the first failure of a rebuild, never the cancellation that this failure caused in the other workers.
\<close>

theorem stage_in_order:
  assumes "reach (\<lambda>s. s = stage_start (Suc n) blobs) (stage_step (length blobs)) s"
  shows "prefix (map fst (st_got s)) blobs \<and> set (st_got s) \<subseteq> set (st_done s)
    \<and> (ended (st_writer s) = Some AllWritten \<longrightarrow> map fst (st_got s) = blobs \<and> all_ok (st_got s))
    \<and> (\<forall>e. ended (st_writer s) = Some (Stopped e) \<longrightarrow> st_outer s = Some e \<or> st_err s = Some e)"
proof -
  have i: "order_inv (Suc n) blobs s" "writer_inv blobs s" "cause_inv s"
    using stage.reach_inv [OF assms] by (simp_all add: stage_inv_def)
  have "prefix (map fst (st_got s)) (st_taken s)"
    using i(2) by (cases "st_writer s") (auto simp: writer_inv_def, metis prefixI)
  moreover have "prefix (st_taken s) blobs" using i(1) by (auto simp: order_inv_def)
  ultimately have "prefix (map fst (st_got s)) blobs" by (rule prefix_order.trans)
  then show ?thesis using i(2,3) by (auto simp: writer_inv_def cause_inv_def)
qed

text \<open>
  (C34) A save never hangs on its stager: every run of it is finite, and whatever fails and whenever the
  caller cancels, a run can only stop after the writer has returned and the staged files are removed.
\<close>

theorem stage_ends:
  assumes "reach (\<lambda>s. s = stage_start (Suc n) blobs) (stage_step (length blobs)) s"
  shows "(\<forall>t. stage_step (length blobs) s t \<longrightarrow> stage_left t < stage_left s)
    \<and> ((\<nexists>r. st_writer s = WrOver r) \<longrightarrow> (\<exists>t. stage_step (length blobs) s t))
    \<and> (\<exists>t r. (stage_step (length blobs))\<^sup>*\<^sup>* s t \<and> st_writer t = WrOver r)"
  using stage.reach_ends [OF assms] stage_step_left by blast

section \<open>A run with one worker\<close>

definition stg1 :: stager where "stg1 = the (feeder_queue (stage_start (Suc 0) [''d'']))"
definition stg2 :: stager where "stg2 = the (feeder_hand stg1 0)"
definition stg3 :: stager where "stg3 = the (worker_run stg2 0 ''d'' None)"
definition stg4 :: stager where "stg4 = the (worker_rebuilt stg3 0 ''d'' (Inr ''b''))"
definition stg5 :: stager where "stg5 = the (worker_close stg4 0 ''d'' (Inr ''b''))"
definition stg6 :: stager where "stg6 = the (next_take 1 stg5)"
definition stg7 :: stager where "stg7 = the (next_done stg6)"
definition stg8 :: stager where "stg8 = the (writer_copied stg7 True)"
definition stg9 :: stager where "stg9 = the (writer_end 1 stg8)"

lemmas stg_defs = stg1_def stg2_def stg3_def stg4_def stg5_def stg6_def stg7_def stg8_def stg9_def stage_start_def feeder_queue_def
  feeder_hand_def worker_run_def worker_rebuilt_def worker_close_def next_take_def next_done_def writer_copied_def writer_end_def Let_def

lemma stg_steps:
  "stage_step 1 (stage_start (Suc 0) [''d'']) stg1" "stage_step 1 stg1 stg2" "stage_step 1 stg2 stg3" "stage_step 1 stg3 stg4"
  "stage_step 1 stg4 stg5" "stage_step 1 stg5 stg6" "stage_step 1 stg6 stg7" "stage_step 1 stg7 stg8" "stage_step 1 stg8 stg9"
proof -
  have "feeder_queue (stage_start (Suc 0) [''d'']) = Some stg1" "feeder_hand stg1 0 = Some stg2"
    "worker_run stg2 0 ''d'' None = Some stg3" "worker_rebuilt stg3 0 ''d'' (Inr ''b'') = Some stg4"
    "worker_close stg4 0 ''d'' (Inr ''b'') = Some stg5" "next_take 1 stg5 = Some stg6" "next_done stg6 = Some stg7"
    "writer_copied stg7 True = Some stg8" "writer_end 1 stg8 = Some stg9"
    by (simp_all add: stg_defs)
  then show "stage_step 1 (stage_start (Suc 0) [''d'']) stg1" "stage_step 1 stg1 stg2" "stage_step 1 stg2 stg3" "stage_step 1 stg3 stg4"
    "stage_step 1 stg4 stg5" "stage_step 1 stg5 stg6" "stage_step 1 stg6 stg7" "stage_step 1 stg7 stg8" "stage_step 1 stg8 stg9"
    by (auto intro: stage_step.intros)
qed

lemma stg_reach3: "reach (\<lambda>s. s = stage_start (Suc 0) [''d'']) (stage_step (length [''d''])) stg3"
proof -
  have "reach (\<lambda>s. s = stage_start (Suc 0) [''d'']) (stage_step 1) (stage_start (Suc 0) [''d''])" by (rule reach_init) simp
  from reach_step [OF reach_step [OF reach_step [OF this stg_steps(1)] stg_steps(2)] stg_steps(3)] show ?thesis by simp
qed

lemma stg_reach9: "reach (\<lambda>s. s = stage_start (Suc 0) [''d'']) (stage_step (length [''d''])) stg9"
proof -
  have "reach (\<lambda>s. s = stage_start (Suc 0) [''d'']) (stage_step 1) stg3" using stg_reach3 by simp
  from reach_step [OF reach_step [OF reach_step [OF reach_step [OF reach_step [OF reach_step [OF this stg_steps(4)] stg_steps(5)]
    stg_steps(6)] stg_steps(7)] stg_steps(8)] stg_steps(9)]
  show ?thesis by simp
qed

theorem stage_room_witness: "st_files stg3 = {''d''} \<and> card (st_files stg3) \<le> 3"
  using stage_room [OF stg_reach3] by (simp add: stg_defs)

theorem stage_in_order_witness:
  "ended (st_writer stg9) = Some AllWritten \<and> map fst (st_got stg9) = [''d''] \<and> all_ok (st_got stg9)"
proof -
  have "ended (st_writer stg9) = Some AllWritten" by (simp add: stg_defs)
  then show ?thesis using stage_in_order [OF stg_reach9] by simp
qed

theorem stage_ends_witness: "\<exists>t r. (stage_step (length [''d'']))\<^sup>*\<^sup>* stg3 t \<and> st_writer t = WrOver r"
  using stage_ends [OF stg_reach3] by blast

section \<open>Progress\<close>

text \<open>
  The counts a save reports (WriteProgress in write.go). Every operation holds the mutex, so a run is a
  sequence of them, and each ends with a report of the state. The search in Active is binary in the
  source; Active is sorted (below), where it finds the first position that is not smaller.
\<close>

record SaveBlobProgress =
  bp_Digest :: digest
  bp_Size :: int
  bp_Written :: int

record WriteProgress =
  wp_Count :: nat
  wp_Total :: int
  wp_Done :: nat
  wp_Produced :: int
  wp_Active :: "SaveBlobProgress list"

definition write_progress :: "(digest \<times> saveItem) list \<Rightarrow> WriteProgress" where
  "write_progress items =
     \<lparr>wp_Count = length items, wp_Total = sum_list (map (si_size \<circ> snd) items), wp_Done = 0, wp_Produced = 0, wp_Active = []\<rparr>"

definition startBlob :: "digest \<Rightarrow> int \<Rightarrow> WriteProgress \<Rightarrow> WriteProgress" where
  "startBlob d n s =
     s\<lparr>wp_Active := takeWhile (\<lambda>b. bp_Digest b < d) (wp_Active s)
        @ [\<lparr>bp_Digest = d, bp_Size = n, bp_Written = 0\<rparr>] @ dropWhile (\<lambda>b. bp_Digest b < d) (wp_Active s)\<rparr>"

fun advance_first :: "digest \<Rightarrow> int \<Rightarrow> SaveBlobProgress list \<Rightarrow> SaveBlobProgress list" where
  "advance_first d n [] = []"
| "advance_first d n (b # bs) =
     (if bp_Digest b = d then b\<lparr>bp_Written := bp_Written b + n\<rparr> # bs else b # advance_first d n bs)"

definition advance :: "digest \<Rightarrow> int \<Rightarrow> WriteProgress \<Rightarrow> WriteProgress" where
  "advance d n s = s\<lparr>wp_Active := advance_first d n (wp_Active s), wp_Produced := wp_Produced s + n\<rparr>"

definition finishBlob :: "digest \<Rightarrow> WriteProgress \<Rightarrow> WriteProgress" where
  "finishBlob d s = s\<lparr>wp_Active := filter (\<lambda>b. bp_Digest b \<noteq> d) (wp_Active s)\<rparr>"

definition entryDone :: "int \<Rightarrow> WriteProgress \<Rightarrow> WriteProgress" where
  "entryDone n s = s\<lparr>wp_Done := Suc (wp_Done s), wp_Produced := wp_Produced s + n\<rparr>"

datatype save_call = EStart digest int | EAdvance digest int | EFinish digest | EEntry int

fun save_event :: "WriteProgress \<Rightarrow> save_call \<Rightarrow> WriteProgress" where
  "save_event s (EStart d n) = startBlob d n s"
| "save_event s (EAdvance d n) = advance d n s"
| "save_event s (EFinish d) = finishBlob d s"
| "save_event s (EEntry n) = entryDone n s"

fun produced :: "save_call \<Rightarrow> int" where
  "produced (EAdvance d n) = n"
| "produced (EEntry n) = n"
| "produced _ = 0"

definition active_ok :: "WriteProgress \<Rightarrow> bool" where
  "active_ok s \<longleftrightarrow> sorted (map bp_Digest (wp_Active s))"

lemma advance_first_digests: "map bp_Digest (advance_first d n bs) = map bp_Digest bs"
  by (induction bs) auto

lemma sorted_insert_at:
  "sorted (map f bs) \<Longrightarrow>
   (\<forall>b \<in> set (takeWhile (\<lambda>b. f b < (d :: 'a :: linorder)) bs). f b < d) \<and> (\<forall>b \<in> set (dropWhile (\<lambda>b. f b < d) bs). d \<le> f b)"
  by (induction bs) auto

interpretation save_progress: invariant_system "\<lambda>s. s = write_progress items" "\<lambda>s t. \<exists>e. t = save_event s e" active_ok for items
proof
  show "active_ok s" if "s = write_progress items" for s using that by (simp add: active_ok_def write_progress_def)
  show "active_ok t" if i: "active_ok s" and st: "\<exists>e. t = save_event s e" for s t
  proof -
    from st obtain e where e: "t = save_event s e" by blast
    show ?thesis
    proof (cases e)
      case (EStart d n)
      have srt: "sorted (map bp_Digest (wp_Active s))" using i by (simp add: active_ok_def)
      then have "sorted (map bp_Digest (takeWhile (\<lambda>b. bp_Digest b < d) (wp_Active s)))"
        "sorted (map bp_Digest (dropWhile (\<lambda>b. bp_Digest b < d) (wp_Active s)))"
        by (metis map_append sorted_append takeWhile_dropWhile_id)+
      then show ?thesis
        using sorted_insert_at [OF srt, of d] e EStart
        by (fastforce simp: active_ok_def startBlob_def sorted_append)
    qed (use i e in \<open>auto simp: active_ok_def advance_def finishBlob_def entryDone_def advance_first_digests intro: sorted_filter\<close>)
  qed
qed

text \<open>
  Whatever is reported, Active is in write order, Produced is what was produced and Done counts the
  entries written; Count and Total do not change.
\<close>

lemma save_progress_counts:
  "let s = foldl save_event (write_progress items) evs in
     active_ok s \<and> wp_Produced s = sum_list (map produced evs)
     \<and> wp_Done s = length (filter (\<lambda>e. \<exists>n. e = EEntry n) evs)
     \<and> wp_Count s = length items \<and> wp_Total s = sum_list (map (si_size \<circ> snd) items)"
proof (induction evs rule: rev_induct)
  case Nil
  show ?case by (simp add: write_progress_def active_ok_def comp_def)
next
  case (snoc e evs)
  let ?s = "foldl save_event (write_progress items) evs"
  have "active_ok (save_event ?s e)" using snoc save_progress.inv_step [of ?s "save_event ?s e"] by (auto simp: Let_def)
  then show ?case
    using snoc by (cases e) (auto simp: Let_def startBlob_def advance_def finishBlob_def entryDone_def)
qed

end
