(* ===== verification/Spec2Isabelle.thy ===== *)
theory Spec2Isabelle
  imports KeyedMutex Rootfs_Emit Rootfs_Archive Registry_Props Import_Props Docker_Save Docker_Stage
begin

text \<open>
  oci-amber is an OCI registry that keeps what is pushed to it in an amber store: layers are taken
  apart into the files they hold, every image also gets its merged root filesystem, and both are
  served again bit for bit. This library models the registry from the HTTP handler down to the calls
  of the storage libraries, and proves what clients and operators rely on.

  \<^bold>\<open>The program's parts and the theories that model them.\<close>

  \<^item> \<open>Go_Prelude\<close>, \<open>Go_Path\<close>, \<open>Regexp\<close>, \<open>Transition\<close>: the parts of Go's standard library the
    sources call (strings, strconv, path, regexp, 64-bit arithmetic), a decision procedure for the
    patterns, and the locale \<open>invariant_system\<close> for step relations with their reachable states.
  \<^item> \<open>Oci\<close> (src/oci): digests, repository names, tags, references, error codes with their status,
    platforms, manifests and their validation. The datatype \<open>err\<close> holds every error value the
    sources test for; \<open>'a res\<close> is \<open>err + 'a\<close>.
  \<^item> \<open>KeyedMutex\<close> (src/keyedmutex): Lock and its unlock function as atomic steps of an interleaving
    of any number of calls.
  \<^item> \<open>Store_Dir\<close>, \<open>Store_Read\<close>, \<open>Store_Refs\<close>, \<open>Store_Write\<close>, \<open>Store_Content\<close> (src/store): directories,
    the streaming Reader, lookups and listings, references, the writer with its statistics, packs,
    and the configuration record.
  \<^item> \<open>Rootfs_Layer\<close>, \<open>Rootfs_Tree\<close>, \<open>Rootfs_Builder\<close>, \<open>Rootfs_FS\<close>, \<open>Rootfs_Emit\<close> (src/rootfs): tar
    headers as entries, the merged tree with its symbolic links, the two passes of Apply, Write, and
    reading the stored tree back.
  \<^item> \<open>Upload\<close> (src/upload): sessions that spill to disk, spools, the manager and its sweep.
  \<^item> \<open>Blob_Pipe\<close>, \<open>Blob_Analyze\<close>, \<open>Blob_Prism\<close>, \<open>Blob_Store\<close> (src/blob): the bounded pipe, the
    classification of a blob, the sink and source of a prism, and Put, Open, Delete and serving.
  \<^item> \<open>Image_Refs\<close>, \<open>Image_Store\<close>, \<open>Image_Props\<close> (src/image): reference names, listings, pushing,
    opening and deleting images, their root filesystems and accounting.
  \<^item> \<open>Registry_Http\<close>, \<open>Registry_Blobs\<close>, \<open>Registry_Uploads\<close>, \<open>Registry_FS\<close>, \<open>Registry_Server\<close>,
    \<open>Registry_Parse\<close>, \<open>Registry_Props\<close> (src/registry): requests and responses, every route of
    ServeHTTP, ranges, pagination, the upload protocol and the root filesystem API.

  \<^bold>\<open>How code and model correspond.\<close> A Go struct is a record with one field per field of the struct, an
  enumeration a datatype, an operation one function that takes the state it reads and returns the
  state it leaves. A function that returns \<open>(T, error)\<close> returns \<open>'a res\<close>, and every early return is a
  branch. Bytes are \<open>string\<close>, sizes and offsets that can be negative or overflow are \<open>int\<close> with the
  wrap-around of \<open>i64\<close> written out, modes are \<open>64 word\<close>. A Go map whose iteration is sorted by the
  code is an association list or a function. Loops over data are structural recursions; the loops
  without an obvious bound (\<open>fill\<close>, \<open>skip_loop\<close>, \<open>list_loop\<close>, \<open>copyN\<close>, \<open>copy_all\<close>, \<open>follow_links\<close>) are
  \<open>partial_function (option)\<close>, and the theorems show that they return. The walks along symbolic links
  are total functions: the source stops at 40 links (\<open>maxSymlinkHops\<close>) and the model counts the same
  way.

  \<^bold>\<open>Parameters.\<close> What is not in the repository is an argument of the definitions: SHA-256, JSON
  encoding and decoding, amber's packstore with its chunker, directory builder and decoders
  (\<open>objstore\<close>), the reference database (\<open>refdb\<close>), zrecipe, tar-prism, amber's tarexport, and the
  parsing net/http does before a handler runs. Each comes with a named predicate for the documented
  behaviour the proofs need (\<open>objstore_ok\<close>, \<open>refdb_ok\<close> and others, declared where the parameter is),
  and each property that assumes one has a witness that instantiates it with a concrete function.
  What a call meets in its environment (failing system calls, the clock, the chunks in which a body
  arrives, how much is read before an error) is an argument too, so a theorem covers every such run.

  \<^bold>\<open>Interfaces.\<close> Locales state what one component promises another: \<open>invariant_system\<close> (invariants of
  step relations, for the mutex, the pipe and the upload manager), \<open>tree_op\<close> (what every operation of
  the merged tree keeps), \<open>codec\<close> (printing and parsing of reference names and platforms). Every locale is interpreted on the model's own
  definitions, and the properties rest on the facts of the interpretation.

  \<^bold>\<open>What is shown.\<close> For the root filesystem: the tree operations refine a map from paths to attributes,
  whiteouts never touch their own layer, the stored tree read through Stat agrees with the tree in
  memory on every path, and Write succeeds exactly when the directory checks pass. For blobs: what a
  Put stored is what a pull serves, whole and by range. For images: a push that succeeded opens under
  tag and digest and names only what exists; what a failing push and a deletion change is stated
  exactly. For uploads: sessions account for their bytes in every reachable state, spools are
  snapshots, a sweep expires exactly the idle ones. For the registry: an upload answered with 201 is
  served by a GET, reading changes nothing, what is answered as complete hashes to its digest,
  listings followed by their Link headers are complete, ranges stay inside the body, and the locations
  the registry hands out route back to what they name. For the mutex and the pipe: mutual exclusion,
  absence of deadlock, and FIFO order under every interleaving.

  \<^bold>\<open>Not modelled.\<close> The terminal user interfaces (src/browse, src/tui) and the command line
  (src/cmd/oci-amber) draw and parse on top of the modelled operations. The importer and the docker
  archive reader and writer (src/importer, src/dockerarchive) are clients of the same stores and are
  left for an extension. Progress observers and log lines have no effect on state. The goroutine
  pipeline of the store's writer is represented by the order in which it takes items; the panic
  recovery of ServeHTTP by the outcome \<open>Aborted\<close>. Opening the packstore, the file lock and the
  database is the work of the libraries.
\<close>

end
